(* ===== verification/Prelude.thy ===== *)
theory Prelude
  imports Main "HOL-Library.Word"
begin

unbundle bit_operations_syntax

text \<open>
  Shared vocabulary of the development.

  \<^item> \<open>py_error\<close> and \<open>res\<close>: every raise, failed assertion or run-time type error of the
    Python sources is a value of \<open>py_error\<close>, and a fallible function returns
    \<open>py_error + 'a\<close>; \<open>bindE\<close>, \<open>assertE\<close>, \<open>foldE\<close> and \<open>mapE\<close> sequence such functions.
  \<^item> \<open>stm\<close>: methods over the state of several objects, with \<open>bindS\<close>, \<open>foldS\<close> and the rule \<open>keeps\<close> for what
    they preserve.
  \<^item> \<open>byte\<close>: an element of a \<open>bytes\<close> or \<open>bytearray\<close> object. \<open>le_int\<close> and \<open>le_bytes\<close> are
    \<open>int.from_bytes\<close> and \<open>int.to_bytes\<close> in little-endian order, \<open>pack_H\<close>, \<open>pack_L\<close>, \<open>pack_Q\<close>
    and \<open>unpack_L\<close> the \<open>struct\<close> formats \<open><H\<close>, \<open><L\<close> and \<open><Q\<close>.
  \<^item> \<open>slice\<close> and \<open>splice\<close>: reading and assigning \<open>xs[i:j]\<close> for indices that are not negative.
  \<^item> facts on bit masks: Python integers are unbounded, so they are modelled by \<open>int\<close>, whose
    \<open>AND\<close>, \<open>OR\<close>, \<open>NOT\<close> and shifts are those of Python (two's complement without a width).
\<close>

section \<open>Errors\<close>

text \<open>The last two constructors are no exceptions that the sources raise: \<open>RecursionError\<close> marks the end
  of a bound on recursion depth, \<open>Unfinished\<close> that of the fuel of a loop that need not end.\<close>

datatype py_error =
    AssertionError
  | PyException string
  | TypeError
  | IndexError
  | KeyError
  | AttributeError
  | NameError
  | UnboundLocalError
  | StructError
  | OverflowError
  | ValueError
  | ZeroDivisionError
  | RecursionError
  | Unfinished

type_synonym 'a res = "py_error + 'a"

definition bindE :: "'a res \<Rightarrow> ('a \<Rightarrow> 'b res) \<Rightarrow> 'b res" where
  "bindE m f = (case m of Inl e \<Rightarrow> Inl e | Inr x \<Rightarrow> f x)"

definition assertE :: "bool \<Rightarrow> unit res" where
  "assertE b = (if b then Inr () else Inl AssertionError)"

definition guardE :: "py_error \<Rightarrow> bool \<Rightarrow> unit res" where
  "guardE e b = (if b then Inr () else Inl e)"

definition is_ok :: "'a res \<Rightarrow> bool" where
  "is_ok m = (case m of Inl _ \<Rightarrow> False | Inr _ \<Rightarrow> True)"

primrec foldE :: "('a \<Rightarrow> 's \<Rightarrow> 's res) \<Rightarrow> 'a list \<Rightarrow> 's \<Rightarrow> 's res" where
  "foldE f [] s = Inr s"
| "foldE f (x # xs) s = bindE (f x s) (foldE f xs)"

primrec mapE :: "('a \<Rightarrow> 'b res) \<Rightarrow> 'a list \<Rightarrow> 'b list res" where
  "mapE f [] = Inr []"
| "mapE f (x # xs) = bindE (f x) (\<lambda>y. bindE (mapE f xs) (\<lambda>ys. Inr (y # ys)))"

named_theorems res_simps "evaluation of the error monad"

lemma bindE_Inr [simp]: "bindE (Inr x) f = f x"
  by (simp add: bindE_def)

lemma bindE_Inl [simp]: "bindE (Inl e) f = Inl e"
  by (simp add: bindE_def)

lemma bindE_assoc: "bindE (bindE m f) g = bindE m (\<lambda>x. bindE (f x) g)"
  by (cases m) simp_all

lemma bindE_eq_Inr [simp]: "bindE m f = Inr y \<longleftrightarrow> (\<exists>x. m = Inr x \<and> f x = Inr y)"
  by (cases m) simp_all

lemma bindE_eq_Inl: "bindE m f = Inl e \<longleftrightarrow> m = Inl e \<or> (\<exists>x. m = Inr x \<and> f x = Inl e)"
  by (cases m) simp_all

lemma bindE_cong [fundef_cong]:
  "m = m' \<Longrightarrow> (\<And>x. m' = Inr x \<Longrightarrow> f x = f' x) \<Longrightarrow> bindE m f = bindE m' f'"
  by (cases m') simp_all

lemma assertE_eq_Inr [simp]: "assertE b = Inr u \<longleftrightarrow> b"
  by (simp add: assertE_def)

lemma assertE_True [simp]: "assertE True = Inr ()"
  by (simp add: assertE_def)

lemma assertE_False [simp]: "assertE False = Inl AssertionError"
  by (simp add: assertE_def)

lemma guardE_eq_Inr [simp]: "guardE e b = Inr u \<longleftrightarrow> b"
  by (simp add: guardE_def)

lemma guardE_True [simp]: "guardE e True = Inr ()"
  by (simp add: guardE_def)

lemma guardE_False [simp]: "guardE e False = Inl e"
  by (simp add: guardE_def)

lemma is_ok_simps [simp]: "is_ok (Inr x)" "\<not> is_ok (Inl e)"
  by (simp_all add: is_ok_def)

lemma is_ok_iff: "is_ok m \<longleftrightarrow> (\<exists>x. m = Inr x)"
  by (cases m) simp_all

lemma foldE_append: "foldE f (xs @ ys) s = bindE (foldE f xs s) (foldE f ys)"
  by (induction xs arbitrary: s) (simp_all add: bindE_assoc cong: bindE_cong)

lemma foldE_inv:
  assumes "foldE f xs s = Inr t" and "P s"
    and "\<And>x u v. x \<in> set xs \<Longrightarrow> P u \<Longrightarrow> f x u = Inr v \<Longrightarrow> P v"
  shows "P t"
  using assms by (induction xs arbitrary: s) auto

lemma mapE_Inr_map: "(\<And>x. x \<in> set xs \<Longrightarrow> f x = Inr (g x)) \<Longrightarrow> mapE f xs = Inr (map g xs)"
  by (induction xs) simp_all

lemma mapE_length: "mapE f xs = Inr ys \<Longrightarrow> length ys = length xs"
  by (induction xs arbitrary: ys) auto

lemma mapE_cong: "(\<And>x. x \<in> set xs \<Longrightarrow> f x = g x) \<Longrightarrow> mapE f xs = mapE g xs"
  by (induction xs) (simp_all cong: bindE_cong)

lemma mapE_map: "mapE f (map g xs) = mapE (\<lambda>x. f (g x)) xs"
  by (induction xs) (simp_all cong: bindE_cong)

lemma mapE_nth: "mapE (\<lambda>k. f (xs ! k)) [0..<length xs] = mapE f xs"
  using mapE_map [of f "nth xs" "[0..<length xs]"] by (simp add: map_nth)

section \<open>State\<close>

text \<open>Methods that read and change the state of several objects are written in a state monad over
  \<open>res\<close>: \<open>('s, 'a) stm\<close> takes the state and returns a value and the new state, or an error.\<close>

type_synonym ('s, 'a) stm = "'s \<Rightarrow> ('a \<times> 's) res"

definition retS :: "'a \<Rightarrow> ('s, 'a) stm" where
  "retS x = (\<lambda>s. Inr (x, s))"

definition errS :: "py_error \<Rightarrow> ('s, 'a) stm" where
  "errS e = (\<lambda>s. Inl e)"

definition liftS :: "'a res \<Rightarrow> ('s, 'a) stm" where
  "liftS r = (\<lambda>s. bindE r (\<lambda>x. Inr (x, s)))"

definition bindS :: "('s, 'a) stm \<Rightarrow> ('a \<Rightarrow> ('s, 'b) stm) \<Rightarrow> ('s, 'b) stm" where
  "bindS m f = (\<lambda>s. bindE (m s) (\<lambda>(x, s'). f x s'))"

definition getS :: "('s \<Rightarrow> 'a) \<Rightarrow> ('s, 'a) stm" where
  "getS g = (\<lambda>s. Inr (g s, s))"

definition modS :: "('s \<Rightarrow> 's) \<Rightarrow> ('s, unit) stm" where
  "modS g = (\<lambda>s. Inr ((), g s))"

definition whenS :: "bool \<Rightarrow> ('s, unit) stm \<Rightarrow> ('s, unit) stm" where
  "whenS b m = (if b then m else retS ())"

primrec foldS :: "('a \<Rightarrow> 'b \<Rightarrow> ('s, 'b) stm) \<Rightarrow> 'a list \<Rightarrow> 'b \<Rightarrow> ('s, 'b) stm" where
  "foldS f [] a = retS a"
| "foldS f (x # xs) a = bindS (f x a) (foldS f xs)"

lemma bindS_eq_Inr: "bindS m f s = Inr r \<longleftrightarrow> (\<exists>x t. m s = Inr (x, t) \<and> f x t = Inr r)"
  by (auto simp: bindS_def)

lemma bindS_Inr: "m s = Inr (x, t) \<Longrightarrow> bindS m f s = f x t"
  by (simp add: bindS_def)

lemma stm_simps [simp]:
  "retS x s = Inr (x, s)" "errS e s = Inl e" "getS g s = Inr (g s, s)" "modS h s = Inr ((), h s)"
  "bindS (retS x) f = f x"
  by (simp_all add: retS_def errS_def getS_def modS_def bindS_def)

lemma bindS_cong [fundef_cong]:
  "m s = m' s' \<Longrightarrow> s = s' \<Longrightarrow> (\<And>x t. m' s' = Inr (x, t) \<Longrightarrow> f x t = f' x t) \<Longrightarrow> bindS m f s = bindS m' f' s'"
  by (auto simp: bindS_def intro: bindE_cong)

text \<open>\<open>keeps P m\<close>: every successful run of \<open>m\<close> relates its initial to its final state by \<open>P\<close>.\<close>

definition keeps :: "('s \<Rightarrow> 's \<Rightarrow> bool) \<Rightarrow> ('s, 'a) stm \<Rightarrow> bool" where
  "keeps P m \<longleftrightarrow> (\<forall>s x t. m s = Inr (x, t) \<longrightarrow> P s t)"

lemma keepsD: "keeps P m \<Longrightarrow> m s = Inr (x, t) \<Longrightarrow> P s t"
  by (simp add: keeps_def)

lemma keeps_bindS:
  assumes "transp P" "keeps P m" "\<And>x. keeps P (f x)"
  shows "keeps P (bindS m f)"
  using assms unfolding keeps_def bindS_eq_Inr transp_def by blast

lemma keeps_foldS:
  assumes "transp P" "reflp P" "\<And>x a. keeps P (f x a)"
  shows "keeps P (foldS f xs a)"
proof (induction xs arbitrary: a)
  case Nil
  show ?case using assms(2) by (simp add: keeps_def reflpD)
next
  case (Cons x xs)
  show ?case unfolding foldS.simps by (rule keeps_bindS [OF assms(1,3) Cons])
qed

text \<open>\<open>mapS\<close>: a loop that collects the results of its rounds.\<close>

definition mapS :: "('a \<Rightarrow> ('s, 'b) stm) \<Rightarrow> 'a list \<Rightarrow> ('s, 'b list) stm" where
  "mapS f xs = foldS (\<lambda>x ys. bindS (f x) (\<lambda>y. retS (ys @ [y]))) xs []"

text \<open>\<open>valid P m Q\<close>: started in a state with \<open>P\<close>, a successful run of \<open>m\<close> ends with \<open>Q\<close>.\<close>

definition valid :: "('s \<Rightarrow> bool) \<Rightarrow> ('s, 'a) stm \<Rightarrow> ('a \<Rightarrow> 's \<Rightarrow> bool) \<Rightarrow> bool" where
  "valid P m Q \<longleftrightarrow> (\<forall>s x t. P s \<longrightarrow> m s = Inr (x, t) \<longrightarrow> Q x t)"

lemma validI: "(\<And>s x t. P s \<Longrightarrow> m s = Inr (x, t) \<Longrightarrow> Q x t) \<Longrightarrow> valid P m Q"
  by (simp add: valid_def)

lemma validD: "valid P m Q \<Longrightarrow> P s \<Longrightarrow> m s = Inr (x, t) \<Longrightarrow> Q x t"
  by (simp add: valid_def)

lemma valid_bind: "valid P m R \<Longrightarrow> (\<And>x. valid (R x) (f x) Q) \<Longrightarrow> valid P (bindS m f) Q"
  unfolding valid_def bindS_eq_Inr by blast

lemma valid_ret: "(\<And>s. P s \<Longrightarrow> Q x s) \<Longrightarrow> valid P (retS x) Q"
  by (simp add: valid_def)

lemma valid_err: "valid P (errS e) Q"
  by (simp add: valid_def)

lemma valid_lift: "(\<And>x s. r = Inr x \<Longrightarrow> P s \<Longrightarrow> Q x s) \<Longrightarrow> valid P (liftS r) Q"
  by (auto simp: valid_def liftS_def)

lemma valid_weaken: "valid P m Q \<Longrightarrow> (\<And>s. P' s \<Longrightarrow> P s) \<Longrightarrow> (\<And>x s. Q x s \<Longrightarrow> Q' x s) \<Longrightarrow> valid P' m Q'"
  unfolding valid_def by blast

lemma valid_fold: "(\<And>x a. x \<in> set xs \<Longrightarrow> valid (I a) (f x a) I) \<Longrightarrow> valid (I a) (foldS f xs a) I"
proof (induction xs arbitrary: a)
  case Nil
  show ?case unfolding foldS.simps by (rule valid_ret)
next
  case (Cons x xs)
  show ?case unfolding foldS.simps by (rule valid_bind [OF Cons.prems Cons.IH]) (simp_all add: Cons.prems)
qed

section \<open>Bytes\<close>

type_synonym byte = "8 word"

primrec le_int :: "byte list \<Rightarrow> int" where
  "le_int [] = 0"
| "le_int (b # bs) = uint b + 256 * le_int bs"

primrec le_bytes :: "nat \<Rightarrow> int \<Rightarrow> byte list" where
  "le_bytes 0 v = []"
| "le_bytes (Suc n) v = word_of_int v # le_bytes n (v div 256)"

text \<open>\<open>w.to_bytes(n, 'little')\<close>: a negative or too large value raises \<open>OverflowError\<close>.\<close>

definition to_bytes :: "nat \<Rightarrow> int \<Rightarrow> byte list res" where
  "to_bytes n v = (if 0 \<le> v \<and> v < 256 ^ n then Inr (le_bytes n v) else Inl OverflowError)"

text \<open>\<open>struct.pack('<L', v)\<close> and \<open>struct.unpack('<L', bs)[0]\<close>: a value that is not an unsigned
  32-bit integer, or a buffer that is not four bytes long, raises \<open>struct.error\<close>.\<close>

definition pack_L :: "int \<Rightarrow> byte list res" where
  "pack_L v = (if 0 \<le> v \<and> v < 2 ^ 32 then Inr (le_bytes 4 v) else Inl StructError)"

definition pack_H :: "int \<Rightarrow> byte list res" where
  "pack_H v = (if 0 \<le> v \<and> v < 65536 then Inr (le_bytes 2 v) else Inl StructError)"

definition pack_Q :: "int \<Rightarrow> byte list res" where
  "pack_Q v = (if 0 \<le> v \<and> v < 2 ^ 64 then Inr (le_bytes 8 v) else Inl StructError)"

definition unpack_L :: "byte list \<Rightarrow> int res" where
  "unpack_L bs = (if length bs = 4 then Inr (le_int bs) else Inl StructError)"

lemma le_int_bounds: "0 \<le> le_int bs \<and> le_int bs < 256 ^ length bs"
proof (induction bs)
  case Nil
  then show ?case by simp
next
  case (Cons b bs)
  have "0 \<le> uint b" "uint b < 256"
    using uint_lt2p [of b] by simp_all
  with Cons.IH show ?case by simp
qed

lemmas le_int_nonneg [simp] = le_int_bounds [THEN conjunct1]
lemmas le_int_less = le_int_bounds [THEN conjunct2]

lemma length_le_bytes [simp]: "length (le_bytes n v) = n"
  by (induction n arbitrary: v) simp_all

lemma uint_word_of_int_byte: "uint (word_of_int v :: byte) = v mod 256"
  by (simp add: uint_word_of_int)

lemma le_int_le_bytes: "0 \<le> v \<Longrightarrow> v < 256 ^ n \<Longrightarrow> le_int (le_bytes n v) = v"
proof (induction n arbitrary: v)
  case 0
  then show ?case by simp
next
  case (Suc n)
  have "v div 256 < 256 ^ n"
    using Suc.prems by (simp add: div_less_iff_less_mult mult.commute)
  with Suc show ?case
    by (simp add: uint_word_of_int_byte pos_imp_zdiv_nonneg_iff)
qed

lemma le_bytes_le_int: "length bs = n \<Longrightarrow> le_bytes n (le_int bs) = bs"
proof (induction bs arbitrary: n)
  case Nil
  then show ?case by simp
next
  case (Cons b bs)
  have b: "0 \<le> uint b" "uint b < 256"
    using uint_lt2p [of b] by simp_all
  have "uint (word_of_int (uint b + 256 * le_int bs) :: byte) = uint b"
    using b by (simp only: uint_word_of_int_byte) simp
  then have "word_of_int (uint b + 256 * le_int bs) = b"
    by (rule word_uint_eqI)
  moreover have "(uint b + 256 * le_int bs) div 256 = le_int bs"
    using b by simp
  ultimately show ?case
    using Cons by (cases n) simp_all
qed

lemma unpack_pack_L: "0 \<le> v \<Longrightarrow> v < 2 ^ 32 \<Longrightarrow> bindE (pack_L v) unpack_L = Inr v"
  by (simp add: pack_L_def unpack_L_def le_int_le_bytes)

lemma pack_L_le_int: "length bs = 4 \<Longrightarrow> pack_L (le_int bs) = Inr bs"
  using le_int_bounds [of bs] by (simp add: pack_L_def le_bytes_le_int)

section \<open>Slices\<close>

definition slice :: "nat \<Rightarrow> nat \<Rightarrow> 'a list \<Rightarrow> 'a list" where
  "slice i j xs = take (j - i) (drop i xs)"

text \<open>Slice assignment \<open>xs[i:j] = ys\<close> of a \<open>bytearray\<close>: the replaced part may have another length.\<close>

definition splice :: "nat \<Rightarrow> nat \<Rightarrow> 'a list \<Rightarrow> 'a list \<Rightarrow> 'a list" where
  "splice i j ys xs = take i xs @ ys @ drop (max i j) xs"

lemma slice_Nil [simp]: "slice i j [] = []"
  by (simp add: slice_def)

lemma slice_empty [simp]: "j \<le> i \<Longrightarrow> slice i j xs = []"
  by (simp add: slice_def)

lemma length_slice [simp]: "length (slice i j xs) = min (length xs - i) (j - i)"
  by (simp add: slice_def)

lemma length_slice_int:
  assumes "0 \<le> i" "i \<le> j" "j \<le> int (length xs)"
  shows "int (length (slice (nat i) (nat j) xs)) = j - i"
proof -
  have "nat j - nat i \<le> length xs - nat i" using assms by (simp add: diff_le_mono nat_le_iff)
  then show ?thesis using assms by (simp add: min_absorb2)
qed

lemma nth_slice: "k < j - i \<Longrightarrow> i + k < length xs \<Longrightarrow> slice i j xs ! k = xs ! (i + k)"
  by (simp add: slice_def)

lemma slice_append_slice: "i \<le> j \<Longrightarrow> j \<le> k \<Longrightarrow> slice i j xs @ slice j k xs = slice i k xs"
proof -
  assume ij: "i \<le> j" "j \<le> k"
  have "slice i k xs = take ((j - i) + (k - j)) (drop i xs)"
    using ij by (simp add: slice_def)
  also have "\<dots> = take (j - i) (drop i xs) @ take (k - j) (drop (j - i) (drop i xs))"
    by (rule take_add)
  finally show ?thesis
    using ij by (simp add: slice_def)
qed

lemma slice_slice: "i + b \<le> j \<Longrightarrow> slice a b (slice i j xs) = slice (i + a) (i + b) xs"
  by (simp add: slice_def drop_take add.commute)

lemma slice_full [simp]: "length xs \<le> j \<Longrightarrow> slice 0 j xs = xs"
  by (simp add: slice_def)

lemma length_splice:
  "i \<le> j \<Longrightarrow> j \<le> length xs \<Longrightarrow> length ys = j - i \<Longrightarrow> length (splice i j ys xs) = length xs"
  by (simp add: splice_def)

lemma nth_splice:
  "i \<le> j \<Longrightarrow> j \<le> length xs \<Longrightarrow> length ys = j - i \<Longrightarrow> k < length xs \<Longrightarrow>
   splice i j ys xs ! k = (if i \<le> k \<and> k < j then ys ! (k - i) else xs ! k)"
  by (auto simp: splice_def nth_append)

lemma slice_splice_same:
  "i \<le> j \<Longrightarrow> j \<le> length xs \<Longrightarrow> length ys = j - i \<Longrightarrow> slice i j (splice i j ys xs) = ys"
  by (simp add: splice_def slice_def)

lemma splice_splice:
  assumes "i + length ys \<le> length xs"
  shows "splice (i + length ys) (i + length ys + length zs) zs (splice i (i + length ys) ys xs)
    = splice i (i + length (ys @ zs)) (ys @ zs) xs"
  using assms by (simp add: splice_def max_absorb2 min_absorb2 add.commute add.left_commute)

lemma splice_Nil [simp]: "splice i i [] xs = xs"
  by (simp add: splice_def)

text \<open>Slices with integer bounds: a negative bound counts from the end, and bounds are clipped.\<close>

definition clip :: "nat \<Rightarrow> int \<Rightarrow> nat" where
  "clip n i = nat (if i < 0 then max 0 (i + int n) else min i (int n))"

definition py_slice :: "int \<Rightarrow> int \<Rightarrow> 'a list \<Rightarrow> 'a list" where
  "py_slice i j xs = slice (clip (length xs) i) (clip (length xs) j) xs"

definition py_splice :: "int \<Rightarrow> int \<Rightarrow> 'a list \<Rightarrow> 'a list \<Rightarrow> 'a list" where
  "py_splice i j ys xs = splice (clip (length xs) i) (clip (length xs) j) ys xs"

lemma py_slice_nat: "0 \<le> i \<Longrightarrow> 0 \<le> j \<Longrightarrow> py_slice i j xs = slice (nat i) (nat j) xs"
  by (auto simp: py_slice_def clip_def slice_def min_def)

lemma py_splice_nat: "0 \<le> i \<Longrightarrow> 0 \<le> j \<Longrightarrow> py_splice i j ys xs = splice (nat i) (nat j) ys xs"
  by (auto simp: py_splice_def clip_def splice_def min_def max_def)

section \<open>Bit masks\<close>

lemma and_mask_int: "(x::int) AND (2 ^ n - 1) = x mod 2 ^ n"
  by (simp add: take_bit_eq_mod [symmetric] take_bit_eq_mask mask_eq_exp_minus_1)

lemma and_low_masks [simp]:
  "(x::int) AND 1 = x mod 2"
  "(x::int) AND 3 = x mod 4"
  "(x::int) AND 7 = x mod 8"
  "(x::int) AND 15 = x mod 16"
  "(x::int) AND 31 = x mod 32"
  "(x::int) AND 63 = x mod 64"
  "(x::int) AND 127 = x mod 128"
  "(x::int) AND 255 = x mod 256"
  "(x::int) AND 1023 = x mod 1024"
  "(x::int) AND 4095 = x mod 4096"
  "(x::int) AND 65535 = x mod 65536"
  "(x::int) AND 4294967295 = x mod 4294967296"
  subgoal using and_mask_int [of x 1] by simp
  subgoal using and_mask_int [of x 2] by simp
  subgoal using and_mask_int [of x 3] by simp
  subgoal using and_mask_int [of x 4] by simp
  subgoal using and_mask_int [of x 5] by simp
  subgoal using and_mask_int [of x 6] by simp
  subgoal using and_mask_int [of x 7] by simp
  subgoal using and_mask_int [of x 8] by simp
  subgoal using and_mask_int [of x 10] by simp
  subgoal using and_mask_int [of x 12] by simp
  subgoal using and_mask_int [of x 16] by simp
  subgoal using and_mask_int [of x 32] by simp
  done

named_theorems bit_masks "bits of a value under a mask"

lemma bit_mask_int: "bit ((x::int) AND (2 ^ n - 1)) i \<longleftrightarrow> bit x i \<and> i < n"
  by (auto simp: bit_and_iff bit_mask_iff simp flip: mask_eq_exp_minus_1)

lemma bit_and_masks [bit_masks]:
  "bit ((x::int) AND 1) i \<longleftrightarrow> bit x i \<and> i < 1"
  "bit ((x::int) AND 3) i \<longleftrightarrow> bit x i \<and> i < 2"
  "bit ((x::int) AND 7) i \<longleftrightarrow> bit x i \<and> i < 3"
  "bit ((x::int) AND 15) i \<longleftrightarrow> bit x i \<and> i < 4"
  "bit ((x::int) AND 31) i \<longleftrightarrow> bit x i \<and> i < 5"
  "bit ((x::int) AND 127) i \<longleftrightarrow> bit x i \<and> i < 7"
  "bit ((x::int) AND 255) i \<longleftrightarrow> bit x i \<and> i < 8"
  "bit ((x::int) AND 1023) i \<longleftrightarrow> bit x i \<and> i < 10"
  "bit ((x::int) AND 4095) i \<longleftrightarrow> bit x i \<and> i < 12"
  subgoal using bit_mask_int [of x 1 i] by (simp del: and_low_masks)
  subgoal using bit_mask_int [of x 2 i] by (simp del: and_low_masks)
  subgoal using bit_mask_int [of x 3 i] by (simp del: and_low_masks)
  subgoal using bit_mask_int [of x 4 i] by (simp del: and_low_masks)
  subgoal using bit_mask_int [of x 5 i] by (simp del: and_low_masks)
  subgoal using bit_mask_int [of x 7 i] by (simp del: and_low_masks)
  subgoal using bit_mask_int [of x 8 i] by (simp del: and_low_masks)
  subgoal using bit_mask_int [of x 10 i] by (simp del: and_low_masks)
  subgoal using bit_mask_int [of x 12 i] by (simp del: and_low_masks)
  done

lemma bit_15: "bit (15::int) i \<longleftrightarrow> i < 4"
  using bit_mask_iff [of 4 i, where ?'a = int] by (simp add: mask_eq_exp_minus_1)

lemma bit_and_4 [bit_masks]: "bit ((x::int) AND 4) i \<longleftrightarrow> bit x i \<and> i = 2"
  using bit_exp_iff [of 2 i, where ?'a = int] by (auto simp: bit_and_iff)

lemma bit_drop_bit_int [bit_masks]: "bit (drop_bit n (x::int)) i \<longleftrightarrow> bit x (n + i)"
  by (simp add: bit_drop_bit_eq)

lemmas [bit_masks] = bit_or_iff bit_push_bit_iff_int

lemma bit_mod_16 [bit_masks]: "bit ((x::int) mod 65536) i \<longleftrightarrow> bit x i \<and> i < 16"
  using bit_take_bit_iff [of 16 x i] by (auto simp: take_bit_eq_mod)

text \<open>A non-negative value below \<open>2 ^ n\<close> has no bit at or above \<open>n\<close>.\<close>

lemma bit_high_zero:
  fixes m :: int
  assumes "0 \<le> m" and "m < 2 ^ k" and "k \<le> j"
  shows "\<not> bit m j"
proof -
  have "m = take_bit k m" using assms by (simp add: take_bit_eq_mod)
  then show ?thesis using assms(3) by (metis bit_take_bit_iff leD)
qed

lemma and_add_and_not: "(x::int) = (x AND y) + (x AND NOT y)"
proof -
  have "(x AND y) AND (x AND NOT y) = 0"
    by (rule bit_eqI) (auto simp: bit_simps)
  then have "(x AND y) + (x AND NOT y) = (x AND y) OR (x AND NOT y)"
    using plus_and_or [of "x AND y" "x AND NOT y"] by simp
  also have "\<dots> = x"
    by (rule bit_eqI) (auto simp: bit_simps)
  finally show ?thesis by simp
qed

lemma and_not_mask_int: "(x::int) AND NOT (2 ^ n - 1) = x - x mod 2 ^ n"
  using and_add_and_not [of x "2 ^ n - 1"] by (simp add: and_mask_int)

lemma and_minus_4 [simp]: "(x::int) AND - 4 = x - x mod 4"
  using and_not_mask_int [of x 2] by simp

text \<open>Disjoint fields: a value below \<open>2 ^ n\<close> and a value shifted left by \<open>n\<close> share no bit, so
  \<open>OR\<close> is addition.\<close>

lemma or_push_bit_eq_add:
  fixes a b :: int
  assumes "0 \<le> a" and "a < 2 ^ n"
  shows "a OR push_bit n b = a + b * 2 ^ n"
proof -
  have "a AND push_bit n b = 0"
  proof (rule bit_eqI)
    fix k
    have "a = take_bit n a"
      using assms by (simp add: take_bit_eq_mod)
    then have "bit a k \<Longrightarrow> k < n"
      by (metis bit_take_bit_iff)
    then show "bit (a AND push_bit n b) k \<longleftrightarrow> bit (0::int) k"
      by (auto simp: bit_simps)
  qed
  then show ?thesis
    by (simp add: plus_and_or [symmetric, of a] push_bit_eq_mult)
qed

section \<open>Other operations of the language\<close>

text \<open>\<open>int.bit_length\<close> of a number that is not negative.\<close>

fun bit_length :: "nat \<Rightarrow> nat" where
  "bit_length n = (if n = 0 then 0 else Suc (bit_length (n div 2)))"

declare bit_length.simps [simp del]

text \<open>\<open>xs[i]\<close> for an index that is not negative.\<close>

definition nth_res :: "'a list \<Rightarrow> nat \<Rightarrow> 'a res" where
  "nth_res xs i = (if i < length xs then Inr (xs ! i) else Inl IndexError)"

end
