(* ===== verification/Pcie_Base.thy ===== *)
theory Pcie_Base
  imports Prelude
begin

unbundle bit_operations_syntax

text \<open>
  The helpers of \<open>lib/pcie/tb/pcie.py\<close> that every other class uses: \<open>align\<close> (round an address up
  to a power-of-two boundary given as a mask), \<open>byte_mask_update\<close> (a register write under byte
  enables and a mask of writable bits) and the class \<open>PcieId\<close> (bus, device and function number)
  with its conversions to and from the 16-bit identifier of the packet headers.
\<close>

definition align :: "int \<Rightarrow> int \<Rightarrow> int" where
  "align val msk = (if val AND msk \<noteq> 0 then val + msk + 1 - (val AND msk) else val)"

text \<open>The loop of \<open>byte_mask_update\<close>: in round \<open>k\<close>, \<open>m1\<close> is \<open>1 << k\<close> and \<open>m2\<close> is \<open>0xff << 8*k\<close>.\<close>

function byte_mask_loop :: "int \<Rightarrow> int \<Rightarrow> nat \<Rightarrow> int \<Rightarrow> int" where
  "byte_mask_loop msk new k old =
     (if msk \<ge> push_bit k 1
      then byte_mask_loop msk new (Suc k)
             (if msk AND push_bit k 1 \<noteq> 0
              then (old AND NOT (push_bit (8 * k) 255)) OR (new AND push_bit (8 * k) 255)
              else old)
      else old)"
  by pat_completeness auto
termination
proof (relation "measure (\<lambda>(msk, new, k, old). nat (msk + 1) - k)")
  fix msk new :: int and k :: nat and old :: int
  assume "push_bit k 1 \<le> msk"
  then have "(2::int) ^ k \<le> msk" by (simp add: push_bit_eq_mult)
  moreover have "int k < 2 ^ k"
    using less_exp [of k] by (metis of_nat_less_iff of_nat_numeral of_nat_power)
  ultimately have "int k < msk" by linarith
  then show "((msk, new, Suc k,
      if msk AND push_bit k 1 \<noteq> 0
      then (old AND NOT (push_bit (8 * k) 255)) OR (new AND push_bit (8 * k) 255) else old),
      (msk, new, k, old)) \<in> measure (\<lambda>(msk, new, k, old). nat (msk + 1) - k)"
    by auto
qed simp

declare byte_mask_loop.simps [simp del]

definition byte_mask_update :: "int \<Rightarrow> int \<Rightarrow> int \<Rightarrow> int \<Rightarrow> int" where
  "byte_mask_update old msk new bitmask =
     byte_mask_loop msk ((new AND bitmask) OR (old AND NOT bitmask)) 0 old"

record pcie_id =
  pid_bus :: int
  pid_device :: int
  pid_function :: int

definition PcieId :: "int \<Rightarrow> int \<Rightarrow> int \<Rightarrow> pcie_id" where
  "PcieId bus device function = \<lparr>pid_bus = bus, pid_device = device, pid_function = function\<rparr>"

definition from_int :: "int \<Rightarrow> pcie_id" where
  "from_int val = PcieId (drop_bit 8 val AND 0xff) (drop_bit 3 val AND 0x1f) (val AND 0x7)"

definition id_int :: "pcie_id \<Rightarrow> int" where
  "id_int i = (push_bit 8 (pid_bus i AND 0xff) OR push_bit 3 (pid_device i AND 0x1f))
     OR (pid_function i AND 0x7)"

lemma PcieId_sel [simp]:
  "pid_bus (PcieId b d f) = b" "pid_device (PcieId b d f) = d" "pid_function (PcieId b d f) = f"
  by (simp_all add: PcieId_def)

section \<open>Alignment\<close>

lemma align_mask: "align val (2 ^ n - 1) = (if 2 ^ n dvd val then val else (val div 2 ^ n + 1) * 2 ^ n)"
proof -
  have "val = val div 2 ^ n * 2 ^ n + val mod 2 ^ n"
    by (simp add: mult.commute)
  then show ?thesis
    by (auto simp: align_def and_mask_int dvd_eq_mod_eq_0 algebra_simps)
qed

lemma align_mask_dvd: "2 ^ n dvd align val (2 ^ n - 1)"
  by (simp add: align_mask)

lemma align_mask_ge: "val \<le> align val (2 ^ n - 1)"
proof -
  have "val div 2 ^ n * 2 ^ n + val mod 2 ^ n = val"
    by (rule div_mult_mod_eq)
  moreover have "val mod 2 ^ n < 2 ^ n" by simp
  ultimately have "val \<le> (val div 2 ^ n + 1) * 2 ^ n"
    unfolding distrib_right by linarith
  then show ?thesis by (simp add: align_mask)
qed

lemma align_mask_less: "align val (2 ^ n - 1) < val + 2 ^ n"
proof (cases "2 ^ n dvd val")
  case True
  then show ?thesis by (simp add: align_mask)
next
  case False
  then have "val mod 2 ^ n \<noteq> 0" by (simp add: dvd_eq_mod_eq_0)
  moreover have "val div 2 ^ n * 2 ^ n + val mod 2 ^ n = val"
    by (rule div_mult_mod_eq)
  moreover have "0 \<le> val mod 2 ^ n" by simp
  ultimately have "(val div 2 ^ n + 1) * 2 ^ n < val + 2 ^ n"
    unfolding distrib_right by linarith
  with False show ?thesis by (simp add: align_mask)
qed

text \<open>
  For a mask \<open>2^n - 1\<close> the helper \<open>align\<close> returns the least multiple of \<open>2^n\<close> that is not
  below its argument: it is a multiple, it is at least the argument, and no smaller multiple is.
\<close>

theorem align_least:
  "2 ^ n dvd align val (2 ^ n - 1) \<and> val \<le> align val (2 ^ n - 1) \<and>
   (\<nexists>m. 2 ^ n dvd m \<and> val \<le> m \<and> m < align val (2 ^ n - 1))"
proof (intro conjI align_mask_dvd align_mask_ge notI)
  assume "\<exists>m. 2 ^ n dvd m \<and> val \<le> m \<and> m < align val (2 ^ n - 1)"
  then obtain m where m: "2 ^ n dvd m" "val \<le> m" "m < align val (2 ^ n - 1)" by blast
  from m(1) align_mask_dvd have "2 ^ n dvd align val (2 ^ n - 1) - m" by (rule dvd_diff[rotated])
  with m(3) have "2 ^ n \<le> align val (2 ^ n - 1) - m"
    by (simp add: zdvd_imp_le)
  with m(2) align_mask_less [of val n] show False by linarith
qed

section \<open>Masked register writes\<close>

lemma bit_push_255: "bit (push_bit (8 * k) (255::int)) i \<longleftrightarrow> i div 8 = k"
proof -
  have "bit (255::int) j \<longleftrightarrow> j < 8" for j
    using bit_mask_iff [of 8 j, where ?'a = int] by (simp add: mask_eq_exp_minus_1)
  then have "bit (push_bit (8 * k) (255::int)) i \<longleftrightarrow> 8 * k \<le> i \<and> i - 8 * k < 8"
    by (simp only: bit_push_bit_iff_int)
  also have "\<dots> \<longleftrightarrow> i div 8 = k" by arith
  finally show ?thesis .
qed

lemma and_push_bit_1: "(x::int) AND push_bit k 1 \<noteq> 0 \<longleftrightarrow> bit x k"
  by (metis and_exp_eq_0_iff_not_bit push_bit_of_1)

lemma bit_byte_mask_loop:
  "0 \<le> msk \<Longrightarrow> bit (byte_mask_loop msk new k old) i =
     (if k \<le> i div 8 \<and> bit msk (i div 8) then bit new i else bit old i)"
proof (induction msk new k old rule: byte_mask_loop.induct)
  case (1 msk new k old)
  show ?case
  proof (cases "push_bit k 1 \<le> msk")
    case True
    let ?old = "if msk AND push_bit k 1 \<noteq> 0
      then (old AND NOT (push_bit (8 * k) 255)) OR (new AND push_bit (8 * k) 255) else old"
    have "bit ?old i = (if bit msk k \<and> i div 8 = k then bit new i else bit old i)"
      by (cases "bit msk k")
        (auto simp only: and_push_bit_1 if_True if_False bit_or_iff bit_and_iff bit_not_iff
          bit_push_255 possible_bit_int simp_thms split: if_splits)
    moreover have "byte_mask_loop msk new k old = byte_mask_loop msk new (Suc k) ?old"
      using True by (subst byte_mask_loop.simps) simp
    ultimately show ?thesis
      using "1.IH" [OF True "1.prems"] by (auto simp: Suc_le_eq)
  next
    case False
    then have "msk < 2 ^ k" by (simp add: push_bit_eq_mult)
    then have "k \<le> i div 8 \<Longrightarrow> \<not> bit msk (i div 8)"
      using "1.prems" bit_high_zero by blast
    with False show ?thesis
      by (subst byte_mask_loop.simps) auto
  qed
qed

lemma bit_byte_mask_update:
  assumes "0 \<le> msk"
  shows "bit (byte_mask_update old msk new bitmask) i =
    (if bit msk (i div 8) \<and> bit bitmask i then bit new i else bit old i)"
  using assms by (simp add: byte_mask_update_def bit_byte_mask_loop bit_simps)

text \<open>
  C35. A register write under byte enables changes exactly the bits that are both in an enabled byte
  and writable: bit \<open>i\<close> of the result is the new bit when the mask enables byte \<open>i div 8\<close> and the bit
  mask contains bit \<open>i\<close>, and the old bit otherwise.
\<close>

theorem byte_mask_update_bit:
  assumes "0 \<le> msk"
  shows "bit (byte_mask_update old msk new bitmask) i =
    (if bit msk (i div 8) \<and> bit bitmask i then bit new i else bit old i)"
  using assms by (rule bit_byte_mask_update)

theorem byte_mask_update_bit_witness:
  "bit (byte_mask_update 0x11223344 5 0xaabbccdd (-1)) 3 \<and> (0::int) \<le> 5"
  using byte_mask_update_bit [of 5 "0x11223344" "0xaabbccdd" "-1" 3] by simp

lemma byte_mask_update_all:
  assumes "0 \<le> old" "old < 2 ^ 32" "0 \<le> new" "new < 2 ^ 32"
  shows "byte_mask_update old 15 new (-1) = new"
proof (rule bit_eqI)
  fix i
  have "32 \<le> i \<Longrightarrow> \<not> bit old i \<and> \<not> bit new i"
    using assms bit_high_zero by blast
  then show "bit (byte_mask_update old 15 new (-1)) i \<longleftrightarrow> bit new i"
    by (cases "i < 32") (auto simp: bit_byte_mask_update bit_15)
qed

section \<open>Identifiers\<close>

lemma id_int_arith:
  "id_int i = pid_bus i mod 256 * 256 + pid_device i mod 32 * 8 + pid_function i mod 8"
proof -
  let ?b = "pid_bus i mod 256" and ?d = "pid_device i mod 32" and ?f = "pid_function i mod 8"
  have 1: "?f OR push_bit 3 ?d = ?f + ?d * 8"
    using or_push_bit_eq_add [of ?f 3 ?d] by simp
  have "(?f + ?d * 8) OR push_bit 8 ?b = ?f + ?d * 8 + ?b * 256"
  proof -
    have "?f + ?d * 8 < 2 ^ 8"
    proof -
      have "?f < 8" "?d < 32" by simp_all
      then have "?f + ?d * 8 < 256" by linarith
      then show ?thesis by simp
    qed
    then show ?thesis using or_push_bit_eq_add [of "?f + ?d * 8" 8 ?b] by simp
  qed
  with 1 have "(?f OR push_bit 3 ?d) OR push_bit 8 ?b = ?b * 256 + ?d * 8 + ?f" by simp
  then show ?thesis
    by (simp add: id_int_def or.commute or.left_commute or.assoc)
qed

lemma from_int_arith: "from_int v = PcieId (v div 256 mod 256) (v div 8 mod 32) (v mod 8)"
  by (simp add: from_int_def drop_bit_eq_div)

definition id_wf :: "pcie_id \<Rightarrow> bool" where
  "id_wf i \<longleftrightarrow> 0 \<le> pid_bus i \<and> pid_bus i < 256 \<and> 0 \<le> pid_device i \<and> pid_device i < 32 \<and>
     0 \<le> pid_function i \<and> pid_function i < 8"

lemma id_int_bounds: "0 \<le> id_int i \<and> id_int i < 65536"
proof -
  have "pid_bus i mod 256 < 256" "pid_device i mod 32 < 32" "pid_function i mod 8 < 8"
    "0 \<le> pid_bus i mod 256" "0 \<le> pid_device i mod 32" "0 \<le> pid_function i mod 8" by simp_all
  then show ?thesis unfolding id_int_arith by linarith
qed

lemma from_int_wf: "id_wf (from_int v)"
  by (simp add: id_wf_def from_int_arith)

lemma from_int_id_int: "id_wf i \<Longrightarrow> from_int (id_int i) = i"
proof -
  assume wf: "id_wf i"
  obtain b d f where i: "i = PcieId b d f"
    by (metis PcieId_def pcie_id.surjective old.unit.exhaust)
  have r: "0 \<le> b" "b < 256" "0 \<le> d" "d < 32" "0 \<le> f" "f < 8"
    using wf by (simp_all add: i id_wf_def)
  then have v: "id_int i = b * 256 + d * 8 + f"
    by (simp add: i id_int_arith)
  have "d * 8 + f < 256" using r by linarith
  then have "(b * 256 + (d * 8 + f)) div 256 = b"
    using r by (subst div_mult_self3) (simp_all add: div_pos_pos_trivial)
  moreover have "(f + (b * 32 + d) * 8) div 8 = b * 32 + d"
    using r by (subst div_mult_self1) (simp_all add: div_pos_pos_trivial)
  moreover have "(f + (b * 32 + d) * 8) mod 8 = f"
    using r by (subst mod_mult_self1) simp
  moreover have "b * 256 + d * 8 + f = b * 256 + (d * 8 + f)"
    "b * 256 + d * 8 + f = f + (b * 32 + d) * 8" by simp_all
  ultimately have "from_int (id_int i) = PcieId (b mod 256) ((b * 32 + d) mod 32) f"
    by (simp only: v from_int_arith)
  then show ?thesis
    using r by (simp add: i)
qed

lemma id_int_from_int: "id_int (from_int v) = v mod 65536"
proof -
  have "v mod (256 * 256) = 256 * (v div 256 mod 256) + v mod 256"
    by (rule zmod_zmult2_eq) simp
  moreover have "v mod (8 * 32) = 8 * (v div 8 mod 32) + v mod 8"
    by (rule zmod_zmult2_eq) simp
  ultimately show ?thesis by (simp add: id_int_arith from_int_arith)
qed

text \<open>
  \<open>PcieId\<close> and its 16-bit encoding are inverse to each other: an identifier with bus, device
  and function numbers in range survives \<open>from_int(int(x))\<close>, and the encoding of \<open>from_int(v)\<close> is
  the low half-word of \<open>v\<close>, for every integer \<open>v\<close>.
\<close>

theorem pcie_id_roundtrip:
  assumes "id_wf i"
  shows "from_int (id_int i) = i \<and> id_int (from_int v) = v mod 65536"
  using assms by (simp add: from_int_id_int id_int_from_int)

theorem pcie_id_roundtrip_witness:
  "from_int (id_int (PcieId 3 17 5)) = PcieId 3 17 5 \<and> id_int (from_int 70000) = 4464"
proof -
  have "id_wf (PcieId 3 17 5)" by (simp add: id_wf_def)
  from pcie_id_roundtrip [OF this, of 70000] show ?thesis by simp
qed

end
