(* ===== verification/Pcie_Cap.thy ===== *)
theory Pcie_Cap
  imports Pcie_Base
begin

unbundle bit_operations_syntax

text \<open>
  The capability lists of \<open>lib/pcie/tb/pcie.py\<close>: classes \<open>PcieCap\<close>, \<open>PcieExtCap\<close>, \<open>PcieCapList\<close>
  and \<open>PcieExtCapList\<close>.

  A capability object is a record. Its \<open>read\<close> and \<open>write\<close> fields hold bound methods in Python;
  here they hold identities of those methods (types \<open>'r\<close> and \<open>'w\<close>), and the operations that call them
  take the method table as an argument. The code tests \<open>length\<close> and \<open>offset\<close> for truth only, so
  the value 0 stands for both Python's \<open>None\<close> and \<open>0\<close>; \<open>cap_ver\<close> and \<open>next_cap\<close> are distinguished
  from \<open>None\<close> by the code and are options.
\<close>

record ('r, 'w) pcie_cap =
  cap_id :: int
  cap_ver :: "int option"
  cap_length :: int
  cap_read :: "'r option"
  cap_write :: "'w option"
  cap_offset :: int
  next_cap :: "int option"

datatype cap_kind = PcieCapType | PcieExtCapType

record ('r, 'w) pcie_cap_list =
  cap_type :: cap_kind
  caps :: "('r, 'w) pcie_cap list"
  cap_start :: int
  cap_end :: int

definition PcieCapList :: "('r, 'w) pcie_cap_list" where
  "PcieCapList = \<lparr>cap_type = PcieCapType, caps = [], cap_start = 0x10, cap_end = 0x3f\<rparr>"

definition PcieExtCapList :: "('r, 'w) pcie_cap_list" where
  "PcieExtCapList = \<lparr>cap_type = PcieExtCapType, caps = [], cap_start = 0x40, cap_end = 0x3ff\<rparr>"

text \<open>Calling a method that returns an integer or \<open>None\<close>; calling \<open>None\<close> is a \<open>TypeError\<close>, and
  so is arithmetic on \<open>None\<close>.\<close>

definition call_method :: "('r \<Rightarrow> int \<Rightarrow> int option res) \<Rightarrow> 'r option \<Rightarrow> int \<Rightarrow> int option res" where
  "call_method tab m reg = (case m of None \<Rightarrow> Inl TypeError | Some r \<Rightarrow> tab r reg)"

definition not_none :: "int option \<Rightarrow> int res" where
  "not_none v = (case v of None \<Rightarrow> Inl TypeError | Some x \<Rightarrow> Inr x)"

definition cap_read_register ::
  "('r \<Rightarrow> int \<Rightarrow> int option res) \<Rightarrow> ('r, 'w) pcie_cap \<Rightarrow> int \<Rightarrow> int option res" where
  "cap_read_register tab c reg =
     bindE (call_method tab (cap_read c) reg) (\<lambda>val.
       if reg = 0 then
         bindE (not_none val) (\<lambda>v.
         bindE (not_none (next_cap c)) (\<lambda>n.
           Inr (Some (((v AND 0xffff0000) OR push_bit 8 (n AND 0xff)) OR (cap_id c AND 0xff)))))
       else Inr val)"

definition ext_cap_read_register ::
  "('r \<Rightarrow> int \<Rightarrow> int option res) \<Rightarrow> ('r, 'w) pcie_cap \<Rightarrow> int \<Rightarrow> int option res" where
  "ext_cap_read_register tab c reg =
     (if reg = 0 then
        bindE (not_none (next_cap c)) (\<lambda>n.
        bindE (not_none (cap_ver c)) (\<lambda>v.
          Inr (Some ((push_bit 20 (n AND 0xfff) OR push_bit 16 (v AND 0xf)) OR (cap_id c AND 0xffff)))))
      else call_method tab (cap_read c) reg)"

definition cap_write_register ::
  "('w \<Rightarrow> int \<Rightarrow> int \<Rightarrow> int \<Rightarrow> 's \<Rightarrow> 's res) \<Rightarrow> ('r, 'w) pcie_cap \<Rightarrow> int \<Rightarrow> int \<Rightarrow> int \<Rightarrow> 's \<Rightarrow> 's res" where
  "cap_write_register tab c reg data msk s =
     (case cap_write c of None \<Rightarrow> Inl TypeError | Some w \<Rightarrow> tab w reg data msk s)"

definition find_by_id :: "('r, 'w) pcie_cap_list \<Rightarrow> int \<Rightarrow> ('r, 'w) pcie_cap option" where
  "find_by_id l i = find (\<lambda>c. cap_id c = i) (caps l)"

definition find_by_reg :: "('r, 'w) pcie_cap_list \<Rightarrow> int \<Rightarrow> ('r, 'w) pcie_cap option" where
  "find_by_reg l reg = find (\<lambda>c. cap_offset c \<le> reg \<and> reg < cap_offset c + cap_length c) (caps l)"

definition list_read_register ::
  "('r \<Rightarrow> int \<Rightarrow> int option res) \<Rightarrow> ('r, 'w) pcie_cap_list \<Rightarrow> int \<Rightarrow> int option res" where
  "list_read_register tab l reg =
     (case find_by_reg l reg of
        None \<Rightarrow> Inr (Some 0)
      | Some c \<Rightarrow>
          (case cap_type l of
             PcieCapType \<Rightarrow> cap_read_register tab c (reg - cap_offset c)
           | PcieExtCapType \<Rightarrow> ext_cap_read_register tab c (reg - cap_offset c)))"

definition list_write_register ::
  "('w \<Rightarrow> int \<Rightarrow> int \<Rightarrow> int \<Rightarrow> 's \<Rightarrow> 's res) \<Rightarrow> ('r, 'w) pcie_cap_list \<Rightarrow> int \<Rightarrow> int \<Rightarrow> int \<Rightarrow> 's \<Rightarrow> 's res" where
  "list_write_register tab l reg data msk s =
     (case find_by_reg l reg of
        None \<Rightarrow> Inr s
      | Some c \<Rightarrow> cap_write_register tab c (reg - cap_offset c) data msk s)"

section \<open>Registration\<close>

text \<open>The loop that rewrites the next pointers; a list of one capability keeps its old pointer.\<close>

fun relink :: "('r, 'w) pcie_cap list \<Rightarrow> ('r, 'w) pcie_cap list" where
  "relink [] = []"
| "relink [c] = [c]"
| "relink (c # d # cs) =
     c\<lparr>next_cap := Some (cap_offset d * 4)\<rparr> # relink (d\<lparr>next_cap := Some 0\<rparr> # cs)"

definition cap_append :: "('r, 'w) pcie_cap_list \<Rightarrow> ('r, 'w) pcie_cap \<Rightarrow> ('r, 'w) pcie_cap_list" where
  "cap_append l c = l\<lparr>caps := relink (sort_key cap_offset (caps l @ [c]))\<rparr>"

definition overlaps :: "('r, 'w) pcie_cap \<Rightarrow> ('r, 'w) pcie_cap \<Rightarrow> bool" where
  "overlaps new c \<longleftrightarrow> cap_offset c \<le> cap_offset new + cap_length new - 1 \<and>
     cap_offset new \<le> cap_offset c + cap_length c - 1"

text \<open>The search for a free offset. Its first comparison is strict, unlike the one of \<open>overlaps\<close>.\<close>

primrec place_offset :: "int \<Rightarrow> int \<Rightarrow> ('r, 'w) pcie_cap list \<Rightarrow> int" where
  "place_offset len off [] = off"
| "place_offset len off (c # cs) =
     place_offset len
       (if cap_offset c < off + len - 1 \<and> off \<le> cap_offset c + cap_length c - 1
        then cap_offset c + cap_length c else off) cs"

definition missing_parameter :: "('r, 'w) pcie_cap \<Rightarrow> bool" where
  "missing_parameter c \<longleftrightarrow> cap_length c = 0 \<or> cap_read c = None \<or> cap_write c = None"

definition register_auto ::
  "('r, 'w) pcie_cap \<Rightarrow> ('r, 'w) pcie_cap_list \<Rightarrow> ('r, 'w) pcie_cap_list res" where
  "register_auto c l =
     (if missing_parameter c then Inl (PyException ''Missing required parameter'')
      else Inr (cap_append l (c\<lparr>cap_offset := place_offset (cap_length c) (cap_start l) (caps l)\<rparr>)))"

text \<open>\<open>register\<close> called with a capability object. The bumped capabilities are re-registered without an
  offset, so the recursive calls take the other branch.\<close>

definition register_cap ::
  "('r, 'w) pcie_cap \<Rightarrow> ('r, 'w) pcie_cap_list \<Rightarrow> ('r, 'w) pcie_cap_list res" where
  "register_cap c l =
     (if cap_offset c = 0 then register_auto c l
      else if missing_parameter c then Inl (PyException ''Missing required parameter'')
      else foldE (\<lambda>b. register_auto (b\<lparr>cap_offset := 0\<rparr>)) (filter (overlaps c) (caps l))
             (cap_append (l\<lparr>caps := filter (\<lambda>b. \<not> overlaps c b) (caps l)\<rparr>) c))"

definition update_cap ::
  "int option \<Rightarrow> int \<Rightarrow> 'r option \<Rightarrow> 'w option \<Rightarrow> int \<Rightarrow> ('r, 'w) pcie_cap \<Rightarrow> ('r, 'w) pcie_cap" where
  "update_cap ver len rd wr off c =
     c\<lparr>cap_ver := (if ver \<noteq> None then ver else cap_ver c),
       cap_length := (if len \<noteq> 0 then len else cap_length c),
       cap_read := (if rd \<noteq> None then rd else cap_read c),
       cap_write := (if wr \<noteq> None then wr else cap_write c),
       cap_offset := (if off \<noteq> 0 then off else cap_offset c)\<rparr>"

definition register ::
  "int \<Rightarrow> int option \<Rightarrow> int \<Rightarrow> 'r option \<Rightarrow> 'w option \<Rightarrow> int \<Rightarrow> ('r, 'w) pcie_cap_list
     \<Rightarrow> ('r, 'w) pcie_cap_list res" where
  "register i ver len rd wr off l =
     (case find_by_id l i of
        Some c \<Rightarrow> register_cap (update_cap ver len rd wr off c) (l\<lparr>caps := remove1 c (caps l)\<rparr>)
      | None \<Rightarrow> register_cap \<lparr>cap_id = i, cap_ver = ver, cap_length = len, cap_read = rd,
                               cap_write = wr, cap_offset = off, next_cap = None\<rparr> l)"

section \<open>Properties\<close>

text \<open>The next pointers form a chain: each is the byte offset of the following capability, the last one is 0.\<close>

fun linked :: "('r, 'w) pcie_cap list \<Rightarrow> bool" where
  "linked [] = True"
| "linked [c] = (next_cap c = Some 0)"
| "linked (c # d # cs) = (next_cap c = Some (cap_offset d * 4) \<and> linked (d # cs))"

lemma relink_Cons: "\<exists>n cs'. relink (c # cs) = c\<lparr>next_cap := n\<rparr> # cs'"
  by (cases cs) (auto intro: exI [of _ "next_cap c"])

lemma length_relink [simp]: "length (relink cs) = length cs"
  by (induction cs rule: relink.induct) simp_all

lemma relink_next_cap: "map (next_cap_update (\<lambda>_. n)) (relink cs) = map (next_cap_update (\<lambda>_. n)) cs"
  by (induction cs rule: relink.induct) simp_all

lemma relink_fields [simp]:
  "map cap_offset (relink cs) = map cap_offset cs"
  "map cap_length (relink cs) = map cap_length cs"
  "map cap_id (relink cs) = map cap_id cs"
  by (induction cs rule: relink.induct) simp_all

lemma linked_relink_last: "next_cap c = Some 0 \<or> cs \<noteq> [] \<Longrightarrow> linked (relink (c # cs))"
proof (induction "c # cs" arbitrary: c cs rule: relink.induct)
  case (3 c d cs)
  obtain n cs' where "relink (d\<lparr>next_cap := Some 0\<rparr> # cs) = d\<lparr>next_cap := n\<rparr> # cs'"
    using relink_Cons [of "d\<lparr>next_cap := Some 0\<rparr>" cs] by auto
  then show ?case using "3.hyps" by simp
qed simp

lemma linked_relink: "2 \<le> length cs \<Longrightarrow> linked (relink cs)"
  by (cases cs) (auto intro!: linked_relink_last)

definition caps_ok :: "('r, 'w) pcie_cap_list \<Rightarrow> bool" where
  "caps_ok l \<longleftrightarrow> sorted (map cap_offset (caps l)) \<and> (2 \<le> length (caps l) \<longrightarrow> linked (caps l))"

lemma caps_ok_cap_append: "caps_ok (cap_append l c)"
  by (simp add: caps_ok_def cap_append_def linked_relink)

lemma caps_ok_register_auto: "register_auto c l = Inr l' \<Longrightarrow> caps_ok l'"
  by (auto simp: register_auto_def caps_ok_cap_append split: if_splits)

lemma caps_ok_register_cap: "register_cap c l = Inr l' \<Longrightarrow> caps_ok l'"
  by (auto simp: register_cap_def caps_ok_cap_append caps_ok_register_auto split: if_splits
      intro: foldE_inv [where P = caps_ok])

text \<open>
  C34. Whatever is registered, in whatever order and at whatever offsets, a successful call of \<open>register\<close>
  that leaves two or more capabilities leaves the list sorted by offset and its next pointers chained: every
  pointer is the byte offset of the following capability and the last one is 0. (The pointer of the only
  capability of a list is not set.)
\<close>

theorem register_linked:
  assumes "register i ver len rd wr off l = Inr l'" "2 \<le> length (caps l')"
  shows "sorted (map cap_offset (caps l')) \<and> linked (caps l')"
proof -
  have "caps_ok l'"
    using assms(1) by (auto simp: register_def split: option.splits intro: caps_ok_register_cap)
  then show ?thesis using assms(2) by (simp add: caps_ok_def)
qed

text \<open>The first registration: the only capability has no next pointer.\<close>

lemma register_first:
  "register 5 None 6 (Some ()) (Some ()) 0 (PcieCapList :: (unit, unit) pcie_cap_list) =
     Inr (PcieCapList\<lparr>caps := [\<lparr>cap_id = 5, cap_ver = None, cap_length = 6, cap_read = Some (),
       cap_write = Some (), cap_offset = 0x10, next_cap = None\<rparr>]\<rparr>)"
  by (simp add: register_def find_by_id_def PcieCapList_def register_cap_def register_auto_def
      missing_parameter_def cap_append_def)

theorem register_linked_witness:
  "\<exists>l. bindE (register 5 None 6 (Some ()) (Some ()) 0 (PcieCapList :: (unit, unit) pcie_cap_list))
       (register 1 None 2 (Some ()) (Some ()) 0) = Inr l \<and>
     map (\<lambda>c. (cap_id c, cap_offset c, next_cap c)) (caps l) = [(5, 0x10, Some 0x58), (1, 0x16, Some 0)] \<and> linked (caps l)"
proof -
  let ?l = "PcieCapList\<lparr>caps := [\<lparr>cap_id = 5, cap_ver = None, cap_length = 6, cap_read = Some (),
       cap_write = Some (), cap_offset = 0x10, next_cap = None\<rparr>]\<rparr> :: (unit, unit) pcie_cap_list"
  obtain l where l: "register 1 None 2 (Some ()) (Some ()) 0 ?l = Inr l"
    "map (\<lambda>c. (cap_id c, cap_offset c, next_cap c)) (caps l) = [(5, 0x10, Some 0x58), (1, 0x16, Some 0)]"
    by (simp add: register_def find_by_id_def PcieCapList_def register_cap_def register_auto_def
        missing_parameter_def cap_append_def)
  have "2 \<le> length (caps l)" using arg_cong [OF l(2), of length] by simp
  from register_linked [OF l(1) this] show ?thesis using l by (simp add: register_first)
qed

subsection \<open>Packed lists\<close>

fun packed :: "int \<Rightarrow> ('r, 'w) pcie_cap list \<Rightarrow> bool" where
  "packed s [] = True"
| "packed s (c # cs) = (cap_offset c = s \<and> 2 \<le> cap_length c \<and> packed (s + cap_length c) cs)"

definition caps_size :: "('r, 'w) pcie_cap list \<Rightarrow> int" where
  "caps_size cs = sum_list (map cap_length cs)"

lemma caps_size_simps [simp]:
  "caps_size [] = 0" "caps_size (c # cs) = cap_length c + caps_size cs"
  by (simp_all add: caps_size_def)

lemma packed_append: "packed s (cs @ ds) \<longleftrightarrow> packed s cs \<and> packed (s + caps_size cs) ds"
  by (induction cs arbitrary: s) (auto simp: add.assoc)

lemma packed_size_nonneg: "packed s cs \<Longrightarrow> 0 \<le> caps_size cs"
  by (induction cs arbitrary: s) fastforce+

lemma place_offset_packed: "packed s cs \<Longrightarrow> 2 \<le> len \<Longrightarrow> place_offset len s cs = s + caps_size cs"
  by (induction cs arbitrary: s) auto

lemma packed_offset_ge: "packed s cs \<Longrightarrow> c \<in> set cs \<Longrightarrow> s \<le> cap_offset c"
  by (induction cs arbitrary: s) fastforce+

lemma packed_sorted: "packed s cs \<Longrightarrow> sorted (map cap_offset cs)"
proof (induction cs arbitrary: s)
  case (Cons c cs)
  then have "d \<in> set cs \<Longrightarrow> s + cap_length c \<le> cap_offset d" for d
    using packed_offset_ge by fastforce
  with Cons show ?case by fastforce
qed simp

lemma packed_cong:
  "map cap_offset cs = map cap_offset ds \<Longrightarrow> map cap_length cs = map cap_length ds \<Longrightarrow>
   packed s cs = packed s ds"
proof (induction cs arbitrary: s ds)
  case Nil
  then show ?case by simp
next
  case (Cons c cs)
  then obtain d ds' where "ds = d # ds'" by (cases ds) auto
  with Cons show ?case by auto
qed

lemma packed_relink: "packed s (relink cs) = packed s cs"
  by (rule packed_cong) simp_all

definition disjoint_caps :: "('r, 'w) pcie_cap list \<Rightarrow> bool" where
  "disjoint_caps cs \<longleftrightarrow> sorted_wrt (\<lambda>c d. cap_offset c + cap_length c \<le> cap_offset d) cs"

lemma packed_disjoint: "packed s cs \<Longrightarrow> disjoint_caps cs"
proof (induction cs arbitrary: s)
  case (Cons c cs)
  then have "d \<in> set cs \<Longrightarrow> s + cap_length c \<le> cap_offset d" for d
    using packed_offset_ge by fastforce
  with Cons show ?case by (auto simp: disjoint_caps_def)
qed (simp add: disjoint_caps_def)

text \<open>
  Capabilities registered without an offset are laid out back to back: when the list is packed
  from its start and the new capability has a fresh identifier and at least two registers,
  registration succeeds, puts it behind the last one, keeps the list packed, and no two
  capabilities claim the same configuration register.
\<close>

theorem register_packed:
  assumes "packed (cap_start l) (caps l)" and "find_by_id l i = None" and "2 \<le> len"
  shows "\<exists>l'. register i ver len (Some r) (Some w) 0 l = Inr l' \<and> cap_start l' = cap_start l \<and>
    packed (cap_start l) (caps l') \<and> map cap_id (caps l') = map cap_id (caps l) @ [i] \<and>
    map cap_offset (caps l') = map cap_offset (caps l) @ [cap_start l + caps_size (caps l)] \<and>
    disjoint_caps (caps l')"
proof -
  let ?c = "\<lparr>cap_id = i, cap_ver = ver, cap_length = len, cap_read = Some r, cap_write = Some w,
    cap_offset = cap_start l + caps_size (caps l), next_cap = None\<rparr> :: ('a, 'b) pcie_cap"
  have p: "packed (cap_start l) (caps l @ [?c])"
    using assms by (simp add: packed_append)
  then have s: "sort_key cap_offset (caps l @ [?c]) = caps l @ [?c]"
    by (intro sort_key_id_if_sorted) (rule packed_sorted)
  have "register i ver len (Some r) (Some w) 0 l = Inr (l\<lparr>caps := relink (caps l @ [?c])\<rparr>)"
    using assms s by (simp add: register_def register_cap_def register_auto_def missing_parameter_def
        place_offset_packed cap_append_def)
  moreover have "packed (cap_start l) (relink (caps l @ [?c]))"
    using p by (simp add: packed_relink)
  ultimately show ?thesis
    using packed_disjoint by fastforce
qed

theorem register_packed_witness:
  "\<exists>l'. register 1 (Some 0) 2 (Some ()) (Some ()) 0
      ((PcieCapList :: (unit, unit) pcie_cap_list)) = Inr l' \<and> map cap_offset (caps l') = [0x10]"
proof -
  have "packed (cap_start PcieCapList) (caps (PcieCapList :: (unit, unit) pcie_cap_list))"
    "find_by_id (PcieCapList :: (unit, unit) pcie_cap_list) 1 = None"
    by (simp_all add: PcieCapList_def find_by_id_def)
  from register_packed [OF this, of 2 "Some 0" "()" "()"] show ?thesis
    by (auto simp: PcieCapList_def)
qed

text \<open>
  The search for a free offset is off by one. After a capability of two registers at offset
  \<open>0x11\<close>, a second one of two registers registered without an offset is placed at \<open>0x10\<close>, so both
  claim register \<open>0x11\<close> and accesses to it reach the wrong one; the overlap test used for
  explicit offsets does report this pair as overlapping.
\<close>

theorem register_auto_overlap:
  "\<exists>l c d. bindE (register 1 None 2 (Some ()) (Some ()) 0x11 (PcieCapList :: (unit, unit) pcie_cap_list))
       (register 2 None 2 (Some ()) (Some ()) 0) = Inr l \<and>
     caps l = [c, d] \<and> cap_id c = 2 \<and> cap_id d = 1 \<and> cap_offset c = 0x10 \<and> cap_offset d = 0x11 \<and>
     overlaps c d \<and> find_by_reg l 0x11 = Some c"
  by (simp add: register_def find_by_id_def find_by_reg_def PcieCapList_def register_cap_def
      register_auto_def missing_parameter_def cap_append_def overlaps_def)

end
