(* ===== verification/Pcie_CapRegs.thy ===== *)
theory Pcie_CapRegs
  imports Pcie_Base
begin

unbundle bit_operations_syntax

text \<open>
  The register blocks of the capability mix-ins of \<open>lib/pcie/tb/pcie.py\<close>: \<open>PMCapability\<close>,
  \<open>PCIECapability\<close>, \<open>MSICapability\<close> and \<open>MSIXCapability\<close>, each with its attributes, its initial
  values and its register read and write methods.

  The attributes of \<open>PCIECapability\<close> are grouped in one record per register, following the comments
  of \<open>__init__\<close>. \<open>fbit n b\<close> is the contribution of \<open>if b: val |= 1 << n\<close>, \<open>tst data n\<close> is
  \<open>data & 1 << n != 0\<close>. The methods \<open>initiate_function_level_reset\<close> and \<open>initiate_retrain_link\<close> have
  an empty body and are left out of the writes that call them.
\<close>

definition fbit :: "nat \<Rightarrow> bool \<Rightarrow> int" where
  "fbit n b = (if b then push_bit n 1 else 0)"

definition tst :: "int \<Rightarrow> nat \<Rightarrow> bool" where
  "tst data n \<longleftrightarrow> data AND push_bit n 1 \<noteq> 0"

section \<open>Power management capability\<close>

record pm_capability =
  pm_capabilities :: int
  pm_control_status :: int
  pm_data :: int

definition PMCapability :: pm_capability where
  "PMCapability = \<lparr>pm_capabilities = 0, pm_control_status = 0, pm_data = 0\<rparr>"

definition read_pm_cap_register :: "pm_capability \<Rightarrow> int \<Rightarrow> int option" where
  "read_pm_cap_register s reg =
     (if reg = 0 then Some (push_bit 16 (pm_capabilities s))
      else if reg = 1 then Some (push_bit 24 (pm_data s) OR pm_control_status s)
      else None)"

definition write_pm_cap_register :: "int \<Rightarrow> int \<Rightarrow> int \<Rightarrow> pm_capability \<Rightarrow> pm_capability" where
  "write_pm_cap_register reg data msk s = s"

section \<open>PCI Express capability\<close>

record pcie_caps_regs =
  pcie_capability_version :: int
  pcie_device_type :: int
  pcie_slot_implemented :: bool
  interrupt_message_number :: int

record pcie_dev_cap_regs =
  max_payload_size_supported :: int
  phantom_functions_supported :: int
  extended_tag_supported :: bool
  endpoint_l0s_acceptable_latency :: int
  endpoint_l1_acceptable_latency :: int
  role_based_error_reporting :: bool
  captured_slot_power_limit_value :: int
  captured_slot_power_limit_scale :: int
  function_level_reset_capability :: bool

record pcie_dev_ctl_regs =
  correctable_error_reporting_enable :: bool
  non_fatal_error_reporting_enable :: bool
  fatal_error_reporting_enable :: bool
  unsupported_request_reporting_enable :: bool
  enable_relaxed_ordering :: bool
  max_payload_size :: int
  extended_tag_field_enable :: bool
  phantom_functions_enable :: bool
  aux_power_pm_enable :: bool
  enable_no_snoop :: bool
  max_read_request_size :: int

record pcie_dev_sta_regs =
  correctable_error_detected :: bool
  nonfatal_error_detected :: bool
  fatal_error_detected :: bool
  unsupported_request_detected :: bool
  aux_power_detected :: bool
  transactions_pending :: bool

record pcie_link_cap_regs =
  max_link_speed :: int
  max_link_width :: int
  aspm_support :: int
  l0s_exit_latency :: int
  l1_exit_latency :: int
  clock_power_management :: bool
  surprise_down_error_reporting_capability :: bool
  data_link_layer_link_active_reporting_capable :: bool
  link_bandwidth_notification_capability :: bool
  aspm_optionality_compliance :: bool
  port_number :: int

record pcie_link_ctl_regs =
  aspm_control :: int
  read_completion_boundary :: bool
  link_disable :: bool
  common_clock_configuration :: bool
  extended_synch :: bool
  enable_clock_power_management :: bool
  hardware_autonomous_width_disable :: bool
  link_bandwidth_management_interrupt_enable :: bool
  link_autonomous_bandwidth_interrupt_enable :: bool

record pcie_link_sta_regs =
  current_link_speed :: int
  negotiated_link_width :: int
  link_training :: bool
  slot_clock_configuration :: bool
  data_link_layer_link_active :: bool
  link_bandwidth_management_status :: bool
  link_autonomous_bandwidth_status :: bool

record pcie_slot_cap_regs =
  attention_button_present :: bool
  power_controller_present :: bool
  mrl_sensor_present :: bool
  attention_indicator_present :: bool
  power_indicator_present :: bool
  hot_plug_surprise :: bool
  hot_plug_capable :: bool
  slot_power_limit_value :: int
  slot_power_limit_scale :: int
  electromechanical_interlock_present :: bool
  no_command_completed_support :: bool
  physical_slot_number :: int

record pcie_slot_ctl_regs =
  attention_button_pressed_enable :: bool
  power_fault_detected_enable :: bool
  mrl_sensor_changed_enable :: bool
  presence_detect_changed_enable :: bool
  command_completed_interrupt_enable :: bool
  hot_plug_interrupt_enable :: bool
  attention_indicator_control :: int
  power_indicator_control :: int
  power_controller_control :: bool
  electromechanical_interlock_control :: bool
  data_link_layer_state_changed_enable :: bool

record pcie_slot_sta_regs =
  attention_button_pressed :: bool
  power_fault_detected :: bool
  mrl_sensor_changed :: bool
  presence_detect_changed :: bool
  command_completed :: bool
  mrl_sensor_state :: bool
  presence_detect_state :: bool
  electromechanical_interlock_status :: bool
  data_link_layer_state_changed :: bool

record pcie_root_ctl_regs =
  system_error_on_correctable_error_enable :: bool
  system_error_on_non_fatal_error_enable :: bool
  system_error_on_fatal_error_enable :: bool
  pme_interrupt_enable :: bool
  crs_software_visibility_enable :: bool

record pcie_root_cap_regs =
  crs_software_visibility :: bool

record pcie_root_sta_regs =
  pme_requester_id :: int
  pme_status :: bool
  pme_pending :: bool

record pcie_dev_cap2_regs =
  completion_timeout_ranges_supported :: int
  completion_timeout_disable_supported :: bool
  ari_forwarding_supported :: bool
  atomic_op_forwarding_supported :: bool
  atomic_op_32_bit_completer_supported :: bool
  atomic_op_64_bit_completer_supported :: bool
  cas_128_bit_completer_supported :: bool
  no_ro_enabled_pr_pr_passing :: bool
  ltr_mechanism_supported :: bool
  tph_completer_supported :: int
  obff_supported :: int
  extended_fmt_field_supported :: bool
  end_end_tlp_prefix_supported :: bool
  max_end_end_tlp_prefix :: int

record pcie_dev_ctl2_regs =
  completion_timeout_value :: int
  completion_timeout_disable :: bool
  ari_forwarding_enable :: bool
  atomic_op_requester_enable :: bool
  atomic_op_egress_blocking :: bool
  ido_request_enable :: bool
  ido_completion_enable :: bool
  ltr_mechanism_enable :: bool
  obff_enable :: int
  end_end_tlp_prefix_blocking :: bool

record pcie_link_cap2_regs =
  supported_link_speeds :: int
  crosslink_supported :: bool

record pcie_link_ctl2_regs =
  target_link_speed :: int
  enter_compliance :: bool
  hardware_autonomous_speed_disable :: bool
  selectable_de_emphasis :: bool
  transmit_margin :: int
  enter_modified_compliance :: bool
  compliance_sos :: bool
  compliance_preset_de_emphasis :: int

record pcie_link_sta2_regs =
  current_de_emphasis_level :: bool
  equalization_complete :: bool
  equalization_phase_1_successful :: bool
  equalization_phase_2_successful :: bool
  equalization_phase_3_successful :: bool
  link_equalization_request :: bool

record pcie_capability =
  pcie_caps :: pcie_caps_regs
  dev_cap :: pcie_dev_cap_regs
  dev_ctl :: pcie_dev_ctl_regs
  dev_sta :: pcie_dev_sta_regs
  link_cap :: pcie_link_cap_regs
  link_ctl :: pcie_link_ctl_regs
  link_sta :: pcie_link_sta_regs
  slot_cap :: pcie_slot_cap_regs
  slot_ctl :: pcie_slot_ctl_regs
  slot_sta :: pcie_slot_sta_regs
  root_ctl :: pcie_root_ctl_regs
  root_cap :: pcie_root_cap_regs
  root_sta :: pcie_root_sta_regs
  dev_cap2 :: pcie_dev_cap2_regs
  dev_ctl2 :: pcie_dev_ctl2_regs
  link_cap2 :: pcie_link_cap2_regs
  link_ctl2 :: pcie_link_ctl2_regs
  link_sta2 :: pcie_link_sta2_regs

definition PCIECapability :: pcie_capability where
  "PCIECapability = \<lparr>
     pcie_caps = \<lparr>pcie_capability_version = 2,
       pcie_device_type = 0,
       pcie_slot_implemented = False,
       interrupt_message_number = 0\<rparr>,
     dev_cap = \<lparr>max_payload_size_supported = 0x5,
       phantom_functions_supported = 0,
       extended_tag_supported = True,
       endpoint_l0s_acceptable_latency = 0x7,
       endpoint_l1_acceptable_latency = 0x7,
       role_based_error_reporting = True,
       captured_slot_power_limit_value = 0,
       captured_slot_power_limit_scale = 0,
       function_level_reset_capability = False\<rparr>,
     dev_ctl = \<lparr>correctable_error_reporting_enable = False,
       non_fatal_error_reporting_enable = False,
       fatal_error_reporting_enable = False,
       unsupported_request_reporting_enable = False,
       enable_relaxed_ordering = True,
       max_payload_size = 0x0,
       extended_tag_field_enable = False,
       phantom_functions_enable = False,
       aux_power_pm_enable = False,
       enable_no_snoop = True,
       max_read_request_size = 0x2\<rparr>,
     dev_sta = \<lparr>correctable_error_detected = False,
       nonfatal_error_detected = False,
       fatal_error_detected = False,
       unsupported_request_detected = False,
       aux_power_detected = False,
       transactions_pending = False\<rparr>,
     link_cap = \<lparr>max_link_speed = 0,
       max_link_width = 0,
       aspm_support = 0,
       l0s_exit_latency = 0,
       l1_exit_latency = 0,
       clock_power_management = False,
       surprise_down_error_reporting_capability = False,
       data_link_layer_link_active_reporting_capable = False,
       link_bandwidth_notification_capability = False,
       aspm_optionality_compliance = False,
       port_number = 0\<rparr>,
     link_ctl = \<lparr>aspm_control = 0,
       read_completion_boundary = False,
       link_disable = False,
       common_clock_configuration = False,
       extended_synch = False,
       enable_clock_power_management = False,
       hardware_autonomous_width_disable = False,
       link_bandwidth_management_interrupt_enable = False,
       link_autonomous_bandwidth_interrupt_enable = False\<rparr>,
     link_sta = \<lparr>current_link_speed = 0,
       negotiated_link_width = 0,
       link_training = False,
       slot_clock_configuration = False,
       data_link_layer_link_active = False,
       link_bandwidth_management_status = False,
       link_autonomous_bandwidth_status = False\<rparr>,
     slot_cap = \<lparr>attention_button_present = False,
       power_controller_present = False,
       mrl_sensor_present = False,
       attention_indicator_present = False,
       power_indicator_present = False,
       hot_plug_surprise = False,
       hot_plug_capable = False,
       slot_power_limit_value = 0,
       slot_power_limit_scale = 0,
       electromechanical_interlock_present = False,
       no_command_completed_support = False,
       physical_slot_number = 0\<rparr>,
     slot_ctl = \<lparr>attention_button_pressed_enable = False,
       power_fault_detected_enable = False,
       mrl_sensor_changed_enable = False,
       presence_detect_changed_enable = False,
       command_completed_interrupt_enable = False,
       hot_plug_interrupt_enable = False,
       attention_indicator_control = 0,
       power_indicator_control = 0,
       power_controller_control = False,
       electromechanical_interlock_control = False,
       data_link_layer_state_changed_enable = False\<rparr>,
     slot_sta = \<lparr>attention_button_pressed = False,
       power_fault_detected = False,
       mrl_sensor_changed = False,
       presence_detect_changed = False,
       command_completed = False,
       mrl_sensor_state = False,
       presence_detect_state = False,
       electromechanical_interlock_status = False,
       data_link_layer_state_changed = False\<rparr>,
     root_ctl = \<lparr>system_error_on_correctable_error_enable = False,
       system_error_on_non_fatal_error_enable = False,
       system_error_on_fatal_error_enable = False,
       pme_interrupt_enable = False,
       crs_software_visibility_enable = False\<rparr>,
     root_cap = \<lparr>crs_software_visibility = False\<rparr>,
     root_sta = \<lparr>pme_requester_id = 0,
       pme_status = False,
       pme_pending = False\<rparr>,
     dev_cap2 = \<lparr>completion_timeout_ranges_supported = 0,
       completion_timeout_disable_supported = False,
       ari_forwarding_supported = False,
       atomic_op_forwarding_supported = False,
       atomic_op_32_bit_completer_supported = False,
       atomic_op_64_bit_completer_supported = False,
       cas_128_bit_completer_supported = False,
       no_ro_enabled_pr_pr_passing = False,
       ltr_mechanism_supported = False,
       tph_completer_supported = 0,
       obff_supported = 0,
       extended_fmt_field_supported = False,
       end_end_tlp_prefix_supported = False,
       max_end_end_tlp_prefix = 0\<rparr>,
     dev_ctl2 = \<lparr>completion_timeout_value = 0,
       completion_timeout_disable = False,
       ari_forwarding_enable = False,
       atomic_op_requester_enable = False,
       atomic_op_egress_blocking = False,
       ido_request_enable = False,
       ido_completion_enable = False,
       ltr_mechanism_enable = False,
       obff_enable = 0,
       end_end_tlp_prefix_blocking = False\<rparr>,
     link_cap2 = \<lparr>supported_link_speeds = 0,
       crosslink_supported = False\<rparr>,
     link_ctl2 = \<lparr>target_link_speed = 0,
       enter_compliance = False,
       hardware_autonomous_speed_disable = False,
       selectable_de_emphasis = False,
       transmit_margin = 0,
       enter_modified_compliance = False,
       compliance_sos = False,
       compliance_preset_de_emphasis = 0\<rparr>,
     link_sta2 = \<lparr>current_de_emphasis_level = False,
       equalization_complete = False,
       equalization_phase_1_successful = False,
       equalization_phase_2_successful = False,
       equalization_phase_3_successful = False,
       link_equalization_request = False\<rparr>\<rparr>"

definition read_pcie_reg0 :: "pcie_capability \<Rightarrow> int" where
  "read_pcie_reg0 s =
     push_bit 16 2 OR
     push_bit 20 (pcie_device_type (pcie_caps s) AND 0xf) OR
     fbit 24 (pcie_slot_implemented (pcie_caps s)) OR
     push_bit 25 (interrupt_message_number (pcie_caps s) AND 0x1f)"

definition read_pcie_reg1 :: "pcie_capability \<Rightarrow> int" where
  "read_pcie_reg1 s =
     (max_payload_size_supported (dev_cap s) AND 0x7) OR
     push_bit 3 (phantom_functions_supported (dev_cap s) AND 0x3) OR
     fbit 5 (extended_tag_supported (dev_cap s)) OR
     push_bit 6 (endpoint_l0s_acceptable_latency (dev_cap s) AND 0x7) OR
     push_bit 9 (endpoint_l1_acceptable_latency (dev_cap s) AND 7) OR
     fbit 15 (role_based_error_reporting (dev_cap s)) OR
     push_bit 18 (captured_slot_power_limit_value (dev_cap s) AND 0xff) OR
     push_bit 26 (captured_slot_power_limit_scale (dev_cap s) AND 0x3) OR
     fbit 28 (function_level_reset_capability (dev_cap s))"

definition read_pcie_reg2 :: "pcie_capability \<Rightarrow> int" where
  "read_pcie_reg2 s =
     fbit 0 (correctable_error_reporting_enable (dev_ctl s)) OR
     fbit 1 (non_fatal_error_reporting_enable (dev_ctl s)) OR
     fbit 2 (fatal_error_reporting_enable (dev_ctl s)) OR
     fbit 3 (unsupported_request_reporting_enable (dev_ctl s)) OR
     fbit 4 (enable_relaxed_ordering (dev_ctl s)) OR
     push_bit 5 (max_payload_size (dev_ctl s) AND 0x7) OR
     fbit 8 (extended_tag_field_enable (dev_ctl s)) OR
     fbit 9 (phantom_functions_enable (dev_ctl s)) OR
     fbit 10 (aux_power_pm_enable (dev_ctl s)) OR
     fbit 11 (enable_no_snoop (dev_ctl s)) OR
     push_bit 12 (max_read_request_size (dev_ctl s) AND 0x7) OR
     fbit 16 (correctable_error_detected (dev_sta s)) OR
     fbit 17 (nonfatal_error_detected (dev_sta s)) OR
     fbit 18 (fatal_error_detected (dev_sta s)) OR
     fbit 19 (unsupported_request_detected (dev_sta s)) OR
     fbit 20 (aux_power_detected (dev_sta s)) OR
     fbit 21 (transactions_pending (dev_sta s))"

definition read_pcie_reg3 :: "pcie_capability \<Rightarrow> int" where
  "read_pcie_reg3 s =
     (max_link_speed (link_cap s) AND 0xf) OR
     drop_bit 4 (max_link_width (link_cap s) AND 0x3f) OR
     drop_bit 10 (aspm_support (link_cap s) AND 0x3) OR
     drop_bit 12 (l0s_exit_latency (link_cap s) AND 0x7) OR
     drop_bit 15 (l1_exit_latency (link_cap s) AND 0x7) OR
     fbit 18 (clock_power_management (link_cap s)) OR
     fbit 19 (surprise_down_error_reporting_capability (link_cap s)) OR
     fbit 20 (data_link_layer_link_active_reporting_capable (link_cap s)) OR
     fbit 21 (link_bandwidth_notification_capability (link_cap s)) OR
     fbit 22 (aspm_optionality_compliance (link_cap s)) OR
     push_bit 24 (port_number (link_cap s) AND 0xff)"

definition read_pcie_reg4 :: "pcie_capability \<Rightarrow> int" where
  "read_pcie_reg4 s =
     (aspm_control (link_ctl s) AND 0x3) OR
     fbit 3 (read_completion_boundary (link_ctl s)) OR
     fbit 4 (link_disable (link_ctl s)) OR
     fbit 6 (common_clock_configuration (link_ctl s)) OR
     fbit 7 (extended_synch (link_ctl s)) OR
     fbit 8 (enable_clock_power_management (link_ctl s)) OR
     fbit 9 (hardware_autonomous_width_disable (link_ctl s)) OR
     fbit 10 (link_bandwidth_management_interrupt_enable (link_ctl s)) OR
     fbit 11 (link_autonomous_bandwidth_interrupt_enable (link_ctl s)) OR
     push_bit 16 (current_link_speed (link_sta s) AND 0xf) OR
     push_bit 20 (negotiated_link_width (link_sta s) AND 0x3f) OR
     fbit 27 (link_training (link_sta s)) OR
     fbit 28 (slot_clock_configuration (link_sta s)) OR
     fbit 29 (data_link_layer_link_active (link_sta s)) OR
     fbit 30 (link_bandwidth_management_status (link_sta s)) OR
     fbit 31 (link_autonomous_bandwidth_status (link_sta s))"

definition read_pcie_reg5 :: "pcie_capability \<Rightarrow> int" where
  "read_pcie_reg5 s =
     fbit 0 (attention_button_present (slot_cap s)) OR
     fbit 1 (power_controller_present (slot_cap s)) OR
     fbit 2 (mrl_sensor_present (slot_cap s)) OR
     fbit 3 (attention_indicator_present (slot_cap s)) OR
     fbit 4 (power_indicator_present (slot_cap s)) OR
     fbit 5 (hot_plug_surprise (slot_cap s)) OR
     fbit 6 (hot_plug_capable (slot_cap s)) OR
     push_bit 7 (slot_power_limit_value (slot_cap s) AND 0xff) OR
     push_bit 15 (slot_power_limit_scale (slot_cap s) AND 0x3) OR
     fbit 17 (electromechanical_interlock_present (slot_cap s)) OR
     fbit 18 (no_command_completed_support (slot_cap s)) OR
     push_bit 19 (physical_slot_number (slot_cap s) AND 0x1fff)"

definition read_pcie_reg6 :: "pcie_capability \<Rightarrow> int" where
  "read_pcie_reg6 s =
     fbit 0 (attention_button_pressed_enable (slot_ctl s)) OR
     fbit 1 (power_fault_detected_enable (slot_ctl s)) OR
     fbit 2 (mrl_sensor_changed_enable (slot_ctl s)) OR
     fbit 3 (presence_detect_changed_enable (slot_ctl s)) OR
     fbit 4 (command_completed_interrupt_enable (slot_ctl s)) OR
     fbit 5 (hot_plug_interrupt_enable (slot_ctl s)) OR
     push_bit 6 (attention_indicator_control (slot_ctl s) AND 0x3) OR
     push_bit 8 (power_indicator_control (slot_ctl s) AND 0x3) OR
     fbit 10 (power_controller_control (slot_ctl s)) OR
     fbit 11 (electromechanical_interlock_control (slot_ctl s)) OR
     fbit 12 (data_link_layer_state_changed_enable (slot_ctl s)) OR
     fbit 16 (attention_button_pressed (slot_sta s)) OR
     fbit 17 (power_fault_detected (slot_sta s)) OR
     fbit 18 (mrl_sensor_changed (slot_sta s)) OR
     fbit 19 (presence_detect_changed (slot_sta s)) OR
     fbit 20 (command_completed (slot_sta s)) OR
     fbit 21 (mrl_sensor_state (slot_sta s)) OR
     fbit 22 (presence_detect_state (slot_sta s)) OR
     fbit 23 (electromechanical_interlock_status (slot_sta s)) OR
     fbit 24 (data_link_layer_state_changed (slot_sta s))"

definition read_pcie_reg7 :: "pcie_capability \<Rightarrow> int" where
  "read_pcie_reg7 s =
     fbit 0 (system_error_on_correctable_error_enable (root_ctl s)) OR
     fbit 1 (system_error_on_non_fatal_error_enable (root_ctl s)) OR
     fbit 2 (system_error_on_fatal_error_enable (root_ctl s)) OR
     fbit 3 (pme_interrupt_enable (root_ctl s)) OR
     fbit 4 (crs_software_visibility_enable (root_ctl s)) OR
     fbit 16 (crs_software_visibility (root_cap s))"

definition read_pcie_reg8 :: "pcie_capability \<Rightarrow> int" where
  "read_pcie_reg8 s =
     (pme_requester_id (root_sta s) AND 0xffff) OR
     fbit 16 (pme_status (root_sta s)) OR
     fbit 17 (pme_pending (root_sta s))"

definition read_pcie_reg9 :: "pcie_capability \<Rightarrow> int" where
  "read_pcie_reg9 s =
     (completion_timeout_ranges_supported (dev_cap2 s) AND 0xf) OR
     fbit 4 (completion_timeout_disable_supported (dev_cap2 s)) OR
     fbit 5 (ari_forwarding_supported (dev_cap2 s)) OR
     fbit 6 (atomic_op_forwarding_supported (dev_cap2 s)) OR
     fbit 7 (atomic_op_32_bit_completer_supported (dev_cap2 s)) OR
     fbit 8 (atomic_op_64_bit_completer_supported (dev_cap2 s)) OR
     fbit 9 (cas_128_bit_completer_supported (dev_cap2 s)) OR
     fbit 10 (no_ro_enabled_pr_pr_passing (dev_cap2 s)) OR
     fbit 11 (ltr_mechanism_supported (dev_cap2 s)) OR
     push_bit 12 (tph_completer_supported (dev_cap2 s) AND 0x3) OR
     push_bit 18 (obff_supported (dev_cap2 s) AND 0x3) OR
     fbit 20 (extended_fmt_field_supported (dev_cap2 s)) OR
     fbit 21 (end_end_tlp_prefix_supported (dev_cap2 s)) OR
     push_bit 22 (max_end_end_tlp_prefix (dev_cap2 s) AND 0x3)"

definition read_pcie_reg10 :: "pcie_capability \<Rightarrow> int" where
  "read_pcie_reg10 s =
     (completion_timeout_value (dev_ctl2 s) AND 0xf) OR
     fbit 4 (completion_timeout_disable (dev_ctl2 s)) OR
     fbit 5 (ari_forwarding_enable (dev_ctl2 s)) OR
     fbit 6 (atomic_op_requester_enable (dev_ctl2 s)) OR
     fbit 7 (atomic_op_egress_blocking (dev_ctl2 s)) OR
     fbit 8 (ido_request_enable (dev_ctl2 s)) OR
     fbit 9 (ido_completion_enable (dev_ctl2 s)) OR
     fbit 10 (ltr_mechanism_enable (dev_ctl2 s)) OR
     push_bit 13 (obff_enable (dev_ctl2 s) AND 0x3) OR
     fbit 15 (end_end_tlp_prefix_blocking (dev_ctl2 s))"

definition read_pcie_reg11 :: "pcie_capability \<Rightarrow> int" where
  "read_pcie_reg11 s =
     push_bit 1 (supported_link_speeds (link_cap2 s) AND 0x7f) OR
     fbit 8 (crosslink_supported (link_cap2 s))"

definition read_pcie_reg12 :: "pcie_capability \<Rightarrow> int" where
  "read_pcie_reg12 s =
     (target_link_speed (link_ctl2 s) AND 0xf) OR
     fbit 4 (enter_compliance (link_ctl2 s)) OR
     fbit 5 (hardware_autonomous_speed_disable (link_ctl2 s)) OR
     fbit 6 (selectable_de_emphasis (link_ctl2 s)) OR
     push_bit 7 (transmit_margin (link_ctl2 s) AND 0x7) OR
     fbit 10 (enter_modified_compliance (link_ctl2 s)) OR
     fbit 11 (compliance_sos (link_ctl2 s)) OR
     push_bit 12 (compliance_preset_de_emphasis (link_ctl2 s) AND 0xf) OR
     fbit 16 (current_de_emphasis_level (link_sta2 s)) OR
     fbit 17 (equalization_complete (link_sta2 s)) OR
     fbit 18 (equalization_phase_1_successful (link_sta2 s)) OR
     fbit 19 (equalization_phase_2_successful (link_sta2 s)) OR
     fbit 20 (equalization_phase_3_successful (link_sta2 s)) OR
     fbit 21 (link_equalization_request (link_sta2 s))"

definition read_pcie_cap_register :: "pcie_capability \<Rightarrow> int \<Rightarrow> int" where
  "read_pcie_cap_register s reg =
     (if reg = 0 then read_pcie_reg0 s
      else if reg = 1 then read_pcie_reg1 s
      else if reg = 2 then read_pcie_reg2 s
      else if reg = 3 then read_pcie_reg3 s
      else if reg = 4 then read_pcie_reg4 s
      else if reg = 5 then read_pcie_reg5 s
      else if reg = 6 then read_pcie_reg6 s
      else if reg = 7 then read_pcie_reg7 s
      else if reg = 8 then read_pcie_reg8 s
      else if reg = 9 then read_pcie_reg9 s
      else if reg = 10 then read_pcie_reg10 s
      else if reg = 11 then read_pcie_reg11 s
      else if reg = 12 then read_pcie_reg12 s
      else 0)"

definition write_pcie_reg2 :: "int \<Rightarrow> int \<Rightarrow> pcie_capability \<Rightarrow> pcie_capability" where
  "write_pcie_reg2 data msk s = s\<lparr>
       dev_ctl := (dev_ctl s)\<lparr>correctable_error_reporting_enable := (if msk AND 0x1 \<noteq> 0 then tst data 0 else correctable_error_reporting_enable (dev_ctl s)),
         non_fatal_error_reporting_enable := (if msk AND 0x1 \<noteq> 0 then tst data 1 else non_fatal_error_reporting_enable (dev_ctl s)),
         fatal_error_reporting_enable := (if msk AND 0x1 \<noteq> 0 then tst data 2 else fatal_error_reporting_enable (dev_ctl s)),
         unsupported_request_reporting_enable := (if msk AND 0x1 \<noteq> 0 then tst data 3 else unsupported_request_reporting_enable (dev_ctl s)),
         enable_relaxed_ordering := (if msk AND 0x1 \<noteq> 0 then tst data 4 else enable_relaxed_ordering (dev_ctl s)),
         max_payload_size := (if msk AND 0x1 \<noteq> 0 then drop_bit 5 data AND 0x7 else max_payload_size (dev_ctl s)),
         extended_tag_field_enable := (if msk AND 0x2 \<noteq> 0 then tst data 8 else extended_tag_field_enable (dev_ctl s)),
         phantom_functions_enable := (if msk AND 0x2 \<noteq> 0 then tst data 9 else phantom_functions_enable (dev_ctl s)),
         aux_power_pm_enable := (if msk AND 0x2 \<noteq> 0 then tst data 10 else aux_power_pm_enable (dev_ctl s)),
         enable_no_snoop := (if msk AND 0x2 \<noteq> 0 then tst data 11 else enable_no_snoop (dev_ctl s)),
         max_read_request_size := (if msk AND 0x2 \<noteq> 0 then drop_bit 12 data AND 0x7 else max_read_request_size (dev_ctl s))\<rparr>,
       dev_sta := (dev_sta s)\<lparr>correctable_error_detected := (if msk AND 0x4 \<noteq> 0 \<and> tst data 16 then False else correctable_error_detected (dev_sta s)),
         nonfatal_error_detected := (if msk AND 0x4 \<noteq> 0 \<and> tst data 17 then False else nonfatal_error_detected (dev_sta s)),
         fatal_error_detected := (if msk AND 0x4 \<noteq> 0 \<and> tst data 18 then False else fatal_error_detected (dev_sta s)),
         unsupported_request_detected := (if msk AND 0x4 \<noteq> 0 \<and> tst data 19 then False else unsupported_request_detected (dev_sta s)),
         aux_power_detected := (if msk AND 0x4 \<noteq> 0 \<and> tst data 20 then False else aux_power_detected (dev_sta s)),
         transactions_pending := (if msk AND 0x4 \<noteq> 0 \<and> tst data 21 then False else transactions_pending (dev_sta s))\<rparr>\<rparr>"

definition write_pcie_reg4 :: "int \<Rightarrow> int \<Rightarrow> pcie_capability \<Rightarrow> pcie_capability" where
  "write_pcie_reg4 data msk s = s\<lparr>
       link_ctl := (link_ctl s)\<lparr>aspm_control := (if msk AND 0x1 \<noteq> 0 then data AND 3 else aspm_control (link_ctl s)),
         read_completion_boundary := (if msk AND 0x1 \<noteq> 0 then tst data 4 else read_completion_boundary (link_ctl s)),
         common_clock_configuration := (if msk AND 0x1 \<noteq> 0 then tst data 6 else common_clock_configuration (link_ctl s)),
         extended_synch := (if msk AND 0x1 \<noteq> 0 then tst data 7 else extended_synch (link_ctl s)),
         enable_clock_power_management := (if msk AND 0x2 \<noteq> 0 then tst data 8 else enable_clock_power_management (link_ctl s)),
         hardware_autonomous_width_disable := (if msk AND 0x2 \<noteq> 0 then tst data 9 else hardware_autonomous_width_disable (link_ctl s)),
         link_bandwidth_management_interrupt_enable := (if msk AND 0x2 \<noteq> 0 then tst data 10 else link_bandwidth_management_interrupt_enable (link_ctl s)),
         link_autonomous_bandwidth_interrupt_enable := (if msk AND 0x2 \<noteq> 0 then tst data 11 else link_autonomous_bandwidth_interrupt_enable (link_ctl s))\<rparr>,
       link_sta := (link_sta s)\<lparr>link_bandwidth_management_status := (if msk AND 0x8 \<noteq> 0 \<and> tst data 30 then False else link_bandwidth_management_status (link_sta s)),
         link_autonomous_bandwidth_status := (if msk AND 0x8 \<noteq> 0 \<and> tst data 31 then False else link_autonomous_bandwidth_status (link_sta s))\<rparr>\<rparr>"

definition write_pcie_reg6 :: "int \<Rightarrow> int \<Rightarrow> pcie_capability \<Rightarrow> pcie_capability" where
  "write_pcie_reg6 data msk s = s\<lparr>
       slot_ctl := (slot_ctl s)\<lparr>attention_button_pressed_enable := (if msk AND 0x1 \<noteq> 0 then tst data 0 else attention_button_pressed_enable (slot_ctl s)),
         power_fault_detected_enable := (if msk AND 0x1 \<noteq> 0 then tst data 1 else power_fault_detected_enable (slot_ctl s)),
         mrl_sensor_changed_enable := (if msk AND 0x1 \<noteq> 0 then tst data 2 else mrl_sensor_changed_enable (slot_ctl s)),
         presence_detect_changed_enable := (if msk AND 0x1 \<noteq> 0 then tst data 3 else presence_detect_changed_enable (slot_ctl s)),
         command_completed_interrupt_enable := (if msk AND 0x1 \<noteq> 0 then tst data 4 else command_completed_interrupt_enable (slot_ctl s)),
         hot_plug_interrupt_enable := (if msk AND 0x1 \<noteq> 0 then tst data 5 else hot_plug_interrupt_enable (slot_ctl s)),
         attention_indicator_control := (if msk AND 0x1 \<noteq> 0 then drop_bit 6 data AND 0x3 else attention_indicator_control (slot_ctl s)),
         power_indicator_control := (if msk AND 0x2 \<noteq> 0 then drop_bit 8 data AND 0x3 else power_indicator_control (slot_ctl s)),
         power_controller_control := (if msk AND 0x2 \<noteq> 0 then tst data 10 else power_controller_control (slot_ctl s)),
         electromechanical_interlock_control := (if msk AND 0x2 \<noteq> 0 then tst data 11 else electromechanical_interlock_control (slot_ctl s)),
         data_link_layer_state_changed_enable := (if msk AND 0x2 \<noteq> 0 then tst data 12 else data_link_layer_state_changed_enable (slot_ctl s))\<rparr>,
       slot_sta := (slot_sta s)\<lparr>attention_button_pressed := (if msk AND 0x4 \<noteq> 0 \<and> tst data 16 then False else attention_button_pressed (slot_sta s)),
         power_fault_detected := (if msk AND 0x4 \<noteq> 0 \<and> tst data 17 then False else power_fault_detected (slot_sta s)),
         mrl_sensor_changed := (if msk AND 0x4 \<noteq> 0 \<and> tst data 18 then False else mrl_sensor_changed (slot_sta s)),
         presence_detect_changed := (if msk AND 0x4 \<noteq> 0 \<and> tst data 19 then False else presence_detect_changed (slot_sta s)),
         command_completed := (if msk AND 0x4 \<noteq> 0 \<and> tst data 20 then False else command_completed (slot_sta s)),
         data_link_layer_state_changed := (if msk AND 0x8 \<noteq> 0 \<and> tst data 24 then False else data_link_layer_state_changed (slot_sta s))\<rparr>\<rparr>"

definition write_pcie_reg7 :: "int \<Rightarrow> int \<Rightarrow> pcie_capability \<Rightarrow> pcie_capability" where
  "write_pcie_reg7 data msk s = s\<lparr>
       root_ctl := (root_ctl s)\<lparr>system_error_on_correctable_error_enable := (if msk AND 0x1 \<noteq> 0 then tst data 0 else system_error_on_correctable_error_enable (root_ctl s)),
         system_error_on_non_fatal_error_enable := (if msk AND 0x1 \<noteq> 0 then tst data 1 else system_error_on_non_fatal_error_enable (root_ctl s)),
         system_error_on_fatal_error_enable := (if msk AND 0x1 \<noteq> 0 then tst data 2 else system_error_on_fatal_error_enable (root_ctl s)),
         pme_interrupt_enable := (if msk AND 0x1 \<noteq> 0 then tst data 3 else pme_interrupt_enable (root_ctl s)),
         crs_software_visibility_enable := (if msk AND 0x1 \<noteq> 0 then tst data 4 else crs_software_visibility_enable (root_ctl s))\<rparr>\<rparr>"

definition write_pcie_reg8 :: "int \<Rightarrow> int \<Rightarrow> pcie_capability \<Rightarrow> pcie_capability" where
  "write_pcie_reg8 data msk s = s\<lparr>
       root_sta := (root_sta s)\<lparr>pme_status := (if msk AND 0x4 \<noteq> 0 \<and> tst data 16 then False else pme_status (root_sta s))\<rparr>\<rparr>"

definition write_pcie_reg10 :: "int \<Rightarrow> int \<Rightarrow> pcie_capability \<Rightarrow> pcie_capability" where
  "write_pcie_reg10 data msk s = s\<lparr>
       dev_ctl2 := (dev_ctl2 s)\<lparr>completion_timeout_value := (if msk AND 0x1 \<noteq> 0 then data AND 0xf else completion_timeout_value (dev_ctl2 s)),
         completion_timeout_disable := (if msk AND 0x1 \<noteq> 0 then tst data 4 else completion_timeout_disable (dev_ctl2 s)),
         ari_forwarding_enable := (if msk AND 0x1 \<noteq> 0 then tst data 5 else ari_forwarding_enable (dev_ctl2 s)),
         atomic_op_requester_enable := (if msk AND 0x1 \<noteq> 0 then tst data 6 else atomic_op_requester_enable (dev_ctl2 s)),
         atomic_op_egress_blocking := (if msk AND 0x1 \<noteq> 0 then tst data 7 else atomic_op_egress_blocking (dev_ctl2 s)),
         ido_request_enable := (if msk AND 0x2 \<noteq> 0 then tst data 8 else ido_request_enable (dev_ctl2 s)),
         ido_completion_enable := (if msk AND 0x2 \<noteq> 0 then tst data 9 else ido_completion_enable (dev_ctl2 s)),
         ltr_mechanism_enable := (if msk AND 0x2 \<noteq> 0 then tst data 10 else ltr_mechanism_enable (dev_ctl2 s)),
         obff_enable := (if msk AND 0x2 \<noteq> 0 then drop_bit 13 data AND 0x3 else obff_enable (dev_ctl2 s)),
         end_end_tlp_prefix_blocking := (if msk AND 0x2 \<noteq> 0 then tst data 15 else end_end_tlp_prefix_blocking (dev_ctl2 s))\<rparr>\<rparr>"

definition write_pcie_reg12 :: "int \<Rightarrow> int \<Rightarrow> pcie_capability \<Rightarrow> pcie_capability" where
  "write_pcie_reg12 data msk s = s\<lparr>
       link_ctl2 := (link_ctl2 s)\<lparr>target_link_speed := (if msk AND 0x1 \<noteq> 0 then data AND 0xf else target_link_speed (link_ctl2 s)),
         enter_compliance := (if msk AND 0x1 \<noteq> 0 then tst data 4 else enter_compliance (link_ctl2 s)),
         hardware_autonomous_speed_disable := (if msk AND 0x1 \<noteq> 0 then tst data 5 else hardware_autonomous_speed_disable (link_ctl2 s)),
         transmit_margin := (if msk AND 0x2 \<noteq> 0 then ((if msk AND 0x1 \<noteq> 0 then (transmit_margin (link_ctl2 s) AND 0x6) OR (drop_bit 7 data AND 0x1) else transmit_margin (link_ctl2 s)) AND 0x1) OR (drop_bit 7 data AND 0x6) else (if msk AND 0x1 \<noteq> 0 then (transmit_margin (link_ctl2 s) AND 0x6) OR (drop_bit 7 data AND 0x1) else transmit_margin (link_ctl2 s))),
         enter_modified_compliance := (if msk AND 0x2 \<noteq> 0 then tst data 10 else enter_modified_compliance (link_ctl2 s)),
         compliance_sos := (if msk AND 0x2 \<noteq> 0 then tst data 11 else compliance_sos (link_ctl2 s)),
         compliance_preset_de_emphasis := (if msk AND 0x2 \<noteq> 0 then drop_bit 12 data AND 0xff else compliance_preset_de_emphasis (link_ctl2 s))\<rparr>\<rparr>"

definition write_pcie_cap_register :: "int \<Rightarrow> int \<Rightarrow> int \<Rightarrow> pcie_capability \<Rightarrow> pcie_capability res" where
  "write_pcie_cap_register reg data msk s =
     (if reg = 2 then Inr (write_pcie_reg2 data msk s)
      else if reg = 4 then Inr (write_pcie_reg4 data msk s)
      else if reg = 6 then Inr (write_pcie_reg6 data msk s)
      else if reg = 7 then Inr (write_pcie_reg7 data msk s)
      else if reg = 8 then Inr (write_pcie_reg8 data msk s)
      else if reg = 10 then Inr (write_pcie_reg10 data msk s)
      else if reg = 12 then
        (if link_equalization_request (link_sta2 s) then Inl UnboundLocalError
         else Inr (write_pcie_reg12 data msk s))
      else Inr s)"

section \<open>MSI capability\<close>

record msi_capability =
  msi_enable :: bool
  msi_multiple_message_capable :: int
  msi_multiple_message_enable :: int
  msi_64bit_address_capable :: int
  msi_per_vector_mask_capable :: int
  msi_message_address :: int
  msi_message_data :: int
  msi_mask_bits :: int
  msi_pending_bits :: int

definition MSICapability :: msi_capability where
  "MSICapability = \<lparr>msi_enable = False, msi_multiple_message_capable = 0,
     msi_multiple_message_enable = 0, msi_64bit_address_capable = 0, msi_per_vector_mask_capable = 0,
     msi_message_address = 0, msi_message_data = 0, msi_mask_bits = 0, msi_pending_bits = 0\<rparr>"

definition read_msi_cap_register :: "msi_capability \<Rightarrow> int \<Rightarrow> int option" where
  "read_msi_cap_register s reg =
     (let wide = msi_64bit_address_capable s \<noteq> 0; masked = msi_per_vector_mask_capable s \<noteq> 0
      in if reg = 0 then
           Some (fbit 16 (msi_enable s) OR push_bit 17 (msi_multiple_message_capable s AND 0x7) OR
                 push_bit 20 (msi_multiple_message_enable s AND 0x7) OR fbit 23 wide OR fbit 24 masked)
         else if reg = 1 then Some (msi_message_address s AND 0xfffffffc)
         else if reg = 2 \<and> wide then Some (drop_bit 32 (msi_message_address s) AND 0xffffffff)
         else if reg = (if wide then 3 else 2) then Some (msi_message_data s AND 0xffff)
         else if reg = (if wide then 4 else 3) \<and> masked then Some (msi_mask_bits s AND 0xffffffff)
         else if reg = (if wide then 5 else 4) \<and> masked then Some (msi_pending_bits s AND 0xffffffff)
         else None)"

definition write_msi_cap_register :: "int \<Rightarrow> int \<Rightarrow> int \<Rightarrow> msi_capability \<Rightarrow> msi_capability" where
  "write_msi_cap_register reg data msk s =
     (let wide = msi_64bit_address_capable s \<noteq> 0; masked = msi_per_vector_mask_capable s \<noteq> 0
      in if reg = 0 then
           s\<lparr>msi_enable := (if msk AND 0x4 \<noteq> 0 then tst data 16 else msi_enable s),
             msi_multiple_message_enable :=
               (if msk AND 0x4 \<noteq> 0 then drop_bit 20 data AND 0x7 else msi_multiple_message_enable s)\<rparr>
         else if reg = 1 then
           s\<lparr>msi_message_address :=
               byte_mask_update (msi_message_address s) msk data (-1) AND 0xfffffffffffffffc\<rparr>
         else if reg = 2 \<and> wide then
           s\<lparr>msi_message_address :=
               byte_mask_update (msi_message_address s) (push_bit 4 msk) (push_bit 32 data) (-1)
                 AND 0xfffffffffffffffc\<rparr>
         else if reg = (if wide then 3 else 2) then
           s\<lparr>msi_message_data := byte_mask_update (msi_message_data s) (msk AND 0x3) data (-1) AND 0xffff\<rparr>
         else if reg = (if wide then 4 else 3) \<and> masked then
           s\<lparr>msi_mask_bits := byte_mask_update (msi_mask_bits s) msk data (-1) AND 0xffffffff\<rparr>
         else s)"

text \<open>The word \<open>issue_msi_interrupt\<close> writes to the message address; \<open>None\<close> where it only prints. A
  negative message number is refused before it is combined.\<close>

definition msi_message_word :: "msi_capability \<Rightarrow> int \<Rightarrow> int option" where
  "msi_message_word s number =
     (if \<not> msi_enable s then None
      else if number < 0 \<or> number \<ge> 2 ^ nat (msi_multiple_message_enable s) \<or>
              number \<ge> 2 ^ nat (msi_multiple_message_capable s) then None
      else Some ((msi_message_data s AND NOT (2 ^ nat (msi_multiple_message_enable s) - 1)) OR number))"

section \<open>MSI-X capability\<close>

record msix_capability =
  msix_table_size :: int
  msix_function_mask :: bool
  msix_enable :: bool
  msix_table_bar_indicator_register :: int
  msix_table_offset :: int
  msix_pba_bar_indicator_register :: int
  msix_pba_offset :: int

definition MSIXCapability :: msix_capability where
  "MSIXCapability = \<lparr>msix_table_size = 0, msix_function_mask = False, msix_enable = False,
     msix_table_bar_indicator_register = 0, msix_table_offset = 0,
     msix_pba_bar_indicator_register = 0, msix_pba_offset = 0\<rparr>"

definition read_msix_cap_register :: "msix_capability \<Rightarrow> int \<Rightarrow> int option" where
  "read_msix_cap_register s reg =
     (if reg = 0 then
        Some (push_bit 16 (msix_table_size s AND 0x7ff) OR fbit 30 (msix_function_mask s) OR
              fbit 31 (msix_enable s))
      else if reg = 1 then
        Some ((msix_table_bar_indicator_register s AND 0x7) OR (msix_table_offset s AND 0xfffffff8))
      else if reg = 2 then
        Some ((msix_pba_bar_indicator_register s AND 0x7) OR (msix_pba_offset s AND 0xfffffff8))
      else None)"

definition write_msix_cap_register :: "int \<Rightarrow> int \<Rightarrow> int \<Rightarrow> msix_capability \<Rightarrow> msix_capability" where
  "write_msix_cap_register reg data msk s =
     (if reg = 0 then
        s\<lparr>msix_function_mask := (if msk AND 0x8 \<noteq> 0 then tst data 30 else msix_function_mask s),
          msix_enable := (if msk AND 0x8 \<noteq> 0 then tst data 31 else msix_enable s)\<rparr>
      else s)"

section \<open>Properties\<close>

lemma tst_bit [simp]: "tst data n \<longleftrightarrow> bit data n"
  by (simp add: tst_def and_push_bit_1 del: push_bit_of_1)

lemma bit_fbit [bit_masks]: "bit (fbit n b) i \<longleftrightarrow> b \<and> i = n"
  by (auto simp: fbit_def bit_exp_iff)

lemma mask_byte:
  "(msk AND 0x1 \<noteq> 0) = bit msk 0" "(msk AND 0x2 \<noteq> 0) = bit msk 1" "(msk AND 0x4 \<noteq> 0) = bit msk 2"
  "(msk AND 0x8 \<noteq> 0) = bit (msk::int) 3"
  using and_push_bit_1 [of msk 0] and_push_bit_1 [of msk 1] and_push_bit_1 [of msk 2]
    and_push_bit_1 [of msk 3] by (simp_all add: push_bit_eq_mult)

lemma less_15_cases: "i < (15::nat) \<Longrightarrow> i \<in> {14, 13, 12, 11, 10, 9, 8, 7, 6, 5, 4, 3, 2, 1, 0}"
  by (simp only: insert_iff empty_iff) arith

lemma device_control_bits:
  "i < 15 \<Longrightarrow> bit (read_pcie_reg2 (write_pcie_reg2 data msk s)) i =
     (if bit msk (i div 8) then bit data i else bit (read_pcie_reg2 s) i)"
  unfolding read_pcie_reg2_def write_pcie_reg2_def mask_byte
  by (drule less_15_cases) (elim insertE emptyE; simp add: bit_masks del: and_low_masks push_bit_and)

lemma device_status_bits:
  "i \<in> {16, 17, 18, 19, 20, 21} \<Longrightarrow> bit (read_pcie_reg2 (write_pcie_reg2 data msk s)) i =
     (bit (read_pcie_reg2 s) i \<and> \<not> (bit msk 2 \<and> bit data i))"
  unfolding read_pcie_reg2_def write_pcie_reg2_def mask_byte
  by (elim insertE emptyE; simp add: bit_masks del: and_low_masks push_bit_and)

lemma device_reserved_bits: "i = 15 \<or> 22 \<le> i \<Longrightarrow> \<not> bit (read_pcie_reg2 s) i"
  unfolding read_pcie_reg2_def
  by (elim disjE; auto simp: bit_masks simp del: and_low_masks push_bit_and)

text \<open>
  The device control and status register of the PCI Express capability behaves as its layout
  says: after a write under byte enables, each of the fifteen control bits reads back the written
  bit when its byte is enabled and is unchanged otherwise; each of the six status bits is cleared
  by writing a one to it with its byte enabled and is otherwise unchanged; the rest reads as zero.
\<close>

theorem device_control_write:
  assumes "write_pcie_cap_register 2 data msk s = Inr s'"
  shows "bit (read_pcie_cap_register s' 2) i =
    (if i < 15 then (if bit msk (i div 8) then bit data i else bit (read_pcie_cap_register s 2) i)
     else if 16 \<le> i \<and> i \<le> 21
     then bit (read_pcie_cap_register s 2) i \<and> \<not> (bit msk 2 \<and> bit data i)
     else False)"
proof -
  have s': "s' = write_pcie_reg2 data msk s"
    using assms by (simp add: write_pcie_cap_register_def)
  consider "i < 15" | "i \<in> {16, 17, 18, 19, 20, 21}" | "i = 15 \<or> 22 \<le> i"
    unfolding insert_iff by linarith
  then show ?thesis
  proof cases
    case 1
    then show ?thesis by (simp add: s' read_pcie_cap_register_def device_control_bits)
  next
    case 2
    then have "\<not> i < 15" "16 \<le> i \<and> i \<le> 21" by auto
    then show ?thesis using device_status_bits [OF 2] by (simp add: s' read_pcie_cap_register_def)
  next
    case 3
    then have "\<not> i < 15" "\<not> (16 \<le> i \<and> i \<le> 21)" by auto
    then show ?thesis using device_reserved_bits [OF 3] by (simp add: read_pcie_cap_register_def)
  qed
qed

theorem device_control_write_witness:
  "\<exists>s'. write_pcie_cap_register 2 0x20 1 PCIECapability = Inr s' \<and> bit (read_pcie_cap_register s' 2) 5"
proof -
  have w: "write_pcie_cap_register 2 0x20 1 PCIECapability = Inr (write_pcie_reg2 0x20 1 PCIECapability)"
    by (simp add: write_pcie_cap_register_def)
  from device_control_write [OF w, of 5] w show ?thesis by simp
qed

text \<open>
  The link control register does not read back what is written: the read completion boundary
  flag is taken from bit 4 of the written value but shown at bit 3, and bit 4 (link disable) cannot
  be written at all.
\<close>

theorem link_control_rcb_mismatch:
  "bit (read_pcie_reg4 (write_pcie_reg4 data msk s)) 3 =
     (if bit msk 0 then bit data 4 else bit (read_pcie_reg4 s) 3) \<and>
   bit (read_pcie_reg4 (write_pcie_reg4 data msk s)) 4 = bit (read_pcie_reg4 s) 4"
  unfolding read_pcie_reg4_def write_pcie_reg4_def mask_byte
  by (simp add: bit_masks del: and_low_masks push_bit_and)

text \<open>The link capabilities register shifts its fields the wrong way: bits 4 to 17, which should hold
  the link width, the ASPM support and the exit latencies, always read as zero.\<close>

lemma bit_and_63 [bit_masks]: "bit ((x::int) AND 63) i \<longleftrightarrow> bit x i \<and> i < 6"
  using bit_mask_int [of x 6 i] by (simp del: and_low_masks)

lemma link_capabilities_lost: "4 \<le> i \<Longrightarrow> i < 18 \<Longrightarrow> \<not> bit (read_pcie_reg3 s) i"
  unfolding read_pcie_reg3_def
  by (auto simp: bit_masks simp del: and_low_masks push_bit_and drop_bit_and)

subsection \<open>Message signalled interrupts\<close>

lemma bit_and_fc64: "bit ((x::int) AND 0xfffffffffffffffc) i \<longleftrightarrow> bit x i \<and> 2 \<le> i \<and> i < 64"
proof -
  have "(0xfffffffffffffffc :: int) = push_bit 2 (2 ^ 62 - 1)" by (simp add: push_bit_eq_mult)
  then have "bit (0xfffffffffffffffc :: int) i \<longleftrightarrow> 2 \<le> i \<and> i < 64"
    by (simp only: bit_push_bit_iff_int mask_eq_exp_minus_1 [symmetric] bit_mask_iff possible_bit_int) auto
  then show ?thesis by (simp only: bit_and_iff)
qed

text \<open>
  The 64-bit message address survives the two 32-bit register writes that set it: after full
  writes of its low and high words in that order the address is their concatenation with the two
  low bits cleared, whatever it was before.
\<close>

theorem msi_address_write:
  assumes "msi_64bit_address_capable s \<noteq> 0" and "0 \<le> lo" "lo < 2 ^ 32" and "0 \<le> hi" "hi < 2 ^ 32"
  shows "msi_message_address (write_msi_cap_register 2 hi 15 (write_msi_cap_register 1 lo 15 s)) =
    (lo - lo mod 4) + hi * 2 ^ 32"
proof -
  let ?a = "msi_message_address s"
  have f15: "bit (15::int) j \<longleftrightarrow> j < 4" for j
    using bit_mask_int [of "-1" 4 j] by simp
  have "bit (byte_mask_update (byte_mask_update ?a 15 lo (-1) AND 0xfffffffffffffffc) (push_bit 4 15)
      (push_bit 32 hi) (-1) AND 0xfffffffffffffffc) i = bit ((lo AND NOT 3) OR push_bit 32 hi) i" for i
  proof -
    have "32 \<le> i \<Longrightarrow> \<not> bit lo i" "64 \<le> i \<Longrightarrow> \<not> bit hi (i - 32)"
      using assms bit_high_zero [of lo 32 i] bit_high_zero [of hi 32 "i - 32"] by auto
    moreover have "bit (3::int) i \<longleftrightarrow> i < 2" using bit_mask_int [of "-1" 2 i] by simp
    moreover have "bit (push_bit 4 15 :: int) (i div 8) \<longleftrightarrow> 32 \<le> i \<and> i < 64"
      by (simp only: bit_push_bit_iff_int f15) arith
    moreover have "bit (15::int) (i div 8) \<longleftrightarrow> i < 32" by (simp only: f15) arith
    ultimately show ?thesis
      unfolding bit_and_fc64
      by (subst bit_byte_mask_update, simp, unfold bit_and_fc64, subst bit_byte_mask_update, simp)
        (simp only: bit_or_iff bit_and_iff bit_not_iff bit_push_bit_iff_int possible_bit_int
          bit_minus_1_iff, auto)
  qed
  then have "byte_mask_update (byte_mask_update ?a 15 lo (-1) AND 0xfffffffffffffffc) (push_bit 4 15)
      (push_bit 32 hi) (-1) AND 0xfffffffffffffffc = (lo AND NOT 3) OR push_bit 32 hi"
    by (rule bit_eqI)
  also have "\<dots> = (lo - lo mod 4) + hi * 2 ^ 32"
  proof -
    have "0 \<le> lo - lo mod 4" "lo - lo mod 4 < 2 ^ 32"
      using assms(2,3) pos_mod_bound [of 4 lo] pos_mod_sign [of 4 lo] mod_le_divisor
      by (auto simp: zmod_le_nonneg_dividend)
    then show ?thesis using or_push_bit_eq_add [of "lo - lo mod 4" 32 hi] by simp
  qed
  finally show ?thesis
    using assms(1) by (simp add: write_msi_cap_register_def Let_def)
qed

theorem msi_address_write_witness:
  "msi_message_address (write_msi_cap_register 2 1 15 (write_msi_cap_register 1 0x1007 15
     (MSICapability\<lparr>msi_64bit_address_capable := 1\<rparr>))) = 0x100001004"
  using msi_address_write [of "MSICapability\<lparr>msi_64bit_address_capable := 1\<rparr>" "0x1007" 1] by simp

text \<open>
  The word an enabled function writes to signal message \<open>n\<close> carries \<open>n\<close> in the low bits that
  \<open>multiple message enable\<close> grants and leaves the configured message data above them unchanged, so
  the receiver recovers the message number; a disabled function or a message number out of range
  signals nothing.
\<close>

theorem msi_message_word_correct:
  "msi_message_word s n = Some w \<longleftrightarrow>
     msi_enable s \<and> 0 \<le> n \<and> n < 2 ^ nat (msi_multiple_message_enable s) \<and>
     n < 2 ^ nat (msi_multiple_message_capable s) \<and>
     w mod 2 ^ nat (msi_multiple_message_enable s) = n \<and>
     w div 2 ^ nat (msi_multiple_message_enable s) =
       msi_message_data s div 2 ^ nat (msi_multiple_message_enable s)"
proof -
  let ?k = "nat (msi_multiple_message_enable s)" and ?d = "msi_message_data s"
  have w: "(?d AND NOT (2 ^ ?k - 1)) OR n = ?d div 2 ^ ?k * 2 ^ ?k + n" if "0 \<le> n" "n < 2 ^ ?k"
  proof -
    have "?d AND NOT (2 ^ ?k - 1) = push_bit ?k (?d div 2 ^ ?k)"
      by (simp only: and_not_mask_int push_bit_eq_mult minus_mod_eq_div_mult)
    with or_push_bit_eq_add [OF that] show ?thesis by (simp only: or.commute [of n] add.commute)
  qed
  have "w = w div 2 ^ ?k * 2 ^ ?k + w mod 2 ^ ?k" by (simp only: div_mult_mod_eq)
  moreover have "(q * 2 ^ ?k + n) mod 2 ^ ?k = n" "(q * 2 ^ ?k + n) div 2 ^ ?k = q"
    if "0 \<le> n" "n < 2 ^ ?k" for q using that by simp_all
  ultimately show ?thesis
    unfolding msi_message_word_def using w by (auto simp: not_le not_less)
qed

end
