(* ===== verification/Pcie_Tlp.thy ===== *)
theory Pcie_Tlp
  imports Pcie_Base
begin

unbundle bit_operations_syntax

text \<open>
  Transaction layer packets: the constants and the class \<open>TLP\<close> of \<open>lib/pcie/tb/pcie.py\<close>, with its
  validation, completion constructors, byte-enable arithmetic, data conversion, and the conversion
  to and from the list of 32-bit words of the wire format.

  Fields are Python integers. \<open>tlp_data\<close> is the payload as a list of DWORDs.
\<close>

section \<open>Constants\<close>

abbreviation (input) FMT_3DW :: int where "FMT_3DW \<equiv> 0x0"
abbreviation (input) FMT_4DW :: int where "FMT_4DW \<equiv> 0x1"
abbreviation (input) FMT_3DW_DATA :: int where "FMT_3DW_DATA \<equiv> 0x2"
abbreviation (input) FMT_4DW_DATA :: int where "FMT_4DW_DATA \<equiv> 0x3"
abbreviation (input) FMT_TLP_PREFIX :: int where "FMT_TLP_PREFIX \<equiv> 0x4"

abbreviation (input) TLP_MEM_READ :: "int \<times> int" where "TLP_MEM_READ \<equiv> (FMT_3DW, 0x00)"
abbreviation (input) TLP_MEM_READ_64 :: "int \<times> int" where "TLP_MEM_READ_64 \<equiv> (FMT_4DW, 0x00)"
abbreviation (input) TLP_MEM_READ_LOCKED :: "int \<times> int" where "TLP_MEM_READ_LOCKED \<equiv> (FMT_3DW, 0x01)"
abbreviation (input) TLP_MEM_READ_LOCKED_64 :: "int \<times> int" where "TLP_MEM_READ_LOCKED_64 \<equiv> (FMT_4DW, 0x01)"
abbreviation (input) TLP_MEM_WRITE :: "int \<times> int" where "TLP_MEM_WRITE \<equiv> (FMT_3DW_DATA, 0x00)"
abbreviation (input) TLP_MEM_WRITE_64 :: "int \<times> int" where "TLP_MEM_WRITE_64 \<equiv> (FMT_4DW_DATA, 0x00)"
abbreviation (input) TLP_IO_READ :: "int \<times> int" where "TLP_IO_READ \<equiv> (FMT_3DW, 0x02)"
abbreviation (input) TLP_IO_WRITE :: "int \<times> int" where "TLP_IO_WRITE \<equiv> (FMT_3DW_DATA, 0x02)"
abbreviation (input) TLP_CFG_READ_0 :: "int \<times> int" where "TLP_CFG_READ_0 \<equiv> (FMT_3DW, 0x04)"
abbreviation (input) TLP_CFG_WRITE_0 :: "int \<times> int" where "TLP_CFG_WRITE_0 \<equiv> (FMT_3DW_DATA, 0x04)"
abbreviation (input) TLP_CFG_READ_1 :: "int \<times> int" where "TLP_CFG_READ_1 \<equiv> (FMT_3DW, 0x05)"
abbreviation (input) TLP_CFG_WRITE_1 :: "int \<times> int" where "TLP_CFG_WRITE_1 \<equiv> (FMT_3DW_DATA, 0x05)"
abbreviation (input) TLP_MSG_TO_RC :: "int \<times> int" where "TLP_MSG_TO_RC \<equiv> (FMT_4DW, 0x10)"
abbreviation (input) TLP_MSG_ADDR :: "int \<times> int" where "TLP_MSG_ADDR \<equiv> (FMT_4DW, 0x11)"
abbreviation (input) TLP_MSG_ID :: "int \<times> int" where "TLP_MSG_ID \<equiv> (FMT_4DW, 0x12)"
abbreviation (input) TLP_MSG_BCAST :: "int \<times> int" where "TLP_MSG_BCAST \<equiv> (FMT_4DW, 0x13)"
abbreviation (input) TLP_MSG_LOCAL :: "int \<times> int" where "TLP_MSG_LOCAL \<equiv> (FMT_4DW, 0x14)"
abbreviation (input) TLP_MSG_GATHER :: "int \<times> int" where "TLP_MSG_GATHER \<equiv> (FMT_4DW, 0x15)"
abbreviation (input) TLP_MSG_DATA_TO_RC :: "int \<times> int" where "TLP_MSG_DATA_TO_RC \<equiv> (FMT_4DW_DATA, 0x10)"
abbreviation (input) TLP_MSG_DATA_ADDR :: "int \<times> int" where "TLP_MSG_DATA_ADDR \<equiv> (FMT_4DW_DATA, 0x11)"
abbreviation (input) TLP_MSG_DATA_ID :: "int \<times> int" where "TLP_MSG_DATA_ID \<equiv> (FMT_4DW_DATA, 0x12)"
abbreviation (input) TLP_MSG_DATA_BCAST :: "int \<times> int" where "TLP_MSG_DATA_BCAST \<equiv> (FMT_4DW_DATA, 0x13)"
abbreviation (input) TLP_MSG_DATA_LOCAL :: "int \<times> int" where "TLP_MSG_DATA_LOCAL \<equiv> (FMT_4DW_DATA, 0x14)"
abbreviation (input) TLP_MSG_DATA_GATHER :: "int \<times> int" where "TLP_MSG_DATA_GATHER \<equiv> (FMT_4DW_DATA, 0x15)"
abbreviation (input) TLP_CPL :: "int \<times> int" where "TLP_CPL \<equiv> (FMT_3DW, 0x0A)"
abbreviation (input) TLP_CPL_DATA :: "int \<times> int" where "TLP_CPL_DATA \<equiv> (FMT_3DW_DATA, 0x0A)"
abbreviation (input) TLP_CPL_LOCKED :: "int \<times> int" where "TLP_CPL_LOCKED \<equiv> (FMT_3DW, 0x0B)"
abbreviation (input) TLP_CPL_LOCKED_DATA :: "int \<times> int" where "TLP_CPL_LOCKED_DATA \<equiv> (FMT_3DW_DATA, 0x0B)"

abbreviation (input) CPL_STATUS_SC :: int where "CPL_STATUS_SC \<equiv> 0x0"
abbreviation (input) CPL_STATUS_UR :: int where "CPL_STATUS_UR \<equiv> 0x1"
abbreviation (input) CPL_STATUS_CRS :: int where "CPL_STATUS_CRS \<equiv> 0x2"
abbreviation (input) CPL_STATUS_CA :: int where "CPL_STATUS_CA \<equiv> 0x4"

section \<open>The packet\<close>

record tlp =
  tlp_fmt :: int
  tlp_type :: int
  tlp_tc :: int
  tlp_th :: int
  tlp_td :: int
  tlp_ep :: int
  tlp_attr :: int
  tlp_at :: int
  tlp_length :: int
  tlp_completer_id :: pcie_id
  tlp_status :: int
  tlp_bcm :: int
  tlp_byte_count :: int
  tlp_requester_id :: pcie_id
  tlp_dest_id :: pcie_id
  tlp_tag :: int
  tlp_first_be :: int
  tlp_last_be :: int
  tlp_lower_address :: int
  tlp_address :: int
  tlp_register_number :: int
  tlp_data :: "int list"

definition TLP :: tlp where
  "TLP = \<lparr>tlp_fmt = 0, tlp_type = 0, tlp_tc = 0, tlp_th = 0, tlp_td = 0, tlp_ep = 0, tlp_attr = 0,
     tlp_at = 0, tlp_length = 0, tlp_completer_id = PcieId 0 0 0, tlp_status = 0, tlp_bcm = 0,
     tlp_byte_count = 0, tlp_requester_id = PcieId 0 0 0, tlp_dest_id = PcieId 0 0 0, tlp_tag = 0,
     tlp_first_be = 0, tlp_last_be = 0, tlp_lower_address = 0, tlp_address = 0,
     tlp_register_number = 0, tlp_data = []\<rparr>"

text \<open>The copy constructor \<open>TLP(tlp)\<close> copies every field but \<open>th\<close>.\<close>

definition TLP_copy :: "tlp \<Rightarrow> tlp" where
  "TLP_copy t = t\<lparr>tlp_th := 0\<rparr>"

definition fmt_type :: "tlp \<Rightarrow> int \<times> int" where
  "fmt_type t = (tlp_fmt t, tlp_type t)"

definition set_fmt_type :: "int \<times> int \<Rightarrow> tlp \<Rightarrow> tlp" where
  "set_fmt_type ft t = t\<lparr>tlp_fmt := fst ft, tlp_type := snd ft\<rparr>"

definition is_cpl :: "tlp \<Rightarrow> bool" where
  "is_cpl t \<longleftrightarrow> fmt_type t \<in> {TLP_CPL, TLP_CPL_DATA, TLP_CPL_LOCKED, TLP_CPL_LOCKED_DATA}"

definition is_cfg :: "tlp \<Rightarrow> bool" where
  "is_cfg t \<longleftrightarrow> fmt_type t \<in> {TLP_CFG_READ_0, TLP_CFG_WRITE_0, TLP_CFG_READ_1, TLP_CFG_WRITE_1}"

definition is_mem :: "tlp \<Rightarrow> bool" where
  "is_mem t \<longleftrightarrow> fmt_type t \<in> {TLP_MEM_READ, TLP_MEM_READ_64, TLP_MEM_READ_LOCKED,
     TLP_MEM_READ_LOCKED_64, TLP_MEM_WRITE, TLP_MEM_WRITE_64}"

definition is_io :: "tlp \<Rightarrow> bool" where
  "is_io t \<longleftrightarrow> fmt_type t \<in> {TLP_IO_READ, TLP_IO_WRITE}"

text \<open>The chained comparison \<open>0 > self.length > 1024\<close> of the source is kept as written.\<close>

definition tlp_check :: "tlp \<Rightarrow> bool" where
  "tlp_check t \<longleftrightarrow>
     (tlp_fmt t = FMT_3DW_DATA \<or> tlp_fmt t = FMT_4DW_DATA \<longrightarrow>
        tlp_length t = int (length (tlp_data t)) \<and> \<not> (0 > tlp_length t \<and> tlp_length t > 1024)) \<and>
     (is_mem t \<longrightarrow> \<not> tlp_length t * 4 > 0x1000 - (tlp_address t AND 0xfff)) \<and>
     (is_io t \<longrightarrow> tlp_length t = 1 \<and> tlp_last_be t = 0) \<and>
     (fmt_type t = TLP_CPL_DATA \<longrightarrow>
        \<not> tlp_byte_count t + (tlp_lower_address t AND 3) + 3 < tlp_length t * 4)"

section \<open>Completions\<close>

definition set_completion :: "tlp \<Rightarrow> pcie_id \<Rightarrow> bool \<Rightarrow> int \<Rightarrow> tlp \<Rightarrow> tlp" where
  "set_completion req cid has_data st self =
     (set_fmt_type (if has_data then TLP_CPL_DATA else TLP_CPL) self)
       \<lparr>tlp_requester_id := tlp_requester_id req, tlp_completer_id := cid, tlp_status := st,
        tlp_attr := tlp_attr req, tlp_tag := tlp_tag req, tlp_tc := tlp_tc req\<rparr>"

definition set_completion_data :: "tlp \<Rightarrow> pcie_id \<Rightarrow> tlp \<Rightarrow> tlp" where
  "set_completion_data req cid self = set_completion req cid True CPL_STATUS_SC self"

definition set_ur_completion :: "tlp \<Rightarrow> pcie_id \<Rightarrow> tlp \<Rightarrow> tlp" where
  "set_ur_completion req cid self = set_completion req cid False CPL_STATUS_UR self"

definition set_crs_completion :: "tlp \<Rightarrow> pcie_id \<Rightarrow> tlp \<Rightarrow> tlp" where
  "set_crs_completion req cid self = set_completion req cid False CPL_STATUS_CRS self"

definition set_ca_completion :: "tlp \<Rightarrow> pcie_id \<Rightarrow> tlp \<Rightarrow> tlp" where
  "set_ca_completion req cid self = set_completion req cid False CPL_STATUS_CA self"

section \<open>Byte enables and data\<close>

text \<open>\<open>math.ceil(x/4)\<close>; the quotient is exact in floating point for the sizes that occur.\<close>

definition ceil_div4 :: "int \<Rightarrow> int" where
  "ceil_div4 x = - ((- x) div 4)"

definition set_be :: "int \<Rightarrow> int \<Rightarrow> tlp \<Rightarrow> tlp \<times> int \<times> int" where
  "set_be addr len self =
     (let first_pad = addr mod 4;
          last_pad = 3 - (addr + len - 1) mod 4;
          dwlen = ceil_div4 (len + first_pad + last_pad);
          first_be = push_bit (nat first_pad) 0xf AND 0xf;
          last_be = drop_bit (nat last_pad) 0xf;
          t = self\<lparr>tlp_address := addr AND NOT 3, tlp_length := dwlen,
                   tlp_first_be := (if dwlen = 1 then first_be AND last_be else first_be),
                   tlp_last_be := (if dwlen = 1 then 0 else last_be)\<rparr>
      in (t, first_pad, last_pad))"

fun dwords_of_bytes :: "byte list \<Rightarrow> int list res" where
  "dwords_of_bytes [] = Inr []"
| "dwords_of_bytes (b # bs) =
     bindE (unpack_L (take 4 (b # bs))) (\<lambda>w. bindE (dwords_of_bytes (drop 3 bs)) (\<lambda>ws. Inr (w # ws)))"

definition set_data :: "byte list \<Rightarrow> tlp \<Rightarrow> tlp res" where
  "set_data bs self =
     bindE (dwords_of_bytes bs) (\<lambda>ws. Inr (self\<lparr>tlp_data := ws, tlp_length := int (length ws)\<rparr>))"

definition set_be_data :: "int \<Rightarrow> byte list \<Rightarrow> tlp \<Rightarrow> tlp res" where
  "set_be_data addr bs self =
     (let (t, first_pad, last_pad) = set_be addr (int (length bs)) (self\<lparr>tlp_address := addr AND NOT 3\<rparr>)
      in set_data (replicate (nat first_pad) 0 @ bs @ replicate (nat last_pad) 0) t)"

definition get_data :: "tlp \<Rightarrow> byte list res" where
  "get_data t = bindE (mapE pack_L (tlp_data t)) (\<lambda>bss. Inr (concat bss))"

definition get_first_be_offset :: "tlp \<Rightarrow> int" where
  "get_first_be_offset t =
     (if tlp_first_be t AND 0x7 = 0 then 3
      else if tlp_first_be t AND 0x3 = 0 then 2
      else if tlp_first_be t AND 0x1 = 0 then 1
      else 0)"

definition get_last_be_offset :: "tlp \<Rightarrow> int" where
  "get_last_be_offset t =
     (let be = (if tlp_length t = 1 then tlp_first_be t else tlp_last_be t)
      in if be AND 0xf = 0x1 then 3
         else if be AND 0xe = 0x2 then 2
         else if be AND 0xc = 0x4 then 1
         else 0)"

definition get_be_byte_count :: "tlp \<Rightarrow> int" where
  "get_be_byte_count t = tlp_length t * 4 - get_first_be_offset t - get_last_be_offset t"

text \<open>Python's \<open>+\<close> binds tighter than \<open>&\<close>.\<close>

definition get_lower_address :: "tlp \<Rightarrow> int" where
  "get_lower_address t = tlp_address t AND (0x7c + get_first_be_offset t)"

text \<open>For any other format the method falls off its end and returns \<open>None\<close>.\<close>

definition get_size :: "tlp \<Rightarrow> int option" where
  "get_size t =
     (if tlp_fmt t = FMT_3DW then Some 12
      else if tlp_fmt t = FMT_3DW_DATA then Some (12 + int (length (tlp_data t)) * 4)
      else if tlp_fmt t = FMT_4DW then Some 16
      else if tlp_fmt t = FMT_4DW_DATA then Some (16 + int (length (tlp_data t)) * 4)
      else None)"

definition get_wire_size :: "tlp \<Rightarrow> int res" where
  "get_wire_size t = (case get_size t of None \<Rightarrow> Inl TypeError | Some n \<Rightarrow> Inr (n + 12))"

definition get_data_credits :: "tlp \<Rightarrow> int" where
  "get_data_credits t = (int (length (tlp_data t)) + 3) div 4"

section \<open>Wire format\<close>

definition pack_dw0 :: "tlp \<Rightarrow> int" where
  "pack_dw0 t =
     (tlp_length t AND 0x3ff) OR
     push_bit 10 (tlp_at t AND 0x3) OR
     push_bit 12 (tlp_attr t AND 0x3) OR
     push_bit 14 (tlp_ep t AND 1) OR
     push_bit 15 (tlp_td t AND 1) OR
     push_bit 16 (tlp_th t AND 1) OR
     push_bit 16 (tlp_attr t AND 0x4) OR
     push_bit 20 (tlp_tc t AND 0x7) OR
     push_bit 24 (tlp_type t AND 0x1f) OR
     push_bit 29 (tlp_fmt t AND 0x7)"

definition pack_req :: "tlp \<Rightarrow> int list" where
  "pack_req t =
     (let l1 = (tlp_first_be t AND 0xf) OR push_bit 4 (tlp_last_be t AND 0xf) OR
               push_bit 8 (tlp_tag t AND 0xff) OR push_bit 16 (id_int (tlp_requester_id t))
      in if is_cfg t then
           [l1, push_bit 2 (tlp_register_number t AND 0x3ff) OR push_bit 16 (id_int (tlp_dest_id t))]
         else if tlp_fmt t = FMT_4DW \<or> tlp_fmt t = FMT_4DW_DATA then
           (let hi = drop_bit 32 (tlp_address t) AND 0xffffffff
            in [l1, hi, hi OR (tlp_address t AND 0xfffffffc)])
         else [l1, tlp_address t AND 0xfffffffc])"

definition pack_cpl :: "tlp \<Rightarrow> int list" where
  "pack_cpl t =
     [(tlp_byte_count t AND 0xfff) OR push_bit 12 (tlp_bcm t AND 1) OR
        push_bit 13 (tlp_status t AND 0x7) OR push_bit 16 (id_int (tlp_completer_id t)),
      (tlp_lower_address t AND 0x7f) OR push_bit 8 (tlp_tag t AND 0xff) OR
        push_bit 16 (id_int (tlp_requester_id t))]"

definition pack :: "tlp \<Rightarrow> int list res" where
  "pack t =
     bindE (if is_cfg t \<or> is_mem t \<or> is_io t then Inr (pack_dw0 t # pack_req t)
            else if is_cpl t then Inr (pack_dw0 t # pack_cpl t)
            else Inl (PyException ''Unknown TLP type''))
       (\<lambda>pkt. Inr (if tlp_fmt t = FMT_3DW_DATA \<or> tlp_fmt t = FMT_4DW_DATA
                   then pkt @ tlp_data t else pkt))"

definition unpack_dw0 :: "int \<Rightarrow> tlp \<Rightarrow> tlp" where
  "unpack_dw0 w self =
     (let t = self\<lparr>
        tlp_length := w AND 0x3ff,
        tlp_at := drop_bit 10 w AND 0x3,
        tlp_attr := (drop_bit 12 w AND 0x3) OR (drop_bit 16 w AND 0x4),
        tlp_ep := drop_bit 14 w AND 1,
        tlp_td := drop_bit 15 w AND 1,
        tlp_th := drop_bit 16 w AND 1,
        tlp_tc := drop_bit 20 w AND 0x7,
        tlp_type := drop_bit 24 w AND 0x1f,
        tlp_fmt := drop_bit 29 w AND 0x7\<rparr>
      in if (tlp_fmt t = FMT_3DW_DATA \<or> tlp_fmt t = FMT_4DW_DATA) \<and> tlp_length t = 0
         then t\<lparr>tlp_length := 1024\<rparr> else t)"

definition unpack_req :: "int list \<Rightarrow> tlp \<Rightarrow> tlp res" where
  "unpack_req pkt self =
     bindE (nth_res pkt 1) (\<lambda>w1.
       let t = self\<lparr>tlp_first_be := w1 AND 0xf, tlp_last_be := drop_bit 4 w1 AND 0xf,
                    tlp_tag := drop_bit 8 w1 AND 0xff, tlp_requester_id := from_int (drop_bit 16 w1)\<rparr>
       in if is_cfg t then
            bindE (nth_res pkt 2) (\<lambda>w2.
              Inr (t\<lparr>tlp_register_number := drop_bit 0x3ff (drop_bit 2 w2),
                     tlp_dest_id := from_int (drop_bit 16 w2)\<rparr>))
          else if tlp_fmt t = FMT_3DW \<or> tlp_fmt t = FMT_3DW_DATA then
            bindE (nth_res pkt 3) (\<lambda>w3. Inr (t\<lparr>tlp_address := w3 AND 0xfffffffc\<rparr>))
          else if tlp_fmt t = FMT_4DW \<or> tlp_fmt t = FMT_4DW_DATA then
            bindE (nth_res pkt 4) (\<lambda>w4.
              Inr (t\<lparr>tlp_address := push_bit 32 (w4 AND 0xffffffff) OR (w4 AND 0xfffffffc)\<rparr>))
          else Inr t)"

definition unpack_cpl :: "int list \<Rightarrow> tlp \<Rightarrow> tlp res" where
  "unpack_cpl pkt self =
     bindE (nth_res pkt 1) (\<lambda>w1. bindE (nth_res pkt 2) (\<lambda>w2.
       let bc = w1 AND 0xfff
       in Inr (self\<lparr>
            tlp_byte_count := (if bc = 0 then 4096 else bc),
            tlp_bcm := drop_bit 12 w1 AND 1,
            tlp_status := drop_bit 13 w1 AND 0x7,
            tlp_completer_id := from_int (drop_bit 16 w1),
            tlp_lower_address := w2 AND 0x7f,
            tlp_tag := drop_bit 8 w2 AND 0xff,
            tlp_requester_id := from_int (drop_bit 16 w2)\<rparr>)))"

definition unpack :: "int list \<Rightarrow> tlp \<Rightarrow> tlp res" where
  "unpack pkt self =
     bindE (nth_res pkt 0) (\<lambda>w0.
       let t = unpack_dw0 w0 self
       in bindE (if is_cfg t \<or> is_mem t \<or> is_io t then unpack_req pkt t
                 else if is_cpl t then unpack_cpl pkt t
                 else Inl (PyException ''Unknown TLP type''))
            (\<lambda>t. Inr (if tlp_fmt t = FMT_3DW_DATA then t\<lparr>tlp_data := drop 3 pkt\<rparr>
                      else if tlp_fmt t = FMT_4DW_DATA then t\<lparr>tlp_data := drop 4 pkt\<rparr>
                      else t)))"

text \<open>\<open>__eq__\<close> compares every field but \<open>th\<close>.\<close>

definition tlp_eq :: "tlp \<Rightarrow> tlp \<Rightarrow> bool" where
  "tlp_eq a b \<longleftrightarrow> a\<lparr>tlp_th := 0\<rparr> = b\<lparr>tlp_th := 0\<rparr>"

section \<open>Properties\<close>

lemma TLP_sel [simp]:
  "tlp_fmt TLP = 0" "tlp_type TLP = 0" "tlp_tc TLP = 0" "tlp_th TLP = 0" "tlp_td TLP = 0"
  "tlp_ep TLP = 0" "tlp_attr TLP = 0" "tlp_at TLP = 0" "tlp_length TLP = 0"
  "tlp_completer_id TLP = PcieId 0 0 0" "tlp_status TLP = 0" "tlp_bcm TLP = 0"
  "tlp_byte_count TLP = 0" "tlp_requester_id TLP = PcieId 0 0 0" "tlp_dest_id TLP = PcieId 0 0 0"
  "tlp_tag TLP = 0" "tlp_first_be TLP = 0" "tlp_last_be TLP = 0" "tlp_lower_address TLP = 0"
  "tlp_address TLP = 0" "tlp_register_number TLP = 0" "tlp_data TLP = []"
  by (simp_all add: TLP_def)

lemmas tlp_kind_defs = fmt_type_def is_cpl_def is_cfg_def is_mem_def is_io_def

subsection \<open>Byte enables\<close>

lemma mod4_cases: "(x::int) mod 4 = 0 \<or> x mod 4 = 1 \<or> x mod 4 = 2 \<or> x mod 4 = 3"
  by presburger

lemma ceil_div4_mult [simp]: "ceil_div4 (4 * n) = n"
  by (simp add: ceil_div4_def)

lemma set_be_dwords:
  "\<exists>n. len + addr mod 4 + (3 - (addr + len - 1) mod 4) = 4 * (n::int) \<and>
     (1 \<le> len \<longrightarrow> 1 \<le> n)"
proof -
  have "(len + addr mod 4 + (3 - (addr + len - 1) mod 4)) mod 4 = 0" by presburger
  then obtain n where n: "len + addr mod 4 + (3 - (addr + len - 1) mod 4) = 4 * n"
    by (metis mod_0_imp_dvd dvd_def)
  have "1 \<le> len \<Longrightarrow> 1 \<le> n" using n mod4_cases [of addr] mod4_cases [of "addr + len - 1"] by linarith
  with n show ?thesis by blast
qed

lemma set_be_length:
  "1 \<le> len \<Longrightarrow> tlp_length (fst (set_be addr len self)) * 4
     = addr mod 4 + len + (3 - (addr + len - 1) mod 4)"
  using set_be_dwords [of len addr] by (auto simp: set_be_def Let_def)

lemma set_be_fields [simp]:
  "tlp_address (fst (set_be addr len self)) = addr - addr mod 4"
  "fst (snd (set_be addr len self)) = addr mod 4"
  "snd (snd (set_be addr len self)) = 3 - (addr + len - 1) mod 4"
  by (simp_all add: set_be_def Let_def)

lemma set_be_spec:
  assumes "1 \<le> len" and t_def: "t = fst (set_be addr len self)"
  shows "tlp_address t = addr - addr mod 4 \<and>
    tlp_length t * 4 = addr mod 4 + len + (3 - (addr + len - 1) mod 4) \<and>
    tlp_address t + get_first_be_offset t = addr \<and> get_be_byte_count t = len"
proof -
  let ?f = "addr mod 4" and ?l = "(addr + len - 1) mod 4"
  obtain n where n: "len + ?f + (3 - ?l) = 4 * n" and n1: "1 \<le> n"
    using set_be_dwords [of len addr] assms(1) by blast
  have len1: "n = 1 \<Longrightarrow> ?f \<le> ?l" using n assms(1) by linarith
  have t: "tlp_length t = n" "tlp_address t = addr - ?f"
    "tlp_first_be t = (if n = 1 then (push_bit (nat ?f) 0xf AND 0xf) AND drop_bit (nat (3 - ?l)) 0xf
       else push_bit (nat ?f) 0xf AND 0xf)"
    "tlp_last_be t = (if n = 1 then 0 else drop_bit (nat (3 - ?l)) 0xf)"
    using n by (simp_all add: t_def set_be_def Let_def)
  have "get_first_be_offset t = ?f \<and> get_last_be_offset t = 3 - ?l"
    using mod4_cases [of addr] mod4_cases [of "addr + len - 1"] len1
    by (elim disjE; cases "n = 1")
      (simp_all add: get_first_be_offset_def get_last_be_offset_def t push_bit_eq_mult drop_bit_eq_div)
  then show ?thesis
    using n t by (simp add: get_be_byte_count_def)
qed

text \<open>
  The byte enables computed from a byte address and a byte length encode exactly that range: the
  packet's DWORD address is the address rounded down, its DWORD length covers the range and its two
  pads, the first enabled byte is at the address, and the byte count read back from the byte enables
  is the length.
\<close>

theorem set_be_correct:
  assumes "1 \<le> len" and t_def: "t = fst (set_be addr len self)"
  shows "tlp_address t = addr - addr mod 4 \<and>
    tlp_length t * 4 = addr mod 4 + len + (3 - (addr + len - 1) mod 4) \<and>
    tlp_address t + get_first_be_offset t = addr \<and> get_be_byte_count t = len"
  using assms by (rule set_be_spec)

theorem set_be_correct_witness:
  "(1::int) \<le> 6 \<and> get_be_byte_count (fst (set_be 0x1002 6 TLP)) = 6"
  using set_be_correct [of 6 _ "0x1002" TLP, OF _ refl] by simp

text \<open>The bits of the byte enables: \<open>first_be\<close> is set from the first byte of the access on, \<open>last_be\<close> up
  to its last one, and both bounds hold for an access inside one DWORD.\<close>

lemma set_be_bits:
  assumes "1 \<le> len" and t_def: "t = fst (set_be addr len self)" and "i < 4"
  shows "tlp_length t = 1 \<Longrightarrow> bit (tlp_first_be t) i \<longleftrightarrow> addr mod 4 \<le> int i \<and> int i < addr mod 4 + len"
    and "tlp_length t \<noteq> 1 \<Longrightarrow> bit (tlp_first_be t) i \<longleftrightarrow> addr mod 4 \<le> int i"
    and "tlp_length t \<noteq> 1 \<Longrightarrow>
      bit (tlp_last_be t) i \<longleftrightarrow> (tlp_length t - 1) * 4 + int i < addr mod 4 + len"
proof -
  define f l where "f = addr mod 4" and "l = 3 - (addr + len - 1) mod 4"
  have fl: "0 \<le> f" "0 \<le> l" using pos_mod_bound [of 4 "addr + len - 1"] by (simp_all add: f_def l_def)
  obtain n where n: "len + f + l = 4 * n" using set_be_dwords [of len addr] unfolding f_def l_def by blast
  then have t: "tlp_length t = n"
    "tlp_first_be t = (if n = 1 then (push_bit (nat f) 0xf AND 0xf) AND drop_bit (nat l) 0xf
       else push_bit (nat f) 0xf AND 0xf)"
    "tlp_last_be t = (if n = 1 then 0 else drop_bit (nat l) 0xf)"
    by (simp_all add: t_def set_be_def Let_def f_def l_def)
  have first: "bit (push_bit (nat f) (0xf::int) AND 0xf) i \<longleftrightarrow> f \<le> int i"
    using assms(3) fl by (auto simp: bit_and_iff bit_push_bit_iff_int bit_15 simp del: and_low_masks push_bit_and)
  have last: "bit (drop_bit (nat l) (0xf::int)) i \<longleftrightarrow> int i + l < 4"
    using fl by (auto simp: bit_drop_bit_eq bit_15)
  show "bit (tlp_first_be t) i \<longleftrightarrow> addr mod 4 \<le> int i \<and> int i < addr mod 4 + len" if "tlp_length t = 1"
  proof -
    have "int i + l < 4 \<longleftrightarrow> int i < f + len" using n that t(1) by auto
    moreover have "tlp_first_be t = (push_bit (nat f) 0xf AND 0xf) AND drop_bit (nat l) 0xf"
      using t(1,2) that by simp
    ultimately show ?thesis
      using first last by (simp only: bit_and_iff [of "push_bit (nat f) 15 AND 15"] f_def [symmetric])
  qed
  show "bit (tlp_first_be t) i \<longleftrightarrow> addr mod 4 \<le> int i" if "tlp_length t \<noteq> 1"
    using t(1,2) first that by (simp add: f_def [symmetric])
  show "bit (tlp_last_be t) i \<longleftrightarrow> (tlp_length t - 1) * 4 + int i < addr mod 4 + len" if "tlp_length t \<noteq> 1"
  proof -
    have "int i + l < 4 \<longleftrightarrow> (n - 1) * 4 + int i < f + len" using n by auto
    then show ?thesis using t(1,3) last that by (simp add: f_def [symmetric])
  qed
qed

subsection \<open>Payload\<close>

lemma dwords_of_bytes_ok:
  "4 dvd length bs \<Longrightarrow> \<exists>ws. dwords_of_bytes bs = Inr ws \<and> length ws * 4 = length bs \<and>
     mapE pack_L ws = Inr (map (le_bytes 4) ws) \<and> concat (map (le_bytes 4) ws) = bs"
proof (induction bs rule: dwords_of_bytes.induct)
  case 1
  then show ?case by simp
next
  case (2 b bs)
  let ?xs = "b # bs"
  have l: "4 \<le> length ?xs" using 2(2) by (auto dest: dvd_imp_le)
  then have u: "unpack_L (take 4 ?xs) = Inr (le_int (take 4 ?xs))"
    by (simp add: unpack_L_def del: take_Suc_Cons)
  have "4 dvd length (drop 3 bs)"
    using 2(2) l by (simp add: dvd_diff_nat [of 4 "Suc (length bs)" 4, simplified])
  with 2(1) u obtain ws where ws: "dwords_of_bytes (drop 3 bs) = Inr ws"
    "length ws * 4 = length (drop 3 bs)" "mapE pack_L ws = Inr (map (le_bytes 4) ws)"
    "concat (map (le_bytes 4) ws) = drop 3 bs" by blast
  have lt: "length (take 4 ?xs) = 4" using l by simp
  have p: "pack_L (le_int (take 4 ?xs)) = Inr (le_bytes 4 (le_int (take 4 ?xs)))"
    "le_bytes 4 (le_int (take 4 ?xs)) = take 4 ?xs"
    using pack_L_le_int [OF lt] le_bytes_le_int [OF lt] by simp_all
  have "take 4 ?xs @ drop 3 bs = ?xs"
    by simp
  with u ws p l show ?case by (simp del: take_Suc_Cons le_bytes.simps)
qed

lemma get_data_set_data:
  assumes "4 dvd length bs"
  obtains t where "set_data bs self = Inr t" "get_data t = Inr bs" "tlp_length t * 4 = int (length bs)"
    "t = self\<lparr>tlp_data := tlp_data t, tlp_length := tlp_length t\<rparr>"
    "tlp_length t = int (length (tlp_data t))"
proof -
  from dwords_of_bytes_ok [OF assms] obtain ws where ws: "dwords_of_bytes bs = Inr ws"
    "length ws * 4 = length bs" "mapE pack_L ws = Inr (map (le_bytes 4) ws)"
    "concat (map (le_bytes 4) ws) = bs" by blast
  show ?thesis
    by (rule that [of "self\<lparr>tlp_data := ws, tlp_length := int (length ws)\<rparr>"])
      (use ws in \<open>auto simp: set_data_def get_data_def\<close>)
qed

lemma set_be_data_spec:
  assumes "bs \<noteq> []"
  obtains u where "set_be_data addr bs self = Inr u"
    "get_data u = Inr (replicate (nat (addr mod 4)) 0 @ bs @
      replicate (nat (3 - (addr + int (length bs) - 1) mod 4)) 0)"
    "u = (fst (set_be addr (int (length bs)) self))\<lparr>tlp_data := tlp_data u\<rparr>"
    "tlp_length u = int (length (tlp_data u))"
proof -
  let ?len = "int (length bs)" and ?l = "3 - (addr + int (length bs) - 1) mod 4"
  let ?t = "fst (set_be addr ?len self)" and ?bs = "replicate (nat (addr mod 4)) 0 @ bs @ replicate (nat ?l) 0"
  have len: "1 \<le> ?len" using assms by (cases bs) simp_all
  have "0 \<le> ?l" "0 \<le> addr mod 4" using pos_mod_bound [of 4 "addr + ?len - 1"] by simp_all
  then have ilen: "int (length ?bs) = tlp_length ?t * 4" using set_be_length [OF len, of addr self] by simp
  then have "4 dvd length ?bs" by (metis dvd_triv_right int_dvd_int_iff of_nat_numeral)
  then obtain u where u: "set_data ?bs ?t = Inr u" "get_data u = Inr ?bs"
    "tlp_length u * 4 = int (length ?bs)" "u = ?t\<lparr>tlp_data := tlp_data u, tlp_length := tlp_length u\<rparr>"
    "tlp_length u = int (length (tlp_data u))"
    by (rule get_data_set_data)
  have "tlp_length u = tlp_length ?t" using u(3) ilen by simp
  with u(4) have "u = ?t\<lparr>tlp_data := tlp_data u\<rparr>" by simp
  moreover have "set_be_data addr bs self = Inr u"
    using u(1) by (simp add: set_be_data_def set_be_def Let_def)
  ultimately show ?thesis using u that by blast
qed

text \<open>
  C33. Byte data at any byte address is carried without loss: \<open>set_be_data\<close> succeeds, the payload
  bytes read back are the data between zero pads up to the DWORD boundaries, and the byte enables
  locate the data again, its first byte at the address and as many bytes as were given.
\<close>

theorem set_be_data_correct:
  assumes "bs \<noteq> []"
  shows "\<exists>t. set_be_data addr bs self = Inr t \<and>
    get_data t = Inr (replicate (nat (addr mod 4)) 0 @ bs @
      replicate (nat (3 - (addr + int (length bs) - 1) mod 4)) 0) \<and>
    tlp_address t + get_first_be_offset t = addr \<and>
    get_be_byte_count t = int (length bs) \<and> tlp_length t = int (length (tlp_data t))"
proof -
  let ?t = "fst (set_be addr (int (length bs)) self)"
  obtain u where u: "set_be_data addr bs self = Inr u"
    "get_data u = Inr (replicate (nat (addr mod 4)) 0 @ bs @
      replicate (nat (3 - (addr + int (length bs) - 1) mod 4)) 0)"
    "u = ?t\<lparr>tlp_data := tlp_data u\<rparr>" "tlp_length u = int (length (tlp_data u))"
    using set_be_data_spec [OF assms] by blast
  have "tlp_address u = tlp_address ?t" "get_first_be_offset u = get_first_be_offset ?t"
    "get_be_byte_count u = get_be_byte_count ?t"
    by (subst u(3), simp add: get_first_be_offset_def get_last_be_offset_def get_be_byte_count_def)+
  moreover have "1 \<le> int (length bs)" using assms by (cases bs) simp_all
  ultimately show ?thesis
    using u set_be_spec [OF _ refl, of "int (length bs)" addr self] by auto
qed

theorem set_be_data_correct_witness:
  "\<exists>t. set_be_data 0x1003 [1, 2] TLP = Inr t \<and> get_data t = Inr [0, 0, 0, 1, 2, 0, 0, 0]"
  using set_be_data_correct [of "[1, 2]" "0x1003" TLP] by (auto simp: numeral_eq_Suc)

subsection \<open>Wire format\<close>

lemma dw0_fields:
  "pack_dw0 t AND 0x3ff = tlp_length t AND 0x3ff"
  "drop_bit 10 (pack_dw0 t) AND 0x3 = tlp_at t AND 0x3"
  "drop_bit 14 (pack_dw0 t) AND 1 = tlp_ep t AND 1"
  "drop_bit 15 (pack_dw0 t) AND 1 = tlp_td t AND 1"
  "drop_bit 16 (pack_dw0 t) AND 1 = tlp_th t AND 1"
  "drop_bit 20 (pack_dw0 t) AND 0x7 = tlp_tc t AND 0x7"
  "drop_bit 24 (pack_dw0 t) AND 0x1f = tlp_type t AND 0x1f"
  "drop_bit 29 (pack_dw0 t) AND 0x7 = tlp_fmt t AND 0x7"
  "(drop_bit 12 (pack_dw0 t) AND 0x3) OR (drop_bit 16 (pack_dw0 t) AND 0x4) = tlp_attr t AND 7"
  unfolding pack_dw0_def
  subgoal by (rule bit_eqI, rename_tac i, case_tac "i < 10") (simp_all add: bit_masks del: and_low_masks push_bit_and)
  subgoal by (rule bit_eqI, rename_tac i, case_tac "i < 2") (simp_all add: bit_masks del: and_low_masks push_bit_and)
  subgoal by (rule bit_eqI, rename_tac i, case_tac "i < 1") (simp_all add: bit_masks del: and_low_masks push_bit_and)
  subgoal by (rule bit_eqI, rename_tac i, case_tac "i < 1") (simp_all add: bit_masks del: and_low_masks push_bit_and)
  subgoal by (rule bit_eqI, rename_tac i, case_tac "i < 1") (simp_all add: bit_masks del: and_low_masks push_bit_and)
  subgoal by (rule bit_eqI, rename_tac i, case_tac "i < 3") (simp_all add: bit_masks del: and_low_masks push_bit_and)
  subgoal by (rule bit_eqI, rename_tac i, case_tac "i < 5") (simp_all add: bit_masks del: and_low_masks push_bit_and)
  subgoal by (rule bit_eqI, rename_tac i, case_tac "i < 3") (simp_all add: bit_masks del: and_low_masks push_bit_and)
  subgoal by (rule bit_eqI, rename_tac i, case_tac "i < 2"; case_tac "i = 2") (simp_all add: bit_masks del: and_low_masks push_bit_and)
  done

lemma cpl_fields:
  "pack_cpl t ! 0 AND 0xfff = tlp_byte_count t AND 0xfff"
  "drop_bit 12 (pack_cpl t ! 0) AND 1 = tlp_bcm t AND 1"
  "drop_bit 13 (pack_cpl t ! 0) AND 0x7 = tlp_status t AND 0x7"
  "pack_cpl t ! 1 AND 0x7f = tlp_lower_address t AND 0x7f"
  "drop_bit 8 (pack_cpl t ! 1) AND 0xff = tlp_tag t AND 0xff"
  unfolding pack_cpl_def nth_Cons_0 nth_Cons_Suc One_nat_def
  subgoal by (rule bit_eqI, rename_tac i, case_tac "i < 12") (simp_all add: bit_masks del: and_low_masks push_bit_and)
  subgoal by (rule bit_eqI, rename_tac i, case_tac "i < 1") (simp_all add: bit_masks del: and_low_masks push_bit_and)
  subgoal by (rule bit_eqI, rename_tac i, case_tac "i < 3") (simp_all add: bit_masks del: and_low_masks push_bit_and)
  subgoal by (rule bit_eqI, rename_tac i, case_tac "i < 7") (simp_all add: bit_masks del: and_low_masks push_bit_and)
  subgoal by (rule bit_eqI, rename_tac i, case_tac "i < 8") (simp_all add: bit_masks del: and_low_masks push_bit_and)
  done

lemma drop_16_or_push_16:
  assumes "\<And>i. 16 \<le> i \<Longrightarrow> \<not> bit (a::int) i"
  shows "drop_bit 16 (a OR push_bit 16 b) = b"
  by (rule bit_eqI) (use assms in \<open>auto simp: bit_masks\<close>)

lemma cpl_ids:
  "drop_bit 16 (pack_cpl t ! 0) = id_int (tlp_completer_id t)"
  "drop_bit 16 (pack_cpl t ! 1) = id_int (tlp_requester_id t)"
  unfolding pack_cpl_def nth_Cons_0 nth_Cons_Suc One_nat_def or.assoc [symmetric]
  subgoal by (rule drop_16_or_push_16) (auto simp: bit_masks simp del: and_low_masks push_bit_and)
  subgoal by (rule drop_16_or_push_16) (auto simp: bit_masks simp del: and_low_masks push_bit_and)
  done

definition cpl_wf :: "tlp \<Rightarrow> bool" where
  "cpl_wf t \<longleftrightarrow> is_cpl t \<and> tlp_at t \<in> {0..<4} \<and> tlp_attr t \<in> {0..<8} \<and> tlp_ep t \<in> {0..<2} \<and>
     tlp_td t \<in> {0..<2} \<and> tlp_th t \<in> {0..<2} \<and> tlp_tc t \<in> {0..<8} \<and>
     tlp_length t \<in> (if tlp_fmt t = FMT_3DW_DATA then {1..1024} else {0..<1024}) \<and>
     tlp_byte_count t \<in> {1..4096} \<and> tlp_bcm t \<in> {0..<2} \<and> tlp_status t \<in> {0..<8} \<and>
     tlp_lower_address t \<in> {0..<128} \<and> tlp_tag t \<in> {0..<256} \<and>
     id_wf (tlp_completer_id t) \<and> id_wf (tlp_requester_id t)"

lemma unpack_dw0_pack_dw0:
  assumes "cpl_wf t"
  shows "unpack_dw0 (pack_dw0 t) self = self\<lparr>tlp_length := tlp_length t, tlp_at := tlp_at t,
    tlp_attr := tlp_attr t, tlp_ep := tlp_ep t, tlp_td := tlp_td t, tlp_th := tlp_th t,
    tlp_tc := tlp_tc t, tlp_type := tlp_type t, tlp_fmt := tlp_fmt t\<rparr>"
proof -
  have f: "tlp_fmt t = 0 \<or> tlp_fmt t = 2" "tlp_type t = 10 \<or> tlp_type t = 11"
    using assms by (auto simp: cpl_wf_def tlp_kind_defs)
  have l: "tlp_length t mod 1024 = (if tlp_length t = 1024 then 0 else tlp_length t)"
    "tlp_fmt t = 0 \<Longrightarrow> tlp_length t < 1024" "tlp_fmt t = 2 \<Longrightarrow> 1 \<le> tlp_length t"
    "tlp_length t \<le> 1024"
    using assms f by (auto simp: cpl_wf_def split: if_splits)
  have r: "tlp_at t mod 4 = tlp_at t" "tlp_attr t mod 8 = tlp_attr t" "tlp_ep t mod 2 = tlp_ep t"
    "tlp_td t mod 2 = tlp_td t" "tlp_th t mod 2 = tlp_th t" "tlp_tc t mod 8 = tlp_tc t"
    "tlp_type t mod 32 = tlp_type t" "tlp_fmt t mod 8 = tlp_fmt t"
    using assms f by (auto simp: cpl_wf_def)
  show ?thesis
    unfolding unpack_dw0_def dw0_fields Let_def
    using f l by (auto simp: r)
qed

lemma is_cpl_cases:
  assumes "is_cpl t"
  shows "\<not> is_cfg t" "\<not> is_mem t" "\<not> is_io t" "tlp_fmt t = 0 \<or> tlp_fmt t = 2"
  using assms by (auto simp: tlp_kind_defs)

lemma pack_completion:
  assumes "is_cpl t"
  shows "pack t = Inr (pack_dw0 t # pack_cpl t @ (if tlp_fmt t = 2 then tlp_data t else []))"
  using is_cpl_cases [OF assms] assms by (auto simp: pack_def)

lemma unpack_cpl_pack_cpl:
  assumes "cpl_wf t"
  shows "unpack_cpl (w # pack_cpl t @ d) u = Inr (u\<lparr>tlp_byte_count := tlp_byte_count t,
    tlp_bcm := tlp_bcm t, tlp_status := tlp_status t, tlp_completer_id := tlp_completer_id t,
    tlp_lower_address := tlp_lower_address t, tlp_tag := tlp_tag t,
    tlp_requester_id := tlp_requester_id t\<rparr>)"
proof -
  obtain a b where ab: "pack_cpl t = [a, b]" by (simp add: pack_cpl_def)
  have m: "tlp_bcm t mod 2 = tlp_bcm t" "tlp_status t mod 8 = tlp_status t"
    "tlp_lower_address t mod 128 = tlp_lower_address t" "tlp_tag t mod 256 = tlp_tag t"
    "tlp_byte_count t mod 4096 = (if tlp_byte_count t = 4096 then 0 else tlp_byte_count t)"
    "tlp_byte_count t \<noteq> 0"
    using assms by (auto simp: cpl_wf_def)
  have c: "(if a AND 0xfff = 0 then 4096 else a AND 0xfff) = tlp_byte_count t"
    "drop_bit 12 a AND 1 = tlp_bcm t" "drop_bit 13 a AND 0x7 = tlp_status t"
    "b AND 0x7f = tlp_lower_address t" "drop_bit 8 b AND 0xff = tlp_tag t"
    "drop_bit 16 a = id_int (tlp_completer_id t)" "drop_bit 16 b = id_int (tlp_requester_id t)"
    using cpl_fields [of t, unfolded ab nth_Cons_0 nth_Cons_Suc One_nat_def]
      cpl_ids [of t, unfolded ab nth_Cons_0 nth_Cons_Suc One_nat_def]
    using m(6) by (simp_all only: and_low_masks m(1-5)) auto
  have r: "from_int (id_int (tlp_completer_id t)) = tlp_completer_id t"
    "from_int (id_int (tlp_requester_id t)) = tlp_requester_id t"
    using assms by (auto simp: cpl_wf_def from_int_id_int)
  show ?thesis
    unfolding unpack_cpl_def Let_def ab
    by (simp only: nth_res_def list.size nth_Cons_0 nth_Cons_Suc numeral_2_eq_2 One_nat_def bindE_Inr
        append_Cons c r zero_less_Suc Suc_less_eq if_True add_Suc_right add_0_right)
qed

lemma unpack_completion_words:
  assumes "is_cpl (unpack_dw0 w self)" and "unpack_cpl (w # pack_cpl t @ d) (unpack_dw0 w self) = Inr v"
    and "tlp_fmt v = 0 \<or> tlp_fmt v = 2"
  shows "unpack (w # pack_cpl t @ d) self = Inr (if tlp_fmt v = 2 then v\<lparr>tlp_data := d\<rparr> else v)"
proof -
  obtain a b where ab: "pack_cpl t = [a, b]" by (simp add: pack_cpl_def)
  have "unpack (w # pack_cpl t @ d) self =
    bindE (unpack_cpl (w # pack_cpl t @ d) (unpack_dw0 w self)) (\<lambda>t.
      Inr (if tlp_fmt t = 2 then t\<lparr>tlp_data := d\<rparr>
           else if tlp_fmt t = 3 then t\<lparr>tlp_data := drop 1 d\<rparr> else t))"
    using assms(1) is_cpl_cases [OF assms(1)] by (simp add: unpack_def nth_res_def ab cong: if_cong)
  then show ?thesis
    unfolding assms(2) bindE_Inr using assms(3) by (elim disjE) simp_all
qed

text \<open>
  Completions survive the wire format: for a completion whose fields are in range (byte count
  between 1 and 4096, for a completion with data a length between 1 and 1024), unpacking the packed
  words into any packet object restores every field a completion carries, with the two wrapped
  encodings 0 for 4096 bytes and 0 for 1024 DWORDs undone, and leaves the other fields alone.
\<close>

theorem unpack_pack_completion:
  assumes "cpl_wf t"
  shows "bindE (pack t) (\<lambda>p. unpack p self) = Inr (t\<lparr>tlp_dest_id := tlp_dest_id self,
    tlp_first_be := tlp_first_be self, tlp_last_be := tlp_last_be self,
    tlp_address := tlp_address self, tlp_register_number := tlp_register_number self,
    tlp_data := (if tlp_fmt t = FMT_3DW_DATA then tlp_data t else tlp_data self)\<rparr>)"
proof -
  have k: "is_cpl t" using assms by (simp add: cpl_wf_def)
  let ?u = "unpack_dw0 (pack_dw0 t) self"
  let ?w = "t\<lparr>tlp_dest_id := tlp_dest_id self, tlp_first_be := tlp_first_be self,
      tlp_last_be := tlp_last_be self, tlp_address := tlp_address self,
      tlp_register_number := tlp_register_number self, tlp_data := tlp_data self\<rparr>"
  have u: "is_cpl ?u"
    using k unfolding unpack_dw0_pack_dw0 [OF assms] by (simp add: tlp_kind_defs)
  have "?u\<lparr>tlp_byte_count := tlp_byte_count t, tlp_bcm := tlp_bcm t, tlp_status := tlp_status t,
      tlp_completer_id := tlp_completer_id t, tlp_lower_address := tlp_lower_address t,
      tlp_tag := tlp_tag t, tlp_requester_id := tlp_requester_id t\<rparr> = ?w"
    unfolding unpack_dw0_pack_dw0 [OF assms] by (rule tlp.equality) simp_all
  then have "unpack_cpl (pack_dw0 t # pack_cpl t @ d) ?u = Inr ?w" for d
    by (simp add: unpack_cpl_pack_cpl [OF assms])
  from unpack_completion_words [OF u this] is_cpl_cases(4) [OF k] show ?thesis
    by (auto simp: pack_completion [OF k])
qed

theorem unpack_pack_completion_witness:
  "bindE (pack (set_completion_data TLP (PcieId 1 2 3) TLP\<lparr>tlp_byte_count := 4096, tlp_length := 1,
      tlp_data := [7]\<rparr>)) (\<lambda>p. unpack p TLP) =
   Inr (set_completion_data TLP (PcieId 1 2 3) TLP\<lparr>tlp_byte_count := 4096, tlp_length := 1,
      tlp_data := [7]\<rparr>)"
proof -
  have "cpl_wf (set_completion_data TLP (PcieId 1 2 3) TLP\<lparr>tlp_byte_count := 4096, tlp_length := 1,
      tlp_data := [7]\<rparr>)"
    by (simp add: cpl_wf_def set_completion_data_def set_completion_def set_fmt_type_def tlp_kind_defs
        id_wf_def)
  from unpack_pack_completion [OF this, of TLP] show ?thesis
    by (simp add: set_completion_data_def set_completion_def set_fmt_type_def TLP_def)
qed

lemma unpack_dw0_kind:
  assumes "tlp_fmt t \<in> {0..<8}" and "tlp_type t \<in> {0..<32}"
  shows "fmt_type (unpack_dw0 (pack_dw0 t) self) = fmt_type t"
  using assms unfolding unpack_dw0_def dw0_fields Let_def by (auto simp: fmt_type_def)

text \<open>
  C37. Requests without data do not survive the wire format: \<open>unpack\<close> reads the address of a
  three-DWORD header from word 3 and that of a four-DWORD header from word 4, one past the end of
  the packed header, so unpacking any packed memory or IO read request raises \<open>IndexError\<close>.
\<close>

theorem unpack_pack_read_request_fails:
  assumes "fmt_type t \<in> {TLP_MEM_READ, TLP_MEM_READ_64, TLP_MEM_READ_LOCKED, TLP_MEM_READ_LOCKED_64,
    TLP_IO_READ}"
  shows "bindE (pack t) (\<lambda>p. unpack p self) = Inl IndexError"
proof -
  have r: "tlp_fmt t \<in> {0..<8}" "tlp_type t \<in> {0..<32}"
    using assms by (auto simp: fmt_type_def)
  let ?u = "unpack_dw0 (pack_dw0 t) self"
  have u: "fmt_type ?u = fmt_type t" by (rule unpack_dw0_kind [OF r])
  then have uf: "tlp_fmt ?u = tlp_fmt t" "tlp_type ?u = tlp_type t" by (simp_all add: fmt_type_def)
  have k: "is_mem ?u \<or> is_io ?u" "\<not> is_cfg ?u" "is_mem t \<or> is_io t" "\<not> is_cfg t"
    using assms by (auto simp: is_mem_def is_io_def is_cfg_def u)
  have f: "tlp_fmt t = 0 \<or> tlp_fmt t = 1"
    using assms by (auto simp: fmt_type_def)
  then obtain ws where ws: "pack t = Inr (pack_dw0 t # ws)" "length ws = (if tlp_fmt t = 0 then 2 else 3)"
    using k by (auto simp: pack_def pack_req_def Let_def)
  have "\<not> is_cfg (?u\<lparr>tlp_first_be := a, tlp_last_be := b, tlp_tag := c, tlp_requester_id := d\<rparr>)" for a b c d
    using k(2) by (simp add: is_cfg_def fmt_type_def)
  then have "unpack_req (pack_dw0 t # ws) ?u = Inl IndexError"
    using f ws(2) by (auto simp: unpack_req_def nth_res_def Let_def uf)
  then show ?thesis
    using k ws by (auto simp: unpack_def nth_res_def Let_def)
qed

theorem unpack_pack_read_request_fails_witness:
  "bindE (pack (set_fmt_type TLP_MEM_READ_64 TLP)) (\<lambda>p. unpack p TLP) = Inl IndexError"
  by (rule unpack_pack_read_request_fails) (simp add: fmt_type_def set_fmt_type_def)

text \<open>A 64-bit request address is packed wrongly too: its low word is the disjunction of both halves.\<close>

lemma pack_64bit_address_corrupt:
  "pack (set_fmt_type TLP_MEM_READ_64 TLP\<lparr>tlp_address := 0x900000004\<rparr>) = Inr [0x20000000, 0, 9, 13]"
  by (simp add: pack_def pack_dw0_def pack_req_def set_fmt_type_def tlp_kind_defs Let_def id_int_def)

lemma get_lower_address_precedence:
  "get_lower_address (TLP\<lparr>tlp_address := 0x40, tlp_first_be := 0xe\<rparr>) = 0x40"
  by (simp add: get_lower_address_def get_first_be_offset_def)

end
