(* ===== verification/Pcie_Requester.thy ===== *)
theory Pcie_Requester
  imports Pcie_Tlp
begin

unbundle bit_operations_syntax

text \<open>
  The requester side shared by the classes \<open>Function\<close> and \<open>RootComplex\<close> of \<open>lib/pcie/tb/pcie.py\<close>:
  tag allocation, the completion queues, and the loops of the IO, memory and configuration accesses.
  The two classes repeat the same methods; their own definitions are in the theories of the classes
  and instantiate the loops given here.

  The rest of the simulation is a parameter. \<open>net e t\<close> is the reaction of the fabric in state \<open>e\<close> to
  packet \<open>t\<close>: the completions that reach the requester's queues before it next looks at them, in
  order, and the new fabric state. The simulated time is not modelled: the wait of \<open>recv_cpl\<close> for an edge of its sync
  signal (which every arrival toggles) is not a step of its own, so a completion that has arrived is taken at
  once, and a receive that finds its queue empty is the time-out of the source. \<open>send\<close> holds the checks the class makes
  before it hands a packet to the fabric.

  Byte data is a list of bytes. Addresses and lengths are integers, as in Python.
\<close>

section \<open>Tags and completion queues\<close>

record requester =
  current_tag :: int
  rx_cpl_queues :: "tlp list list"

definition py_index :: "nat \<Rightarrow> int \<Rightarrow> nat res" where
  "py_index n i = (if 0 \<le> i \<and> i < int n then Inr (nat i)
     else if - int n \<le> i \<and> i < 0 then Inr (nat (int n + i)) else Inl IndexError)"

definition push_cpl :: "tlp \<Rightarrow> requester \<Rightarrow> requester res" where
  "push_cpl t rq =
     bindE (py_index (length (rx_cpl_queues rq)) (tlp_tag t)) (\<lambda>i.
       Inr (rq\<lparr>rx_cpl_queues := (rx_cpl_queues rq)[i := rx_cpl_queues rq ! i @ [t]]\<rparr>))"

definition pop_cpl :: "int \<Rightarrow> requester \<Rightarrow> (tlp option \<times> requester) res" where
  "pop_cpl tag rq =
     bindE (py_index (length (rx_cpl_queues rq)) tag) (\<lambda>i.
       case rx_cpl_queues rq ! i of
         [] \<Rightarrow> Inr (None, rq)
       | c # cs \<Rightarrow> Inr (Some c, rq\<lparr>rx_cpl_queues := (rx_cpl_queues rq)[i := cs]\<rparr>))"

text \<open>The search of \<open>get_free_tag\<close>: at most \<open>k\<close> further candidates are tried.\<close>

primrec free_tag_loop :: "nat \<Rightarrow> int \<Rightarrow> requester \<Rightarrow> int option \<times> requester" where
  "free_tag_loop 0 tag_count rq = (None, rq)"
| "free_tag_loop (Suc k) tag_count rq =
     (let tag = (current_tag rq + 1) mod tag_count; rq' = rq\<lparr>current_tag := tag\<rparr>
      in if rx_cpl_queues rq ! nat tag = [] then (Some tag, rq') else free_tag_loop k tag_count rq')"

section \<open>One request\<close>

type_synonym 'e net = "'e \<Rightarrow> tlp \<Rightarrow> (tlp list \<times> 'e) res"

definition transact :: "(tlp \<Rightarrow> unit res) \<Rightarrow> 'e net \<Rightarrow> tlp \<Rightarrow> requester \<Rightarrow> 'e \<Rightarrow> (requester \<times> 'e) res" where
  "transact send net t rq e =
     bindE (send t) (\<lambda>_. bindE (net e t) (\<lambda>(cs, e'). bindE (foldE push_cpl cs rq) (\<lambda>rq'. Inr (rq', e'))))"

text \<open>A packet whose tag is \<open>None\<close> fails when \<open>send\<close> prints it.\<close>

definition with_tag :: "int \<Rightarrow> requester \<Rightarrow> (int \<Rightarrow> requester \<Rightarrow> 'a res) \<Rightarrow> 'a res" where
  "with_tag tag_count rq f =
     (case free_tag_loop (nat tag_count) tag_count rq of
        (None, _) \<Rightarrow> Inl TypeError
      | (Some tag, rq') \<Rightarrow> f tag rq')"

definition request_cpl ::
  "(tlp \<Rightarrow> unit res) \<Rightarrow> 'e net \<Rightarrow> int \<Rightarrow> tlp \<Rightarrow> requester \<Rightarrow> 'e \<Rightarrow> (tlp option \<times> requester \<times> 'e) res" where
  "request_cpl send net tag_count t rq e =
     with_tag tag_count rq (\<lambda>tag rq1.
       bindE (transact send net (t\<lparr>tlp_tag := tag\<rparr>) rq1 e) (\<lambda>(rq2, e2).
       bindE (pop_cpl tag rq2) (\<lambda>(c, rq3). Inr (c, rq3, e2))))"

definition check_cpl :: "tlp option \<Rightarrow> tlp res" where
  "check_cpl c = (case c of None \<Rightarrow> Inl (PyException ''Timeout'')
     | Some t \<Rightarrow> if tlp_status t \<noteq> CPL_STATUS_SC then Inl (PyException ''Unsuccessful completion'')
                 else Inr t)"

text \<open>\<open>assert cpl.length == 1\<close> and \<open>struct.pack('<L', cpl.data[0])\<close>.\<close>

definition cpl_dword :: "tlp \<Rightarrow> byte list res" where
  "cpl_dword t = bindE (assertE (tlp_length t = 1)) (\<lambda>_. bindE (nth_res (tlp_data t) 0) pack_L)"

section \<open>DWORD accesses\<close>

lemma dword_step_less: "n < len \<Longrightarrow> nat (len - (n + min (len - n) (4 - addr mod 4))) < nat (len - (n::int))"
  using pos_mod_bound [of 4 addr] by (auto simp: min_def)

lemma dword_step_less_nat:
  "n < len \<Longrightarrow> len - (n + min (len - n) (nat (4 - addr mod 4))) < len - (n::nat)"
proof -
  assume "n < len"
  moreover have "0 < nat (4 - addr mod 4)" by simp
  ultimately show ?thesis by linarith
qed

text \<open>The loop of \<open>io_read\<close> and \<open>config_read\<close>. \<open>mk addr t\<close> completes the request for the current
  address; \<open>dw\<close> turns the received completion into four bytes or an error.\<close>

function dword_read_loop ::
  "(tlp \<Rightarrow> unit res) \<Rightarrow> 'e net \<Rightarrow> int \<Rightarrow> (int \<Rightarrow> tlp \<Rightarrow> tlp) \<Rightarrow> (tlp option \<Rightarrow> byte list res) \<Rightarrow> tlp \<Rightarrow>
   int \<Rightarrow> int \<Rightarrow> int \<Rightarrow> byte list \<Rightarrow> requester \<Rightarrow> 'e \<Rightarrow> (byte list \<times> requester \<times> 'e) res" where
  "dword_read_loop send net tag_count mk dw p n len addr data rq e =
     (if n < len then
        let first_pad = addr mod 4;
            byte_length = min (len - n) (4 - first_pad);
            t = mk addr (fst (set_be addr byte_length p))
        in bindE (request_cpl send net tag_count t rq e) (\<lambda>(c, rq', e').
           bindE (dw c) (\<lambda>d.
             dword_read_loop send net tag_count mk dw p (n + byte_length) len (addr + byte_length)
               (data @ drop (nat first_pad) d) rq' e'))
      else Inr (take (nat len) data, rq, e))"
  by pat_completeness auto
termination
  by (relation "measure (\<lambda>(send, net, tc, mk, dw, p, n, len, addr, data, rq, e). nat (len - n))")
    (simp_all add: dword_step_less)

declare dword_read_loop.simps [simp del]

text \<open>The loop of \<open>io_write\<close> and \<open>config_write\<close>; \<open>ck\<close> checks the received completion.\<close>

function dword_write_loop ::
  "(tlp \<Rightarrow> unit res) \<Rightarrow> 'e net \<Rightarrow> int \<Rightarrow> (int \<Rightarrow> tlp \<Rightarrow> tlp) \<Rightarrow> (tlp option \<Rightarrow> unit res) \<Rightarrow> tlp \<Rightarrow>
   nat \<Rightarrow> byte list \<Rightarrow> int \<Rightarrow> requester \<Rightarrow> 'e \<Rightarrow> (requester \<times> 'e) res" where
  "dword_write_loop send net tag_count mk ck p n data addr rq e =
     (if n < length data then
        let first_pad = addr mod 4;
            byte_length = min (length data - n) (nat (4 - first_pad))
        in bindE (set_be_data addr (slice n (n + byte_length) data) p) (\<lambda>t.
           bindE (request_cpl send net tag_count (mk addr t) rq e) (\<lambda>(c, rq', e').
           bindE (ck c) (\<lambda>_.
             dword_write_loop send net tag_count mk ck p (n + byte_length) data
               (addr + int byte_length) rq' e')))
      else Inr (rq, e))"
  by pat_completeness auto
termination
  by (relation "measure (\<lambda>(send, net, tc, mk, ck, p, n, data, addr, rq, e). length data - n)")
    (simp_all add: dword_step_less_nat)

declare dword_write_loop.simps [simp del]

section \<open>Memory accesses\<close>

definition cpl_payload :: "tlp \<Rightarrow> byte list res" where
  "cpl_payload t =
     bindE (mapE (\<lambda>k. bindE (nth_res (tlp_data t) k) pack_L) [0..<nat (tlp_length t)])
       (\<lambda>bss. Inr (concat bss))"

text \<open>The inner loop of \<open>mem_read\<close>, over the completions that wait for the tag.\<close>

fun mem_read_cpls :: "int \<Rightarrow> int \<Rightarrow> byte list \<Rightarrow> tlp list \<Rightarrow> (byte list \<times> tlp list) res" where
  "mem_read_cpls byte_length m data [] =
     (if m < byte_length then Inl (PyException ''Timeout'') else Inr (data, []))"
| "mem_read_cpls byte_length m data (c # cs) =
     (if m < byte_length then
        bindE (check_cpl (Some c)) (\<lambda>cpl.
        bindE (assertE (tlp_byte_count cpl + 3 + (tlp_lower_address cpl AND 3) \<ge> tlp_length cpl * 4)) (\<lambda>_.
        bindE (assertE (tlp_byte_count cpl = byte_length - m)) (\<lambda>_.
        bindE (cpl_payload cpl) (\<lambda>d.
          let offset = tlp_lower_address cpl AND 3
          in mem_read_cpls byte_length (m + (int (length d) - offset))
               (data @ slice (nat offset) (nat (offset + tlp_byte_count cpl)) d) cs))))
      else Inr (data, c # cs))"

definition recv_mem_read ::
  "int \<Rightarrow> int \<Rightarrow> byte list \<Rightarrow> requester \<Rightarrow> (byte list \<times> requester) res" where
  "recv_mem_read tag byte_length data rq =
     bindE (py_index (length (rx_cpl_queues rq)) tag) (\<lambda>i.
     bindE (mem_read_cpls byte_length 0 data (rx_cpl_queues rq ! i)) (\<lambda>(data', q).
       Inr (data', rq\<lparr>rx_cpl_queues := (rx_cpl_queues rq)[i := q]\<rparr>)))"

definition chunk_length :: "int \<Rightarrow> int \<Rightarrow> int \<Rightarrow> int" where
  "chunk_length limit addr len = min (min len (limit - addr mod 4)) (0x1000 - (addr AND 0xfff))"

lemma chunk_length_pos: "0 < len \<Longrightarrow> 4 \<le> limit \<Longrightarrow> 0 < chunk_length limit addr len"
  using pos_mod_bound [of 4 addr] pos_mod_bound [of 4096 addr] by (simp add: chunk_length_def)

lemma shift_128_ge: "4 \<le> push_bit k (128::int)"
proof -
  have "(1::int) \<le> 2 ^ k" by simp
  then have "4 \<le> 128 * (2::int) ^ k" by linarith
  then show ?thesis by (simp only: push_bit_eq_mult)
qed

lemma chunk_128_pos: "0 < len \<Longrightarrow> 0 < chunk_length (push_bit k 128) addr len"
  by (rule chunk_length_pos [OF _ shift_128_ge])

lemma chunk_nat_step:
  "n < l \<Longrightarrow> l - (n + nat (chunk_length (push_bit k 128) addr (int l - int n))) < l - n"
  using chunk_128_pos [of "int l - int n" k addr] by simp

definition mem_read_req :: "int \<Rightarrow> int \<Rightarrow> tlp \<Rightarrow> tlp" where
  "mem_read_req addr len p =
     fst (set_be addr len (set_fmt_type (if addr > 0xffffffff then TLP_MEM_READ_64 else TLP_MEM_READ) p))"

definition mem_write_req :: "int \<Rightarrow> byte list \<Rightarrow> tlp \<Rightarrow> tlp res" where
  "mem_write_req addr data p =
     set_be_data addr data (set_fmt_type (if addr > 0xffffffff then TLP_MEM_WRITE_64 else TLP_MEM_WRITE) p)"

text \<open>The outer loop of \<open>mem_read\<close>. The byte enables are set for \<open>belen byte_length\<close> bytes:
  \<open>RootComplex\<close> passes the length of the chunk, \<open>Function\<close> the length of the whole access.\<close>

function mem_read_loop ::
  "(tlp \<Rightarrow> unit res) \<Rightarrow> 'e net \<Rightarrow> int \<Rightarrow> (int \<Rightarrow> int) \<Rightarrow> nat \<Rightarrow> tlp \<Rightarrow>
   int \<Rightarrow> int \<Rightarrow> int \<Rightarrow> byte list \<Rightarrow> requester \<Rightarrow> 'e \<Rightarrow> (byte list \<times> requester \<times> 'e) res" where
  "mem_read_loop send net tag_count belen mrrs p n len addr data rq e =
     (if n < len then
        let byte_length = chunk_length (push_bit mrrs 128) addr (len - n);
            t = mem_read_req addr (belen byte_length) p
        in with_tag tag_count rq (\<lambda>tag rq1.
           bindE (transact send net (t\<lparr>tlp_tag := tag\<rparr>) rq1 e) (\<lambda>(rq2, e2).
           bindE (recv_mem_read tag byte_length data rq2) (\<lambda>(data', rq3).
             mem_read_loop send net tag_count belen mrrs p (n + byte_length) len (addr + byte_length)
               data' rq3 e2)))
      else Inr (data, rq, e))"
  by pat_completeness auto
termination
  by (relation "measure (\<lambda>(send, net, tc, be, mrrs, p, n, len, addr, data, rq, e). nat (len - n))")
    (simp_all add: chunk_128_pos)

declare mem_read_loop.simps [simp del]

function mem_write_loop ::
  "(tlp \<Rightarrow> unit res) \<Rightarrow> 'e net \<Rightarrow> nat \<Rightarrow> tlp \<Rightarrow> nat \<Rightarrow> byte list \<Rightarrow> int \<Rightarrow> requester \<Rightarrow> 'e
   \<Rightarrow> (requester \<times> 'e) res" where
  "mem_write_loop send net mps p n data addr rq e =
     (if n < length data then
        let byte_length = nat (chunk_length (push_bit mps 128) addr (int (length data - n)))
        in bindE (mem_write_req addr (slice n (n + byte_length) data) p) (\<lambda>t.
           bindE (transact send net t rq e) (\<lambda>(rq', e').
             mem_write_loop send net mps p (n + byte_length) data (addr + int byte_length) rq' e'))
      else Inr (rq, e))"
  by pat_completeness auto
termination
  by (relation "measure (\<lambda>(send, net, mps, p, n, data, addr, rq, e). length data - n)")
    (simp_all add: chunk_nat_step)

declare mem_write_loop.simps [simp del]

section \<open>Properties\<close>

subsection \<open>Tags\<close>

definition idle :: "requester \<Rightarrow> bool" where
  "idle rq \<longleftrightarrow> rx_cpl_queues rq = replicate 256 []"

lemma idleD: "idle rq \<Longrightarrow> length (rx_cpl_queues rq) = 256 \<and> (\<forall>i < 256. rx_cpl_queues rq ! i = [])"
  by (simp add: idle_def)

lemma free_tag_loop_keeps_queues:
  "free_tag_loop k tc rq = (r, rq') \<Longrightarrow> rx_cpl_queues rq' = rx_cpl_queues rq"
  by (induction k arbitrary: rq) (auto simp: Let_def split: if_splits)

lemma free_tag_loop_Some:
  "free_tag_loop k tc rq = (Some tag, rq') \<Longrightarrow> 0 < tc \<Longrightarrow>
     0 \<le> tag \<and> tag < tc \<and> rx_cpl_queues rq ! nat tag = [] \<and> current_tag rq' = tag"
proof (induction k arbitrary: rq)
  case (Suc k)
  then show ?case
    using Suc.IH [of "rq\<lparr>current_tag := (current_tag rq + 1) mod tc\<rparr>"]
    by (auto simp: Let_def split: if_splits)
qed simp

lemma free_tag_loop_None:
  "free_tag_loop k tc rq = (None, rq') \<Longrightarrow>
     \<forall>j \<in> {1..int k}. rx_cpl_queues rq ! nat ((current_tag rq + j) mod tc) \<noteq> []"
proof (induction k arbitrary: rq)
  case (Suc k)
  let ?tag = "(current_tag rq + 1) mod tc"
  have ne: "rx_cpl_queues rq ! nat ?tag \<noteq> []"
    and rec: "free_tag_loop k tc (rq\<lparr>current_tag := ?tag\<rparr>) = (None, rq')"
    using Suc.prems by (auto simp: Let_def split: if_splits)
  from Suc.IH [OF rec] have IH: "rx_cpl_queues rq ! nat ((current_tag rq + 1 + j) mod tc) \<noteq> []"
    if "1 \<le> j" "j \<le> int k" for j
    using that by (simp add: mod_simps)
  show ?case
  proof
    fix j assume "j \<in> {1..int (Suc k)}"
    then show "rx_cpl_queues rq ! nat ((current_tag rq + j) mod tc) \<noteq> []"
      using ne IH [of "j - 1"] by (cases "j = 1") (auto simp: add.assoc)
  qed
qed simp

lemma mod_cover: "0 < tc \<Longrightarrow> 0 \<le> i \<Longrightarrow> i < tc \<Longrightarrow> \<exists>j \<in> {1..tc}. (c + j) mod tc = (i::int)"
proof -
  assume tc: "0 < tc" and i: "0 \<le> i" "i < tc"
  let ?j = "(i - c - 1) mod tc + 1"
  have "(c + ?j) mod tc = (c + 1 + (i - c - 1)) mod tc"
    using mod_add_right_eq [of "c + 1" "i - c - 1" tc] by (simp only: ac_simps)
  then have "(c + ?j) mod tc = i" using i by simp
  moreover have "?j \<in> {1..tc}" unfolding atLeastAtMost_iff
    using pos_mod_bound [OF tc, of "i - c - 1"] pos_mod_sign [OF tc, of "i - c - 1"] by linarith
  ultimately show ?thesis by blast
qed

lemma with_tag_idle:
  assumes "idle rq" "0 < tc" "tc \<le> 256"
  shows "with_tag tc rq f = f ((current_tag rq + 1) mod tc) (rq\<lparr>current_tag := (current_tag rq + 1) mod tc\<rparr>)"
proof -
  have "nat tc = Suc (nat tc - 1)" using assms by simp
  moreover have "rx_cpl_queues rq ! nat ((current_tag rq + 1) mod tc) = []"
  proof -
    have "nat ((current_tag rq + 1) mod tc) < 256"
      using assms pos_mod_bound [of tc "current_tag rq + 1"] by linarith
    then show ?thesis using idleD [OF assms(1)] by blast
  qed
  ultimately have "free_tag_loop (nat tc) tc rq
      = (Some ((current_tag rq + 1) mod tc), rq\<lparr>current_tag := (current_tag rq + 1) mod tc\<rparr>)"
    using free_tag_loop.simps(2) [of "nat tc - 1" tc rq] by (simp add: Let_def)
  then show ?thesis by (simp add: with_tag_def)
qed

subsection \<open>Requests\<close>

lemma foldE_push_cpl:
  assumes "\<forall>c\<in>set cs. tlp_tag c = tag" "0 \<le> tag" "nat tag < length (rx_cpl_queues rq)"
  shows "foldE push_cpl cs rq = Inr (rq\<lparr>rx_cpl_queues :=
    (rx_cpl_queues rq)[nat tag := rx_cpl_queues rq ! nat tag @ cs]\<rparr>)"
  using assms
proof (induction cs arbitrary: rq)
  case (Cons c cs)
  have "push_cpl c rq = Inr (rq\<lparr>rx_cpl_queues :=
      (rx_cpl_queues rq)[nat tag := rx_cpl_queues rq ! nat tag @ [c]]\<rparr>)"
    using Cons.prems by (simp add: push_cpl_def py_index_def nat_less_iff)
  then show ?case using Cons by simp
qed simp

lemma chunk_length_bounds:
  assumes "0 < len" "4 \<le> limit"
  shows "1 \<le> chunk_length limit addr len" "chunk_length limit addr len \<le> len"
    "addr mod 4096 + chunk_length limit addr len \<le> 4096" "chunk_length limit addr len + addr mod 4 \<le> limit"
  using chunk_length_pos [OF assms, of addr] by (simp_all add: chunk_length_def)

text \<open>A request that stays inside a 4 KB page passes the check of \<open>send\<close>.\<close>

lemma page_dwords:
  assumes "1 \<le> len" "a mod 4096 + len \<le> (4096::int)"
  shows "(a - a mod 4) mod 4096 + (a mod 4 + len + (3 - (a + len - 1) mod 4)) \<le> 4096"
proof -
  have "a mod 4 = a mod 4096 mod 4" by (simp add: mod_mod_cancel)
  moreover have "a mod 4096 mod 4 \<le> a mod 4096" by (rule zmod_le_nonneg_dividend) simp
  ultimately have "0 \<le> a mod 4096 - a mod 4" "a mod 4096 - a mod 4 < 4096"
    using pos_mod_bound [of 4096 a] pos_mod_sign [of 4 a] by linarith+
  then have "(a mod 4096 - a mod 4) mod 4096 = a mod 4096 - a mod 4" by (rule mod_pos_pos_trivial)
  then have "(a - a mod 4) mod 4096 = a mod 4096 - a mod 4" by (simp only: mod_diff_left_eq)
  moreover have "(a mod 4096 + len + (3 - (a + len - 1) mod 4)) mod 4 = 0"
  proof -
    define q r where "q = a div 4096" and "r = a mod 4096"
    then have "a + len - 1 = (r + len - 1) + 4 * (1024 * q)" by simp
    then have "(a + len - 1) mod 4 = (r + len - 1) mod 4" by (simp only: mod_mult_self2)
    moreover have "(r + len + (3 - (r + len - 1) mod 4)) mod 4 = 0" by presburger
    ultimately show ?thesis by (simp add: r_def)
  qed
  then obtain k where k: "a mod 4096 + len + (3 - (a + len - 1) mod 4) = 4 * k"
    by (metis mod_0_imp_dvd dvd_def)
  have "0 \<le> (a + len - 1) mod 4" by simp
  with k assms(2) have "4 * k < 4100" by linarith
  then have "4 * k \<le> 4096" by simp
  ultimately show ?thesis using k by simp
qed

lemma mem_read_req_fields [simp]:
  "tlp_address (mem_read_req a len p) = a - a mod 4"
  "tlp_tag (mem_read_req a len p) = tlp_tag p"
  "tlp_requester_id (mem_read_req a len p) = tlp_requester_id p"
  "fmt_type (mem_read_req a len p) = (if a > 0xffffffff then TLP_MEM_READ_64 else TLP_MEM_READ)"
  by (simp_all add: mem_read_req_def set_be_def set_fmt_type_def fmt_type_def Let_def)

lemma tlp_check_tag [simp]: "tlp_check (t\<lparr>tlp_tag := tag\<rparr>) = tlp_check t"
  by (simp add: tlp_check_def tlp_kind_defs)

lemma mem_read_req_check:
  assumes "1 \<le> len" "a mod 4096 + len \<le> 4096"
  shows "tlp_check ((mem_read_req a len p)\<lparr>tlp_tag := tag\<rparr>)"
proof -
  let ?t = "mem_read_req a len p"
  have "tlp_length ?t * 4 = a mod 4 + len + (3 - (a + len - 1) mod 4)"
    using assms(1) by (simp add: mem_read_req_def set_be_length)
  then have "tlp_length ?t * 4 \<le> 4096 - tlp_address ?t mod 4096"
    using page_dwords [OF assms] by simp
  then show ?thesis
    using mem_read_req_fields(4) [of a len p] by (auto simp: tlp_check_def tlp_kind_defs split: if_splits)
qed

end
