(* ===== verification/Pcie_Function.thy ===== *)
theory Pcie_Function
  imports Pcie_Cap Pcie_CapRegs Pcie_Requester
begin

unbundle bit_operations_syntax

text \<open>
  The class \<open>Function\<close> of \<open>lib/pcie/tb/pcie.py\<close>: the common configuration space, capability
  registration, base address registers, reception of packets, and the IO and memory accesses a
  function makes as bus master.

  The object is the record \<open>func\<close>; subclasses extend it. The mix-ins \<open>PMCapability\<close> and
  \<open>PCIECapability\<close> are its fields \<open>pm\<close> and \<open>pcie\<close>; \<open>msi\<close> and \<open>msix\<close> hold the attributes of
  \<open>MSICapability\<close> and \<open>MSIXCapability\<close> for the classes that also inherit those, and are reachable only
  once the capability is registered. A packet handler returns the new object and the packets it
  sends upstream, in order. \<open>math.ceil(math.log(size, 2))\<close> rounds in floating point (the result for
  \<open>2**29\<close> is 30 with the usual C library), so it is the parameter \<open>clog2\<close>.
\<close>

section \<open>State\<close>

datatype cap_method = PM_method | PCIE_method | MSI_method | MSIX_method

datatype rx_handler = Handle_config_0 | Handle_io_read | Handle_io_write | Handle_mem_read | Handle_mem_write

record func =
  bus_num :: int
  device_num :: int
  function_num :: int
  upstream_tx_set :: bool
  req :: requester
  rx_tlp_handler :: "int \<times> int \<Rightarrow> rx_handler option"
  capabilities :: "(cap_method, cap_method) pcie_cap_list"
  ext_capabilities :: "(cap_method, cap_method) pcie_cap_list"
  vendor_id :: int
  device_id :: int
  bus_master_enable :: bool
  parity_error_response :: bool
  serr_enable :: bool
  interrupt_disable :: bool
  interrupt_status :: bool
  capabilities_list :: bool
  master_data_parity_error :: bool
  signaled_target_abort :: bool
  received_target_abort :: bool
  received_master_abort :: bool
  signaled_system_error :: bool
  detected_parity_error :: bool
  rev_id :: int
  class_code :: int
  cache_ln :: int
  lat_timer :: int
  header_type :: int
  bist :: int
  bar :: "int list"
  bar_mask :: "int list"
  expansion_rom_addr :: int
  cap_ptr :: int
  intr_pin :: int
  intr_line :: int
  pm :: pm_capability
  pcie :: pcie_capability
  msi :: msi_capability
  msix :: msix_capability

abbreviation (input) PM_CAP_ID :: int where "PM_CAP_ID \<equiv> 0x01"
abbreviation (input) PM_CAP_LEN :: int where "PM_CAP_LEN \<equiv> 2"
abbreviation (input) MSI_CAP_ID :: int where "MSI_CAP_ID \<equiv> 0x05"
abbreviation (input) MSI_CAP_LEN :: int where "MSI_CAP_LEN \<equiv> 6"
abbreviation (input) MSIX_CAP_ID :: int where "MSIX_CAP_ID \<equiv> 0x11"
abbreviation (input) MSIX_CAP_LEN :: int where "MSIX_CAP_LEN \<equiv> 3"
abbreviation (input) PCIE_CAP_ID :: int where "PCIE_CAP_ID \<equiv> 0x10"
abbreviation (input) PCIE_CAP_LEN :: int where "PCIE_CAP_LEN \<equiv> 15"

section \<open>Capabilities\<close>

definition cap_read_table :: "('a func_scheme) \<Rightarrow> cap_method \<Rightarrow> int \<Rightarrow> int option res" where
  "cap_read_table f m reg =
     (case m of
        PM_method \<Rightarrow> Inr (read_pm_cap_register (pm f) reg)
      | PCIE_method \<Rightarrow> Inr (Some (read_pcie_cap_register (pcie f) reg))
      | MSI_method \<Rightarrow> Inr (read_msi_cap_register (msi f) reg)
      | MSIX_method \<Rightarrow> Inr (read_msix_cap_register (msix f) reg))"

definition cap_write_table :: "cap_method \<Rightarrow> int \<Rightarrow> int \<Rightarrow> int \<Rightarrow> ('a func_scheme) \<Rightarrow> ('a func_scheme) res" where
  "cap_write_table m reg data msk f =
     (case m of
        PM_method \<Rightarrow> Inr (f\<lparr>pm := write_pm_cap_register reg data msk (pm f)\<rparr>)
      | PCIE_method \<Rightarrow> bindE (write_pcie_cap_register reg data msk (pcie f)) (\<lambda>c. Inr (f\<lparr>pcie := c\<rparr>))
      | MSI_method \<Rightarrow> Inr (f\<lparr>msi := write_msi_cap_register reg data msk (msi f)\<rparr>)
      | MSIX_method \<Rightarrow> Inr (f\<lparr>msix := write_msix_cap_register reg data msk (msix f)\<rparr>))"

definition read_capability_register :: "('a func_scheme) \<Rightarrow> int \<Rightarrow> int option res" where
  "read_capability_register f reg = list_read_register (cap_read_table f) (capabilities f) reg"

definition write_capability_register :: "int \<Rightarrow> int \<Rightarrow> int \<Rightarrow> ('a func_scheme) \<Rightarrow> ('a func_scheme) res" where
  "write_capability_register reg data msk f =
     list_write_register cap_write_table (capabilities f) reg data msk f"

definition read_extended_capability_register :: "('a func_scheme) \<Rightarrow> int \<Rightarrow> int option res" where
  "read_extended_capability_register f reg = list_read_register (cap_read_table f) (ext_capabilities f) reg"

definition write_extended_capability_register ::
  "int \<Rightarrow> int \<Rightarrow> int \<Rightarrow> ('a func_scheme) \<Rightarrow> ('a func_scheme) res" where
  "write_extended_capability_register reg data msk f =
     list_write_register cap_write_table (ext_capabilities f) reg data msk f"

definition register_capability :: "int \<Rightarrow> int \<Rightarrow> cap_method \<Rightarrow> int \<Rightarrow> ('a func_scheme) \<Rightarrow> ('a func_scheme) res" where
  "register_capability i len m off f =
     bindE (register i (Some 0) len (Some m) (Some m) off (capabilities f)) (\<lambda>l.
       Inr (f\<lparr>capabilities := l, cap_ptr := (case caps l of [] \<Rightarrow> 0 | c # _ \<Rightarrow> cap_offset c * 4)\<rparr>))"

definition register_extended_capability ::
  "int \<Rightarrow> int option \<Rightarrow> int \<Rightarrow> cap_method \<Rightarrow> int \<Rightarrow> ('a func_scheme) \<Rightarrow> ('a func_scheme) res" where
  "register_extended_capability i ver len m off f =
     bindE (register i ver len (Some m) (Some m) off (ext_capabilities f)) (\<lambda>l.
       Inr (f\<lparr>ext_capabilities := l\<rparr>))"

text \<open>The constructor: \<open>PCIECapability.__init__\<close> registers its capability before
  \<open>PMCapability.__init__\<close> does, by the order of the base classes.\<close>

definition func_init :: func where
  "func_init = \<lparr>bus_num = 0, device_num = 0, function_num = 0, upstream_tx_set = False,
     req = \<lparr>current_tag = 0, rx_cpl_queues = replicate 256 []\<rparr>,
     rx_tlp_handler = [TLP_CFG_READ_0 \<mapsto> Handle_config_0, TLP_CFG_WRITE_0 \<mapsto> Handle_config_0],
     capabilities = PcieCapList, ext_capabilities = PcieExtCapList,
     vendor_id = 0, device_id = 0, bus_master_enable = False, parity_error_response = False,
     serr_enable = False, interrupt_disable = False, interrupt_status = False,
     capabilities_list = True, master_data_parity_error = False, signaled_target_abort = False,
     received_target_abort = False, received_master_abort = False, signaled_system_error = False,
     detected_parity_error = False, rev_id = 0, class_code = 0, cache_ln = 0, lat_timer = 0,
     header_type = 0, bist = 0, bar = [], bar_mask = [], expansion_rom_addr = 0, cap_ptr = 0,
     intr_pin = 0, intr_line = 0, pm = PMCapability, pcie = PCIECapability,
     msi = MSICapability, msix = MSIXCapability\<rparr>"

definition Function :: "func res" where
  "Function = bindE (register_capability PCIE_CAP_ID PCIE_CAP_LEN PCIE_method 0 func_init)
     (register_capability PM_CAP_ID PM_CAP_LEN PM_method 0)"

section \<open>Configuration space\<close>

definition get_id :: "('a func_scheme) \<Rightarrow> pcie_id" where
  "get_id f = PcieId (bus_num f) (device_num f) (function_num f)"

definition read_command_status :: "('a func_scheme) \<Rightarrow> int" where
  "read_command_status f =
     fbit 2 (bus_master_enable f) OR fbit 6 (parity_error_response f) OR fbit 8 (serr_enable f) OR
     fbit 10 (interrupt_disable f) OR fbit 19 (interrupt_status f) OR fbit 20 (capabilities_list f) OR
     fbit 24 (master_data_parity_error f) OR fbit 27 (signaled_target_abort f) OR
     fbit 28 (received_target_abort f) OR fbit 29 (received_master_abort f) OR
     fbit 30 (signaled_system_error f) OR fbit 31 (detected_parity_error f)"

definition read_config_register :: "('a func_scheme) \<Rightarrow> int \<Rightarrow> int option res" where
  "read_config_register f reg =
     (if reg = 0 then Inr (Some (push_bit 16 (device_id f) OR vendor_id f))
      else if reg = 1 then Inr (Some (read_command_status f))
      else if reg = 2 then Inr (Some (push_bit 8 (class_code f) OR rev_id f))
      else if reg = 3 then Inr (Some (push_bit 24 (bist f) OR push_bit 16 (header_type f) OR
             push_bit 8 (lat_timer f) OR cache_ln f))
      else if reg = 13 then Inr (Some (cap_ptr f))
      else if reg = 15 then Inr (Some (push_bit 8 (intr_pin f) OR intr_line f))
      else if 16 \<le> reg \<and> reg < 256 then read_capability_register f reg
      else if 256 \<le> reg \<and> reg < 4096 then read_extended_capability_register f reg
      else Inr (Some 0))"

definition write_command_status :: "int \<Rightarrow> int \<Rightarrow> ('a func_scheme) \<Rightarrow> ('a func_scheme)" where
  "write_command_status data msk f =
     f\<lparr>bus_master_enable := (if msk AND 0x1 \<noteq> 0 then tst data 2 else bus_master_enable f),
       parity_error_response := (if msk AND 0x1 \<noteq> 0 then tst data 6 else parity_error_response f),
       serr_enable := (if msk AND 0x2 \<noteq> 0 then tst data 8 else serr_enable f),
       interrupt_disable := (if msk AND 0x2 \<noteq> 0 then tst data 10 else interrupt_disable f),
       master_data_parity_error :=
         (if msk AND 0x8 \<noteq> 0 \<and> tst data 24 then False else master_data_parity_error f),
       signaled_target_abort :=
         (if msk AND 0x8 \<noteq> 0 \<and> tst data 27 then False else signaled_target_abort f),
       received_target_abort :=
         (if msk AND 0x8 \<noteq> 0 \<and> tst data 28 then False else received_target_abort f),
       received_master_abort :=
         (if msk AND 0x8 \<noteq> 0 \<and> tst data 29 then False else received_master_abort f),
       signaled_system_error :=
         (if msk AND 0x8 \<noteq> 0 \<and> tst data 30 then False else signaled_system_error f),
       detected_parity_error :=
         (if msk AND 0x8 \<noteq> 0 \<and> tst data 31 then False else detected_parity_error f)\<rparr>"

definition write_config_register :: "int \<Rightarrow> int \<Rightarrow> int \<Rightarrow> ('a func_scheme) \<Rightarrow> ('a func_scheme) res" where
  "write_config_register reg data msk f =
     (if reg = 1 then Inr (write_command_status data msk f)
      else if reg = 3 then
        Inr (f\<lparr>cache_ln := byte_mask_update (cache_ln f) (msk AND 1) data (-1),
               lat_timer := byte_mask_update (lat_timer f) (drop_bit 1 msk AND 1) (drop_bit 8 data) (-1),
               bist := byte_mask_update (bist f) (drop_bit 3 msk AND 1) (drop_bit 24 data) (-1)\<rparr>)
      else if reg = 15 then
        Inr (f\<lparr>intr_line := byte_mask_update (intr_line f) (msk AND 1) data (-1),
               intr_pin := byte_mask_update (intr_pin f) (drop_bit 1 msk AND 1) (drop_bit 8 data) (-1)\<rparr>)
      else if 16 \<le> reg \<and> reg < 256 then write_capability_register reg data msk f
      else if 256 \<le> reg \<and> reg < 4096 then write_extended_capability_register reg data msk f
      else Inr f)"

section \<open>Base address registers\<close>

definition configure_bar ::
  "(int \<Rightarrow> nat) \<Rightarrow> nat \<Rightarrow> int \<Rightarrow> bool \<Rightarrow> bool \<Rightarrow> bool \<Rightarrow> ('a func_scheme) \<Rightarrow> ('a func_scheme) res" where
  "configure_bar clog2 idx sz ext prefetch io f =
     (if sz \<le> 0 then Inl ValueError
      else let msk = 2 ^ clog2 sz - 1
      in if idx \<ge> length (bar f) \<or> (ext \<and> idx + 1 \<ge> length (bar f))
         then Inl (PyException ''BAR index out of range'')
         else if io then
           Inr (f\<lparr>bar := (bar f)[idx := 1], bar_mask := (bar_mask f)[idx := 0xfffffffc AND NOT msk]\<rparr>)
         else
           let b0 = (if ext then 4 else 0) OR (if prefetch then 8 else 0);
               f1 = f\<lparr>bar := (bar f)[idx := b0], bar_mask := (bar_mask f)[idx := 0xfffffff0 AND NOT msk]\<rparr>
           in Inr (if ext
                then f1\<lparr>bar := (bar f1)[idx + 1 := 0],
                        bar_mask := (bar_mask f1)[idx + 1 := 0xffffffff AND drop_bit 32 (NOT msk)]\<rparr>
                else f1))"

fun match_bar_loop :: "int \<Rightarrow> bool \<Rightarrow> nat \<Rightarrow> (int \<times> int) list \<Rightarrow> (nat \<times> int) list res" where
  "match_bar_loop addr io i [] = Inr []"
| "match_bar_loop addr io i ((v, m) # bs) =
     (if m = 0 then match_bar_loop addr io (i + 1) bs
      else if v AND 1 \<noteq> 0 then
        bindE (match_bar_loop addr io (i + 1) bs) (\<lambda>ms.
          Inr (if io \<and> addr AND m = v AND m then (i, addr AND NOT m) # ms else ms))
      else if v AND 4 \<noteq> 0 then
        (case bs of
           [] \<Rightarrow> Inl (PyException ''Final BAR marked as 64 bit, but no extension BAR available'')
         | (v2, m2) # bs' \<Rightarrow>
             let v' = v OR push_bit 32 v2; m' = m OR push_bit 32 m2
             in bindE (match_bar_loop addr io (i + 2) bs') (\<lambda>ms.
                  Inr (if \<not> io \<and> addr AND m' = v' AND m' then (i, addr AND NOT m') # ms else ms)))
      else
        bindE (match_bar_loop addr io (i + 1) bs) (\<lambda>ms.
          Inr (if \<not> io \<and> addr AND m = v AND m then (i, addr AND NOT m) # ms else ms)))"

definition match_bar :: "('a func_scheme) \<Rightarrow> int \<Rightarrow> bool \<Rightarrow> (nat \<times> int) list res" where
  "match_bar f addr io = match_bar_loop addr io 0 (zip (bar f) (bar_mask f))"

section \<open>Packets\<close>

definition upstream_send :: "('a func_scheme) \<Rightarrow> tlp \<Rightarrow> tlp list res" where
  "upstream_send f t = bindE (assertE (tlp_check t)) (\<lambda>_.
     if upstream_tx_set f then Inr [t] else Inl (PyException ''Transmit handler not set''))"

definition send_check :: "('a func_scheme) \<Rightarrow> tlp \<Rightarrow> unit res" where
  "send_check f t = bindE (upstream_send f t) (\<lambda>_. Inr ())"

text \<open>\<open>get_free_tag\<close>, \<open>recv_cpl\<close>.\<close>

definition tag_count :: "('a func_scheme) \<Rightarrow> int" where
  "tag_count f = (if extended_tag_field_enable (dev_ctl (pcie f)) then 256 else 32)"

definition get_free_tag :: "('a func_scheme) \<Rightarrow> int option \<times> ('a func_scheme)" where
  "get_free_tag f = (case free_tag_loop (nat (tag_count f)) (tag_count f) (req f) of
     (t, rq) \<Rightarrow> (t, f\<lparr>req := rq\<rparr>))"

definition recv_cpl :: "int \<Rightarrow> ('a func_scheme) \<Rightarrow> (tlp option \<times> ('a func_scheme)) res" where
  "recv_cpl tag f = bindE (pop_cpl tag (req f)) (\<lambda>(c, rq). Inr (c, f\<lparr>req := rq\<rparr>))"

definition register_rx_tlp_handler :: "int \<times> int \<Rightarrow> rx_handler \<Rightarrow> ('a func_scheme) \<Rightarrow> ('a func_scheme)" where
  "register_rx_tlp_handler ft h f = f\<lparr>rx_tlp_handler := (rx_tlp_handler f)(ft \<mapsto> h)\<rparr>"

text \<open>\<open>handle_config_0_tlp\<close> calls the methods of the object's own class: \<open>rd\<close> and \<open>wr\<close> access
  the registers, \<open>sd\<close> is \<open>send\<close>. A
  register method that returns \<open>None\<close> makes the print of the completion fail.\<close>

definition handle_config_0_tlp ::
  "('a func_scheme \<Rightarrow> int \<Rightarrow> int option res) \<Rightarrow> (int \<Rightarrow> int \<Rightarrow> int \<Rightarrow> 'a func_scheme \<Rightarrow> 'a func_scheme res) \<Rightarrow>
   ('a func_scheme \<Rightarrow> tlp \<Rightarrow> tlp list res) \<Rightarrow> tlp \<Rightarrow> 'a func_scheme \<Rightarrow> ('a func_scheme \<times> tlp list) res" where
  "handle_config_0_tlp rd wr sd t f =
     (if pid_device (tlp_dest_id t) = device_num f \<and> pid_function (tlp_dest_id t) = function_num f then
        let f1 = f\<lparr>bus_num := pid_bus (tlp_dest_id t)\<rparr>
        in if fmt_type t = TLP_CFG_READ_0 then
             bindE (rd f1 (tlp_register_number t)) (\<lambda>v. bindE (not_none v) (\<lambda>v.
             bindE (sd f1 ((set_completion_data t (get_id f1) TLP)
                      \<lparr>tlp_data := [v], tlp_byte_count := 4, tlp_length := 1\<rparr>)) (\<lambda>out.
               Inr (f1, out))))
           else if fmt_type t = TLP_CFG_WRITE_0 then
             bindE (nth_res (tlp_data t) 0) (\<lambda>w.
             bindE (wr (tlp_register_number t) w (tlp_first_be t) f1) (\<lambda>f2.
             bindE (sd f2 (set_completion t (get_id f1) False CPL_STATUS_SC TLP)) (\<lambda>out.
               Inr (f2, out))))
           else bindE (sd f1 TLP) (\<lambda>out. Inr (f1, out))
      else Inr (f, []))"

text \<open>\<open>handle_tlp\<close>: completions are queued under their tag, other packets go to the registered
  handler; \<open>run\<close> is the handler table of the object's class.\<close>

definition handle_tlp ::
  "(rx_handler \<Rightarrow> tlp \<Rightarrow> 'a func_scheme \<Rightarrow> ('a func_scheme \<times> tlp list) res) \<Rightarrow>
   tlp \<Rightarrow> 'a func_scheme \<Rightarrow> ('a func_scheme \<times> tlp list) res" where
  "handle_tlp run t f =
     (if is_cpl t then bindE (push_cpl t (req f)) (\<lambda>rq. Inr (f\<lparr>req := rq\<rparr>, []))
      else case rx_tlp_handler f (fmt_type t) of
        Some h \<Rightarrow> run h t f
      | None \<Rightarrow> Inl (PyException ''Unhandled TLP''))"

definition upstream_recv ::
  "(rx_handler \<Rightarrow> tlp \<Rightarrow> 'a func_scheme \<Rightarrow> ('a func_scheme \<times> tlp list) res) \<Rightarrow>
   tlp \<Rightarrow> 'a func_scheme \<Rightarrow> ('a func_scheme \<times> tlp list) res" where
  "upstream_recv run t f = bindE (assertE (tlp_check t)) (\<lambda>_. handle_tlp run t f)"

section \<open>Accesses as bus master\<close>

definition request_proto :: "('a func_scheme) \<Rightarrow> int \<Rightarrow> int \<Rightarrow> tlp" where
  "request_proto f at tc = TLP\<lparr>tlp_requester_id := get_id f, tlp_attr := at, tlp_tc := tc\<rparr>"

definition io_read ::
  "'e net \<Rightarrow> int \<Rightarrow> int \<Rightarrow> ('a func_scheme) \<Rightarrow> 'e \<Rightarrow> (byte list option \<times> ('a func_scheme) \<times> 'e) res" where
  "io_read net addr len f e =
     (if \<not> bus_master_enable f then Inr (None, f, e)
      else bindE (dword_read_loop (send_check f) net (tag_count f) (\<lambda>_ t. t)
             (\<lambda>c. bindE (check_cpl c) cpl_dword) (set_fmt_type TLP_IO_READ (request_proto f 0 0))
             0 len addr [] (req f) e)
           (\<lambda>(data, rq, e'). Inr (Some data, f\<lparr>req := rq\<rparr>, e')))"

definition io_write ::
  "'e net \<Rightarrow> int \<Rightarrow> byte list \<Rightarrow> ('a func_scheme) \<Rightarrow> 'e \<Rightarrow> (('a func_scheme) \<times> 'e) res" where
  "io_write net addr data f e =
     (if \<not> bus_master_enable f then Inr (f, e)
      else bindE (dword_write_loop (send_check f) net (tag_count f) (\<lambda>_ t. t)
             (\<lambda>c. bindE (check_cpl c) (\<lambda>_. Inr ())) (set_fmt_type TLP_IO_WRITE (request_proto f 0 0))
             0 data addr (req f) e)
           (\<lambda>(rq, e'). Inr (f\<lparr>req := rq\<rparr>, e')))"

definition mem_read ::
  "'e net \<Rightarrow> int \<Rightarrow> int \<Rightarrow> int \<Rightarrow> int \<Rightarrow> ('a func_scheme) \<Rightarrow> 'e
     \<Rightarrow> (byte list option \<times> ('a func_scheme) \<times> 'e) res" where
  "mem_read net addr len at tc f e =
     (if \<not> bus_master_enable f then Inr (None, f, e)
      else bindE (mem_read_loop (send_check f) net (tag_count f) (\<lambda>_. len)
             (nat (max_read_request_size (dev_ctl (pcie f)))) (request_proto f at tc)
             0 len addr [] (req f) e)
           (\<lambda>(data, rq, e'). Inr (Some data, f\<lparr>req := rq\<rparr>, e')))"

definition mem_write ::
  "'e net \<Rightarrow> int \<Rightarrow> byte list \<Rightarrow> int \<Rightarrow> int \<Rightarrow> ('a func_scheme) \<Rightarrow> 'e \<Rightarrow> (('a func_scheme) \<times> 'e) res" where
  "mem_write net addr data at tc f e =
     (if \<not> bus_master_enable f then Inr (f, e)
      else bindE (mem_write_loop (send_check f) net (nat (max_payload_size (dev_ctl (pcie f))))
             (request_proto f at tc) 0 data addr (req f) e)
           (\<lambda>(rq, e'). Inr (f\<lparr>req := rq\<rparr>, e')))"

subsection \<open>Word accesses\<close>

text \<open>The word accessors check the word size. Those of the IO space then call \<open>io_read\<close> and
  \<open>io_write\<close> with two positional arguments more than these methods have, which is a \<open>TypeError\<close>.\<close>

definition word_size_ok :: "nat \<Rightarrow> bool" where
  "word_size_ok ws \<longleftrightarrow> ws \<in> {1, 2, 4, 8}"

definition io_read_words :: "nat \<Rightarrow> 'b res" where
  "io_read_words ws = bindE (assertE (word_size_ok ws)) (\<lambda>_. Inl TypeError)"

definition io_read_dwords :: "'b res" where
  "io_read_dwords = io_read_words 4"

definition io_read_qwords :: "'b res" where
  "io_read_qwords = io_read_words 8"

definition io_read_byte :: "'b res" where
  "io_read_byte = Inl TypeError"

definition io_read_word :: "'b res" where
  "io_read_word = io_read_words 2"

definition io_read_dword :: "'b res" where
  "io_read_dword = io_read_dwords"

definition io_read_qword :: "'b res" where
  "io_read_qword = io_read_qwords"

definition words_to_bytes :: "nat \<Rightarrow> int list \<Rightarrow> byte list res" where
  "words_to_bytes ws words = bindE (mapE (to_bytes ws) words) (\<lambda>bss. Inr (concat bss))"

definition io_write_words :: "int list \<Rightarrow> nat \<Rightarrow> 'b res" where
  "io_write_words words ws = bindE (assertE (word_size_ok ws)) (\<lambda>_.
     bindE (words_to_bytes ws words) (\<lambda>_. Inl TypeError))"

definition io_write_dwords :: "int list \<Rightarrow> 'b res" where
  "io_write_dwords words = io_write_words words 4"

definition io_write_qwords :: "int list \<Rightarrow> 'b res" where
  "io_write_qwords words = io_write_words words 8"

definition io_write_byte :: "'b res" where
  "io_write_byte = Inl TypeError"

definition io_write_word :: "int \<Rightarrow> 'b res" where
  "io_write_word w = io_write_words [w] 2"

definition io_write_dword :: "int \<Rightarrow> 'b res" where
  "io_write_dword w = io_write_dwords [w]"

definition io_write_qword :: "int \<Rightarrow> 'b res" where
  "io_write_qword w = io_write_qwords [w]"

definition words_of_bytes :: "nat \<Rightarrow> nat \<Rightarrow> byte list \<Rightarrow> int list" where
  "words_of_bytes ws count data = map (\<lambda>k. le_int (slice (ws * k) (ws * (k + 1)) data)) [0..<count]"

text \<open>Without bus mastering the read returns \<open>None\<close>, and taking a slice of it is a \<open>TypeError\<close>.\<close>

definition words_of_read :: "nat \<Rightarrow> nat \<Rightarrow> byte list option \<Rightarrow> int list res" where
  "words_of_read ws count d =
     (case d of Some data \<Rightarrow> Inr (words_of_bytes ws count data)
      | None \<Rightarrow> if count = 0 then Inr [] else Inl TypeError)"

definition mem_read_words ::
  "'e net \<Rightarrow> int \<Rightarrow> nat \<Rightarrow> nat \<Rightarrow> int \<Rightarrow> int \<Rightarrow> ('a func_scheme) \<Rightarrow> 'e
     \<Rightarrow> (int list \<times> ('a func_scheme) \<times> 'e) res" where
  "mem_read_words net addr count ws at tc f e =
     bindE (assertE (word_size_ok ws)) (\<lambda>_.
     bindE (mem_read net addr (int (count * ws)) at tc f e) (\<lambda>(d, f', e').
     bindE (words_of_read ws count d) (\<lambda>words. Inr (words, f', e'))))"

definition mem_read_dwords ::
  "'e net \<Rightarrow> int \<Rightarrow> nat \<Rightarrow> int \<Rightarrow> int \<Rightarrow> ('a func_scheme) \<Rightarrow> 'e
     \<Rightarrow> (int list \<times> ('a func_scheme) \<times> 'e) res" where
  "mem_read_dwords net addr count at tc f e = mem_read_words net addr count 4 at tc f e"

definition mem_read_qwords ::
  "'e net \<Rightarrow> int \<Rightarrow> nat \<Rightarrow> int \<Rightarrow> int \<Rightarrow> ('a func_scheme) \<Rightarrow> 'e
     \<Rightarrow> (int list \<times> ('a func_scheme) \<times> 'e) res" where
  "mem_read_qwords net addr count at tc f e = mem_read_words net addr count 8 at tc f e"

definition mem_read_byte ::
  "'e net \<Rightarrow> int \<Rightarrow> int \<Rightarrow> int \<Rightarrow> ('a func_scheme) \<Rightarrow> 'e \<Rightarrow> (byte \<times> ('a func_scheme) \<times> 'e) res" where
  "mem_read_byte net addr at tc f e =
     bindE (mem_read net addr 1 at tc f e) (\<lambda>(d, f', e').
       case d of None \<Rightarrow> Inl TypeError | Some data \<Rightarrow> bindE (nth_res data 0) (\<lambda>b. Inr (b, f', e')))"

definition first_word :: "(int list \<times> 'f \<times> 'e) \<Rightarrow> (int \<times> 'f \<times> 'e) res" where
  "first_word r = (case r of (words, f, e) \<Rightarrow> bindE (nth_res words 0) (\<lambda>w. Inr (w, f, e)))"

definition mem_read_word ::
  "'e net \<Rightarrow> int \<Rightarrow> int \<Rightarrow> int \<Rightarrow> ('a func_scheme) \<Rightarrow> 'e \<Rightarrow> (int \<times> ('a func_scheme) \<times> 'e) res" where
  "mem_read_word net addr at tc f e = bindE (mem_read_words net addr 1 2 at tc f e) first_word"

definition mem_read_dword ::
  "'e net \<Rightarrow> int \<Rightarrow> int \<Rightarrow> int \<Rightarrow> ('a func_scheme) \<Rightarrow> 'e \<Rightarrow> (int \<times> ('a func_scheme) \<times> 'e) res" where
  "mem_read_dword net addr at tc f e = bindE (mem_read_dwords net addr 1 at tc f e) first_word"

definition mem_read_qword ::
  "'e net \<Rightarrow> int \<Rightarrow> int \<Rightarrow> int \<Rightarrow> ('a func_scheme) \<Rightarrow> 'e \<Rightarrow> (int \<times> ('a func_scheme) \<times> 'e) res" where
  "mem_read_qword net addr at tc f e = bindE (mem_read_qwords net addr 1 at tc f e) first_word"

definition mem_write_words ::
  "'e net \<Rightarrow> int \<Rightarrow> int list \<Rightarrow> nat \<Rightarrow> int \<Rightarrow> int \<Rightarrow> ('a func_scheme) \<Rightarrow> 'e \<Rightarrow> (('a func_scheme) \<times> 'e) res" where
  "mem_write_words net addr words ws at tc f e =
     bindE (assertE (word_size_ok ws)) (\<lambda>_.
     bindE (words_to_bytes ws words) (\<lambda>data. mem_write net addr data at tc f e))"

definition mem_write_dwords ::
  "'e net \<Rightarrow> int \<Rightarrow> int list \<Rightarrow> int \<Rightarrow> int \<Rightarrow> ('a func_scheme) \<Rightarrow> 'e \<Rightarrow> (('a func_scheme) \<times> 'e) res" where
  "mem_write_dwords net addr words at tc f e = mem_write_words net addr words 4 at tc f e"

definition mem_write_qwords ::
  "'e net \<Rightarrow> int \<Rightarrow> int list \<Rightarrow> int \<Rightarrow> int \<Rightarrow> ('a func_scheme) \<Rightarrow> 'e \<Rightarrow> (('a func_scheme) \<times> 'e) res" where
  "mem_write_qwords net addr words at tc f e = mem_write_words net addr words 8 at tc f e"

text \<open>\<open>mem_write_byte\<close> passes the list \<open>[data]\<close>, and adding a list to a \<open>bytearray\<close> is a \<open>TypeError\<close>.\<close>

definition mem_write_byte :: "('a func_scheme) \<Rightarrow> 'e \<Rightarrow> (('a func_scheme) \<times> 'e) res" where
  "mem_write_byte f e = (if \<not> bus_master_enable f then Inr (f, e) else Inl TypeError)"

definition mem_write_word ::
  "'e net \<Rightarrow> int \<Rightarrow> int \<Rightarrow> int \<Rightarrow> int \<Rightarrow> ('a func_scheme) \<Rightarrow> 'e \<Rightarrow> (('a func_scheme) \<times> 'e) res" where
  "mem_write_word net addr w at tc f e = mem_write_words net addr [w] 2 at tc f e"

definition mem_write_dword ::
  "'e net \<Rightarrow> int \<Rightarrow> int \<Rightarrow> int \<Rightarrow> int \<Rightarrow> ('a func_scheme) \<Rightarrow> 'e \<Rightarrow> (('a func_scheme) \<times> 'e) res" where
  "mem_write_dword net addr w at tc f e = mem_write_dwords net addr [w] at tc f e"

definition mem_write_qword ::
  "'e net \<Rightarrow> int \<Rightarrow> int \<Rightarrow> int \<Rightarrow> int \<Rightarrow> ('a func_scheme) \<Rightarrow> 'e \<Rightarrow> (('a func_scheme) \<times> 'e) res" where
  "mem_write_qword net addr w at tc f e = mem_write_qwords net addr [w] at tc f e"

subsection \<open>Interrupts\<close>

definition issue_msi_interrupt ::
  "'e net \<Rightarrow> int \<Rightarrow> int \<Rightarrow> int \<Rightarrow> ('a func_scheme) \<Rightarrow> 'e \<Rightarrow> (('a func_scheme) \<times> 'e) res" where
  "issue_msi_interrupt net number at tc f e =
     (case msi_message_word (msi f) number of
        None \<Rightarrow> Inr (f, e)
      | Some w \<Rightarrow> bindE (pack_L w) (\<lambda>data. mem_write net (msi_message_address (msi f)) data at tc f e))"

definition issue_msix_interrupt ::
  "'e net \<Rightarrow> int \<Rightarrow> int \<Rightarrow> int \<Rightarrow> int \<Rightarrow> ('a func_scheme) \<Rightarrow> 'e \<Rightarrow> (('a func_scheme) \<times> 'e) res" where
  "issue_msix_interrupt net addr w at tc f e =
     (if \<not> msix_enable (msix f) then Inr (f, e)
      else bindE (pack_L w) (\<lambda>data. mem_write net addr data at tc f e))"

end
