(* ===== verification/Pcie_Completer.thy ===== *)
theory Pcie_Completer
  imports Pcie_Requester
begin

unbundle bit_operations_syntax

text \<open>
  The completer side shared by \<open>MemoryEndpoint\<close> and \<open>RootComplex\<close> of \<open>lib/pcie/tb/pcie.py\<close>: the loops
  of the request handlers that turn byte enables into runs of bytes and that split read data into
  completions. The two classes repeat the loops; their handlers are in the theories of the classes.

  The locale \<open>mem_target\<close> is the contract between a requester and a memory behind the fabric: a read
  request is answered by completions that \<open>cpl_split\<close> describes, a write request stores its bytes.
  From the contract the memory accesses of the requester are proved correct, whatever their length,
  alignment and number of packets.
\<close>

section \<open>Byte runs\<close>

text \<open>One round of the loop \<open>for k in range(4)\<close> of the handlers: \<open>so\<close> is \<open>start_offset\<close>, \<open>off\<close> is
  \<open>offset\<close>, and \<open>act so off\<close> the read or write of the run of bytes from \<open>so\<close> to \<open>off\<close>.\<close>

definition be_flush ::
  "(nat \<Rightarrow> nat \<Rightarrow> 's \<Rightarrow> 's res) \<Rightarrow> nat option \<times> nat \<Rightarrow> 's \<Rightarrow> 's res" where
  "be_flush act st s =
     (case st of (None, off) \<Rightarrow> Inr s
      | (Some so, off) \<Rightarrow> if off \<noteq> so then act so off s else Inr s)"

definition be_round ::
  "(nat \<Rightarrow> nat \<Rightarrow> 's \<Rightarrow> 's res) \<Rightarrow> int \<Rightarrow> nat \<Rightarrow> (nat option \<times> nat) \<times> 's \<Rightarrow> ((nat option \<times> nat) \<times> 's) res" where
  "be_round act msk k st =
     (case st of ((so, off), s) \<Rightarrow>
        if msk AND push_bit k 1 \<noteq> 0
        then Inr (((if so = None then Some off else so), off + 1), s)
        else bindE (be_flush act (so, off) s) (\<lambda>s'. Inr ((None, off + 1), s')))"

definition be_dword ::
  "(nat \<Rightarrow> nat \<Rightarrow> 's \<Rightarrow> 's res) \<Rightarrow> int \<Rightarrow> (nat option \<times> nat) \<times> 's \<Rightarrow> ((nat option \<times> nat) \<times> 's) res" where
  "be_dword act msk st = foldE (be_round act msk) [0..<4] st"

text \<open>The loops of the IO handlers (one DWORD) and of the memory write handlers.\<close>

definition be_single :: "(nat \<Rightarrow> nat \<Rightarrow> 's \<Rightarrow> 's res) \<Rightarrow> tlp \<Rightarrow> 's \<Rightarrow> 's res" where
  "be_single act t s =
     bindE (be_dword act (tlp_first_be t) ((None, 0), s)) (\<lambda>(st, s'). be_flush act st s')"

definition be_middle :: "int \<Rightarrow> nat option \<times> nat \<Rightarrow> nat option \<times> nat" where
  "be_middle len st =
     (case st of (so, off) \<Rightarrow>
        if len > 2 then ((if so = None then Some off else so), off + nat ((len - 2) * 4)) else (so, off))"

definition be_multi :: "(nat \<Rightarrow> nat \<Rightarrow> 's \<Rightarrow> 's res) \<Rightarrow> tlp \<Rightarrow> 's \<Rightarrow> 's res" where
  "be_multi act t s =
     bindE (be_dword act (tlp_first_be t) ((None, 0), s)) (\<lambda>(st1, s1).
       let st2 = be_middle (tlp_length t) st1
       in bindE (if tlp_length t > 1 then be_dword act (tlp_last_be t) (st2, s1) else Inr (st2, s1))
            (\<lambda>(st3, s3). be_flush act st3 s3))"

section \<open>Read completions\<close>

lemma drop_2_and_7c: "drop_bit 2 (addr AND 0x7c) = (addr::int) div 4 mod 32"
proof -
  have "drop_bit 2 (addr AND 0x7c) = drop_bit 2 addr AND drop_bit 2 0x7c" by (rule drop_bit_and)
  also have "drop_bit 2 (0x7c::int) = 31" by (simp add: drop_bit_eq_div)
  finally show ?thesis by (simp add: drop_bit_eq_div)
qed

lemma push_32_ge: "32 \<le> push_bit mps (32::int)"
proof -
  have "(1::int) \<le> 2 ^ mps" by simp
  then show ?thesis unfolding push_bit_eq_mult by linarith
qed

lemma cpl_dw_pos: "0 < push_bit mps (32::int) - drop_bit 2 (addr AND 0x7c)"
  using push_32_ge [of mps] pos_mod_bound [of 32 "addr div 4"] by (simp add: drop_2_and_7c)

text \<open>The loop of \<open>handle_mem_read_tlp\<close>: \<open>m\<close> counts the DWORDs and \<open>n\<close> the bytes already sent.\<close>

definition cpl_dw_length :: "nat \<Rightarrow> int \<Rightarrow> int \<Rightarrow> int" where
  "cpl_dw_length mps addr rest =
     (if rest > push_bit mps 32 then push_bit mps 32 - drop_bit 2 (addr AND 0x7c) else rest)"

lemma cpl_dw_length_pos: "0 < rest \<Longrightarrow> 0 < cpl_dw_length mps addr rest"
  using cpl_dw_pos by (simp add: cpl_dw_length_def)

lemma cpl_dw_length_bounds:
  assumes "0 < rest"
  shows "0 < cpl_dw_length mps addr rest" "cpl_dw_length mps addr rest \<le> rest"
    "cpl_dw_length mps addr rest \<le> push_bit mps 32"
proof -
  have "0 \<le> drop_bit 2 (addr AND 0x7c)" by (simp add: drop_2_and_7c)
  then show "0 < cpl_dw_length mps addr rest" "cpl_dw_length mps addr rest \<le> rest"
    "cpl_dw_length mps addr rest \<le> push_bit mps 32"
    using assms cpl_dw_pos [of mps addr] unfolding cpl_dw_length_def by (auto simp only: split: if_split)
qed

function cpl_loop ::
  "(tlp \<Rightarrow> unit res) \<Rightarrow> pcie_id \<Rightarrow> nat \<Rightarrow> tlp \<Rightarrow> byte list \<Rightarrow> int \<Rightarrow> int \<Rightarrow> int \<Rightarrow> tlp list res" where
  "cpl_loop send cid mps t data m n addr =
     (if m < tlp_length t then
        let dwl = cpl_dw_length mps addr (tlp_length t - m);
            cpl = (set_completion_data t cid TLP)
                    \<lparr>tlp_byte_count := get_be_byte_count t - n, tlp_lower_address := addr AND 0x7f\<rparr>
        in bindE (set_data (slice (nat (m * 4)) (nat ((m + dwl) * 4)) data) cpl) (\<lambda>cpl.
           bindE (send cpl) (\<lambda>_.
           bindE (cpl_loop send cid mps t data (m + dwl) (n + (dwl * 4 - (addr AND 3)))
                    (addr + (dwl * 4 - (addr AND 3)))) (\<lambda>cpls.
             Inr (cpl # cpls))))
      else Inr [])"
  by pat_completeness auto
termination
  by (relation "measure (\<lambda>(send, cid, mps, t, data, m, n, addr). nat (tlp_length t - m))")
    (simp_all add: cpl_dw_length_pos)

declare cpl_loop.simps [simp del]

definition mem_read_completions ::
  "(tlp \<Rightarrow> unit res) \<Rightarrow> pcie_id \<Rightarrow> nat \<Rightarrow> tlp \<Rightarrow> byte list \<Rightarrow> tlp list res" where
  "mem_read_completions send cid mps t data =
     cpl_loop send cid mps t data 0 0 (tlp_address t + get_first_be_offset t)"

section \<open>What the byte runs do\<close>

text \<open>\<open>merge_bytes en data a n xs\<close>: the bytes \<open>i < n\<close> of \<open>data\<close> for which \<open>en i\<close> holds, written into \<open>xs\<close>
  from index \<open>a\<close> on.\<close>

definition merge_bytes :: "(nat \<Rightarrow> bool) \<Rightarrow> byte list \<Rightarrow> nat \<Rightarrow> nat \<Rightarrow> byte list \<Rightarrow> byte list" where
  "merge_bytes en data a n xs =
     map (\<lambda>j. if a \<le> j \<and> j < a + n \<and> en (j - a) then data ! (j - a) else xs ! j) [0..<length xs]"

text \<open>The byte enables of a request of \<open>L\<close> DWORDs: the first and the last DWORD have their own mask,
  the bytes between are enabled.\<close>

definition be_enabled :: "tlp \<Rightarrow> nat \<Rightarrow> bool" where
  "be_enabled t i \<longleftrightarrow>
     (if i < 4 then bit (tlp_first_be t) i
      else if int i < (tlp_length t - 1) * 4 then True
      else bit (tlp_last_be t) (nat (int i - (tlp_length t - 1) * 4)))"

lemma length_merge_bytes [simp]: "length (merge_bytes en data a n xs) = length xs"
  by (simp add: merge_bytes_def)

lemma merge_bytes_0 [simp]: "merge_bytes en data a 0 xs = xs"
  by (rule nth_equalityI) (auto simp: merge_bytes_def)

lemma merge_bytes_skip: "\<not> en n \<Longrightarrow> merge_bytes en data a (Suc n) xs = merge_bytes en data a n xs"
  by (auto simp: merge_bytes_def less_Suc_eq)

lemma merge_bytes_splice:
  assumes "so \<le> off" "off \<le> length data" "a + off \<le> length xs" "\<And>i. so \<le> i \<Longrightarrow> i < off \<Longrightarrow> en i"
  shows "splice (a + so) (a + off) (slice so off data) (merge_bytes en data a so xs)
    = merge_bytes en data a off xs"
proof (rule nth_equalityI)
  show "length (splice (a + so) (a + off) (slice so off data) (merge_bytes en data a so xs))
    = length (merge_bytes en data a off xs)"
    using assms by (simp add: length_splice)
  fix k
  assume "k < length (splice (a + so) (a + off) (slice so off data) (merge_bytes en data a so xs))"
  then have k: "k < length xs" using assms by (simp add: length_splice)
  then have "splice (a + so) (a + off) (slice so off data) (merge_bytes en data a so xs) ! k =
    (if a + so \<le> k \<and> k < a + off then slice so off data ! (k - (a + so)) else merge_bytes en data a so xs ! k)"
    using assms by (intro nth_splice) simp_all
  also have "\<dots> = merge_bytes en data a off xs ! k"
    using k assms by (auto simp: merge_bytes_def nth_slice)
  finally show "splice (a + so) (a + off) (slice so off data) (merge_bytes en data a so xs) ! k
    = merge_bytes en data a off xs ! k" .
qed

text \<open>The interface of a byte store: \<open>get r s\<close> are the bytes of its region \<open>r\<close>, \<open>put\<close> replaces them, and
  \<open>wr r o bs\<close> writes \<open>bs\<close> at offset \<open>o\<close>.\<close>

locale byte_store =
  fixes get :: "'r \<Rightarrow> 's \<Rightarrow> byte list option"
    and put :: "'r \<Rightarrow> byte list \<Rightarrow> 's \<Rightarrow> 's"
    and wr :: "'r \<Rightarrow> nat \<Rightarrow> byte list \<Rightarrow> 's \<Rightarrow> 's res"
  assumes get_put: "get r s = Some m \<Longrightarrow> length m' = length m \<Longrightarrow> get r (put r m' s) = Some m'"
    and put_get: "get r s = Some m \<Longrightarrow> put r m s = s"
    and put_put: "put r m (put r m' s) = put r m s"
    and wr_ok: "get r s = Some m \<Longrightarrow> bs \<noteq> [] \<Longrightarrow> k + length bs \<le> length m \<Longrightarrow>
      wr r k bs s = Inr (put r (splice k (k + length bs) bs m) s)"
begin

definition run_inv :: "(nat \<Rightarrow> bool) \<Rightarrow> byte list \<Rightarrow> nat \<Rightarrow> byte list \<Rightarrow> (nat option \<times> nat) \<times> byte list \<Rightarrow> bool" where
  "run_inv en data a xs st \<longleftrightarrow>
     (case st of ((None, off), m) \<Rightarrow> m = merge_bytes en data a off xs
      | ((Some so, off), m) \<Rightarrow> so < off \<and> (\<forall>i. so \<le> i \<and> i < off \<longrightarrow> en i) \<and> m = merge_bytes en data a so xs)"

lemma run_inv_length: "run_inv en data a xs (st, m) \<Longrightarrow> length m = length xs"
  by (cases st; cases "fst st") (auto simp: run_inv_def)

lemma act_splice:
  assumes "get r s = Some xs" "length m = length xs" "so < off" "off \<le> length data" "a + off \<le> length xs"
  shows "wr r (a + so) (slice so off data) (put r m s)
    = Inr (put r (splice (a + so) (a + off) (slice so off data) m) s)"
proof -
  have "length (slice so off data) = off - so" "slice so off data \<noteq> []"
    using assms by (simp_all add: slice_def)
  then show ?thesis
    using wr_ok [of r "put r m s" m "slice so off data" "a + so"] assms get_put [OF assms(1), of m]
    by (simp add: put_put)
qed

lemma flush_inv:
  assumes "get r s = Some xs" "run_inv en data a xs ((so, off), m)" "off \<le> length data" "a + off \<le> length xs"
  shows "be_flush (\<lambda>so off. wr r (a + so) (slice so off data)) (so, off) (put r m s)
    = Inr (put r (merge_bytes en data a off xs) s)"
proof (cases so)
  case None
  with assms show ?thesis by (simp add: be_flush_def run_inv_def)
next
  case (Some k)
  with assms(2) have k: "k < off" "\<And>i. k \<le> i \<Longrightarrow> i < off \<Longrightarrow> en i" "m = merge_bytes en data a k xs"
    by (simp_all add: run_inv_def)
  have "splice (a + k) (a + off) (slice k off data) m = merge_bytes en data a off xs"
    using k assms merge_bytes_splice [of k off data a xs en] by simp
  then show ?thesis
    using act_splice [OF assms(1), of m k off data a] k assms(3,4) Some by (simp add: be_flush_def)
qed

lemma round_inv:
  assumes "get r s = Some xs" "run_inv en data a xs ((so, off), m)" "off \<le> length data" "a + off \<le> length xs"
    and "en off = bit msk k"
  shows "\<exists>so' m'. be_round (\<lambda>so off. wr r (a + so) (slice so off data)) msk k ((so, off), put r m s)
      = Inr ((so', Suc off), put r m' s) \<and> run_inv en data a xs ((so', Suc off), m')"
proof (cases "bit msk k")
  case True
  then show ?thesis
    using assms by (cases so) (auto simp: be_round_def and_exp_eq_0_iff_not_bit run_inv_def less_Suc_eq)
next
  case False
  then have "be_round (\<lambda>so off. wr r (a + so) (slice so off data)) msk k ((so, off), put r m s)
      = Inr ((None, Suc off), put r (merge_bytes en data a off xs) s)"
    using flush_inv [OF assms(1-4)] by (simp add: be_round_def and_exp_eq_0_iff_not_bit)
  then show ?thesis
    using False assms(5) by (auto simp: run_inv_def merge_bytes_skip)
qed

lemma rounds_inv:
  assumes "get r s = Some xs" "run_inv en data a xs ((so, off), m)"
    and "off + n \<le> length data" "a + off + n \<le> length xs" "\<And>k. k < n \<Longrightarrow> en (off + k) = bit msk k"
  shows "\<exists>so' m'. foldE (be_round (\<lambda>so off. wr r (a + so) (slice so off data)) msk) [0..<n]
      ((so, off), put r m s) = Inr ((so', off + n), put r m' s) \<and> run_inv en data a xs ((so', off + n), m')"
  using assms(3-5)
proof (induction n)
  case 0
  then show ?case using assms(2) by auto
next
  case (Suc n)
  then obtain so' m' where IH: "foldE (be_round (\<lambda>so off. wr r (a + so) (slice so off data)) msk) [0..<n]
      ((so, off), put r m s) = Inr ((so', off + n), put r m' s)" "run_inv en data a xs ((so', off + n), m')"
    by auto
  show ?case
    using round_inv [OF assms(1) IH(2), of msk n] Suc.prems by (auto simp: foldE_append IH(1) add.assoc)
qed

lemma be_multi_merge:
  assumes "get r s = Some xs" and L: "0 < tlp_length t" and n: "n = nat (tlp_length t * 4)"
    and "n \<le> length data" "a + n \<le> length xs"
  shows "be_multi (\<lambda>so off. wr r (a + so) (slice so off data)) t s
    = Inr (put r (merge_bytes (be_enabled t) data a n xs) s)"
proof -
  let ?act = "\<lambda>so off. wr r (a + so) (slice so off data)" and ?en = "be_enabled t"
  have n4: "4 \<le> length data" "a + 4 \<le> length xs" using assms by linarith+
  have "run_inv ?en data a xs ((None, 0), xs)" by (simp add: run_inv_def)
  then obtain so1 m1 where 1: "be_dword ?act (tlp_first_be t) ((None, 0), s) = Inr ((so1, 4), put r m1 s)"
      "run_inv ?en data a xs ((so1, 4), m1)"
    using rounds_inv [OF assms(1), of ?en data a None 0 xs 4 "tlp_first_be t"] n4 put_get [OF assms(1)]
    by (auto simp: be_dword_def be_enabled_def)
  show ?thesis
  proof (cases "tlp_length t = 1")
    case True
    then have "be_middle (tlp_length t) (so1, 4) = (so1, 4)" by (simp add: be_middle_def)
    then show ?thesis
      using 1 True flush_inv [OF assms(1) 1(2)] assms by (simp add: be_multi_def)
  next
    case False
    obtain so2 off2 where mid: "be_middle (tlp_length t) (so1, 4) = (so2, off2)" by fastforce
    have off2: "off2 = nat ((tlp_length t - 1) * 4)" "off2 + 4 = n"
      using mid L False by (auto simp: be_middle_def n split: if_splits)
    have en2: "4 \<le> i \<Longrightarrow> i < off2 \<Longrightarrow> ?en i" for i
      using off2(1) by (auto simp: be_enabled_def)
    have ext: "?en i" if "\<forall>i. k \<le> i \<and> i < 4 \<longrightarrow> ?en i" "k \<le> i" "i < off2" for k i
      using that en2 [of i] by (cases "i < 4") auto
    have "so2 = (if 2 < tlp_length t \<and> so1 = None then Some 4 else so1)" "4 \<le> off2"
      "so1 = None \<Longrightarrow> so2 = None \<Longrightarrow> off2 = 4"
      using mid L False by (auto simp: be_middle_def split: if_splits)
    with 1(2) have "run_inv ?en data a xs ((so2, off2), m1)"
      by (cases so1; cases "2 < tlp_length t") (use en2 ext off2 in \<open>auto simp: run_inv_def\<close>)
    moreover have "?en (off2 + k) = bit (tlp_last_be t) k" if "k < 4" for k
    proof -
      have "int off2 = (tlp_length t - 1) * 4" "4 \<le> off2" using off2(1) L False by simp_all
      then show ?thesis using that by (simp add: be_enabled_def)
    qed
    ultimately obtain so3 m3 where 3: "be_dword ?act (tlp_last_be t) ((so2, off2), put r m1 s)
        = Inr ((so3, n), put r m3 s)" "run_inv ?en data a xs ((so3, n), m3)"
      using rounds_inv [OF assms(1), of ?en data a so2 off2 m1 4 "tlp_last_be t"] assms off2
      by (auto simp: be_dword_def)
    have "be_multi ?act t s = be_flush ?act (so3, n) (put r m3 s)"
      using L False by (simp add: be_multi_def 1(1) mid 3(1))
    then show ?thesis
      using flush_inv [OF assms(1) 3(2)] assms by simp
  qed
qed

lemma be_single_merge:
  assumes "get r s = Some xs" "4 \<le> length data" "a + 4 \<le> length xs"
  shows "be_single (\<lambda>so off. wr r (a + so) (slice so off data)) t s
    = Inr (put r (merge_bytes (bit (tlp_first_be t)) data a 4 xs) s)"
proof -
  let ?act = "\<lambda>so off. wr r (a + so) (slice so off data)" and ?en = "bit (tlp_first_be t)"
  have "run_inv ?en data a xs ((None, 0), xs)" by (simp add: run_inv_def)
  then obtain so1 m1 where 1: "be_dword ?act (tlp_first_be t) ((None, 0), s) = Inr ((so1, 4), put r m1 s)"
      "run_inv ?en data a xs ((so1, 4), m1)"
    using rounds_inv [OF assms(1), of ?en data a None 0 xs 4 "tlp_first_be t"] assms
    by (auto simp: be_dword_def put_get)
  then show ?thesis
    using flush_inv [OF assms(1) 1(2)] assms by (simp add: be_single_def)
qed

end

section \<open>Split completions\<close>

text \<open>\<open>cpl_split a bs cs\<close>: the completions \<open>cs\<close> carry the bytes \<open>bs\<close> read from address \<open>a\<close>. Every completion
  is successful, states how many bytes are still to come, starts at the byte of its first DWORD that
  its address names, and delivers at least one byte.\<close>

fun cpl_split :: "int \<Rightarrow> byte list \<Rightarrow> tlp list \<Rightarrow> bool" where
  "cpl_split a bs [] \<longleftrightarrow> bs = []"
| "cpl_split a bs (c # cs) \<longleftrightarrow>
     tlp_status c = CPL_STATUS_SC \<and> tlp_byte_count c = int (length bs) \<and>
     tlp_lower_address c mod 4 = a mod 4 \<and>
     (case cpl_payload c of Inl _ \<Rightarrow> False
      | Inr d \<Rightarrow>
          let d' = drop (nat (a mod 4)) d; k = min (length bs) (length d')
          in int (length d) = tlp_length c * 4 \<and> 0 < k \<and> length d' \<le> length bs + 3 \<and>
             take k d' = take k bs \<and> cpl_split (a + int k) (drop k bs) cs)"

lemma mapE_nth_res: "mapE (\<lambda>k. bindE (nth_res xs k) f) [0..<length xs] = mapE f xs"
proof -
  have "mapE (\<lambda>k. bindE (nth_res xs k) f) [0..<length xs] = mapE (\<lambda>k. f (xs ! k)) [0..<length xs]"
    by (rule mapE_cong) (simp add: nth_res_def)
  then show ?thesis by (simp only: mapE_nth)
qed

lemma cpl_split_Nil: "cpl_split a [] cs \<longleftrightarrow> cs = []"
  by (cases cs) (auto simp: Let_def split: sum.splits)

lemma cpl_payload_get_data: "tlp_length c = int (length (tlp_data c)) \<Longrightarrow> cpl_payload c = get_data c"
  by (simp add: cpl_payload_def get_data_def mapE_nth_res)

text \<open>The requester accepts such completions and appends exactly their bytes.\<close>

lemma mem_read_cpls_split:
  "cpl_split a bs cs \<Longrightarrow> byte_length = m + int (length bs) \<Longrightarrow>
     mem_read_cpls byte_length m data cs = Inr (data @ bs, [])"
proof (induction a bs cs arbitrary: m data rule: cpl_split.induct)
  case (1 a bs)
  then show ?case by simp
next
  case (2 a bs c cs)
  from 2(2) obtain d where d: "cpl_payload c = Inr d" by (cases "cpl_payload c") auto
  define d' k where "d' = drop (nat (a mod 4)) d" and "k = min (length bs) (length d')"
  have sp: "tlp_status c = 0" "tlp_byte_count c = int (length bs)" "tlp_lower_address c mod 4 = a mod 4"
      "int (length d) = tlp_length c * 4" "0 < k" "length d' \<le> length bs + 3"
      "take k d' = take k bs" "cpl_split (a + int k) (drop k bs) cs"
    using 2(2) d by (simp_all add: d'_def k_def Let_def)
  have len: "int (length d') = int (length d) - a mod 4"
    using sp(5) by (auto simp: d'_def k_def)
  have cut: "slice (nat (a mod 4)) (nat (a mod 4 + int (length bs))) d = take k bs"
    using sp by (simp add: slice_def nat_add_distrib d'_def [symmetric])
      (metis k_def min.commute take_all_iff take_take linorder_le_cases)
  have lt: "m < byte_length" using sp(5) 2(3) by (auto simp: k_def)
  have rest: "mem_read_cpls byte_length (m + int (length d')) (data @ take k bs) cs = Inr (data @ bs, [])"
  proof (cases "length d' \<le> length bs")
    case True
    then have "k = length d'" by (simp add: k_def)
    then show ?thesis
      using 2(1) [OF d d'_def k_def sp(8), of "m + int (length d')"] 2(3) True by (simp add: of_nat_diff)
  next
    case False
    then have k: "k = length bs" by (simp add: k_def)
    then have "cs = []" using sp(8) by (simp add: cpl_split_Nil)
    then show ?thesis using False k 2(3) by simp
  qed
  show ?case
    using lt sp len rest 2(3)
    by (simp add: check_cpl_def d cut Let_def)
qed

text \<open>What one round of the completion loop sends.\<close>

lemma cpl_round:
  assumes "int (length data) = tlp_length t * 4" "0 \<le> m" "0 < dwl" "m + dwl \<le> tlp_length t"
  obtains c where
    "set_data (slice (nat (m * 4)) (nat ((m + dwl) * 4)) data)
       ((set_completion_data t cid TLP)\<lparr>tlp_byte_count := bc, tlp_lower_address := la\<rparr>) = Inr c"
    "cpl_payload c = Inr (slice (nat (m * 4)) (nat ((m + dwl) * 4)) data)"
    "tlp_length c = dwl" "tlp_byte_count c = bc" "tlp_lower_address c = la"
    "tlp_status c = CPL_STATUS_SC" "fmt_type c = TLP_CPL_DATA" "tlp_tag c = tlp_tag t"
    "tlp_requester_id c = tlp_requester_id t" "tlp_completer_id c = cid"
    "tlp_length c = int (length (tlp_data c))"
proof -
  let ?bs = "slice (nat (m * 4)) (nat ((m + dwl) * 4)) data"
  let ?self = "(set_completion_data t cid TLP)\<lparr>tlp_byte_count := bc, tlp_lower_address := la\<rparr>"
  have len: "int (length ?bs) = dwl * 4"
    using assms length_slice_int [of "m * 4" "(m + dwl) * 4" data] by simp
  then have "4 dvd length ?bs" by (metis dvd_triv_right int_dvd_int_iff of_nat_numeral)
  then obtain c where c: "set_data ?bs ?self = Inr c" "get_data c = Inr ?bs"
      "tlp_length c * 4 = int (length ?bs)" "c = ?self\<lparr>tlp_data := tlp_data c, tlp_length := tlp_length c\<rparr>"
      "tlp_length c = int (length (tlp_data c))"
    by (rule get_data_set_data)
  have f: "tlp_byte_count c = bc" "tlp_lower_address c = la" "tlp_status c = CPL_STATUS_SC"
      "fmt_type c = TLP_CPL_DATA" "tlp_tag c = tlp_tag t" "tlp_requester_id c = tlp_requester_id t"
      "tlp_completer_id c = cid"
    by (subst c(4), simp add: set_completion_data_def set_completion_def set_fmt_type_def fmt_type_def)+
  show ?thesis
    using c f len by (intro that [of c]) (simp_all add: cpl_payload_get_data)
qed

text \<open>A successful completion that carries its own length in data passes the check of \<open>send\<close>.\<close>

lemma tlp_check_cpl:
  assumes "fmt_type c = TLP_CPL_DATA" "tlp_length c = int (length (tlp_data c))"
    and "tlp_length c * 4 \<le> tlp_byte_count c + tlp_lower_address c mod 4 + 3"
  shows "tlp_check c"
  using assms by (simp add: tlp_check_def tlp_kind_defs)

definition cpl_for :: "tlp \<Rightarrow> pcie_id \<Rightarrow> nat \<Rightarrow> tlp \<Rightarrow> bool" where
  "cpl_for t cid mps c \<longleftrightarrow> fmt_type c = TLP_CPL_DATA \<and> tlp_tag c = tlp_tag t \<and>
     tlp_requester_id c = tlp_requester_id t \<and> tlp_completer_id c = cid \<and> tlp_check c \<and>
     tlp_length c \<le> push_bit mps 32"

lemma cpl_split_step:
  assumes a: "a mod 4 = pos - i" "0 \<le> i" "i \<le> pos" "pos < pos'" "pos' \<le> int (length data)"
    and E: "pos < E" "E \<le> int (length data)" "pos' \<le> E + 3"
    and c: "cpl_payload c = Inr (slice (nat i) (nat pos') data)" "tlp_length c * 4 = pos' - i"
      "tlp_status c = CPL_STATUS_SC" "tlp_byte_count c = E - pos" "tlp_lower_address c mod 4 = a mod 4"
    and rest: "cpl_split (a + (pos' - pos)) (slice (nat pos') (nat E) data) cs"
  shows "cpl_split a (slice (nat pos) (nat E) data) (c # cs)"
proof -
  let ?bs = "slice (nat pos) (nat E) data" and ?d = "slice (nat i) (nat pos') data"
  define d' k where "d' = drop (nat (a mod 4)) ?d" and "k = min (length ?bs) (length d')"
  have "nat (a mod 4) + nat i = nat pos" using a by simp
  then have d': "d' = slice (nat pos) (nat pos') data"
    by (simp add: d'_def slice_def drop_take add.commute)
  have lens: "int (length d') = pos' - pos" "int (length ?bs) = E - pos" "int (length ?d) = pos' - i"
    using a E length_slice_int [of pos pos' data] length_slice_int [of pos E data]
      length_slice_int [of i pos' data] by (simp_all add: d')
  have "k \<le> nat pos' - nat pos" "k \<le> nat E - nat pos" using lens a E by (simp_all add: k_def)
  then have tk: "take k d' = take k ?bs" by (simp add: d' slice_def min_absorb1)
  have dr: "cpl_split (a + int k) (drop k ?bs) cs"
  proof (cases "pos' \<le> E")
    case True
    then have k: "int k = pos' - pos" unfolding k_def of_nat_min lens by simp
    then have "nat pos' = nat pos + k" using a by simp
    then have "drop k ?bs = slice (nat pos') (nat E) data" by (simp add: slice_def drop_take add.commute)
    then show ?thesis using rest k by simp
  next
    case False
    then have "k = length ?bs" unfolding k_def using lens by linarith
    moreover have "cs = []" using False rest by (simp add: cpl_split_Nil nat_mono)
    ultimately show ?thesis by simp
  qed
  have "0 < k" "length d' \<le> length ?bs + 3" using lens a E unfolding k_def by linarith+
  moreover have "tlp_byte_count c = int (length ?bs)" "int (length ?d) = tlp_length c * 4"
    using c(2,4) lens by linarith+
  ultimately show ?thesis
    using c(3,5) tk dr
    by (simp only: cpl_split.simps c(1) sum.case Let_def d'_def [symmetric] k_def [symmetric] simp_thms)
qed

text \<open>One completion of the loop: it passes its check and belongs to the request.\<close>

lemma cpl_round_for:
  assumes L: "int (length data) = tlp_length t * 4" and m: "0 \<le> m" "0 < dwl" "m + dwl \<le> tlp_length t" "dwl \<le> push_bit mps 32"
    and e: "tlp_length t * 4 - 3 \<le> f + get_be_byte_count t" and a: "a mod 4 = pos - m * 4"
  obtains c where "set_data (slice (nat (m * 4)) (nat ((m + dwl) * 4)) data) ((set_completion_data t cid TLP)
        \<lparr>tlp_byte_count := get_be_byte_count t - (pos - f), tlp_lower_address := a AND 0x7f\<rparr>) = Inr c"
      "cpl_payload c = Inr (slice (nat (m * 4)) (nat ((m + dwl) * 4)) data)" "tlp_length c = dwl"
      "tlp_byte_count c = get_be_byte_count t - (pos - f)" "tlp_lower_address c mod 4 = a mod 4" "tlp_status c = CPL_STATUS_SC"
      "cpl_for t cid mps c"
proof -
  obtain c where c: "set_data (slice (nat (m * 4)) (nat ((m + dwl) * 4)) data) ((set_completion_data t cid TLP)
        \<lparr>tlp_byte_count := get_be_byte_count t - (pos - f), tlp_lower_address := a AND 0x7f\<rparr>) = Inr c"
      "cpl_payload c = Inr (slice (nat (m * 4)) (nat ((m + dwl) * 4)) data)" "tlp_length c = dwl"
      "tlp_byte_count c = get_be_byte_count t - (pos - f)"
      "tlp_lower_address c = a AND 0x7f" "tlp_status c = CPL_STATUS_SC" "fmt_type c = TLP_CPL_DATA"
      "tlp_tag c = tlp_tag t" "tlp_requester_id c = tlp_requester_id t" "tlp_completer_id c = cid"
      "tlp_length c = int (length (tlp_data c))"
    by (rule cpl_round [OF L m(1-3)])
  have la: "tlp_lower_address c mod 4 = a mod 4" using c(5) by (simp add: mod_mod_cancel)
  have "tlp_length c * 4 \<le> tlp_byte_count c + tlp_lower_address c mod 4 + 3"
    unfolding c(3,4) la a using m(3) e by linarith
  then have "tlp_check c" by (rule tlp_check_cpl [OF c(7,11)])
  then have "cpl_for t cid mps c" using c(3,7-10) m(4) by (simp add: cpl_for_def)
  with c la show ?thesis using that by blast
qed

lemma cpl_loop_split:
  assumes L: "int (length data) = tlp_length t * 4"
    and o: "0 \<le> f" "f < 4" and e: "tlp_length t * 4 - 3 \<le> f + get_be_byte_count t"
      "f + get_be_byte_count t \<le> tlp_length t * 4" "0 < get_be_byte_count t" and A: "4 dvd A"
    and send: "\<forall>c. cpl_for t cid mps c \<longrightarrow> send c = Inr ()"
  shows "0 \<le> m \<Longrightarrow> m \<le> tlp_length t \<Longrightarrow> pos = (if m = 0 then f else m * 4) \<Longrightarrow>
    \<exists>cs. cpl_loop send cid mps t data m (pos - f) (A + pos) = Inr cs \<and>
      cpl_split (A + pos) (slice (nat pos) (nat (f + get_be_byte_count t)) data) cs \<and>
      (\<forall>c\<in>set cs. cpl_for t cid mps c)"
proof (induction "nat (tlp_length t - m)" arbitrary: m pos rule: less_induct)
  case less
  let ?E = "f + get_be_byte_count t" and ?L = "tlp_length t" and ?a = "A + pos"
  have m: "0 \<le> m" "m \<le> ?L" and pos: "pos = (if m = 0 then f else m * 4)" using less.prems by auto
  have L0: "0 < ?L" using e o by linarith
  have am: "?a mod 4 = pos mod 4" using A by presburger
  have pm: "pos mod 4 = pos - m * 4" using o pos by auto
  show ?case
  proof (cases "m = ?L")
    case True
    then have "?E \<le> pos" using pos e L0 by auto
    then show ?thesis using True by (subst cpl_loop.simps) (simp add: nat_mono)
  next
    case False
    define dwl where "dwl = cpl_dw_length mps ?a (?L - m)"
    have dwl: "0 < dwl" "m + dwl \<le> ?L" "dwl \<le> push_bit mps 32"
      using False m cpl_dw_length_bounds [of "?L - m" mps ?a] unfolding dwl_def by linarith+
    let ?bs = "slice (nat pos) (nat ?E) data" and ?d = "slice (nat (m * 4)) (nat ((m + dwl) * 4)) data"
    have posE: "pos < ?E" "0 \<le> pos" "?E \<le> int (length data)" using pos m False e o L by auto
    obtain c where c: "set_data ?d ((set_completion_data t cid TLP)
        \<lparr>tlp_byte_count := get_be_byte_count t - (pos - f), tlp_lower_address := ?a AND 0x7f\<rparr>) = Inr c"
      "cpl_payload c = Inr ?d" "tlp_length c = dwl" "tlp_byte_count c = get_be_byte_count t - (pos - f)"
      "tlp_lower_address c mod 4 = ?a mod 4" "tlp_status c = CPL_STATUS_SC" "cpl_for t cid mps c"
      using cpl_round_for [OF L m(1) dwl e(1), of ?a pos cid] am pm by metis
    note cf = c(7) and la = c(5) [unfolded am]
    define pos' where "pos' = (m + dwl) * 4"
    have step: "?a + (dwl * 4 - (?a AND 3)) = A + pos'"
      "pos - f + (dwl * 4 - (?a AND 3)) = pos' - f"
      using am pm by (simp_all add: pos'_def)
    have "nat (?L - (m + dwl)) < nat (?L - m)" "pos' = (if m + dwl = 0 then f else (m + dwl) * 4)"
      using m dwl by (auto simp: pos'_def)
    then obtain cs where cs: "cpl_loop send cid mps t data (m + dwl) (pos' - f) (A + pos') = Inr cs"
        "cpl_split (A + pos') (slice (nat pos') (nat ?E) data) cs" "\<forall>c\<in>set cs. cpl_for t cid mps c"
      using less.hyps [of "m + dwl" pos'] m dwl by auto
    have "cpl_loop send cid mps t data m (pos - f) ?a = Inr (c # cs)"
      using False m c(1) cs(1) send [rule_format, OF cf]
      by (subst cpl_loop.simps) (simp add: Let_def dwl_def [symmetric] step del: and_low_masks)
    moreover have "cpl_split ?a ?bs (c # cs)"
    proof (rule cpl_split_step [where i = "m * 4" and pos' = pos'])
      show "m * 4 \<le> pos" "pos < pos'" using o pos dwl(1) m by (auto simp: pos'_def)
      show "pos' \<le> int (length data)" "pos' \<le> ?E + 3" using dwl(2) L e(1) by (simp_all add: pos'_def)
      show "tlp_length c * 4 = pos' - m * 4" "cpl_payload c = Inr (slice (nat (m * 4)) (nat pos') data)"
        using c(2,3) by (simp_all add: pos'_def)
      show "cpl_split (?a + (pos' - pos)) (slice (nat pos') (nat ?E) data) cs" using cs(2) by simp
    qed (use am pm la m posE c(4,6) in simp_all)
    ultimately show ?thesis using cf cs(3) by auto
  qed
qed

section \<open>The contract of a memory behind the fabric\<close>

lemma be_enabled_set_be:
  assumes len: "1 \<le> len" and t: "t = fst (set_be a len self)" and i: "int i < tlp_length t * 4"
  shows "be_enabled t i \<longleftrightarrow> a mod 4 \<le> int i \<and> int i < a mod 4 + len"
proof -
  define f l where "f = a mod 4" and "l = 3 - (a + len - 1) mod 4"
  have fl: "f < 4" "l < 4" by (simp_all add: f_def l_def)
  have L: "tlp_length t * 4 = f + len + l" using set_be_length [OF len, of a self] by (simp add: t f_def l_def)
  note bits = set_be_bits [OF len t]
  show ?thesis
  proof (cases "tlp_length t = 1")
    case True
    then show ?thesis using bits(1) [of i] i by (simp add: be_enabled_def)
  next
    case False
    then have L1: "4 \<le> (tlp_length t - 1) * 4" using i by simp
    consider "i < 4" | "4 \<le> i" "int i < (tlp_length t - 1) * 4" | "(tlp_length t - 1) * 4 \<le> int i" by linarith
    then show ?thesis
    proof cases
      case 1
      have "int i < 4" using 1 by simp
      then have "int i < f + len" using L L1 fl by simp
      then show ?thesis using 1 bits(2) [OF 1 False] by (simp add: be_enabled_def f_def)
    next
      case 2
      have "4 \<le> int i" using 2 by simp
      then have "int i < f + len" "f \<le> int i" using 2(2) L fl by simp_all
      then show ?thesis using 2 by (simp add: be_enabled_def f_def)
    next
      case 3
      define j where "j = nat (int i - (tlp_length t - 1) * 4)"
      have j: "j < 4" "int i = (tlp_length t - 1) * 4 + int j" "\<not> i < 4" using 3 i L1 by (auto simp: j_def)
      have "f \<le> int i" using 3 L1 fl by simp
      moreover have "be_enabled t i \<longleftrightarrow> bit (tlp_last_be t) j" using 3 j(3) by (simp add: be_enabled_def j_def)
      ultimately show ?thesis using bits(3) [OF j(1) False] j(2) by (simp add: f_def)
    qed
  qed
qed

text \<open>What a memory write request carries: its payload is the data between the two pads, and the byte
  enables select exactly the data.\<close>

lemma mem_write_req_spec:
  assumes "bs \<noteq> []" "a mod 4096 + int (length bs) \<le> 4096"
  obtains t where "mem_write_req a bs p = Inr t" "tlp_check t"
    "fmt_type t = (if a > 0xffffffff then TLP_MEM_WRITE_64 else TLP_MEM_WRITE)"
    "tlp_address t = a - a mod 4" "0 < tlp_length t"
    "tlp_length t * 4 = a mod 4 + int (length bs) + (3 - (a + int (length bs) - 1) mod 4)"
    "get_data t = Inr (replicate (nat (a mod 4)) 0 @ bs @
      replicate (nat (3 - (a + int (length bs) - 1) mod 4)) 0)"
    "\<forall>i. int i < tlp_length t * 4 \<longrightarrow>
      be_enabled t i \<longleftrightarrow> a mod 4 \<le> int i \<and> int i < a mod 4 + int (length bs)"
proof -
  let ?p = "set_fmt_type (if a > 0xffffffff then TLP_MEM_WRITE_64 else TLP_MEM_WRITE) p"
  let ?t = "fst (set_be a (int (length bs)) ?p)"
  obtain t where t: "mem_write_req a bs p = Inr t"
    "get_data t = Inr (replicate (nat (a mod 4)) 0 @ bs @
      replicate (nat (3 - (a + int (length bs) - 1) mod 4)) 0)"
    "t = ?t\<lparr>tlp_data := tlp_data t\<rparr>" "tlp_length t = int (length (tlp_data t))"
    unfolding mem_write_req_def by (rule set_be_data_spec [OF assms(1)])
  have len: "1 \<le> int (length bs)" using assms(1) by (cases bs) simp_all
  have sel: "tlp_address t = tlp_address ?t" "tlp_length t = tlp_length ?t"
    "tlp_first_be t = tlp_first_be ?t" "tlp_last_be t = tlp_last_be ?t" "fmt_type t = fmt_type ?t"
    by (subst t(3), simp add: fmt_type_def)+
  have ft: "fmt_type t = (if a > 0xffffffff then TLP_MEM_WRITE_64 else TLP_MEM_WRITE)"
    unfolding sel(5) by (simp add: fmt_type_def set_be_def set_fmt_type_def Let_def)
  have L: "tlp_length t * 4 = a mod 4 + int (length bs) + (3 - (a + int (length bs) - 1) mod 4)"
    using set_be_length [OF len] by (simp add: sel)
  have "tlp_length t * 4 \<le> 4096 - tlp_address t mod 4096"
    using page_dwords [OF len assms(2)] L by (simp add: sel)
  then have chk: "tlp_check t"
    using ft t(4) by (auto simp: tlp_check_def tlp_kind_defs split: if_splits)
  have L0: "0 < tlp_length t"
  proof -
    have "0 \<le> a mod 4" "0 \<le> 3 - (a + int (length bs) - 1) mod 4"
      using pos_mod_bound [of 4 "a + int (length bs) - 1"] by simp_all
    with L len show ?thesis by simp
  qed
  have en: "be_enabled t i \<longleftrightarrow> a mod 4 \<le> int i \<and> int i < a mod 4 + int (length bs)"
    if i: "int i < tlp_length t * 4" for i
  proof -
    have "be_enabled t i = be_enabled ?t i" unfolding be_enabled_def sel ..
    then show ?thesis using be_enabled_set_be [OF len refl, of i a ?p] i by (simp only: sel)
  qed
  show ?thesis using that t(1,2) chk ft L L0 en by (simp add: sel)
qed

lemma merge_bytes_padded:
  assumes "\<And>i. i < n \<Longrightarrow> en i \<longleftrightarrow> f \<le> i \<and> i < f + length bs" "f + length bs \<le> n" "o1 + n \<le> length xs"
  shows "merge_bytes en (replicate f 0 @ bs @ ys) o1 n xs = splice (o1 + f) (o1 + f + length bs) bs xs"
proof (rule nth_equalityI)
  have len: "length (splice (o1 + f) (o1 + f + length bs) bs xs) = length xs"
    using assms(2,3) by (intro length_splice) simp_all
  then show "length (merge_bytes en (replicate f 0 @ bs @ ys) o1 n xs)
    = length (splice (o1 + f) (o1 + f + length bs) bs xs)" by simp
  fix k
  assume "k < length (merge_bytes en (replicate f 0 @ bs @ ys) o1 n xs)"
  then have k: "k < length xs" by simp
  have "splice (o1 + f) (o1 + f + length bs) bs xs ! k =
      (if o1 + f \<le> k \<and> k < o1 + f + length bs then bs ! (k - (o1 + f)) else xs ! k)"
    using assms(2,3) k by (intro nth_splice) simp_all
  moreover have "merge_bytes en (replicate f 0 @ bs @ ys) o1 n xs ! k =
      (if o1 + f \<le> k \<and> k < o1 + f + length bs then bs ! (k - (o1 + f)) else xs ! k)"
  proof (cases "o1 \<le> k \<and> k < o1 + n")
    case True
    then have "k - o1 < n" by linarith
    then have "en (k - o1) \<longleftrightarrow> o1 + f \<le> k \<and> k < o1 + f + length bs"
      using assms(1) [of "k - o1"] True by auto
    then show ?thesis using True k by (auto simp: merge_bytes_def nth_append)
  next
    case False
    then show ?thesis using assms(2) k by (auto simp: merge_bytes_def)
  qed
  ultimately show "merge_bytes en (replicate f 0 @ bs @ ys) o1 n xs ! k
    = splice (o1 + f) (o1 + f + length bs) bs xs ! k" by simp
qed

text \<open>The DWORDs of a request inside a window of \<open>n\<close> bytes from address \<open>b\<close> on are inside the window.\<close>

lemma window_dwords:
  assumes w: "4 dvd b" "4 dvd (n::int)"
    and a: "b \<le> a" "1 \<le> len" "a + len \<le> b + n"
    and L: "L * 4 = a mod 4 + len + (3 - (a + len - 1) mod 4)"
  shows "0 \<le> a - a mod 4 - b" "a - a mod 4 - b + L * 4 \<le> n" "a - a mod 4 < b + n"
    "L * 4 - 3 \<le> a mod 4 + len" "a mod 4 + len \<le> L * 4"
proof -
  obtain c d where cd: "b = 4 * c" "n = 4 * d" using w(1,2) by (auto simp: dvd_def)
  define q r e where "q = a div 4" and "r = a mod 4" and "e = (a + len - 1) mod 4"
  have qr: "a = 4 * q + r" "0 \<le> r" "r < 4" and m: "0 \<le> e" "e \<le> 3" by (simp_all add: q_def r_def e_def)
  have L': "L * 4 = r + len + (3 - e)" using L by (simp add: r_def e_def)
  have "c \<le> q" using a(1) cd(1) qr by simp
  then show "0 \<le> a - a mod 4 - b" unfolding r_def [symmetric] using qr(1) cd(1) by linarith
  have "4 * q + 4 * L < 4 * c + 4 * d + 4" using L' a(3) m(1) cd qr(1) by linarith
  then have "q + L \<le> c + d" by linarith
  then show "a - a mod 4 - b + L * 4 \<le> n" unfolding r_def [symmetric] using qr(1) cd by linarith
  show "L * 4 - 3 \<le> a mod 4 + len" "a mod 4 + len \<le> L * 4" using L' m unfolding r_def by linarith+
  show "a - a mod 4 < b + n" using a pos_mod_sign [of 4 a] by linarith
qed

text \<open>The fields of a read request with its tag.\<close>

lemma mem_read_req_be:
  assumes "1 \<le> len" and t_def: "t = (mem_read_req a len p)\<lparr>tlp_tag := tag\<rparr>"
  shows "tlp_address t = a - a mod 4" "tlp_length t * 4 = a mod 4 + len + (3 - (a + len - 1) mod 4)"
    "get_first_be_offset t = a mod 4" "get_be_byte_count t = len"
proof -
  let ?u = "mem_read_req a len p"
  have t: "tlp_address t = tlp_address ?u" "tlp_length t = tlp_length ?u"
      "get_first_be_offset t = get_first_be_offset ?u" "get_be_byte_count t = get_be_byte_count ?u"
    by (simp_all add: t_def get_first_be_offset_def get_last_be_offset_def get_be_byte_count_def)
  note u = set_be_spec [OF assms(1) mem_read_req_def, of a p]
  show "tlp_address t = a - a mod 4" "tlp_length t * 4 = a mod 4 + len + (3 - (a + len - 1) mod 4)"
    "get_first_be_offset t = a mod 4" "get_be_byte_count t = len"
    unfolding t using u by (blast, blast, simp, blast)
qed

text \<open>The completions for a read request, when the DWORDs of the request are those of a memory \<open>m\<close> whose
  first byte has the address \<open>b\<close>.\<close>

lemma read_window:
  assumes w: "4 dvd b" "4 dvd int (length m)"
    and a: "b \<le> a" "1 \<le> len" "a + len \<le> b + int (length m)"
    and t_def: "t = (mem_read_req a len p)\<lparr>tlp_tag := tag\<rparr>"
    and send: "\<forall>c. cpl_for t cid mps c \<longrightarrow> send c = Inr ()"
  shows "\<exists>cs. mem_read_completions send cid mps t
      (slice (nat (a - a mod 4 - b)) (nat (a - a mod 4 - b + tlp_length t * 4)) m) = Inr cs \<and>
    cpl_split a (slice (nat (a - b)) (nat (a - b + len)) m) cs \<and> (\<forall>c\<in>set cs. cpl_for t cid mps c)"
proof -
  let ?A = "a - a mod 4" and ?o = "a - a mod 4 - b"
  note be = mem_read_req_be [OF a(2) t_def]
  note w = window_dwords [OF w(1,2) a be(2)]
  let ?data = "slice (nat ?o) (nat (?o + tlp_length t * 4)) m"
  have len: "int (length ?data) = tlp_length t * 4"
    using length_slice_int [of ?o "?o + tlp_length t * 4" m] w a(2) by simp
  have A: "4 dvd ?A" "0 \<le> a mod 4" "a mod 4 < 4" by (simp_all add: minus_mod_eq_mult_div)
  have e: "tlp_length t * 4 - 3 \<le> a mod 4 + get_be_byte_count t" "a mod 4 + get_be_byte_count t \<le> tlp_length t * 4"
      "0 < get_be_byte_count t" "0 \<le> tlp_length t"
    using w(4,5) a(2) A(2) unfolding be(4) by linarith+
  obtain cs where cs: "cpl_loop send cid mps t ?data 0 (a mod 4 - a mod 4) (?A + a mod 4) = Inr cs"
      "cpl_split (?A + a mod 4) (slice (nat (a mod 4)) (nat (a mod 4 + get_be_byte_count t)) ?data) cs"
      "\<forall>c\<in>set cs. cpl_for t cid mps c"
    using cpl_loop_split [OF len A(2,3) e(1-3) A(1) send order.refl e(4) refl] unfolding if_P [OF refl] by blast
  have "nat ?o + nat (a mod 4 + len) \<le> nat (?o + tlp_length t * 4)" "nat ?o + nat (a mod 4) = nat (a - b)"
    "nat ?o + nat (a mod 4 + len) = nat (a - b + len)"
    using w(1,5) a(2) by (simp_all add: nat_add_distrib [symmetric])
  then have "slice (nat (a mod 4)) (nat (a mod 4 + len)) ?data = slice (nat (a - b)) (nat (a - b + len)) m"
    by (simp add: slice_slice)
  then show ?thesis using cs be by (simp add: mem_read_completions_def)
qed

context byte_store
begin

text \<open>A write request that the requester builds, applied to a store whose first byte has the address \<open>b\<close>.\<close>

lemma write_window:
  assumes get: "get r s = Some m" and w: "4 dvd b" "4 dvd int (length m)"
    and a: "b \<le> a" "bs \<noteq> []" "a + int (length bs) \<le> b + int (length m)" "a mod 4096 + int (length bs) \<le> 4096"
    and t: "mem_write_req a bs p = Inr t"
  obtains data where "tlp_check t" "fmt_type t = TLP_MEM_WRITE \<or> fmt_type t = TLP_MEM_WRITE_64"
    "tlp_address t = a - a mod 4" "0 < tlp_length t" "get_data t = Inr data"
    "tlp_length t * 4 = a mod 4 + int (length bs) + (3 - (a + int (length bs) - 1) mod 4)"
    "be_multi (\<lambda>so off. wr r (nat (a - a mod 4 - b) + so) (slice so off data)) t s
       = Inr (put r (splice (nat (a - b)) (nat (a - b) + length bs) bs m) s)"
proof -
  let ?o = "a - a mod 4 - b" and ?pad = "replicate (nat (3 - (a + int (length bs) - 1) mod 4)) 0"
  have len: "1 \<le> int (length bs)" using a(2) by (cases bs) simp_all
  obtain u where u: "mem_write_req a bs p = Inr u" "tlp_check u"
      "fmt_type u = (if a > 0xffffffff then TLP_MEM_WRITE_64 else TLP_MEM_WRITE)"
      "tlp_address u = a - a mod 4" "0 < tlp_length u"
      "tlp_length u * 4 = a mod 4 + int (length bs) + (3 - (a + int (length bs) - 1) mod 4)"
      "get_data u = Inr (replicate (nat (a mod 4)) 0 @ bs @ ?pad)"
      "\<forall>i. int i < tlp_length u * 4 \<longrightarrow> be_enabled u i \<longleftrightarrow> a mod 4 \<le> int i \<and> int i < a mod 4 + int (length bs)"
    by (rule mem_write_req_spec [OF a(2,4), of p])
  have [simp]: "u = t" using u(1) t by simp
  note w = window_dwords [OF w a(1) len a(3) u(6)]
  define n where "n = nat (tlp_length t * 4)"
  let ?data = "replicate (nat (a mod 4)) 0 @ bs @ ?pad"
  have n: "int n = tlp_length t * 4" using u(5) by (simp add: n_def)
  have "int (length ?data) = int n" using n u(6) by simp
  moreover have "int (nat ?o) + int n \<le> int (length m)" using w(1,2) n by simp
  ultimately have fit: "n \<le> length ?data" "nat ?o + n \<le> length m" by linarith+
  have "be_multi (\<lambda>so off. wr r (nat ?o + so) (slice so off ?data)) t s
      = Inr (put r (merge_bytes (be_enabled t) ?data (nat ?o) n m) s)"
    using be_multi_merge [OF get _ n_def fit] u(5) w(1) by simp
  moreover have "merge_bytes (be_enabled t) ?data (nat ?o) n m
      = splice (nat ?o + nat (a mod 4)) (nat ?o + nat (a mod 4) + length bs) bs m"
  proof (rule merge_bytes_padded)
    fix i assume "i < n"
    then show "be_enabled t i \<longleftrightarrow> nat (a mod 4) \<le> i \<and> i < nat (a mod 4) + length bs"
      using u(8) [rule_format, of i] n by (auto simp: nat_le_iff)
  next
    show "nat (a mod 4) + length bs \<le> n" using w(5) n by simp
  qed (rule fit(2))
  moreover have "nat ?o + nat (a mod 4) = nat (a - b)" using w(1) by (simp add: nat_add_distrib [symmetric])
  ultimately have "be_multi (\<lambda>so off. wr r (nat ?o + so) (slice so off ?data)) t s
      = Inr (put r (splice (nat (a - b)) (nat (a - b) + length bs) bs m) s)" by (simp only:)
  moreover have "fmt_type t = TLP_MEM_WRITE \<or> fmt_type t = TLP_MEM_WRITE_64" using u(3) by (simp split: if_splits)
  ultimately show ?thesis using u(2,4-7) unfolding \<open>u = t\<close> by (intro that)
qed

end

text \<open>The contract. \<open>mem e\<close> are the bytes of the memory in fabric state \<open>e\<close>, from address \<open>base e\<close> on;
  \<open>ok\<close> is an invariant of the fabric. Requests stay inside a 4 KB page, as the requester's do.\<close>

locale mem_target =
  fixes net :: "'e net"
    and ok :: "'e \<Rightarrow> bool"
    and base :: "'e \<Rightarrow> int"
    and mem :: "'e \<Rightarrow> byte list"
  assumes read_law: "ok e \<Longrightarrow> base e \<le> a \<Longrightarrow> 1 \<le> len \<Longrightarrow> a + len \<le> base e + int (length (mem e)) \<Longrightarrow>
      a mod 4096 + len \<le> 4096 \<Longrightarrow>
      \<exists>cs. net e ((mem_read_req a len p)\<lparr>tlp_tag := tag\<rparr>) = Inr (cs, e) \<and>
        cpl_split a (slice (nat (a - base e)) (nat (a - base e + len)) (mem e)) cs \<and>
        (\<forall>c\<in>set cs. tlp_tag c = tag)"
    and write_law: "ok e \<Longrightarrow> base e \<le> a \<Longrightarrow> bs \<noteq> [] \<Longrightarrow>
      a + int (length bs) \<le> base e + int (length (mem e)) \<Longrightarrow> a mod 4096 + int (length bs) \<le> 4096 \<Longrightarrow>
      mem_write_req a bs p = Inr t \<Longrightarrow>
      \<exists>e'. net e t = Inr ([], e') \<and> ok e' \<and> base e' = base e \<and>
        mem e' = splice (nat (a - base e)) (nat (a - base e) + length bs) bs (mem e)"
begin

text \<open>One read request of the requester, from the free tag to the last completion.\<close>

lemma read_chunk:
  assumes rq: "idle rq" "0 < tc" "tc \<le> 256" and send: "\<forall>t. tlp_check t \<longrightarrow> send t = Inr ()"
    and e: "ok e" "base e \<le> a" "1 \<le> len" "a + len \<le> base e + int (length (mem e))" "a mod 4096 + len \<le> 4096"
  defines "tag \<equiv> (current_tag rq + 1) mod tc"
  shows "\<exists>rq2 rq3. transact send net ((mem_read_req a len p)\<lparr>tlp_tag := tag\<rparr>)
        (rq\<lparr>current_tag := tag\<rparr>) e = Inr (rq2, e) \<and>
      recv_mem_read tag len data rq2
        = Inr (data @ slice (nat (a - base e)) (nat (a - base e + len)) (mem e), rq3) \<and> idle rq3"
proof -
  let ?bs = "slice (nat (a - base e)) (nat (a - base e + len)) (mem e)"
  obtain cs where cs: "net e ((mem_read_req a len p)\<lparr>tlp_tag := tag\<rparr>) = Inr (cs, e)"
      "cpl_split a ?bs cs" "\<forall>c\<in>set cs. tlp_tag c = tag"
    using read_law [OF e] by blast
  have tag: "0 \<le> tag" "nat tag < 256"
    using rq(2,3) pos_mod_bound [of tc "current_tag rq + 1"] pos_mod_sign [of tc "current_tag rq + 1"]
    unfolding tag_def by linarith+
  let ?rq1 = "rq\<lparr>current_tag := tag\<rparr>"
  let ?rq2 = "?rq1\<lparr>rx_cpl_queues := (rx_cpl_queues rq)[nat tag := cs]\<rparr>"
  let ?rq3 = "?rq1\<lparr>rx_cpl_queues := (rx_cpl_queues rq)[nat tag := []]\<rparr>"
  have q: "rx_cpl_queues rq = replicate 256 []" using rq(1) by (simp add: idle_def)
  have "foldE push_cpl cs ?rq1 = Inr ?rq2"
    using foldE_push_cpl [OF cs(3) tag(1), of ?rq1] tag by (simp add: q)
  then have "transact send net ((mem_read_req a len p)\<lparr>tlp_tag := tag\<rparr>) ?rq1 e = Inr (?rq2, e)"
    using send mem_read_req_check [OF e(3,5)] cs(1) by (simp add: transact_def)
  moreover have "int (length ?bs) = len" using e length_slice_int [of "a - base e" "a - base e + len" "mem e"] by simp
  then have "recv_mem_read tag len data ?rq2 = Inr (data @ ?bs, ?rq3)"
    using mem_read_cpls_split [OF cs(2), of len 0 data] tag by (simp add: recv_mem_read_def py_index_def q)
  moreover have "(replicate 256 [])[nat tag := []] = replicate 256 ([] :: tlp list)"
    using tag(2) by (simp add: list_update_same_conv)
  then have "idle ?rq3" by (simp add: idle_def q)
  ultimately show ?thesis by blast
qed

text \<open>The whole read: any length and alignment, cut into as many requests as its size needs.\<close>

lemma read_all:
  assumes tc: "0 < tc" "tc \<le> 256" and send: "\<forall>t. tlp_check t \<longrightarrow> send t = Inr ()" and e: "ok e"
  shows "idle rq \<Longrightarrow> n \<le> len \<Longrightarrow> base e \<le> a \<Longrightarrow> a + (len - n) \<le> base e + int (length (mem e)) \<Longrightarrow>
    \<exists>rq'. mem_read_loop send net tc (\<lambda>l. l) mrrs p n len a data rq e
      = Inr (data @ slice (nat (a - base e)) (nat (a - base e + (len - n))) (mem e), rq', e) \<and> idle rq'"
proof (induction "nat (len - n)" arbitrary: n a data rq rule: less_induct)
  case less
  show ?case
  proof (cases "n < len")
    case False
    then show ?thesis using less.prems by (subst mem_read_loop.simps) auto
  next
    case True
    define bl where "bl = chunk_length (push_bit mrrs 128) a (len - n)"
    have bl: "1 \<le> bl" "bl \<le> len - n" "a mod 4096 + bl \<le> 4096"
      using chunk_length_bounds [of "len - n" "push_bit mrrs 128" a] shift_128_ge True
      unfolding bl_def by simp_all
    define tag where "tag = (current_tag rq + 1) mod tc"
    obtain rq2 rq3 where rd: "transact send net ((mem_read_req a bl p)\<lparr>tlp_tag := tag\<rparr>)
          (rq\<lparr>current_tag := tag\<rparr>) e = Inr (rq2, e)"
        "recv_mem_read tag bl data rq2
          = Inr (data @ slice (nat (a - base e)) (nat (a - base e + bl)) (mem e), rq3)" "idle rq3"
      using read_chunk [OF less.prems(1) tc send e, where a = a and len = bl and p = p and data = data] less.prems bl
      unfolding tag_def by auto
    have "nat (len - (n + bl)) < nat (len - n)" using bl True by simp
    from less.hyps [OF this rd(3), where a = "a + bl" and
        data = "data @ slice (nat (a - base e)) (nat (a - base e + bl)) (mem e)"] less.prems bl
    obtain rq' where IH: "mem_read_loop send net tc (\<lambda>l. l) mrrs p (n + bl) len (a + bl)
        (data @ slice (nat (a - base e)) (nat (a - base e + bl)) (mem e)) rq3 e
      = Inr ((data @ slice (nat (a - base e)) (nat (a - base e + bl)) (mem e)) @
          slice (nat (a + bl - base e)) (nat (a + bl - base e + (len - (n + bl)))) (mem e), rq', e)" "idle rq'"
      by auto
    have "slice (nat (a - base e)) (nat (a - base e + bl)) (mem e) @
        slice (nat (a + bl - base e)) (nat (a + bl - base e + (len - (n + bl)))) (mem e)
      = slice (nat (a - base e)) (nat (a - base e + (len - n))) (mem e)"
      using slice_append_slice [of "nat (a - base e)" "nat (a - base e + bl)" "nat (a - base e + (len - n))" "mem e"]
        less.prems bl by (simp add: algebra_simps)
    then show ?thesis
      using True IH rd by (subst mem_read_loop.simps)
        (simp add: with_tag_idle [OF less.prems(1) tc] bl_def [symmetric] tag_def [symmetric])
  qed
qed

lemma write_all:
  assumes send: "\<forall>t. tlp_check t \<longrightarrow> send t = Inr ()"
  shows "ok e \<Longrightarrow> n \<le> length data \<Longrightarrow> base e \<le> a \<Longrightarrow>
    a + int (length data - n) \<le> base e + int (length (mem e)) \<Longrightarrow>
    \<exists>e'. mem_write_loop send net mps p n data a rq e = Inr (rq, e') \<and> ok e' \<and> base e' = base e \<and>
      mem e' = splice (nat (a - base e)) (nat (a - base e) + (length data - n)) (drop n data) (mem e)"
proof (induction "length data - n" arbitrary: n a e rule: less_induct)
  case less
  show ?case
  proof (cases "n < length data")
    case False
    then show ?thesis using less.prems by (subst mem_write_loop.simps) auto
  next
    case True
    define bl where "bl = nat (chunk_length (push_bit mps 128) a (int (length data - n)))"
    have "1 \<le> int bl" "int bl \<le> int (length data - n)" "a mod 4096 + int bl \<le> 4096"
      using chunk_length_bounds [of "int (length data - n)" "push_bit mps 128" a] shift_128_ge True
      unfolding bl_def by simp_all
    then have bl: "1 \<le> bl" "n + bl \<le> length data" "a mod 4096 + int bl \<le> 4096" using True by linarith+
    let ?bs = "slice n (n + bl) data" and ?o = "nat (a - base e)"
    have bs: "length ?bs = bl" "?bs \<noteq> []" using bl by (auto simp: slice_def)
    obtain t where t: "mem_write_req a ?bs p = Inr t" "tlp_check t"
      using mem_write_req_spec [OF bs(2), of a p] bl(3) bs(1) by metis
    obtain e1 where e1: "net e t = Inr ([], e1)" "ok e1" "base e1 = base e"
        "mem e1 = splice ?o (?o + bl) ?bs (mem e)"
      using write_law [OF less.prems(1,3) bs(2) _ _ t(1)] less.prems bl bs(1) by auto
    have fit: "?o + bl \<le> length (mem e)" using less.prems bl by linarith
    have len1: "length (mem e1) = length (mem e)" unfolding e1(4) using fit bs(1) by (intro length_splice) simp_all
    have "length data - (n + bl) < length data - n" using bl True by simp
    from less.hyps [OF this e1(2) bl(2), of "a + int bl"] less.prems bl len1 e1(3)
    obtain e' where IH: "mem_write_loop send net mps p (n + bl) data (a + int bl) rq e1 = Inr (rq, e')"
        "ok e'" "base e' = base e" "mem e' = splice (nat (a + int bl - base e))
          (nat (a + int bl - base e) + (length data - (n + bl))) (drop (n + bl) data) (mem e1)"
      by auto
    have "nat (a + int bl - base e) = ?o + bl" using less.prems by simp
    moreover have "?bs @ drop (n + bl) data = drop n data"
      using append_take_drop_id [of bl "drop n data"] by (simp add: slice_def add.commute)
    ultimately have "mem e' = splice ?o (?o + (length data - n)) (drop n data) (mem e)"
      using splice_splice [of ?o ?bs "mem e" "drop (n + bl) data"] fit bs(1) bl
      by (simp add: IH(4) e1(4) add.assoc)
    moreover have "transact send net t rq e = Inr (rq, e1)"
      using send t(2) e1(1) by (simp add: transact_def)
    then have "mem_write_loop send net mps p n data a rq e = Inr (rq, e')"
      by (subst mem_write_loop.simps)
        (simp only: True if_True Let_def bl_def [symmetric] t(1) bindE_Inr prod.case IH(1))
    ultimately show ?thesis using IH(2,3) by blast
  qed
qed

text \<open>A write followed by a read of the same range returns the data.\<close>

lemma write_then_read:
  assumes tc: "0 < tc" "tc \<le> 256" and send: "\<forall>t. tlp_check t \<longrightarrow> send t = Inr ()" and "idle rq" and e: "ok e"
    and a: "base e \<le> a" "a + int (length data) \<le> base e + int (length (mem e))"
  shows "\<exists>e' rq'. mem_write_loop send net mps p 0 data a rq e = Inr (rq, e') \<and>
    mem_read_loop send net tc (\<lambda>l. l) mrrs q 0 (int (length data)) a [] rq e' = Inr (data, rq', e') \<and> idle rq'"
proof -
  let ?o = "nat (a - base e)"
  obtain e' where e': "mem_write_loop send net mps p 0 data a rq e = Inr (rq, e')" "ok e'" "base e' = base e"
      "mem e' = splice ?o (?o + length data) data (mem e)"
    using write_all [OF send e, of 0 data a mps p rq] a by auto
  have fit: "?o + length data \<le> length (mem e)" using a by linarith
  then have "length (mem e') = length (mem e)" unfolding e'(4) by (intro length_splice) simp_all
  moreover have "nat (a - base e + int (length data)) = ?o + length data" using a by simp
  ultimately show ?thesis
    using read_all [OF tc send e'(2) \<open>idle rq\<close>, of 0 "int (length data)" a mrrs q "[]"] a fit e'
      slice_splice_same [of ?o "?o + length data" "mem e" data]
    by auto
qed

end

end
