(* ===== verification/Pcie_Endpoint.thy ===== *)
theory Pcie_Endpoint
  imports Pcie_Function Pcie_Completer
begin

unbundle bit_operations_syntax

text \<open>
  The classes \<open>Endpoint\<close> (the type 0 configuration space) and \<open>MemoryEndpoint\<close> (base address registers
  that point to memory inside the endpoint) of \<open>lib/pcie/tb/pcie.py\<close>.

  A region is a \<open>bytearray\<close>, a pair of call-backs, or unset. A read call-back is a function of its
  arguments; a write call-back is never reached, since \<open>write_region\<close> names an undefined variable
  in its call.

  The properties: a memory write request stores exactly its enabled bytes, a memory read request is
  answered by a split of the bytes it asks for, and so a \<open>MemoryEndpoint\<close> satisfies the contract
  \<open>mem_target\<close> that the requester's accesses rest on.
\<close>

section \<open>Endpoint\<close>

record endpoint = func +
  cardbus_cis :: int
  subsystem_vendor_id :: int
  subsystem_id :: int

definition set_device_type :: "int \<Rightarrow> 'a func_scheme \<Rightarrow> 'a func_scheme" where
  "set_device_type v f = f\<lparr>pcie := (pcie f)\<lparr>pcie_caps := (pcie_caps (pcie f))\<lparr>pcie_device_type := v\<rparr>\<rparr>\<rparr>"

definition Endpoint :: "endpoint res" where
  "Endpoint = bindE Function (\<lambda>f.
     Inr (func.extend
       (set_device_type 0 (f\<lparr>header_type := 0, bar := replicate 6 0, bar_mask := replicate 6 0\<rparr>))
       (endpoint.fields 0 0 0)))"

definition ep_read_config_register :: "'a endpoint_scheme \<Rightarrow> int \<Rightarrow> int option res" where
  "ep_read_config_register f reg =
     (if 4 \<le> reg \<and> reg \<le> 9 then bindE (nth_res (bar f) (nat (reg - 4))) (\<lambda>v. Inr (Some v))
      else if reg = 10 then Inr (Some (cardbus_cis f))
      else if reg = 11 then Inr (Some (push_bit 16 (subsystem_id f) OR subsystem_vendor_id f))
      else if reg = 12 then Inr (Some (expansion_rom_addr f))
      else if reg = 13 then Inr (Some (cap_ptr f))
      else if reg = 14 then Inr (Some 0)
      else if reg = 15 then Inr (Some (push_bit 8 (intr_pin f) OR intr_line f))
      else read_config_register f reg)"

definition write_bar :: "nat \<Rightarrow> int \<Rightarrow> int \<Rightarrow> 'a func_scheme \<Rightarrow> 'a func_scheme res" where
  "write_bar i data msk f =
     bindE (nth_res (bar f) i) (\<lambda>old. bindE (nth_res (bar_mask f) i) (\<lambda>bm.
       Inr (f\<lparr>bar := (bar f)[i := byte_mask_update old msk data bm]\<rparr>)))"

definition ep_write_config_register ::
  "int \<Rightarrow> int \<Rightarrow> int \<Rightarrow> 'a endpoint_scheme \<Rightarrow> 'a endpoint_scheme res" where
  "ep_write_config_register reg data msk f =
     (if 4 \<le> reg \<and> reg \<le> 9 then write_bar (nat (reg - 4)) data msk f
      else if reg = 12 then
        Inr (f\<lparr>expansion_rom_addr := byte_mask_update (expansion_rom_addr f) msk data (-1)\<rparr>)
      else if reg = 15 then
        Inr (f\<lparr>intr_line := byte_mask_update (intr_line f) (msk AND 1) data (-1),
               intr_pin := byte_mask_update (intr_pin f) (drop_bit 1 msk AND 1) (drop_bit 8 data) (-1)\<rparr>)
      else write_config_register reg data msk f)"

section \<open>MemoryEndpoint\<close>

datatype region =
    Region_none
  | Region_mem "byte list"
  | Region_callback "(int \<Rightarrow> int \<Rightarrow> byte list res) option"

record mem_endpoint = endpoint +
  regions :: "region list"
  bar_ptr :: nat

definition MemoryEndpoint :: "mem_endpoint res" where
  "MemoryEndpoint = bindE Endpoint (\<lambda>f.
     Inr (register_rx_tlp_handler TLP_MEM_WRITE_64 Handle_mem_write
       (register_rx_tlp_handler TLP_MEM_WRITE Handle_mem_write
       (register_rx_tlp_handler TLP_MEM_READ_64 Handle_mem_read
       (register_rx_tlp_handler TLP_MEM_READ Handle_mem_read
       (register_rx_tlp_handler TLP_IO_WRITE Handle_io_write
       (register_rx_tlp_handler TLP_IO_READ Handle_io_read
         (endpoint.extend f (mem_endpoint.fields (replicate 6 Region_none) 0)))))))))"

text \<open>\<open>add_region\<close>: \<open>rd\<close> is the read call-back and \<open>wr\<close> tells whether there is a write call-back.\<close>

definition add_region ::
  "(int \<Rightarrow> nat) \<Rightarrow> int \<Rightarrow> (int \<Rightarrow> int \<Rightarrow> byte list res) option \<Rightarrow> bool \<Rightarrow> bool \<Rightarrow> bool \<Rightarrow> bool \<Rightarrow>
   'a mem_endpoint_scheme \<Rightarrow> 'a mem_endpoint_scheme res" where
  "add_region clog2 sz rd wr ext prefetch io f =
     (if bar_ptr f > 5 \<or> (ext \<and> bar_ptr f > 4) then Inl (PyException ''No more BARs available'')
      else bindE (configure_bar clog2 (bar_ptr f) sz ext prefetch io f) (\<lambda>f1.
        Inr (f1\<lparr>regions := (regions f1)[bar_ptr f1 :=
                  (if rd = None \<and> \<not> wr then Region_mem (replicate (nat sz) 0) else Region_callback rd)],
                bar_ptr := (if ext then bar_ptr f1 + 2 else bar_ptr f1 + 1)\<rparr>)))"

definition add_io_region where
  "add_io_region clog2 sz rd wr f = add_region clog2 sz rd wr False False True f"

definition add_mem_region where
  "add_mem_region clog2 sz rd wr f = add_region clog2 sz rd wr False False False f"

definition add_prefetchable_mem_region where
  "add_prefetchable_mem_region clog2 sz rd wr f = add_region clog2 sz rd wr True True False f"

definition read_region :: "'a mem_endpoint_scheme \<Rightarrow> nat \<Rightarrow> int \<Rightarrow> int \<Rightarrow> byte list res" where
  "read_region f r addr len =
     bindE (nth_res (regions f) r) (\<lambda>rg.
       case rg of
         Region_none \<Rightarrow> Inl (PyException ''Invalid region'')
       | Region_mem m \<Rightarrow> if m = [] then Inl (PyException ''Invalid region'')
                          else Inr (py_slice addr (addr + len) m)
       | Region_callback rd \<Rightarrow> (case rd of None \<Rightarrow> Inl TypeError | Some g \<Rightarrow> g addr len))"

definition write_region ::
  "nat \<Rightarrow> int \<Rightarrow> byte list \<Rightarrow> 'a mem_endpoint_scheme \<Rightarrow> 'a mem_endpoint_scheme res" where
  "write_region r addr data f =
     bindE (nth_res (regions f) r) (\<lambda>rg.
       case rg of
         Region_none \<Rightarrow> Inl (PyException ''Invalid region'')
       | Region_mem m \<Rightarrow> if m = [] then Inl (PyException ''Invalid region'')
           else Inr (f\<lparr>regions := (regions f)
                        [r := Region_mem (py_splice addr (addr + int (length data)) data m)]\<rparr>)
       | Region_callback rd \<Rightarrow> Inl NameError)"

definition send_ur :: "tlp \<Rightarrow> 'a func_scheme \<Rightarrow> ('a func_scheme \<times> tlp list) res" where
  "send_ur t f = bindE (upstream_send f (set_ur_completion t (get_id f) TLP)) (\<lambda>out. Inr (f, out))"

definition handle_io_read_tlp ::
  "tlp \<Rightarrow> 'a mem_endpoint_scheme \<Rightarrow> ('a mem_endpoint_scheme \<times> tlp list) res" where
  "handle_io_read_tlp t f =
     bindE (match_bar f (tlp_address t) True) (\<lambda>m.
       case m of
         [(region, addr)] \<Rightarrow>
           bindE (assertE (tlp_length t = 1)) (\<lambda>_.
           bindE (be_single (\<lambda>so off d. bindE (read_region f region (addr + int so) (int (off - so)))
                      (\<lambda>bs. Inr (splice so off bs d))) t (replicate 4 0)) (\<lambda>data.
           bindE (set_data data (set_completion_data t (get_id f) TLP)) (\<lambda>cpl.
           bindE (upstream_send f (cpl\<lparr>tlp_byte_count := 4, tlp_length := 1\<rparr>)) (\<lambda>out. Inr (f, out)))))
       | _ \<Rightarrow> send_ur t f)"

definition handle_io_write_tlp ::
  "tlp \<Rightarrow> 'a mem_endpoint_scheme \<Rightarrow> ('a mem_endpoint_scheme \<times> tlp list) res" where
  "handle_io_write_tlp t f =
     bindE (match_bar f (tlp_address t) True) (\<lambda>m.
       case m of
         [(region, addr)] \<Rightarrow>
           bindE (assertE (tlp_length t = 1)) (\<lambda>_.
           bindE (get_data t) (\<lambda>data.
           bindE (be_single (\<lambda>so off. write_region region (addr + int so) (slice so off data)) t f) (\<lambda>f1.
           bindE (upstream_send f1 ((set_completion t (get_id f) False CPL_STATUS_SC TLP)\<lparr>tlp_byte_count := 4\<rparr>))
             (\<lambda>out. Inr (f1, out)))))
       | _ \<Rightarrow> send_ur t f)"

definition handle_mem_read_tlp ::
  "tlp \<Rightarrow> 'a mem_endpoint_scheme \<Rightarrow> ('a mem_endpoint_scheme \<times> tlp list) res" where
  "handle_mem_read_tlp t f =
     bindE (match_bar f (tlp_address t) False) (\<lambda>m.
       case m of
         [(region, addr)] \<Rightarrow>
           if tlp_length t * 4 > 0x1000 - (addr AND 0xfff) then Inr (f, [])
           else bindE (read_region f region addr (tlp_length t * 4)) (\<lambda>data.
                bindE (mem_read_completions (send_check f) (get_id f)
                         (nat (max_payload_size (dev_ctl (pcie f)))) t data) (\<lambda>cpls. Inr (f, cpls)))
       | _ \<Rightarrow> send_ur t f)"

definition handle_mem_write_tlp ::
  "tlp \<Rightarrow> 'a mem_endpoint_scheme \<Rightarrow> ('a mem_endpoint_scheme \<times> tlp list) res" where
  "handle_mem_write_tlp t f =
     bindE (match_bar f (tlp_address t) False) (\<lambda>m.
       case m of
         [(region, addr)] \<Rightarrow>
           if tlp_length t * 4 > 0x1000 - (addr AND 0xfff) then Inr (f, [])
           else bindE (get_data t) (\<lambda>data.
                bindE (be_multi (\<lambda>so off. write_region region (addr + int so) (slice so off data)) t f) (\<lambda>f1.
                  Inr (f1, [])))
       | _ \<Rightarrow> Inr (f, []))"

definition ep_run ::
  "rx_handler \<Rightarrow> tlp \<Rightarrow> 'a mem_endpoint_scheme \<Rightarrow> ('a mem_endpoint_scheme \<times> tlp list) res" where
  "ep_run h t f =
     (case h of
        Handle_config_0 \<Rightarrow> handle_config_0_tlp ep_read_config_register ep_write_config_register upstream_send t f
      | Handle_io_read \<Rightarrow> handle_io_read_tlp t f
      | Handle_io_write \<Rightarrow> handle_io_write_tlp t f
      | Handle_mem_read \<Rightarrow> handle_mem_read_tlp t f
      | Handle_mem_write \<Rightarrow> handle_mem_write_tlp t f)"

definition ep_recv :: "tlp \<Rightarrow> 'a mem_endpoint_scheme \<Rightarrow> ('a mem_endpoint_scheme \<times> tlp list) res" where
  "ep_recv t f = upstream_recv ep_run t f"

section \<open>The regions as a byte store\<close>

definition ep_get :: "nat \<Rightarrow> 'a mem_endpoint_scheme \<Rightarrow> byte list option" where
  "ep_get r f =
     (if r < length (regions f) then
        case regions f ! r of Region_mem m \<Rightarrow> if m = [] then None else Some m | _ \<Rightarrow> None
      else None)"

definition ep_put :: "nat \<Rightarrow> byte list \<Rightarrow> 'a mem_endpoint_scheme \<Rightarrow> 'a mem_endpoint_scheme" where
  "ep_put r m f = f\<lparr>regions := (regions f)[r := Region_mem m]\<rparr>"

lemma ep_get_Some:
  "ep_get r f = Some m \<longleftrightarrow> r < length (regions f) \<and> regions f ! r = Region_mem m \<and> m \<noteq> []"
  by (auto simp: ep_get_def split: if_splits region.splits)

lemma read_region_mem: "ep_get r f = Some m \<Longrightarrow> read_region f r addr len = Inr (py_slice addr (addr + len) m)"
  by (simp add: ep_get_Some read_region_def nth_res_def)

interpretation ep_store: byte_store ep_get ep_put "\<lambda>r k bs. write_region r (int k) bs"
proof
  fix r and f :: "'a mem_endpoint_scheme" and m m' bs :: "byte list" and k :: nat
  show "ep_get r f = Some m \<Longrightarrow> length m' = length m \<Longrightarrow> ep_get r (ep_put r m' f) = Some m'"
    by (auto simp: ep_get_Some ep_put_def)
  show "ep_get r f = Some m \<Longrightarrow> ep_put r m f = f"
    by (auto simp: ep_get_Some ep_put_def list_update_same_conv)
  show "ep_put r m (ep_put r m' f) = ep_put r m f"
    by (simp add: ep_put_def)
  assume "ep_get r f = Some m" "bs \<noteq> []" "k + length bs \<le> length m"
  then show "write_region r (int k) bs f = Inr (ep_put r (splice k (k + length bs) bs m) f)"
    by (simp add: ep_get_Some write_region_def nth_res_def ep_put_def py_splice_nat nat_add_distrib)
qed

section \<open>A memory endpoint behind a link\<close>

text \<open>The fabric that consists of one endpoint: a packet is delivered, the packets the endpoint sends
  upstream come back. \<open>ep_serves r b\<close>: region \<open>r\<close> is memory and the base address registers map it to
  the addresses from \<open>b\<close> on.\<close>

definition ep_net :: "'a mem_endpoint_scheme net" where
  "ep_net f t = bindE (ep_recv t f) (\<lambda>(f', out). Inr (out, f'))"

definition ep_mem :: "nat \<Rightarrow> 'a mem_endpoint_scheme \<Rightarrow> byte list" where
  "ep_mem r f = (case ep_get r f of None \<Rightarrow> [] | Some m \<Rightarrow> m)"

definition ep_handlers :: "'a mem_endpoint_scheme \<Rightarrow> bool" where
  "ep_handlers f \<longleftrightarrow> upstream_tx_set f \<and>
     rx_tlp_handler f TLP_MEM_READ = Some Handle_mem_read \<and>
     rx_tlp_handler f TLP_MEM_READ_64 = Some Handle_mem_read \<and>
     rx_tlp_handler f TLP_MEM_WRITE = Some Handle_mem_write \<and>
     rx_tlp_handler f TLP_MEM_WRITE_64 = Some Handle_mem_write"

definition ep_serves :: "nat \<Rightarrow> int \<Rightarrow> 'a mem_endpoint_scheme \<Rightarrow> bool" where
  "ep_serves r b f \<longleftrightarrow> ep_handlers f \<and> ep_get r f \<noteq> None \<and> 4 dvd b \<and> 4 dvd length (ep_mem r f) \<and>
     (4096 dvd b \<or> length (ep_mem r f) \<le> 4096) \<and>
     (\<forall>a. b \<le> a \<and> a < b + int (length (ep_mem r f)) \<longrightarrow> match_bar f a False = Inr [(r, a - b)])"

text \<open>A memory endpoint with one region of 16 bytes, its BAR programmed to \<open>0x1000\<close>.\<close>

definition ep_example :: mem_endpoint where
  "ep_example =
     (case bindE MemoryEndpoint (add_mem_region (\<lambda>_. 4) 16 None False) of
        Inl _ \<Rightarrow> endpoint.extend (func.extend func_init (endpoint.fields 0 0 0)) (mem_endpoint.fields [] 0)
      | Inr f \<Rightarrow> f\<lparr>upstream_tx_set := True, bar := (bar f)[0 := 0x1000]\<rparr>)"

lemma Function_ok: "\<exists>f. Function = Inr f \<and> f = func_init\<lparr>capabilities := capabilities f, cap_ptr := cap_ptr f\<rparr>"
  unfolding Function_def by (simp add: register_capability_def register_def find_by_id_def func_init_def PcieCapList_def
   register_cap_def register_auto_def missing_parameter_def cap_append_def numeral_eq_Suc)

lemma ep_example_sel:
  "bar ep_example = [0x1000, 0, 0, 0, 0, 0]" "bar_mask ep_example = [0xfffffff0, 0, 0, 0, 0, 0]"
  "ep_get 0 ep_example = Some (replicate 16 0)" "ep_handlers ep_example"
proof -
  obtain g where g: "Function = Inr g" "g = func_init\<lparr>capabilities := capabilities g, cap_ptr := cap_ptr g\<rparr>"
    using Function_ok by blast
  show "bar ep_example = [0x1000, 0, 0, 0, 0, 0]" "bar_mask ep_example = [0xfffffff0, 0, 0, 0, 0, 0]"
    "ep_get 0 ep_example = Some (replicate 16 0)" "ep_handlers ep_example"
    by (simp_all add: ep_example_def MemoryEndpoint_def Endpoint_def g(1) add_mem_region_def add_region_def
       register_rx_tlp_handler_def set_device_type_def func.defs endpoint.defs mem_endpoint.defs
       configure_bar_def numeral_eq_Suc ep_get_def ep_handlers_def)
qed
text \<open>
  C27. A memory write request stores exactly the bytes its byte enables select: a request of any length
  for a BAR that is backed by memory changes byte \<open>i\<close> of the addressed window to byte \<open>i\<close> of the
  payload when the first, the last or (between them) the implicit byte enables select it, leaves every
  other byte as it was, and sends no completion.
\<close>

theorem handle_mem_write_enabled_bytes:
  assumes "match_bar f (tlp_address t) False = Inr [(r, int a)]" and "ep_get r f = Some m"
    and "0 < tlp_length t" and n_def: "n = nat (tlp_length t * 4)"
    and "int a mod 4096 + tlp_length t * 4 \<le> 4096" and "a + n \<le> length m"
    and "get_data t = Inr data" and "n \<le> length data"
  shows "\<exists>f'. handle_mem_write_tlp t f = Inr (f', []) \<and>
    ep_get r f' = Some (map (\<lambda>j. if a \<le> j \<and> j < a + n \<and> be_enabled t (j - a) then data ! (j - a) else m ! j)
      [0..<length m])"
proof -
  let ?m = "merge_bytes (be_enabled t) data a n m"
  have "be_multi (\<lambda>so off. write_region r (int a + int so) (slice so off data)) t f = Inr (ep_put r ?m f)"
    using ep_store.be_multi_merge [OF assms(2,3) n_def assms(8,6)] by simp
  then have "handle_mem_write_tlp t f = Inr (ep_put r ?m f, [])"
    using assms by (simp add: handle_mem_write_tlp_def)
  moreover have "ep_get r (ep_put r ?m f) = Some ?m"
    using ep_store.get_put [OF assms(2), of ?m] by simp
  ultimately show ?thesis by (simp add: merge_bytes_def)
qed

definition write_example :: tlp where
  "write_example = (set_fmt_type TLP_MEM_WRITE TLP)
     \<lparr>tlp_address := 0x1004, tlp_length := 1, tlp_first_be := 5, tlp_data := [0x44332211]\<rparr>"

theorem handle_mem_write_enabled_bytes_witness:
  "\<exists>f'. handle_mem_write_tlp write_example ep_example = Inr (f', []) \<and>
     ep_get 0 f' = Some [0, 0, 0, 0, 0x11, 0, 0x33, 0, 0, 0, 0, 0, 0, 0, 0, 0]"
proof -
  have m: "match_bar ep_example (tlp_address write_example) False = Inr [(0, int 4)]"
    by (simp add: match_bar_def ep_example_sel write_example_def)
  have l: "0 < tlp_length write_example" "4 = nat (tlp_length write_example * 4)"
    "int 4 mod 4096 + tlp_length write_example * 4 \<le> 4096" "4 + 4 \<le> length (replicate 16 (0::byte))"
    by (simp_all add: write_example_def)
  have gd: "get_data write_example = Inr [0x11, 0x22, 0x33, 0x44]" by code_simp
  have dl: "4 \<le> length [0x11, 0x22, 0x33, 0x44::byte]" by simp
  have eq: "map (\<lambda>j. if 4 \<le> j \<and> j < 4 + 4 \<and> be_enabled write_example (j - 4)
      then [0x11, 0x22, 0x33, 0x44::byte] ! (j - 4) else replicate 16 0 ! j) [0..<length (replicate 16 (0::byte))]
    = [0, 0, 0, 0, 0x11, 0, 0x33, 0, 0, 0, 0, 0, 0, 0, 0, 0]"
    by code_simp
  show ?thesis
    using handle_mem_write_enabled_bytes [OF m ep_example_sel(3) l gd dl] unfolding eq .
qed

lemma ep_mem_Some: "ep_get r f = Some m \<Longrightarrow> ep_mem r f = m"
  by (simp add: ep_mem_def)

lemma send_check_ok: "upstream_tx_set f \<Longrightarrow> tlp_check t \<Longrightarrow> send_check f t = Inr ()"
  by (simp add: send_check_def upstream_send_def)

text \<open>The DWORDs of a request inside the window do not cross a page of the memory.\<close>

lemma window_page:
  assumes w: "4 dvd b" "4 dvd (n::int)" "4096 dvd b \<or> n \<le> (4096::int)"
    and a: "b \<le> a" "1 \<le> len" "a + len \<le> b + n" "a mod 4096 + len \<le> 4096"
    and L: "L * 4 = a mod 4 + len + (3 - (a + len - 1) mod 4)"
  shows "(a - a mod 4 - b) mod 4096 + L * 4 \<le> 4096"
proof (cases "4096 dvd b")
  case True
  then have "(a - a mod 4 - b) mod 4096 = (a - a mod 4) mod 4096"
    by (metis dvd_imp_mod_0 diff_zero mod_diff_right_eq)
  then show ?thesis using page_dwords [OF a(2,4)] L by simp
next
  case False
  note d = window_dwords [OF w(1,2) a(1-3) L]
  have "n \<le> 4096" using w(3) False by simp
  moreover have "(a - a mod 4 - b) mod 4096 \<le> a - a mod 4 - b" using d(1) by (rule zmod_le_nonneg_dividend)
  ultimately show ?thesis using d(2) by linarith
qed

lemma ep_net_mem:
  assumes "ep_handlers f" "tlp_check t"
  shows "fmt_type t = TLP_MEM_READ \<or> fmt_type t = TLP_MEM_READ_64 \<Longrightarrow>
      ep_net f t = bindE (handle_mem_read_tlp t f) (\<lambda>(f', out). Inr (out, f'))"
    and "fmt_type t = TLP_MEM_WRITE \<or> fmt_type t = TLP_MEM_WRITE_64 \<Longrightarrow>
      ep_net f t = bindE (handle_mem_write_tlp t f) (\<lambda>(f', out). Inr (out, f'))"
  using assms
  by (auto simp: ep_net_def ep_recv_def upstream_recv_def handle_tlp_def is_cpl_def ep_handlers_def ep_run_def)

lemma ep_serves_mem: "ep_serves r b f \<Longrightarrow> ep_get r f = Some (ep_mem r f)"
  by (auto simp: ep_serves_def ep_mem_def)

text \<open>The handler of memory reads, for a request as the requester builds it.\<close>

lemma ep_read_split:
  assumes f: "ep_serves r b f" and a: "b \<le> a" "1 \<le> len" "a + len \<le> b + int (length (ep_mem r f))"
    "a mod 4096 + len \<le> 4096" and t_def: "t = (mem_read_req a len p)\<lparr>tlp_tag := tag\<rparr>"
  shows "\<exists>cs. handle_mem_read_tlp t f = Inr (f, cs) \<and>
    cpl_split a (slice (nat (a - b)) (nat (a - b + len)) (ep_mem r f)) cs \<and>
    (\<forall>c\<in>set cs. cpl_for t (get_id f) (nat (max_payload_size (dev_ctl (pcie f)))) c)"
proof -
  let ?m = "ep_mem r f" and ?A = "a - a mod 4" and ?mps = "nat (max_payload_size (dev_ctl (pcie f)))"
  let ?o = "?A - b"
  have srv: "4 dvd b" "4 dvd int (length ?m)" "4096 dvd b \<or> int (length ?m) \<le> 4096" "upstream_tx_set f"
    using f by (auto simp: ep_serves_def ep_handlers_def int_dvd_int_iff [of 4, simplified])
  note be = mem_read_req_be [OF a(2) t_def]
  note w = window_dwords [OF srv(1,2) a(1-3) be(2)]
  have match: "match_bar f ?A False = Inr [(r, ?o)]"
    using f w(1,3) by (simp add: ep_serves_def)
  have "0 \<le> ?o + tlp_length t * 4" using w(1,5) a(2) pos_mod_sign [of 4 a] by linarith
  then have rd: "read_region f r ?o (tlp_length t * 4) = Inr (slice (nat ?o) (nat (?o + tlp_length t * 4)) ?m)"
    using w(1) by (subst read_region_mem [OF ep_serves_mem [OF f]], subst py_slice_nat) auto
  have "\<forall>c. cpl_for t (get_id f) ?mps c \<longrightarrow> send_check f c = Inr ()"
    using srv(4) by (simp add: cpl_for_def send_check_ok)
  from read_window [OF srv(1,2) a(1-3) t_def this]
  show ?thesis
    using match rd window_page [OF srv(1-3) a be(2)] be(1) by (elim exE) (simp add: handle_mem_read_tlp_def)
qed

lemma ep_write_splice:
  assumes f: "ep_serves r b f" and a: "b \<le> a" "bs \<noteq> []" "a + int (length bs) \<le> b + int (length (ep_mem r f))"
    "a mod 4096 + int (length bs) \<le> 4096" and t: "mem_write_req a bs p = Inr t"
  shows "tlp_check t \<and> (fmt_type t = TLP_MEM_WRITE \<or> fmt_type t = TLP_MEM_WRITE_64) \<and>
    handle_mem_write_tlp t f
      = Inr (ep_put r (splice (nat (a - b)) (nat (a - b) + length bs) bs (ep_mem r f)) f, [])"
proof -
  let ?m = "ep_mem r f" and ?A = "a - a mod 4" and ?o = "a - a mod 4 - b"
  have srv: "4 dvd b" "4 dvd int (length ?m)" "4096 dvd b \<or> int (length ?m) \<le> 4096"
    using f by (auto simp: ep_serves_def int_dvd_int_iff [of 4, simplified])
  have len: "1 \<le> int (length bs)" using a(2) by (cases bs) simp_all
  obtain data where d: "tlp_check t" "fmt_type t = TLP_MEM_WRITE \<or> fmt_type t = TLP_MEM_WRITE_64"
    "tlp_address t = ?A" "0 < tlp_length t" "get_data t = Inr data"
    "tlp_length t * 4 = a mod 4 + int (length bs) + (3 - (a + int (length bs) - 1) mod 4)"
    "be_multi (\<lambda>so off. write_region r (int (nat ?o + so)) (slice so off data)) t f
       = Inr (ep_put r (splice (nat (a - b)) (nat (a - b) + length bs) bs ?m) f)"
    by (rule ep_store.write_window [OF ep_serves_mem [OF f] srv(1,2) a t])
  note w = window_dwords [OF srv(1,2) a(1) len a(3) d(6)]
  have "match_bar f ?A False = Inr [(r, ?o)]" using f w(1,3) by (simp add: ep_serves_def)
  then show ?thesis
    using d w(1) window_page [OF srv a(1) len a(3,4) d(6)] by (simp add: handle_mem_write_tlp_def)
qed

lemma ep_serves_put:
  assumes "ep_serves r b f" "length m = length (ep_mem r f)"
  shows "ep_serves r b (ep_put r m f) \<and> ep_mem r (ep_put r m f) = m"
proof -
  have get: "ep_get r (ep_put r m f) = Some m"
    using ep_store.get_put [OF ep_serves_mem [OF assms(1)] assms(2)] .
  have "match_bar (ep_put r m f) = match_bar f" "ep_handlers (ep_put r m f) = ep_handlers f"
    by (simp_all add: match_bar_def ep_put_def fun_eq_iff ep_handlers_def)
  then show ?thesis
    using assms by (simp add: ep_serves_def ep_mem_Some [OF get] get)
qed

interpretation ep_target: mem_target "ep_net :: 'a mem_endpoint_scheme net" "ep_serves r b" "\<lambda>_. b" "ep_mem r"
  for r b
proof
  fix f :: "'a mem_endpoint_scheme" and a len tag :: int and p t :: tlp and bs :: "byte list"
  assume f: "ep_serves r b f" and a: "b \<le> a"
  { assume l: "1 \<le> len" "a + len \<le> b + int (length (ep_mem r f))" "a mod 4096 + len \<le> 4096"
    let ?t = "(mem_read_req a len p)\<lparr>tlp_tag := tag\<rparr>"
    have "fmt_type ?t = TLP_MEM_READ \<or> fmt_type ?t = TLP_MEM_READ_64"
      using mem_read_req_fields(4) [of a len p] by (auto simp: fmt_type_def)
    then have "ep_net f ?t = bindE (handle_mem_read_tlp ?t f) (\<lambda>(f', out). Inr (out, f'))"
      using f by (intro ep_net_mem(1) mem_read_req_check [OF l(1,3)]) (simp add: ep_serves_def)
    then show "\<exists>cs. ep_net f ?t = Inr (cs, f) \<and>
        cpl_split a (slice (nat (a - b)) (nat (a - b + len)) (ep_mem r f)) cs \<and> (\<forall>c\<in>set cs. tlp_tag c = tag)"
      using ep_read_split [OF f a l refl, of tag p] by (auto simp: cpl_for_def) }
  assume l: "bs \<noteq> []" "a + int (length bs) \<le> b + int (length (ep_mem r f))"
    "a mod 4096 + int (length bs) \<le> 4096" "mem_write_req a bs p = Inr t"
  let ?m = "splice (nat (a - b)) (nat (a - b) + length bs) bs (ep_mem r f)"
  note w = ep_write_splice [OF f a l]
  have "nat (a - b) + length bs \<le> length (ep_mem r f)" using l(2) a by linarith
  then have len: "length ?m = length (ep_mem r f)" by (intro length_splice) simp_all
  then have "ep_serves r b (ep_put r ?m f)" "ep_mem r (ep_put r ?m f) = ?m"
    using ep_serves_put [OF f] by blast+
  moreover have "ep_net f t = Inr ([], ep_put r ?m f)"
    using w f ep_net_mem(2) [of f t] by (auto simp: ep_serves_def)
  ultimately show "\<exists>f'. ep_net f t = Inr ([], f') \<and> ep_serves r b f' \<and> b = b \<and> ep_mem r f' = ?m"
    by blast
qed

end
