(* ===== verification/Pcie_Bar.thy ===== *)
theory Pcie_Bar
  imports Pcie_Endpoint
begin

unbundle bit_operations_syntax

text \<open>
  Address decoding by the base address registers of \<open>lib/pcie/tb/pcie.py\<close> (\<open>Function.match_bar\<close>,
  \<open>Function.configure_bar\<close> and the register writes of \<open>Endpoint\<close>): an abstract description of the windows
  that registers decode, the refinement of \<open>match_bar\<close> to it, and the behaviour that enumeration relies on.
\<close>

section \<open>Address decoding\<close>

text \<open>What the base address registers mean: a register (or a pair of them) is unused or decodes a window
  of \<open>2 ^ k\<close> bytes from its base on, in the IO or in the memory space. All windows are smaller than 4 GiB:
  from there on the low mask of a 64-bit register is 0, and \<open>match_bar\<close> does not decode it.\<close>

datatype bar_spec =
    Bar_unused
  | Bar_io int nat
  | Bar_mem int nat bool
  | Bar_mem64 int nat bool

primrec bar_wf :: "bar_spec \<Rightarrow> bool" where
  "bar_wf Bar_unused = True"
| "bar_wf (Bar_io b k) = (2 \<le> k \<and> k < 32 \<and> 2 ^ k dvd b \<and> 0 \<le> b \<and> b < 2 ^ 32)"
| "bar_wf (Bar_mem b k pf) = (4 \<le> k \<and> k < 32 \<and> 2 ^ k dvd b \<and> 0 \<le> b \<and> b < 2 ^ 32)"
| "bar_wf (Bar_mem64 b k pf) = (4 \<le> k \<and> k < 32 \<and> 2 ^ k dvd b \<and> 0 \<le> b \<and> b < 2 ^ 64)"

primrec bar_regs :: "bar_spec \<Rightarrow> (int \<times> int) list" where
  "bar_regs Bar_unused = [(0, 0)]"
| "bar_regs (Bar_io b k) = [(b + 1, 0xfffffffc AND NOT (2 ^ k - 1))]"
| "bar_regs (Bar_mem b k pf) = [(b + (if pf then 8 else 0), 0xfffffff0 AND NOT (2 ^ k - 1))]"
| "bar_regs (Bar_mem64 b k pf) =
     [(b mod 2 ^ 32 + (if pf then 12 else 4), 0xfffffff0 AND NOT (2 ^ k - 1)),
      (b div 2 ^ 32, 0xffffffff AND drop_bit 32 (NOT (2 ^ k - 1)))]"

text \<open>A 32-bit register compares the low 32 address bits only.\<close>

primrec bar_hit :: "bar_spec \<Rightarrow> int \<Rightarrow> bool \<Rightarrow> int option" where
  "bar_hit Bar_unused a io = None"
| "bar_hit (Bar_io b k) a io = (if io \<and> b \<le> a mod 2 ^ 32 \<and> a mod 2 ^ 32 < b + 2 ^ k then Some (a - b) else None)"
| "bar_hit (Bar_mem b k pf) a io =
     (if \<not> io \<and> b \<le> a mod 2 ^ 32 \<and> a mod 2 ^ 32 < b + 2 ^ k then Some (a - b) else None)"
| "bar_hit (Bar_mem64 b k pf) a io =
     (if \<not> io \<and> b \<le> a mod 2 ^ 64 \<and> a mod 2 ^ 64 < b + 2 ^ k then Some (a - b) else None)"

fun bar_hits :: "nat \<Rightarrow> bar_spec list \<Rightarrow> int \<Rightarrow> bool \<Rightarrow> (nat \<times> int) list" where
  "bar_hits i [] a io = []"
| "bar_hits i (s # ss) a io =
     (case bar_hit s a io of None \<Rightarrow> [] | Some x \<Rightarrow> [(i, x)]) @ bar_hits (i + length (bar_regs s)) ss a io"

lemma and_window_mask:
  assumes "k \<le> w"
  shows "(x::int) AND ((2 ^ w - 1) AND NOT (2 ^ k - 1)) = x mod 2 ^ w - x mod 2 ^ k"
proof -
  have "x AND ((2 ^ w - 1) AND NOT (2 ^ k - 1)) = (x AND (2 ^ w - 1)) AND NOT (2 ^ k - 1)"
    by (simp only: and.assoc)
  also have "\<dots> = x mod 2 ^ w - x mod 2 ^ w mod 2 ^ k" by (simp only: and_mask_int and_not_mask_int)
  also have "x mod 2 ^ w mod 2 ^ k = x mod 2 ^ k" using assms by (simp add: mod_exp_eq)
  finally show ?thesis .
qed

lemma window_mod:
  assumes "2 ^ k dvd (b::int)" "0 \<le> b" "b < 2 ^ w" "k \<le> w" "0 \<le> f" "f < 2 ^ k"
  shows "(b + f) mod 2 ^ w - (b + f) mod 2 ^ k = b"
    and "x mod 2 ^ w - x mod 2 ^ k = b \<longleftrightarrow> b \<le> x mod 2 ^ w \<and> x mod 2 ^ w < b + 2 ^ k"
proof -
  have "2 ^ k dvd (2 ^ w :: int)" using assms(4) by (simp add: le_imp_power_dvd)
  then have d: "2 ^ k dvd 2 ^ w - b" using assms(1) by (simp add: dvd_diff)
  have "2 ^ k \<le> 2 ^ w - b" using zdvd_imp_le [OF d] assms(3) by simp
  then have "(b + f) mod 2 ^ w = b + f" using assms by simp
  moreover have "(b + f) mod 2 ^ k = f" using assms by (simp add: mod_add_left_eq [symmetric] dvd_imp_mod_0)
  ultimately show "(b + f) mod 2 ^ w - (b + f) mod 2 ^ k = b" by simp
  have m: "x mod 2 ^ k = x mod 2 ^ w mod 2 ^ k" using assms(4) by (simp add: mod_exp_eq)
  define y where "y = x mod 2 ^ w"
  obtain c where c: "b = 2 ^ k * c" using assms(1) by (auto simp: dvd_def)
  have y: "y = 2 ^ k * (y div 2 ^ k) + y mod 2 ^ k" "0 \<le> y mod 2 ^ k" "y mod 2 ^ k < 2 ^ k" by simp_all
  have "y - y mod 2 ^ k = b \<longleftrightarrow> b \<le> y \<and> y < b + 2 ^ k"
  proof
    assume "y - y mod 2 ^ k = b" then show "b \<le> y \<and> y < b + 2 ^ k" using y by linarith
  next
    assume h: "b \<le> y \<and> y < b + 2 ^ k"
    define r where "r = y - b"
    have "y = r + 2 ^ k * c" "0 \<le> r" "r < 2 ^ k" using h c by (simp_all add: r_def)
    then have "y mod 2 ^ k = r" by (simp add: mod_pos_pos_trivial)
    then show "y - y mod 2 ^ k = b" by (simp add: r_def)
  qed
  then show "x mod 2 ^ w - x mod 2 ^ k = b \<longleftrightarrow> b \<le> x mod 2 ^ w \<and> x mod 2 ^ w < b + 2 ^ k"
    unfolding m y_def .
qed

lemma window_mask:
  assumes "k \<le> w"
  shows "(2 ^ w - 1) AND NOT (2 ^ k - 1 :: int) = 2 ^ w - 2 ^ k"
proof -
  have "(2 ^ w - 1) AND NOT (2 ^ k - 1 :: int) = (2 ^ w - 1) - (2 ^ w - 1) mod 2 ^ k" by (rule and_not_mask_int)
  moreover have "(2 ^ w - 1 :: int) mod 2 ^ k = 2 ^ k - 1"
    using assms take_bit_of_mask [of k w, where ?'a = int]
    by (simp add: take_bit_eq_mod mask_eq_exp_minus_1 min_absorb1)
  ultimately show ?thesis by simp
qed

lemma bar_masks:
  assumes "k < 32"
  shows "2 \<le> k \<Longrightarrow> 0xfffffffc AND NOT (2 ^ k - 1) = (2 ^ 32 - 1) AND NOT (2 ^ k - 1 :: int)"
    and "4 \<le> k \<Longrightarrow> 0xfffffff0 AND NOT (2 ^ k - 1) = (2 ^ 32 - 1) AND NOT (2 ^ k - 1 :: int)"
proof -
  have c: "(0xfffffffc::int) = (2 ^ 32 - 1) AND NOT (2 ^ 2 - 1)" "(0xfffffff0::int) = (2 ^ 32 - 1) AND NOT (2 ^ 4 - 1)"
    by simp_all
  have n: "NOT (2 ^ j - 1) AND NOT (2 ^ k - 1) = NOT (2 ^ k - 1 :: int)" if "j \<le> k" for j
    using that by (intro bit_eqI) (auto simp: bit_simps mask_eq_exp_minus_1 [symmetric])
  show "2 \<le> k \<Longrightarrow> 0xfffffffc AND NOT (2 ^ k - 1) = (2 ^ 32 - 1) AND NOT (2 ^ k - 1 :: int)"
    unfolding c(1) and.assoc using n [of 2] by simp
  show "4 \<le> k \<Longrightarrow> 0xfffffff0 AND NOT (2 ^ k - 1) = (2 ^ 32 - 1) AND NOT (2 ^ k - 1 :: int)"
    unfolding c(2) and.assoc using n [of 4] by simp
qed

text \<open>The comparison of one window: the address matches exactly when it lies in the window, and the
  remaining bits are the offset.\<close>

lemma window_match:
  assumes "2 ^ k dvd (b::int)" "0 \<le> b" "b < 2 ^ w" "k \<le> w" "0 \<le> f" "f < 2 ^ k"
    and m: "m = (2 ^ w - 1) AND NOT (2 ^ k - 1)"
  shows "a AND m = (b + f) AND m \<longleftrightarrow> b \<le> a mod 2 ^ w \<and> a mod 2 ^ w < b + 2 ^ k"
    and "a AND m = (b + f) AND m \<Longrightarrow> a AND NOT m = a - b"
proof -
  note w = window_mod [OF assms(1-6)] and e = and_window_mask [OF assms(4)]
  show eq: "a AND m = (b + f) AND m \<longleftrightarrow> b \<le> a mod 2 ^ w \<and> a mod 2 ^ w < b + 2 ^ k"
    unfolding m e w(1) by (rule w(2))
  assume "a AND m = (b + f) AND m"
  then have "a AND m = b" unfolding m e w(1) .
  then show "a AND NOT m = a - b" using and_add_and_not [of a m] by simp
qed

lemma dvd_16: "4 \<le> k \<Longrightarrow> 2 ^ k dvd (b::int) \<Longrightarrow> \<exists>c. b = 16 * c"
  using dvd_trans [of "2 ^ 4" "2 ^ k" b] le_imp_power_dvd [of 4 k "2::int"] by (simp add: dvd_def)

lemma mod_32_dvd_16: "4 \<le> k \<Longrightarrow> 2 ^ k dvd (b::int) \<Longrightarrow> \<exists>d. b mod 2 ^ 32 = 16 * d"
proof -
  assume "4 \<le> k" "2 ^ k dvd b"
  then obtain c where "b = 16 * c" using dvd_16 by blast
  then have "b mod 2 ^ 32 = 16 * (c mod 2 ^ 28)" using mult_mod_right [of 16 c "2 ^ 28"] by simp
  then show ?thesis by blast
qed

lemma and_4_eq_0: "(v::int) AND 4 = 0 \<longleftrightarrow> even (v div 4)"
  using and_exp_eq_0_iff_not_bit [of v 2] by (simp add: bit_iff_odd)

lemma bar_mem_flags:
  assumes "4 \<le> k" "2 ^ k dvd (b::int)"
  shows "(b + (if pf then 8 else 0)) mod 2 = 0" "(b + (if pf then 8 else 0)) AND 4 = 0"
    "(b mod 2 ^ 32 + (if pf then 12 else 4)) mod 2 = 0" "(b mod 2 ^ 32 + (if pf then 12 else 4)) AND 4 \<noteq> 0"
proof -
  obtain c where c: "b = 16 * c" using dvd_16 [OF assms] by blast
  show "(b + (if pf then 8 else 0)) mod 2 = 0" "(b + (if pf then 8 else 0)) AND 4 = 0"
    unfolding c and_4_eq_0 by (cases pf; simp; presburger)+
  obtain d where d: "b mod 2 ^ 32 = 16 * d" using mod_32_dvd_16 [OF assms] by blast
  show "(b mod 2 ^ 32 + (if pf then 12 else 4)) mod 2 = 0" "(b mod 2 ^ 32 + (if pf then 12 else 4)) AND 4 \<noteq> 0"
    unfolding d and_4_eq_0 by (cases pf; simp; presburger)+
qed

lemma bar_mask64:
  assumes "k < 32" "4 \<le> k"
  shows "(0xfffffff0 AND NOT (2 ^ k - 1)) OR push_bit 32 (0xffffffff AND drop_bit 32 (NOT (2 ^ k - 1)))
    = (2 ^ 64 - 1) AND NOT (2 ^ k - 1 :: int)"
proof -
  have "drop_bit 32 (NOT (2 ^ k - 1)) = (- 1 :: int)"
    using assms by (intro bit_eqI) (auto simp: bit_simps mask_eq_exp_minus_1 [symmetric])
  then have hi: "0xffffffff AND drop_bit 32 (NOT (2 ^ k - 1)) = (0xffffffff :: int)" by simp
  have lo: "0xfffffff0 AND NOT (2 ^ k - 1) = (2 ^ 32 - 2 ^ k :: int)"
    unfolding bar_masks(2) [OF assms] by (rule window_mask) (use assms in simp)
  have "(2::int) ^ k \<le> 2 ^ 32" using assms by (intro power_increasing) simp_all
  then have "(2 ^ 32 - 2 ^ k) OR push_bit 32 0xffffffff = (2 ^ 32 - 2 ^ k :: int) + 0xffffffff * 2 ^ 32"
    by (intro or_push_bit_eq_add) simp_all
  then show ?thesis unfolding hi lo using window_mask [of k 64] assms by simp
qed

lemma window_nz: "k < w \<Longrightarrow> (2 ^ w - 1) AND NOT (2 ^ k - 1) \<noteq> (0::int)"
  using power_strict_increasing [of k w "2::int"] by (simp add: window_mask)

lemma bar64_low:
  assumes "4 \<le> k" "2 ^ k dvd (b::int)"
  shows "0 \<le> b mod 2 ^ 32 + (if pf then 12 else 4)" "b mod 2 ^ 32 + (if pf then 12 else 4) < 2 ^ 32"
proof -
  obtain d where d: "b mod 2 ^ 32 = 16 * d" using mod_32_dvd_16 [OF assms] by blast
  have "b mod 2 ^ 32 < 2 ^ 32" "0 \<le> b mod 2 ^ 32" by simp_all
  then show "0 \<le> b mod 2 ^ 32 + (if pf then 12 else 4)" "b mod 2 ^ 32 + (if pf then 12 else 4) < 2 ^ 32"
    unfolding d by auto
qed

lemma match_bar_mem64:
  assumes "bar_wf (Bar_mem64 b k pf)"
  shows "match_bar_loop a io i (bar_regs (Bar_mem64 b k pf) @ bs) =
    bindE (match_bar_loop a io (i + length (bar_regs (Bar_mem64 b k pf))) bs) (\<lambda>ms.
      Inr ((case bar_hit (Bar_mem64 b k pf) a io of None \<Rightarrow> [] | Some x \<Rightarrow> [(i, x)]) @ ms))"
proof -
  have wf: "4 \<le> k" "k < 32" "2 ^ k dvd b" "0 \<le> b" "b < 2 ^ 64" using assms by simp_all
  let ?f = "if pf then 12 else 4 :: int" and ?m = "(2 ^ 64 - 1) AND NOT (2 ^ k - 1 :: int)"
  have "2 ^ 4 \<le> (2 ^ k :: int)" using wf(1) by (intro power_increasing) simp_all
  then have f: "0 \<le> ?f" "?f < 2 ^ k" by (auto split: if_splits)
  note w = window_match [OF wf(3-5) _ f refl, of a]
  have nz: "0xfffffff0 AND NOT (2 ^ k - 1) \<noteq> (0::int)"
    unfolding bar_masks(2) [OF wf(2,1)] using window_nz [of k 32] wf(2) by simp
  have lo: "0 \<le> b mod 2 ^ 32 + ?f" "b mod 2 ^ 32 + ?f < 2 ^ 32" using bar64_low [OF wf(1,3), of pf] by simp_all
  have "(b mod 2 ^ 32 + ?f) OR push_bit 32 (b div 2 ^ 32) = b mod 2 ^ 32 + ?f + b div 2 ^ 32 * 2 ^ 32"
    by (rule or_push_bit_eq_add [OF lo])
  also have "\<dots> = b + ?f" using mod_mult_div_eq [of b "2 ^ 32"] by simp
  finally have v: "(b mod 2 ^ 32 + ?f) OR push_bit 32 (b div 2 ^ 32) = b + ?f" .
  have "match_bar_loop a io i (bar_regs (Bar_mem64 b k pf) @ bs) =
      bindE (match_bar_loop a io (i + 2) bs) (\<lambda>ms.
        Inr (if \<not> io \<and> a AND ?m = (b + ?f) AND ?m then (i, a AND NOT ?m) # ms else ms))"
    using nz bar_mem_flags(3,4) [OF wf(1,3), of pf]
    by (simp only: bar_regs.simps append_Cons append_Nil match_bar_loop.simps list.case prod.case Let_def
        v bar_mask64 [OF wf(2,1)] and_low_masks if_False not_False_eq_True simp_thms if_True bar_spec.simps)
  then show ?thesis using w wf(2) by (auto cong: bindE_cong)
qed

lemma match_bar_step:
  assumes "bar_wf s"
  shows "match_bar_loop a io i (bar_regs s @ bs) =
    bindE (match_bar_loop a io (i + length (bar_regs s)) bs) (\<lambda>ms.
      Inr ((case bar_hit s a io of None \<Rightarrow> [] | Some x \<Rightarrow> [(i, x)]) @ ms))"
proof (cases s)
  case Bar_unused
  then show ?thesis by (simp, cases "match_bar_loop a io (Suc i) bs") auto
next
  case (Bar_io b k)
  then have wf: "2 \<le> k" "k < 32" "2 ^ k dvd b" "0 \<le> b" "b < 2 ^ 32" using assms by simp_all
  have f: "(1::int) < 2 ^ k" using wf(1) by (simp add: one_less_power)
  note w = window_match [OF wf(3-5) _ _ f bar_masks(1) [OF wf(2,1)], of a]
  have nz: "0xfffffffc AND NOT (2 ^ k - 1) \<noteq> (0::int)"
    unfolding bar_masks(1) [OF wf(2,1)] using window_nz [of k 32] wf(2) by simp
  have "even b" using wf(1,3) dvd_trans [of 2 "2 ^ k" b] by simp
  then show ?thesis using w nz wf(2) Bar_io by (auto cong: bindE_cong simp: odd_iff_mod_2_eq_one)
next
  case (Bar_mem b k pf)
  then have wf: "4 \<le> k" "k < 32" "2 ^ k dvd b" "0 \<le> b" "b < 2 ^ 32" using assms by simp_all
  let ?f = "if pf then 8 else 0 :: int"
  have "2 ^ 4 \<le> (2 ^ k :: int)" using wf(1) by (intro power_increasing) simp_all
  then have f: "0 \<le> ?f" "?f < 2 ^ k" by (auto split: if_splits)
  note w = window_match [OF wf(3-5) _ f bar_masks(2) [OF wf(2,1)], of a]
  have nz: "0xfffffff0 AND NOT (2 ^ k - 1) \<noteq> (0::int)"
    unfolding bar_masks(2) [OF wf(2,1)] using window_nz [of k 32] wf(2) by simp
  show ?thesis
    using w nz wf(2) bar_mem_flags(1,2) [OF wf(1,3), of pf] Bar_mem by (auto cong: bindE_cong)
next
  case Bar_mem64
  then show ?thesis using match_bar_mem64 assms by simp
qed

lemma match_bar_hits:
  "list_all bar_wf ss \<Longrightarrow> match_bar_loop a io i (concat (map bar_regs ss)) = Inr (bar_hits i ss a io)"
  by (induction ss arbitrary: i) (simp_all add: match_bar_step)



lemma byte_mask_update_word:
  assumes "0 \<le> old" "old < 2 ^ 32" "0 \<le> new" "new < 2 ^ 32"
  shows "byte_mask_update old 15 new bm = (new AND bm) OR (old AND NOT bm)"
proof (rule bit_eqI)
  fix i
  have "32 \<le> i \<Longrightarrow> \<not> bit old i \<and> \<not> bit new i" using assms bit_high_zero by blast
  then show "bit (byte_mask_update old 15 new bm) i \<longleftrightarrow> bit ((new AND bm) OR (old AND NOT bm)) i"
    by (cases "i < 32") (auto simp: bit_byte_mask_update bit_15 bit_simps)
qed

lemma write_bar_move:
  assumes "bar_wf (Bar_mem b k pf)" "0 \<le> d" "d < 2 ^ 32"
  shows "byte_mask_update (b + (if pf then 8 else 0)) 15 d (0xfffffff0 AND NOT (2 ^ k - 1)) = d - d mod 2 ^ k + (if pf then 8 else 0)"
proof -
  let ?v = "if pf then 8 else 0 :: int" and ?m = "0xfffffff0 AND NOT (2 ^ k - 1) :: int"
  have wf: "4 \<le> k" "k < 32" "2 ^ k dvd b" "0 \<le> b" "b < 2 ^ 32" using assms(1) by simp_all
  have "2 ^ 4 \<le> (2 ^ k :: int)" using wf(1) by (intro power_increasing) simp_all
  then have v: "0 \<le> ?v" "?v < 2 ^ k" by (auto split: if_splits)
  note m = bar_masks(2) [OF wf(2,1)]
  have old: "(b + ?v) AND NOT ?m = ?v" using window_match(2) [OF wf(3-5) _ v m, of "b + ?v"] wf(2) by simp
  obtain c where c: "b = 16 * c" using dvd_16 [OF wf(1,3)] by blast
  have "0 \<le> b + ?v" "b + ?v < 2 ^ 32" using wf(4,5) unfolding c by auto
  then have "byte_mask_update (b + ?v) 15 d ?m = (d AND ?m) OR ?v"
    using assms(2,3) by (simp only: byte_mask_update_word old)
  also have "d AND ?m = d - d mod 2 ^ k" unfolding m using and_window_mask [of k 32 d] wf(2) assms(2,3) by simp
  also obtain e where e: "d - d mod 2 ^ k = push_bit k e" by (metis push_bit_eq_mult minus_mod_eq_div_mult)
  then have "(d - d mod 2 ^ k) OR ?v = ?v + e * 2 ^ k" using or_push_bit_eq_add [OF v, of e] by (simp only: or.commute)
  finally show ?thesis using e by (simp add: push_bit_eq_mult)
qed

lemma bar_wf_move:
  assumes "bar_wf (Bar_mem b k pf)" "0 \<le> d" "d < 2 ^ 32"
  shows "bar_wf (Bar_mem (d - d mod 2 ^ k) k pf)"
proof -
  have "0 \<le> d mod 2 ^ k" "d mod 2 ^ k \<le> d" using assms(2) by (simp_all add: zmod_le_nonneg_dividend)
  then have "0 \<le> d - d mod 2 ^ k" "d - d mod 2 ^ k < 2 ^ 32" using assms(3) by linarith+
  then show ?thesis using assms(1) by (simp add: dvd_minus_mod)
qed

text \<open>
  C32. Writing a 32-bit memory base address register moves its window: after a write of any value with all byte
  enables to the configuration register of the endpoint, the register reads back the address bits of the
  value above the window size with the read-only flags, and \<open>match_bar\<close> decodes the window at the new base
  and every other window as before.
\<close>

theorem bar_write_window:
  assumes "zip (bar f) (bar_mask f) = concat (map bar_regs (ss @ Bar_mem b k pf # ts))"
    and wf: "list_all bar_wf (ss @ Bar_mem b k pf # ts)" and "length (bar f) = 6" "length (bar_mask f) = 6"
    and d: "0 \<le> d" "d < 2 ^ 32" and i: "i = length (concat (map bar_regs ss))"
  shows "\<exists>f'. ep_write_config_register (4 + int i) d 15 f = Inr f' \<and>
     ep_read_config_register f' (4 + int i) = Inr (Some (d - d mod 2 ^ k + (if pf then 8 else 0))) \<and>
     (\<forall>a io. match_bar f' a io = Inr (bar_hits 0 (ss @ Bar_mem (d - d mod 2 ^ k) k pf # ts) a io))"
proof -
  let ?v = "if pf then 8 else 0 :: int" and ?m = "0xfffffff0 AND NOT (2 ^ k - 1) :: int"
  let ?f = "f\<lparr>bar := (bar f)[i := d - d mod 2 ^ k + ?v]\<rparr>"
  have "length (zip (bar f) (bar_mask f)) = 6" using assms(3,4) by simp
  then have len: "i < 6" unfolding assms(1) i by simp
  have "zip (bar f) (bar_mask f) ! i = (b + ?v, ?m)" unfolding assms(1) i by (simp add: nth_append)
  then have nth: "bar f ! i = b + ?v" "bar_mask f ! i = ?m" using len assms(3,4) by simp_all
  have w: "bar_wf (Bar_mem b k pf)" using wf by simp
  have wr: "ep_write_config_register (4 + int i) d 15 f = Inr ?f"
    using len assms(3,4) write_bar_move [OF w d] by (simp add: ep_write_config_register_def write_bar_def nth_res_def nth)
  have rd: "ep_read_config_register ?f (4 + int i) = Inr (Some (d - d mod 2 ^ k + ?v))"
    using len assms(3) by (simp add: ep_read_config_register_def nth_res_def)
  have "zip (bar ?f) (bar_mask ?f) = (zip (bar f) (bar_mask f))[i := (d - d mod 2 ^ k + ?v, ?m)]"
    using len assms(3,4) nth(2) by (simp add: update_zip flip: nth(2))
  also have "\<dots> = concat (map bar_regs (ss @ Bar_mem (d - d mod 2 ^ k) k pf # ts))"
    unfolding assms(1) i by (simp add: list_update_append)
  finally have z: "zip (bar ?f) (bar_mask ?f) = concat (map bar_regs (ss @ Bar_mem (d - d mod 2 ^ k) k pf # ts))" .
  have "list_all bar_wf (ss @ Bar_mem (d - d mod 2 ^ k) k pf # ts)" using wf bar_wf_move [OF w d] by simp
  then have "match_bar ?f a io = Inr (bar_hits 0 (ss @ Bar_mem (d - d mod 2 ^ k) k pf # ts) a io)" for a io
    unfolding match_bar_def z by (rule match_bar_hits)
  then show ?thesis using wr rd by blast
qed

theorem bar_write_window_witness:
  "\<exists>f'. ep_write_config_register 4 0x2008 15 ep_example = Inr f' \<and> ep_read_config_register f' 4 = Inr (Some 0x2000) \<and>
     match_bar f' 0x200c False = Inr [(0, 12)] \<and> match_bar f' 0x100c False = Inr []"
proof -
  let ?u = "[Bar_unused, Bar_unused, Bar_unused, Bar_unused, Bar_unused]"
  have "zip (bar ep_example) (bar_mask ep_example) = concat (map bar_regs ([] @ Bar_mem 0x1000 4 False # ?u))"
    "list_all bar_wf ([] @ Bar_mem 0x1000 4 False # ?u)"
    by (simp_all add: ep_example_sel)
  from bar_write_window [OF this, of "0x2008" 0] show ?thesis by (auto simp: ep_example_sel)
qed




lemma ep_example_serves: "ep_serves 0 0x1000 ep_example"
proof -
  let ?s = "[Bar_mem 0x1000 4 False, Bar_unused, Bar_unused, Bar_unused, Bar_unused, Bar_unused]"
  have z: "zip (bar ep_example) (bar_mask ep_example) = concat (map bar_regs ?s)" and wf: "list_all bar_wf ?s"
    by (simp_all add: ep_example_sel)
  have "match_bar ep_example a False = Inr (bar_hits 0 ?s a False)" for a
    unfolding match_bar_def z match_bar_hits [OF wf] ..
  then show ?thesis
    using ep_example_sel by (simp add: ep_serves_def ep_mem_def)
qed

end
