(* ===== verification/Pcie_Bridge.thy ===== *)
theory Pcie_Bridge
  imports Pcie_Bar
begin

unbundle bit_operations_syntax

text \<open>
  The bridges of \<open>lib/pcie/tb/pcie.py\<close>: \<open>Bridge\<close> (the type 1 configuration space and the routing of
  packets between its two ports), \<open>SwitchUpstreamPort\<close> (which routes to the bridges on its internal bus),
  \<open>SwitchDownstreamPort\<close>, \<open>HostBridge\<close> and \<open>RootPort\<close>.

  A receive method returns the new bridge and the packets it emits, each with the side it leaves on.
  The decision where a packet goes is separate from carrying it out. A bridge answers a
  configuration request with a completion that it sends upstream.
\<close>

section \<open>State\<close>

record bridge = func +
  pri_bus_num :: int
  sec_bus_num :: int
  sub_bus_num :: int
  sec_lat_timer :: int
  io_base :: int
  io_limit :: int
  sec_status :: int
  mem_base :: int
  mem_limit :: int
  prefetchable_mem_base :: int
  prefetchable_mem_limit :: int
  bridge_control :: int
  is_root :: bool
  downstream_tx_set :: bool

definition Bridge :: "bridge res" where
  "Bridge = bindE Function (\<lambda>f.
     Inr (func.extend
       (set_device_type 6 (f\<lparr>header_type := 1, bar := replicate 2 0, bar_mask := replicate 2 0,
          upstream_tx_set := True\<rparr>))
       (bridge.fields 0 0 0 0 0x0000 0x0fff 0 0x00000000 0x000fffff 0x00000000 0x000fffff 0 False True)))"

definition SwitchUpstreamPort :: "bridge res" where
  "SwitchUpstreamPort = bindE Bridge (\<lambda>b.
     Inr (set_device_type 5 (b\<lparr>downstream_tx_set := False, vendor_id := 0x1234, device_id := 0x0003\<rparr>)))"

definition SwitchDownstreamPort :: "bridge res" where
  "SwitchDownstreamPort = bindE Bridge (\<lambda>b.
     Inr (set_device_type 6 (b\<lparr>vendor_id := 0x1234, device_id := 0x0004\<rparr>)))"

definition HostBridge :: "bridge res" where
  "HostBridge = bindE SwitchUpstreamPort (\<lambda>b.
     Inr (b\<lparr>vendor_id := 0x1234, device_id := 0x0001, pri_bus_num := 0, sec_bus_num := 0, sub_bus_num := 255\<rparr>))"

definition RootPort :: "bridge res" where
  "RootPort = bindE SwitchDownstreamPort (\<lambda>b.
     Inr (set_device_type 4 (b\<lparr>vendor_id := 0x1234, device_id := 0x0002\<rparr>)))"

section \<open>Configuration space\<close>

definition br_read_config_register :: "'a bridge_scheme \<Rightarrow> int \<Rightarrow> int option res" where
  "br_read_config_register b reg =
     (if reg = 4 then bindE (nth_res (bar b) 0) (\<lambda>v. Inr (Some v))
      else if reg = 5 then bindE (nth_res (bar b) 1) (\<lambda>v. Inr (Some v))
      else if reg = 6 then Inr (Some (push_bit 24 (sec_lat_timer b) OR push_bit 16 (sub_bus_num b) OR
             push_bit 8 (sec_bus_num b) OR pri_bus_num b))
      else if reg = 7 then Inr (Some (push_bit 16 (sec_status b) OR (io_limit b AND 0xf000) OR
             drop_bit 8 (io_base b AND 0xf000)))
      else if reg = 8 then Inr (Some ((mem_limit b AND 0xfff00000) OR drop_bit 16 (mem_base b AND 0xfff00000)))
      else if reg = 9 then Inr (Some ((prefetchable_mem_limit b AND 0xfff00000) OR
             drop_bit 16 (prefetchable_mem_base b AND 0xfff00000)))
      else if reg = 10 then Inr (Some (drop_bit 32 (prefetchable_mem_base b)))
      else if reg = 11 then Inr (Some (drop_bit 32 (prefetchable_mem_limit b)))
      else if reg = 12 then Inr (Some ((io_limit b AND 0xffff0000) OR drop_bit 16 (io_base b AND 0xffff0000)))
      else if reg = 13 then Inr (Some (cap_ptr b))
      else if reg = 14 then Inr (Some (expansion_rom_addr b))
      else if reg = 15 then Inr (Some (push_bit 16 (bridge_control b) OR push_bit 8 (intr_pin b) OR intr_line b))
      else read_config_register b reg)"

text \<open>The last assignment of register 15 reads the attribute \<open>min_gnt\<close>, which no class defines.\<close>

definition br_write_config_register ::
  "int \<Rightarrow> int \<Rightarrow> int \<Rightarrow> 'a bridge_scheme \<Rightarrow> 'a bridge_scheme res" where
  "br_write_config_register reg data msk b =
     (if reg = 4 then bindE (write_bar 0 data msk b) (write_config_register reg data msk)
      else if reg = 5 then write_bar 1 data msk b
      else if reg = 6 then
        Inr (b\<lparr>pri_bus_num := byte_mask_update (pri_bus_num b) (msk AND 0x1) data (-1),
               sec_bus_num := byte_mask_update (sec_bus_num b) (drop_bit 1 msk AND 1) (drop_bit 8 data) (-1),
               sub_bus_num := byte_mask_update (sub_bus_num b) (drop_bit 2 msk AND 1) (drop_bit 16 data) (-1),
               sec_lat_timer := byte_mask_update (sec_lat_timer b) (drop_bit 3 msk AND 1) (drop_bit 24 data) (-1)\<rparr>)
      else if reg = 7 then
        Inr (b\<lparr>io_base := byte_mask_update (io_base b) (push_bit 1 (msk AND 0x1)) (push_bit 8 data) 0xf000,
               io_limit := byte_mask_update (io_limit b) (msk AND 0x2) data 0xf000 OR 0xfff,
               sec_status := byte_mask_update (sec_status b) (drop_bit 2 msk AND 1) 0x0000
                               (drop_bit 16 data AND 0xf900)\<rparr>)
      else if reg = 8 then
        Inr (b\<lparr>mem_base := byte_mask_update (mem_base b) (push_bit 2 (msk AND 0x3)) (push_bit 16 data) 0xfff00000,
               mem_limit := byte_mask_update (mem_limit b) (msk AND 0xc) data 0xfff00000 OR 0xfffff\<rparr>)
      else if reg = 9 then
        Inr (b\<lparr>prefetchable_mem_base := byte_mask_update (prefetchable_mem_base b) (push_bit 2 (msk AND 0x3))
                 (push_bit 16 data) 0xfff00000,
               prefetchable_mem_limit := byte_mask_update (prefetchable_mem_limit b) (msk AND 0xc) data
                 0xfff00000 OR 0xfffff\<rparr>)
      else if reg = 10 then
        Inr (b\<lparr>prefetchable_mem_base := byte_mask_update (prefetchable_mem_base b) (push_bit 4 msk)
                 (push_bit 32 data) (-1)\<rparr>)
      else if reg = 11 then
        Inr (b\<lparr>prefetchable_mem_limit := byte_mask_update (prefetchable_mem_limit b) (push_bit 4 msk)
                 (push_bit 32 data) (-1)\<rparr>)
      else if reg = 12 then
        Inr (b\<lparr>io_base := byte_mask_update (io_base b) (push_bit 2 (msk AND 0x3)) (push_bit 16 data) (-1),
               io_limit := byte_mask_update (io_limit b) (msk AND 0xc) data (-1)\<rparr>)
      else if reg = 14 then
        Inr (b\<lparr>expansion_rom_addr := byte_mask_update (expansion_rom_addr b) msk data (-1)\<rparr>)
      else if reg = 15 then Inl AttributeError
      else write_config_register reg data msk b)"

section \<open>Routing decisions\<close>

datatype route =
    Route_me tlp
  | Route_down tlp
  | Route_up tlp
  | Route_drop

definition in_buses :: "'a bridge_scheme \<Rightarrow> int \<Rightarrow> bool" where
  "in_buses b bus \<longleftrightarrow> sec_bus_num b \<le> bus \<and> bus \<le> sub_bus_num b"

definition in_io_window :: "'a bridge_scheme \<Rightarrow> int \<Rightarrow> bool" where
  "in_io_window b a \<longleftrightarrow> io_base b \<le> a \<and> a \<le> io_limit b"

definition in_mem_window :: "'a bridge_scheme \<Rightarrow> int \<Rightarrow> bool" where
  "in_mem_window b a \<longleftrightarrow> mem_base b \<le> a \<and> a \<le> mem_limit b \<or>
     prefetchable_mem_base b \<le> a \<and> a \<le> prefetchable_mem_limit b"

abbreviation (input) is_msg_id :: "tlp \<Rightarrow> bool" where
  "is_msg_id t \<equiv> fmt_type t \<in> {TLP_MSG_ID, TLP_MSG_DATA_ID}"

text \<open>The memory requests the bridges know: the locked reads are not among them.\<close>

abbreviation (input) is_mem_rw :: "tlp \<Rightarrow> bool" where
  "is_mem_rw t \<equiv> fmt_type t \<in> {TLP_MEM_READ, TLP_MEM_READ_64, TLP_MEM_WRITE, TLP_MEM_WRITE_64}"

definition bus_local :: "tlp \<Rightarrow> tlp" where
  "bus_local t =
     (if fmt_type t = TLP_CFG_READ_1 then set_fmt_type TLP_CFG_READ_0 t
      else if fmt_type t = TLP_CFG_WRITE_1 then set_fmt_type TLP_CFG_WRITE_0 t else t)"

definition bar_route :: "'a bridge_scheme \<Rightarrow> int \<Rightarrow> bool \<Rightarrow> tlp \<Rightarrow> route \<Rightarrow> route res" where
  "bar_route b a io t other =
     bindE (match_bar b a io) (\<lambda>ms. Inr (if ms \<noteq> [] then Route_me t else other))"

definition upstream_route :: "'a bridge_scheme \<Rightarrow> tlp \<Rightarrow> route res" where
  "upstream_route b t =
     (if fmt_type t \<in> {TLP_CFG_READ_0, TLP_CFG_WRITE_0} then Inr (Route_me t)
      else if fmt_type t \<in> {TLP_CFG_READ_1, TLP_CFG_WRITE_1} then
        Inr (if in_buses b (pid_bus (tlp_dest_id t))
             then Route_down (if pid_bus (tlp_dest_id t) = sec_bus_num b then bus_local t else t)
             else Route_drop)
      else if is_cpl t then
        Inr (if \<not> is_root b \<and> tlp_requester_id t = get_id b then Route_me t
             else if in_buses b (pid_bus (tlp_requester_id t)) then Route_down t else Route_drop)
      else if is_msg_id t then
        Inr (if \<not> is_root b \<and> tlp_dest_id t = get_id b then Route_me t
             else if in_buses b (pid_bus (tlp_dest_id t)) then Route_down t else Route_drop)
      else if is_io t then
        bar_route b (tlp_address t) True t (if in_io_window b (tlp_address t) then Route_down t else Route_drop)
      else if is_mem_rw t then
        bar_route b (tlp_address t) False t (if in_mem_window b (tlp_address t) then Route_down t else Route_drop)
      else if fmt_type t \<in> {TLP_MSG_TO_RC, TLP_MSG_DATA_TO_RC} then Inr Route_drop
      else if fmt_type t \<in> {TLP_MSG_BCAST, TLP_MSG_DATA_BCAST} then Inr (Route_down t)
      else if fmt_type t \<in> {TLP_MSG_LOCAL, TLP_MSG_DATA_LOCAL, TLP_MSG_GATHER, TLP_MSG_DATA_GATHER}
        then Inr Route_drop
      else Inl (PyException ''Unknown/invalid packet type''))"

definition id_route :: "'a bridge_scheme \<Rightarrow> pcie_id \<Rightarrow> tlp \<Rightarrow> route" where
  "id_route b i t =
     (if \<not> is_root b \<and> i = get_id b then Route_me t
      else if in_buses b (pid_bus i) then
        (if is_root b \<and> pid_bus i = pri_bus_num b \<and> pid_device i = 0 then Route_up t else Route_down t)
      else Route_up t)"

definition downstream_route :: "'a bridge_scheme \<Rightarrow> tlp \<Rightarrow> route res" where
  "downstream_route b t =
     (if is_cfg t then Inr Route_drop
      else if is_cpl t then Inr (id_route b (tlp_requester_id t) t)
      else if is_msg_id t then Inr (id_route b (tlp_dest_id t) t)
      else if is_io t then
        bar_route b (tlp_address t) True t (if in_io_window b (tlp_address t) then Route_down t else Route_up t)
      else if is_mem_rw t then
        bar_route b (tlp_address t) False t (if in_mem_window b (tlp_address t) then Route_down t else Route_up t)
      else if fmt_type t \<in> {TLP_MSG_TO_RC, TLP_MSG_DATA_TO_RC} then Inr (Route_up t)
      else if fmt_type t \<in> {TLP_MSG_BCAST, TLP_MSG_DATA_BCAST, TLP_MSG_LOCAL, TLP_MSG_DATA_LOCAL}
        then Inr Route_drop
      else if fmt_type t \<in> {TLP_MSG_GATHER, TLP_MSG_DATA_GATHER} then Inl (PyException ''TODO'')
      else Inl (PyException ''Unknown/invalid packet type''))"

section \<open>Receiving packets\<close>

text \<open>Where an emitted packet leaves: on the upstream side, on the downstream port of a bridge, or on
  one of the ports of an internal bus.\<close>

datatype bridge_out = Out_up tlp | Out_down tlp | Out_port nat tlp

definition send_up :: "'a bridge_scheme \<Rightarrow> tlp \<Rightarrow> bridge_out list res" where
  "send_up b t = bindE (upstream_send b t) (\<lambda>ts. Inr (map Out_up ts))"

text \<open>\<open>Bridge.downstream_send\<close>, which is also its \<open>route_downstream_tlp\<close>.\<close>

definition downstream_send :: "bool \<Rightarrow> tlp \<Rightarrow> 'a bridge_scheme \<Rightarrow> bridge_out list res" where
  "downstream_send from_downstream t b =
     bindE (assertE (tlp_check t)) (\<lambda>_.
       if downstream_tx_set b then Inr [Out_down t] else Inl (PyException ''Transmit handler not set''))"

definition br_run :: "rx_handler \<Rightarrow> tlp \<Rightarrow> 'a bridge_scheme \<Rightarrow> ('a bridge_scheme \<times> tlp list) res" where
  "br_run h t b =
     (case h of
        Handle_config_0 \<Rightarrow>
          handle_config_0_tlp br_read_config_register br_write_config_register upstream_send t b
      | _ \<Rightarrow> Inl AttributeError)"

text \<open>\<open>dn\<close> is \<open>route_downstream_tlp\<close> of the class of the bridge.\<close>

definition carry_out ::
  "(bool \<Rightarrow> tlp \<Rightarrow> 'a bridge_scheme \<Rightarrow> bridge_out list res) \<Rightarrow> bool \<Rightarrow> 'a bridge_scheme \<Rightarrow> route \<Rightarrow>
   ('a bridge_scheme \<times> bridge_out list) res" where
  "carry_out dn from_downstream b r =
     (case r of
        Route_me t \<Rightarrow> bindE (handle_tlp br_run t b) (\<lambda>(b', cpls). Inr (b', map Out_up cpls))
      | Route_down t \<Rightarrow> bindE (dn from_downstream t b) (\<lambda>os. Inr (b, os))
      | Route_up t \<Rightarrow> bindE (send_up b t) (\<lambda>os. Inr (b, os))
      | Route_drop \<Rightarrow> Inr (b, []))"

definition br_upstream_recv ::
  "(bool \<Rightarrow> tlp \<Rightarrow> 'a bridge_scheme \<Rightarrow> bridge_out list res) \<Rightarrow> tlp \<Rightarrow> 'a bridge_scheme \<Rightarrow>
   ('a bridge_scheme \<times> bridge_out list) res" where
  "br_upstream_recv dn t b =
     bindE (assertE (tlp_check t)) (\<lambda>_. bindE (upstream_route b t) (carry_out dn False b))"

definition br_downstream_recv ::
  "(bool \<Rightarrow> tlp \<Rightarrow> 'a bridge_scheme \<Rightarrow> bridge_out list res) \<Rightarrow> tlp \<Rightarrow> 'a bridge_scheme \<Rightarrow>
   ('a bridge_scheme \<times> bridge_out list) res" where
  "br_downstream_recv dn t b =
     bindE (assertE (tlp_check t)) (\<lambda>_. bindE (downstream_route b t) (carry_out dn True b))"

text \<open>\<open>send\<close>: requests of the bridge itself are routed as if they came in from below.\<close>

definition br_send ::
  "(bool \<Rightarrow> tlp \<Rightarrow> 'a bridge_scheme \<Rightarrow> bridge_out list res) \<Rightarrow> tlp \<Rightarrow> 'a bridge_scheme \<Rightarrow>
   ('a bridge_scheme \<times> bridge_out list) res" where
  "br_send dn t b = br_downstream_recv dn t b"

section \<open>The internal bus of a switch\<close>

datatype bus_dev = Bus_bridge bridge | Bus_function func

definition dev_bridge :: "bus_dev \<Rightarrow> (bridge \<Rightarrow> bool) \<Rightarrow> bool" where
  "dev_bridge d p = (case d of Bus_bridge b \<Rightarrow> p b | Bus_function f \<Rightarrow> False)"

definition dev_func :: "bus_dev \<Rightarrow> func" where
  "dev_func d = (case d of Bus_bridge b \<Rightarrow> func.truncate b | Bus_function f \<Rightarrow> f)"

text \<open>Whether a device on the bus takes a packet. ID routed messages for buses behind a bridge are
  recognised by the requester, not by the destination.\<close>

definition dev_claims :: "tlp \<Rightarrow> bus_dev \<Rightarrow> bool res" where
  "dev_claims t d =
     (let f = dev_func d; a = tlp_address t
      in if fmt_type t \<in> {TLP_CFG_READ_0, TLP_CFG_WRITE_0} then
           Inr (pid_device (tlp_dest_id t) = device_num f \<and> pid_function (tlp_dest_id t) = function_num f)
         else if fmt_type t \<in> {TLP_CFG_READ_1, TLP_CFG_WRITE_1} then
           Inr (dev_bridge d (\<lambda>b. in_buses b (pid_bus (tlp_dest_id t))))
         else if is_cpl t then
           Inr (tlp_requester_id t = get_id f \<or> dev_bridge d (\<lambda>b. in_buses b (pid_bus (tlp_requester_id t))))
         else if is_msg_id t then
           Inr (tlp_dest_id t = get_id f \<or> dev_bridge d (\<lambda>b. in_buses b (pid_bus (tlp_requester_id t))))
         else if is_io t then
           bindE (match_bar f a True) (\<lambda>ms. Inr (ms \<noteq> [] \<or> dev_bridge d (\<lambda>b. in_io_window b a)))
         else if is_mem_rw t then
           bindE (match_bar f a False) (\<lambda>ms. Inr (ms \<noteq> [] \<or> dev_bridge d (\<lambda>b. in_mem_window b a)))
         else if fmt_type t \<in> {TLP_MSG_TO_RC, TLP_MSG_DATA_TO_RC, TLP_MSG_BCAST, TLP_MSG_DATA_BCAST,
             TLP_MSG_LOCAL, TLP_MSG_DATA_LOCAL, TLP_MSG_GATHER, TLP_MSG_DATA_GATHER} then
           Inr (fmt_type t \<in> {TLP_MSG_BCAST, TLP_MSG_DATA_BCAST})
         else Inl (PyException ''Unknown/invalid packet type''))"

fun bus_deliver :: "nat \<Rightarrow> bus_dev list \<Rightarrow> tlp \<Rightarrow> bridge_out list res" where
  "bus_deliver i [] t = Inr []"
| "bus_deliver i (d # ds) t =
     bindE (dev_claims t d) (\<lambda>c.
       if c then
         if fmt_type t \<in> {TLP_MSG_BCAST, TLP_MSG_DATA_BCAST}
         then bindE (bus_deliver (i + 1) ds t) (\<lambda>os. Inr (Out_port i (TLP_copy t) # os))
         else Inr [Out_port i (TLP_copy t)]
       else bus_deliver (i + 1) ds t)"

text \<open>\<open>SwitchUpstreamPort.route_downstream_tlp\<close>. The completion for a packet from below goes through the
  method once more; a second failure is reported upstream.\<close>

definition su_ur :: "'a bridge_scheme \<Rightarrow> tlp \<Rightarrow> tlp" where
  "su_ur b t = set_ur_completion t (PcieId (bus_num b) (device_num b) 0) TLP"

definition bus_route :: "bus_dev list \<Rightarrow> bool \<Rightarrow> tlp \<Rightarrow> 'a bridge_scheme \<Rightarrow> bridge_out list res" where
  "bus_route devs from_downstream t b =
     bindE (assertE (tlp_check t)) (\<lambda>_.
     bindE (bus_deliver 0 devs t) (\<lambda>os.
       if os \<noteq> [] then Inr os
       else if from_downstream then
         bindE (assertE (tlp_check (su_ur b t))) (\<lambda>_.
         bindE (bus_deliver 0 devs (su_ur b t)) (\<lambda>os'.
           if os' \<noteq> [] then Inr os' else send_up b (su_ur b (su_ur b t))))
       else send_up b (su_ur b t)))"

section \<open>Properties\<close>

text \<open>A root port with bus 1 behind it and a memory window of 1 MB.\<close>

definition br_example :: bridge where
  "br_example =
     (case RootPort of
        Inl _ \<Rightarrow> func.extend func_init (bridge.fields 0 0 0 0 0 0 0 0 0 0 0 0 False False)
      | Inr b \<Rightarrow> b\<lparr>device_num := 1, sec_bus_num := 1, sub_bus_num := 1, mem_base := 0x80000000,
                     mem_limit := 0x800fffff\<rparr>)"

lemma br_example_sel [simp]:
  "bar br_example = [0, 0]" "bar_mask br_example = [0, 0]" "upstream_tx_set br_example" "downstream_tx_set br_example"
  "bus_num br_example = 0" "device_num br_example = 1" "function_num br_example = 0" "\<not> is_root br_example"
  "pri_bus_num br_example = 0" "sec_bus_num br_example = 1" "sub_bus_num br_example = 1"
  "io_base br_example = 0" "io_limit br_example = 0xfff"
  "mem_base br_example = 0x80000000" "mem_limit br_example = 0x800fffff"
  "prefetchable_mem_base br_example = 0" "prefetchable_mem_limit br_example = 0xfffff"
proof -
  obtain g where g: "Function = Inr g" "g = func_init\<lparr>capabilities := capabilities g, cap_ptr := cap_ptr g\<rparr>"
    using Function_ok by blast
  have sel: "bus_num g = 0" "device_num g = 0" "function_num g = 0"
    by (subst g(2), simp add: func_init_def)+
  show "bar br_example = [0, 0]" "bar_mask br_example = [0, 0]" "upstream_tx_set br_example" "downstream_tx_set br_example"
    "bus_num br_example = 0" "device_num br_example = 1" "function_num br_example = 0" "\<not> is_root br_example"
    "pri_bus_num br_example = 0" "sec_bus_num br_example = 1" "sub_bus_num br_example = 1"
    "io_base br_example = 0" "io_limit br_example = 0xfff"
    "mem_base br_example = 0x80000000" "mem_limit br_example = 0x800fffff"
    "prefetchable_mem_base br_example = 0" "prefetchable_mem_limit br_example = 0xfffff"
    by (simp_all add: br_example_def RootPort_def SwitchDownstreamPort_def Bridge_def g(1) sel
        set_device_type_def func.defs bridge.defs numeral_eq_Suc)
qed

subsection \<open>Routing by address\<close>

definition no_bars :: "'a func_scheme \<Rightarrow> bool" where
  "no_bars f \<longleftrightarrow> (\<forall>m \<in> set (bar_mask f). m = 0)"

lemma match_bar_loop_unused: "\<forall>(v, m) \<in> set bs. m = 0 \<Longrightarrow> match_bar_loop a io i bs = Inr []"
  by (induction a io i bs rule: match_bar_loop.induct) auto

lemma match_bar_none: "no_bars f \<Longrightarrow> match_bar f a io = Inr []"
  unfolding match_bar_def no_bars_def by (rule match_bar_loop_unused) (auto dest: set_zip_rightD)

lemma mem_rw_not_other:
  assumes "fmt_type t \<in> {TLP_MEM_READ, TLP_MEM_READ_64, TLP_MEM_WRITE, TLP_MEM_WRITE_64}"
  shows "\<not> is_cpl t" "\<not> is_io t" "\<not> is_cfg t" "fmt_type t \<notin> {TLP_MSG_ID, TLP_MSG_DATA_ID}"
    "fmt_type t \<notin> {TLP_CFG_READ_0, TLP_CFG_WRITE_0}" "fmt_type t \<notin> {TLP_CFG_READ_1, TLP_CFG_WRITE_1}"
  using assms by (auto simp: is_cpl_def is_io_def is_cfg_def)

lemmas br_recv_defs = br_upstream_recv_def br_downstream_recv_def upstream_route_def downstream_route_def
  carry_out_def bar_route_def downstream_send_def send_up_def upstream_send_def

text \<open>
  Completions find their way back: a completion that reaches a bridge from below leaves upstream
  exactly when the requester's bus is not behind the bridge (or the bridge is the root and the requester
  is the root complex), and a completion from above for a bus behind the bridge leaves downstream.
\<close>

theorem bridge_cpl_routing:
  assumes "tlp_check t" and "is_cpl t" and "downstream_tx_set b" and "upstream_tx_set b"
    and "is_root b \<or> tlp_requester_id t \<noteq> get_id b"
  shows "br_downstream_recv downstream_send t b = Inr (b,
      [if in_buses b (pid_bus (tlp_requester_id t)) \<and>
          \<not> (is_root b \<and> pid_bus (tlp_requester_id t) = pri_bus_num b \<and> pid_device (tlp_requester_id t) = 0)
       then Out_down t else Out_up t]) \<and>
    br_upstream_recv downstream_send t b
      = Inr (b, if in_buses b (pid_bus (tlp_requester_id t)) then [Out_down t] else [])"
proof -
  have "\<not> is_cfg t" "fmt_type t \<notin> {TLP_CFG_READ_0, TLP_CFG_WRITE_0}" "fmt_type t \<notin> {TLP_CFG_READ_1, TLP_CFG_WRITE_1}"
    using assms(2) by (auto simp: is_cfg_def is_cpl_def)
  then show ?thesis using assms by (auto simp: br_recv_defs id_route_def)
qed

theorem bridge_cpl_routing_witness:
  "br_downstream_recv downstream_send (set_ur_completion TLP (PcieId 1 0 0) TLP) br_example
     = Inr (br_example, [Out_up (set_ur_completion TLP (PcieId 1 0 0) TLP)])"
proof -
  let ?c = "set_ur_completion TLP (PcieId 1 0 0) TLP"
  have "tlp_check ?c" "is_cpl ?c" "tlp_requester_id ?c = PcieId 0 0 0"
    by (simp_all add: set_ur_completion_def set_completion_def set_fmt_type_def tlp_check_def tlp_kind_defs)
  moreover have "PcieId 0 0 0 \<noteq> get_id br_example" by (simp add: get_id_def PcieId_def)
  ultimately show ?thesis using bridge_cpl_routing [of ?c br_example, THEN conjunct1] by (simp add: in_buses_def)
qed

text \<open>
  C30. A packet that is not a broadcast is delivered to at most one port of the internal bus, the first
  whose device claims it, and to none only when no device claims it.
\<close>

theorem bus_deliver_unicast:
  assumes "fmt_type t \<notin> {TLP_MSG_BCAST, TLP_MSG_DATA_BCAST}" and "bus_deliver k devs t = Inr os"
  shows "os = [] \<and> (\<forall>d \<in> set devs. dev_claims t d = Inr False) \<or>
    (\<exists>i < length devs. os = [Out_port (k + i) (TLP_copy t)] \<and> dev_claims t (devs ! i) = Inr True \<and>
       (\<forall>j < i. dev_claims t (devs ! j) = Inr False))"
  using assms(2)
proof (induction devs arbitrary: k)
  case (Cons d ds)
  then obtain c where c: "dev_claims t d = Inr c" by auto
  show ?case
  proof (cases c)
    case True
    then have "os = [Out_port (k + 0) (TLP_copy t)]" using Cons.prems assms(1) c by auto
    then show ?thesis using c True by (intro disjI2 exI [of _ 0]) simp
  next
    case False
    then have "bus_deliver (k + 1) ds t = Inr os" using Cons.prems c by simp
    from Cons.IH [OF this] show ?thesis
    proof (elim disjE exE conjE)
      fix i assume i: "i < length ds" "os = [Out_port (k + 1 + i) (TLP_copy t)]" "dev_claims t (ds ! i) = Inr True"
        "\<forall>j < i. dev_claims t (ds ! j) = Inr False"
      then have "\<forall>j < Suc i. dev_claims t ((d # ds) ! j) = Inr False"
        using c False by (auto simp: less_Suc_eq_0_disj)
      then show ?thesis using i by (intro disjI2 exI [of _ "Suc i"]) simp
    qed (use c False in simp)
  qed
qed simp

theorem bus_deliver_unicast_witness:
  "bus_deliver 0 [Bus_bridge br_example] (mem_read_req 0x80000010 4 TLP)
     = Inr [Out_port 0 (TLP_copy (mem_read_req 0x80000010 4 TLP))]"
proof -
  let ?t = "mem_read_req 0x80000010 4 TLP"
  have c: "dev_claims ?t (Bus_bridge br_example) = Inr True"
    using mem_rw_not_other [of ?t]
    by (simp add: dev_claims_def dev_func_def dev_bridge_def match_bar_def func.defs in_mem_window_def)
  then have "bus_deliver 0 [Bus_bridge br_example] ?t = Inr [Out_port 0 (TLP_copy ?t)]" by simp
  from bus_deliver_unicast [OF _ this] c this show ?thesis by simp
qed

subsection \<open>Windows\<close>

text \<open>The windows a bridge can hold: the memory and the prefetchable window have a granularity of 1 MB
  (the limit is the last byte), the IO window one of 4 KB.\<close>

definition windows_wf :: "'a bridge_scheme \<Rightarrow> bool" where
  "windows_wf b \<longleftrightarrow>
     io_base b AND 0xfffff000 = io_base b \<and> io_limit b AND 0xffffffff = io_limit b \<and> io_limit b OR 0xfff = io_limit b \<and>
     mem_base b AND 0xfff00000 = mem_base b \<and>
     mem_limit b AND 0xffffffff = mem_limit b \<and> mem_limit b OR 0xfffff = mem_limit b \<and>
     prefetchable_mem_base b AND 0xfffffffffff00000 = prefetchable_mem_base b \<and>
     prefetchable_mem_limit b AND 0xffffffffffffffff = prefetchable_mem_limit b \<and>
     prefetchable_mem_limit b OR 0xfffff = prefetchable_mem_limit b"

lemma and_eq_iff_bits: "(x::int) AND m = x \<longleftrightarrow> (\<forall>i. bit x i \<longrightarrow> bit m i)"
  by (auto simp: bit_eq_iff bit_and_iff)

lemma or_eq_iff_bits: "(x::int) OR m = x \<longleftrightarrow> (\<forall>i. bit m i \<longrightarrow> bit x i)"
  by (auto simp: bit_eq_iff bit_or_iff)

lemma bit_field: "bit (push_bit a (2 ^ n - 1 :: int)) i \<longleftrightarrow> a \<le> i \<and> i < a + n"
  by (auto simp: bit_push_bit_iff_int bit_mask_iff mask_eq_exp_minus_1 [symmetric])

lemma field_bits:
  "bit (0xfff00000::int) i \<longleftrightarrow> 20 \<le> i \<and> i < 32" "bit (0xfffff000::int) i \<longleftrightarrow> 12 \<le> i \<and> i < 32"
  "bit (0xf000::int) i \<longleftrightarrow> 12 \<le> i \<and> i < 16" "bit (0xfffff::int) i \<longleftrightarrow> i < 20" "bit (0xfff::int) i \<longleftrightarrow> i < 12"
  "bit (0xffffffff::int) i \<longleftrightarrow> i < 32" "bit (0xffffffffffffffff::int) i \<longleftrightarrow> i < 64"
  "bit (0xfffffffffff00000::int) i \<longleftrightarrow> 20 \<le> i \<and> i < 64"
  using bit_field [of 20 12 i] bit_field [of 12 20 i] bit_field [of 12 4 i] bit_field [of 0 20 i]
    bit_field [of 0 12 i] bit_field [of 0 32 i] bit_field [of 0 64 i] bit_field [of 20 44 i]
  by (simp_all add: push_bit_eq_mult)

lemmas windows_bits = windows_wf_def and_eq_iff_bits or_eq_iff_bits field_bits

lemma word_bits: "(0::int) \<le> x \<Longrightarrow> x < 2 ^ w \<Longrightarrow> bit x i \<Longrightarrow> i < w"
  using bit_high_zero not_le by blast

lemma windows_wf_func: "windows_wf (b\<lparr>bar := x\<rparr>) = windows_wf b"
  by (simp add: windows_wf_def)

text \<open>The register writes of \<open>Function\<close> leave the fields of a subclass alone.\<close>

lemma cap_write_table_more: "cap_write_table m reg data msk f = Inr f' \<Longrightarrow> func.more f' = func.more f"
  by (cases m) (auto simp: cap_write_table_def)

lemma list_write_register_more:
  "list_write_register cap_write_table l reg data msk f = Inr f' \<Longrightarrow> func.more f' = func.more f"
  unfolding list_write_register_def cap_write_register_def
  by (auto split: option.splits dest: cap_write_table_more)

lemma write_config_register_more:
  assumes "write_config_register reg data msk f = Inr f'"
  shows "func.more f' = func.more f"
proof (cases "reg = 1 \<or> reg = 3 \<or> reg = 15")
  case True
  then show ?thesis using assms by (auto simp: write_config_register_def write_command_status_def)
next
  case False
  then show ?thesis
    using assms list_write_register_more
    by (auto simp: write_config_register_def write_capability_register_def
        write_extended_capability_register_def split: if_splits)
qed

lemma windows_wf_more:
  fixes b b' :: "'a bridge_scheme"
  shows "func.more b' = func.more b \<Longrightarrow> windows_wf b' = windows_wf b"
  by (cases b; cases b') (simp add: windows_wf_def)


lemma upd_within:
  assumes "0 \<le> m" "old AND K = old" "\<And>i. bit bm i \<Longrightarrow> bit m (i div 8) \<Longrightarrow> bit new i \<Longrightarrow> bit K i"
  shows "byte_mask_update old m new bm AND K = byte_mask_update old m new bm"
  using assms unfolding and_eq_iff_bits by (auto simp: bit_byte_mask_update)

lemma upd_keeps_low:
  assumes "0 \<le> m" "old OR K = old" "\<And>i. bit K i \<Longrightarrow> \<not> bit m (i div 8)"
  shows "byte_mask_update old m new bm OR K = byte_mask_update old m new bm"
  using assms unfolding or_eq_iff_bits by (auto simp: bit_byte_mask_update)

lemma or_within: "(x::int) AND K = x \<Longrightarrow> (\<And>i. bit y i \<Longrightarrow> bit K i) \<Longrightarrow> (x OR y) AND K = x OR y"
  unfolding and_eq_iff_bits by (auto simp: bit_or_iff)

lemma windows_write_bar: "write_bar i data msk b = Inr b' \<Longrightarrow> windows_wf b' = windows_wf b"
  by (auto simp: write_bar_def windows_wf_def)

lemma windows_write_config:
  fixes b b' :: "'a bridge_scheme"
  shows "write_config_register reg data msk b = Inr b' \<Longrightarrow> windows_wf b' = windows_wf b"
  by (intro windows_wf_more write_config_register_more)

lemma windows_reg_other:
  assumes w: "br_write_config_register reg data msk b = Inr b'" and r: "reg \<notin> {7, 8, 9, 10, 11, 12}"
  shows "windows_wf b' = windows_wf b"
proof -
  consider "reg = 4" | "reg = 5" | "reg = 6" | "reg = 14" | "reg = 15" | "reg \<notin> {4, 5, 6, 14, 15}" by blast
  then show ?thesis
  proof cases
    case 1
    then obtain c where "write_bar 0 data msk b = Inr c" "write_config_register 4 data msk c = Inr b'"
      using w by (auto simp: br_write_config_register_def)
    then show ?thesis using windows_write_bar windows_write_config by metis
  next
    case 2
    then have "write_bar 1 data msk b = Inr b'" using w by (simp add: br_write_config_register_def)
    then show ?thesis by (rule windows_write_bar)
  next
    case 3
    then show ?thesis using w by (simp add: br_write_config_register_def) (drule sym, simp add: windows_wf_def)
  next
    case 4
    then show ?thesis using w by (simp add: br_write_config_register_def) (drule sym, simp add: windows_wf_def)
  next
    case 5
    then show ?thesis using w by (simp add: br_write_config_register_def)
  next
    case 6
    then have "write_config_register reg data msk b = Inr b'" using w r by (simp add: br_write_config_register_def)
    then show ?thesis by (rule windows_write_config)
  qed
qed

lemma nonneg_masks:
  "0 \<le> (msk::int) \<Longrightarrow> 0 \<le> push_bit 1 (msk AND 0x1) \<and> 0 \<le> msk AND 0x2 \<and> 0 \<le> push_bit 2 (msk AND 0x3) \<and>
     0 \<le> msk AND 0xc \<and> 0 \<le> push_bit 4 msk"
  by simp

text \<open>The values the window registers can take: a base register keeps its bits within the field, a limit
  register also keeps the bits below the field set.\<close>

lemma base_field:
  assumes "0 \<le> m" "x AND K = x" "\<And>i. bit bm i \<Longrightarrow> bit K i"
  shows "byte_mask_update x m d bm AND K = byte_mask_update x m d bm"
  using assms by (intro upd_within) auto

lemma limit_field:
  assumes "0 \<le> m" "x AND K = x" "\<And>i. bit bm i \<Longrightarrow> bit K i" "\<And>i. bit y i \<Longrightarrow> bit K i"
  shows "(byte_mask_update x m d bm OR y) AND K = byte_mask_update x m d bm OR y"
  using assms by (intro or_within base_field) auto

lemma div_8_range: "2 \<le> i div 8 \<Longrightarrow> i div 8 < 4 \<Longrightarrow> 16 \<le> i \<and> i < (32::nat)"
  by presburger

lemma bit_push_2_and_3: "bit (push_bit 2 (msk AND 3)) (i div 8) \<Longrightarrow> 16 \<le> i \<and> i < 32" for msk :: int and i :: nat
  by (rule div_8_range) (auto simp: bit_push_bit_iff_int bit_and_masks simp del: and_low_masks push_bit_and)

lemma bit_and_c: "bit (msk AND 12) (i div 8) \<Longrightarrow> 16 \<le> i \<and> i < 32" for msk :: int and i :: nat
  using bit_field [of 2 2 "i div 8"] div_8_range [of i] by (simp add: bit_and_iff push_bit_eq_mult)

text \<open>The registers with the low half of the windows, the upper halves of the prefetchable window, and the upper half of the IO
  window.\<close>

lemma windows_reg_low:
  assumes wf: "windows_wf b" and "0 \<le> msk" and w: "br_write_config_register reg data msk b = Inr b'" and r: "reg \<in> {7, 8, 9}"
  shows "windows_wf b'"
proof -
  note m = nonneg_masks [OF assms(2)] and wfs = wf [unfolded windows_wf_def]
  consider "reg = 7" | "reg = 8" | "reg = 9" using r by blast
  then show ?thesis
  proof cases
    case 1
    then show ?thesis
      using w wfs m base_field [of "push_bit 1 (msk AND 0x1)" "io_base b" "0xfffff000" "0xf000" "push_bit 8 data"]
        limit_field [of "msk AND 0x2" "io_limit b" "0xffffffff" "0xf000" "0xfff" data]
      by (simp add: br_write_config_register_def field_bits) (drule sym, simp add: windows_wf_def)
  next
    case 2
    then show ?thesis
      using w wfs m base_field [of "push_bit 2 (msk AND 0x3)" "mem_base b" "0xfff00000" "0xfff00000" "push_bit 16 data"]
        limit_field [of "msk AND 0xc" "mem_limit b" "0xffffffff" "0xfff00000" "0xfffff" data]
      by (simp add: br_write_config_register_def field_bits) (drule sym, simp add: windows_wf_def)
  next
    case 3
    then show ?thesis
      using w wfs m base_field [of "push_bit 2 (msk AND 0x3)" "prefetchable_mem_base b" "0xfffffffffff00000"
          "0xfff00000" "push_bit 16 data"]
        limit_field [of "msk AND 0xc" "prefetchable_mem_limit b" "0xffffffffffffffff" "0xfff00000" "0xfffff" data]
      by (simp add: br_write_config_register_def field_bits) (drule sym, simp add: windows_wf_def)
  qed
qed

lemma windows_reg_upper:
  assumes wf: "windows_wf b" and "0 \<le> msk" and "0 \<le> data" and "data < 2 ^ 32" and w: "br_write_config_register reg data msk b = Inr b'" and r: "reg \<in> {10, 11}"
  shows "windows_wf b'"
proof -
  note m = nonneg_masks [OF assms(2)] and wfs = wf [unfolded windows_wf_def]
  have d: "bit data i \<Longrightarrow> i < 32" for i using word_bits assms(3,4) by blast
  have d32: "bit (push_bit 32 data) i \<Longrightarrow> 20 \<le> i \<and> i < 64" for i using d [of "i - 32"] by (auto simp: bit_push_bit_iff_int)
  have lo: "i < 20 \<Longrightarrow> \<not> bit (push_bit 4 msk) (i div 8)" for i by (auto simp: bit_push_bit_iff_int)
  consider "reg = 10" | "reg = 11" using r by blast
  then show ?thesis
  proof cases
    case 1
    have "byte_mask_update (prefetchable_mem_base b) (push_bit 4 msk) (push_bit 32 data) (- 1) AND 0xfffffffffff00000
        = byte_mask_update (prefetchable_mem_base b) (push_bit 4 msk) (push_bit 32 data) (- 1)"
      using wfs m d32 by (intro upd_within) (auto simp: field_bits)
    then show ?thesis using 1 w wfs by (simp add: br_write_config_register_def) (drule sym, simp add: windows_wf_def)
  next
    case 2
    have "byte_mask_update (prefetchable_mem_limit b) (push_bit 4 msk) (push_bit 32 data) (- 1) AND 0xffffffffffffffff
        = byte_mask_update (prefetchable_mem_limit b) (push_bit 4 msk) (push_bit 32 data) (- 1)"
      using wfs m d32 by (intro upd_within) (auto simp: field_bits)
    moreover have "byte_mask_update (prefetchable_mem_limit b) (push_bit 4 msk) (push_bit 32 data) (- 1) OR 0xfffff
        = byte_mask_update (prefetchable_mem_limit b) (push_bit 4 msk) (push_bit 32 data) (- 1)"
      using wfs m lo by (intro upd_keeps_low) (auto simp: field_bits)
    ultimately show ?thesis using 2 w wfs by (simp add: br_write_config_register_def) (drule sym, simp add: windows_wf_def)
  qed
qed

lemma windows_reg_io_upper:
  assumes wf: "windows_wf b" and "0 \<le> msk" and "0 \<le> data" and "data < 2 ^ 32" and w: "br_write_config_register reg data msk b = Inr b'" and r: "reg = 12"
  shows "windows_wf b'"
proof -
  note m = nonneg_masks [OF assms(2)] and wfs = wf [unfolded windows_wf_def]
  have d: "bit data i \<Longrightarrow> i < 32" for i using word_bits assms(3,4) by blast
  have "byte_mask_update (io_base b) (push_bit 2 (msk AND 0x3)) (push_bit 16 data) (- 1) AND 0xfffff000
      = byte_mask_update (io_base b) (push_bit 2 (msk AND 0x3)) (push_bit 16 data) (- 1)"
    using wfs m bit_push_2_and_3 by (intro upd_within) (fastforce simp: field_bits)+
  moreover have "byte_mask_update (io_limit b) (msk AND 0xc) data (- 1) AND 0xffffffff
      = byte_mask_update (io_limit b) (msk AND 0xc) data (- 1)"
    using wfs m d by (intro upd_within) (auto simp: field_bits)
  moreover have "byte_mask_update (io_limit b) (msk AND 0xc) data (- 1) OR 0xfff
      = byte_mask_update (io_limit b) (msk AND 0xc) data (- 1)"
    using wfs m bit_and_c by (intro upd_keeps_low) (fastforce simp: field_bits)+
  ultimately show ?thesis using r w wfs by (simp add: br_write_config_register_def) (drule sym, simp add: windows_wf_def)
qed

text \<open>
  C31. The windows of a bridge keep their granularity: whatever register is written, with whatever byte
  enables and data, base addresses stay multiples and limits stay last bytes of 1 MB (4 KB for IO)
  blocks, within 32 bits (64 bits for the prefetchable window).
\<close>

theorem bridge_windows_invariant:
  assumes wf: "windows_wf b" and "0 \<le> msk" and "0 \<le> data" and "data < 2 ^ 32"
    and w: "br_write_config_register reg data msk b = Inr b'"
  shows "windows_wf b'"
proof -
  consider "reg \<in> {7, 8, 9}" | "reg \<in> {10, 11}" | "reg = 12" | "reg \<notin> {7, 8, 9, 10, 11, 12}"
    by blast
  then show ?thesis
    by cases (use assms windows_reg_low windows_reg_upper windows_reg_io_upper windows_reg_other in blast)+
qed

theorem bridge_windows_invariant_witness:
  "\<exists>b'. br_write_config_register 8 0x80108000 15 br_example = Inr b' \<and> windows_wf b'"
proof -
  obtain b' where b': "br_write_config_register 8 0x80108000 15 br_example = Inr b'"
    by (simp add: br_write_config_register_def)
  moreover have "windows_wf br_example" by (simp add: windows_wf_def)
  ultimately show ?thesis using bridge_windows_invariant [of br_example 15 "0x80108000" 8 b'] by simp
qed

text \<open>The memory window register: the host writes the upper 12 bits of base and limit.\<close>

lemma mem_window_write:
  assumes wf: "windows_wf b" and p: "0 \<le> p" "p < 2 ^ 12" and q: "0 \<le> q" "q < 2 ^ 12"
  shows "br_write_config_register 8 (push_bit 20 q OR push_bit 4 p) 15 b =
    Inr (b\<lparr>mem_base := p * 2 ^ 20, mem_limit := q * 2 ^ 20 + 0xfffff\<rparr>)"
proof -
  have bp: "bit p i \<Longrightarrow> i < 12" and bq: "bit q i \<Longrightarrow> i < 12" for i using word_bits p q by blast+
  have b12: "bit (12::int) j \<longleftrightarrow> 2 \<le> j \<and> j < 4" for j using bit_field [of 2 2 j] by (simp add: push_bit_eq_mult)
  have div8: "20 \<le> i \<Longrightarrow> i < 32 \<Longrightarrow> 2 \<le> i div 8 \<and> i div 8 < 4" for i :: nat by presburger
  have base: "byte_mask_update (mem_base b) 12 (push_bit 16 (push_bit 20 q OR push_bit 4 p)) 0xfff00000 = push_bit 20 p"
  proof (rule bit_eqI)
    fix i
    have "bit (mem_base b) i \<Longrightarrow> 20 \<le> i \<and> i < 32" using wf by (auto simp: windows_bits)
    then show "bit (byte_mask_update (mem_base b) 12 (push_bit 16 (push_bit 20 q OR push_bit 4 p)) 0xfff00000) i
        \<longleftrightarrow> bit (push_bit 20 p) i"
      using div8 [of i] bp [of "i - 20"]
      by (auto simp: bit_byte_mask_update field_bits b12 bit_push_bit_iff_int bit_or_iff)
  qed
  have limit: "byte_mask_update (mem_limit b) 12 (push_bit 20 q OR push_bit 4 p) 0xfff00000 OR 0xfffff = 0xfffff OR push_bit 20 q"
  proof (rule bit_eqI)
    fix i
    have "bit (mem_limit b) i \<Longrightarrow> i < 32"
      using wf and_eq_iff_bits [of "mem_limit b" "0xffffffff"] by (simp add: windows_wf_def field_bits del: and_low_masks)
    then show "bit (byte_mask_update (mem_limit b) 12 (push_bit 20 q OR push_bit 4 p) 0xfff00000 OR 0xfffff) i
        \<longleftrightarrow> bit (0xfffff OR push_bit 20 q) i"
      using div8 [of i] bq [of "i - 20"] bp [of "i - 4"]
      by (auto simp: bit_byte_mask_update field_bits b12 bit_push_bit_iff_int bit_or_iff)
  qed
  have "0xfffff OR push_bit 20 q = q * 2 ^ 20 + 0xfffff" using or_push_bit_eq_add [of "0xfffff" 20 q] by simp
  then show ?thesis using base limit by (simp add: br_write_config_register_def push_bit_eq_mult)
qed

text \<open>
  C29. A bridge routes memory requests by the windows that the host programs: after a write of the base \<open>p\<close> and
  the limit \<open>q\<close> (in MB) to the memory window register, a memory request that enters on either side leaves
  downstream exactly when its address lies in a block from \<open>p\<close> to \<open>q\<close>, both included, or in the prefetchable
  window. Outside the windows a request from above is dropped and a request from below is passed on
  upstream. Routing does not change the bridge. The bridge has no base address register of its own in use, its two
  transmit handlers are set, and its windows have the granularity that register writes keep.
\<close>

theorem bridge_mem_routing:
  assumes t: "tlp_check t" "fmt_type t \<in> {TLP_MEM_READ, TLP_MEM_READ_64, TLP_MEM_WRITE, TLP_MEM_WRITE_64}" "tlp_address t = a"
    and b: "windows_wf b" "\<forall>m \<in> set (bar_mask b). m = 0" "downstream_tx_set b" "upstream_tx_set b"
    and p: "0 \<le> p" "p < 2 ^ 12" and q: "0 \<le> q" "q < 2 ^ 12"
    and down: "down \<longleftrightarrow> p \<le> a div 2 ^ 20 \<and> a div 2 ^ 20 \<le> q \<or> prefetchable_mem_base b \<le> a \<and> a \<le> prefetchable_mem_limit b"
  shows "\<exists>b'. br_write_config_register 8 (push_bit 20 q OR push_bit 4 p) 15 b = Inr b' \<and>
    br_upstream_recv downstream_send t b' = Inr (b', if down then [Out_down t] else []) \<and>
    br_downstream_recv downstream_send t b' = Inr (b', [if down then Out_down t else Out_up t])"
proof -
  let ?b = "b\<lparr>mem_base := p * 2 ^ 20, mem_limit := q * 2 ^ 20 + 0xfffff\<rparr>"
  have "p * 2 ^ 20 \<le> a \<and> a \<le> q * 2 ^ 20 + 0xfffff \<longleftrightarrow> p \<le> a div 2 ^ 20 \<and> a div 2 ^ 20 \<le> q" by auto
  then have w: "in_mem_window ?b a \<longleftrightarrow> down" unfolding down by (simp add: in_mem_window_def)
  have "no_bars ?b" using b(2) by (simp add: no_bars_def)
  then have "br_upstream_recv downstream_send t ?b = Inr (?b, if down then [Out_down t] else [])"
    "br_downstream_recv downstream_send t ?b = Inr (?b, [if down then Out_down t else Out_up t])"
    using t b(3,4) w mem_rw_not_other [OF t(2)] match_bar_none [of ?b] by (simp_all add: br_recv_defs)
  then show ?thesis using mem_window_write [OF b(1) p q] by blast
qed

theorem bridge_mem_routing_witness:
  "\<exists>b'. br_write_config_register 8 0x80108000 15 br_example = Inr b' \<and>
     br_upstream_recv downstream_send (mem_read_req 0x80100010 4 TLP) b' = Inr (b', [Out_down (mem_read_req 0x80100010 4 TLP)]) \<and>
     br_downstream_recv downstream_send (mem_read_req 0x80200000 4 TLP) b' = Inr (b', [Out_up (mem_read_req 0x80200000 4 TLP)])"
proof -
  have c: "tlp_check (mem_read_req 0x80100010 4 TLP)" "tlp_check (mem_read_req 0x80200000 4 TLP)"
    using mem_read_req_check [of 4 "0x80100010" 0 TLP] mem_read_req_check [of 4 "0x80200000" 0 TLP] by simp_all
  have wf: "windows_wf br_example" and nb: "\<forall>m \<in> set (bar_mask br_example). m = 0" by (simp_all add: windows_wf_def)
  have r: "(push_bit 20 0x801 OR push_bit 4 0x800 :: int) = 0x80108000" by (simp add: push_bit_eq_mult)
  from bridge_mem_routing [OF c(1) _ _ wf nb, of _ "0x800" "0x801" True]
    bridge_mem_routing [OF c(2) _ _ wf nb, of _ "0x800" "0x801" False]
  show ?thesis by (auto simp: r)
qed
text \<open>An ID routed message for a bus behind a bridge is not delivered to the bridge when its requester is
  elsewhere, although its destination is behind the bridge.\<close>

lemma msg_id_not_delivered:
  "dev_claims ((set_fmt_type TLP_MSG_ID TLP)\<lparr>tlp_dest_id := PcieId 1 0 0\<rparr>) (Bus_bridge br_example) = Inr False"
  by (simp add: dev_claims_def dev_func_def dev_bridge_def tlp_kind_defs set_fmt_type_def in_buses_def
      get_id_def func.defs PcieId_def)

lemma bridge_control_write_fails: "br_write_config_register 15 data msk b = Inl AttributeError"
  by (simp add: br_write_config_register_def)

end
