(* ===== verification/Pcie_Device.thy ===== *)
theory Pcie_Device
  imports Pcie_Bridge
begin

unbundle bit_operations_syntax

text \<open>
  The containers of \<open>lib/pcie/tb/pcie.py\<close>: \<open>Device\<close> (up to eight functions behind one port), \<open>Switch\<close>
  (an upstream bridge and the endpoints on its internal bus) and \<open>TreeItem\<close> (the result of enumeration).

  A device dispatches a packet to its functions; \<open>run\<close> is the handler table of their class. The
  packets a device sends upstream are returned in order. The methods of a switch only concern the
  numbering of its endpoints.
\<close>

section \<open>Device\<close>

record 'a device =
  dev_bus_num :: int
  dev_device_num :: int
  dev_functions :: "'a func_scheme list"

definition Device :: "'a device" where
  "Device = \<lparr>dev_bus_num = 0, dev_device_num = 0, dev_functions = []\<rparr>"

text \<open>The search for the first index that is not the function number at that index.\<close>

fun first_gap :: "int \<Rightarrow> int list \<Rightarrow> int option" where
  "first_gap x [] = None"
| "first_gap x (n # ns) = (if n \<noteq> x then Some x else first_gap (x + 1) ns)"

definition next_free_function_number :: "'a device \<Rightarrow> int option \<times> 'a device" where
  "next_free_function_number d =
     (let fs = sort_key function_num (dev_functions d); d' = d\<lparr>dev_functions := fs\<rparr>
      in (if fs = [] then Some 0
          else case first_gap 0 (map function_num fs) of
            Some x \<Rightarrow> Some x
          | None \<Rightarrow> if length fs < 8 then Some (int (length fs)) else None, d'))"

definition add_function :: "'a func_scheme \<Rightarrow> 'a device \<Rightarrow> 'a device res" where
  "add_function f d =
     (if function_num f \<in> set (map function_num (dev_functions d))
      then Inl (PyException ''Function number already in use'')
      else let fs = sort_key function_num (dev_functions d @ [f\<lparr>upstream_tx_set := True\<rparr>])
           in Inr (d\<lparr>dev_functions := (if length fs > 1 then map (\<lambda>g. g\<lparr>header_type := header_type g OR 0x80\<rparr>) fs
                                   else fs)\<rparr>))"

text \<open>Without a free number the function number becomes \<open>None\<close>, which cannot be sorted.\<close>

definition append_function :: "'a func_scheme \<Rightarrow> 'a device \<Rightarrow> 'a device res" where
  "append_function f d =
     (case next_free_function_number d of
        (None, _) \<Rightarrow> Inl TypeError
      | (Some n, d') \<Rightarrow> add_function (f\<lparr>function_num := n\<rparr>) d')"

definition make_function :: "'a func_scheme res \<Rightarrow> 'a device \<Rightarrow> 'a device res" where
  "make_function default_function d = bindE default_function (\<lambda>f. append_function f d)"

definition dev_upstream_send :: "tlp \<Rightarrow> unit res" where
  "dev_upstream_send t = assertE (tlp_check t)"

text \<open>The first function that satisfies the test receives the packet.\<close>

fun dispatch ::
  "('a func_scheme \<Rightarrow> bool res) \<Rightarrow> ('a func_scheme \<Rightarrow> ('a func_scheme \<times> tlp list) res) \<Rightarrow>
   'a func_scheme list \<Rightarrow> ('a func_scheme list \<times> tlp list) option res" where
  "dispatch p g [] = Inr None"
| "dispatch p g (f # fs) =
     bindE (p f) (\<lambda>c.
       if c then bindE (g f) (\<lambda>(f', out). Inr (Some (f' # fs, out)))
       else bindE (dispatch p g fs) (\<lambda>r. Inr (map_option (\<lambda>(fs', out). (f # fs', out)) r)))"

definition dev_send_all :: "'a device \<Rightarrow> tlp list \<Rightarrow> ('a device \<times> tlp list) res" where
  "dev_send_all d out = bindE (foldE (\<lambda>t _. dev_upstream_send t) out ()) (\<lambda>_. Inr (d, out))"

definition dev_ur :: "tlp \<Rightarrow> 'a device \<Rightarrow> ('a device \<times> tlp list) res" where
  "dev_ur t d = dev_send_all d [set_ur_completion t (PcieId (dev_bus_num d) (dev_device_num d) 0) TLP]"

definition dev_to_function ::
  "('a func_scheme \<Rightarrow> bool res) \<Rightarrow> ('a func_scheme \<Rightarrow> ('a func_scheme \<times> tlp list) res) \<Rightarrow>
   ('a device \<Rightarrow> ('a device \<times> tlp list) res) \<Rightarrow> 'a device \<Rightarrow> ('a device \<times> tlp list) res" where
  "dev_to_function p g none d =
     bindE (dispatch p g (dev_functions d)) (\<lambda>r.
       case r of None \<Rightarrow> none d
       | Some (fs, out) \<Rightarrow> dev_send_all (d\<lparr>dev_functions := fs\<rparr>) out)"

definition dev_upstream_recv ::
  "(rx_handler \<Rightarrow> tlp \<Rightarrow> 'a func_scheme \<Rightarrow> ('a func_scheme \<times> tlp list) res) \<Rightarrow> tlp \<Rightarrow>
   'a device \<Rightarrow> ('a device \<times> tlp list) res" where
  "dev_upstream_recv run t d =
     bindE (assertE (tlp_check t)) (\<lambda>_.
       if fmt_type t \<in> {TLP_CFG_READ_0, TLP_CFG_WRITE_0} then
         (if pid_device (tlp_dest_id t) = dev_device_num d then
            let bus = pid_bus (tlp_dest_id t);
                d1 = d\<lparr>dev_bus_num := bus, dev_functions := map (\<lambda>f. f\<lparr>bus_num := bus\<rparr>) (dev_functions d)\<rparr>
            in dev_to_function (\<lambda>f. Inr (function_num f = pid_function (tlp_dest_id t))) (upstream_recv run t)
                 (dev_ur t) d1
          else dev_ur t d)
       else if is_cpl t then
         (if pid_bus (tlp_requester_id t) = dev_bus_num d \<and> pid_device (tlp_requester_id t) = dev_device_num d
          then dev_to_function (\<lambda>f. Inr (function_num f = pid_function (tlp_requester_id t))) (upstream_recv run t)
                 (\<lambda>d. Inr (d, [])) d
          else Inr (d, []))
       else if is_io t then
         dev_to_function (\<lambda>f. bindE (match_bar f (tlp_address t) True) (\<lambda>ms. Inr (ms \<noteq> [])))
           (upstream_recv run t) (dev_ur t) d
       else if is_mem_rw t then
         dev_to_function (\<lambda>f. bindE (match_bar f (tlp_address t) False) (\<lambda>ms. Inr (ms \<noteq> [])))
           (upstream_recv run t)
           (\<lambda>d. if fmt_type t \<in> {TLP_MEM_READ, TLP_MEM_READ_64} then dev_ur t d else Inr (d, [])) d
       else Inl (PyException ''TODO''))"

section \<open>Switch\<close>

text \<open>The endpoints of a switch, by their device and function numbers.\<close>

fun free_device :: "int \<Rightarrow> int list \<Rightarrow> int option" where
  "free_device d [] = (if d < 32 then Some d else None)"
| "free_device d (n # ns) = (if n > d then Some d else free_device (n + 1) ns)"

definition sort_endpoints :: "'a func_scheme list \<Rightarrow> 'a func_scheme list" where
  "sort_endpoints eps = sort_key device_num (sort_key function_num eps)"

definition next_free_device_number :: "int \<Rightarrow> 'a func_scheme list \<Rightarrow> int option" where
  "next_free_device_number min_dev eps =
     (if eps = [] then Some min_dev else free_device min_dev (map device_num (sort_endpoints eps)))"

definition append_endpoint :: "'a func_scheme \<Rightarrow> 'a func_scheme list \<Rightarrow> 'a func_scheme list" where
  "append_endpoint ep eps = sort_endpoints (eps @ [ep\<lparr>upstream_tx_set := True\<rparr>])"

definition add_endpoint :: "int \<Rightarrow> 'a func_scheme \<Rightarrow> 'a func_scheme list \<Rightarrow> 'a func_scheme list res" where
  "add_endpoint min_dev ep eps =
     (case next_free_device_number min_dev eps of
        None \<Rightarrow> Inl TypeError
      | Some n \<Rightarrow> Inr (append_endpoint (ep\<lparr>bus_num := 0, device_num := n, function_num := 0\<rparr>) (sort_endpoints eps)))"

definition make_port :: "int \<Rightarrow> bridge res \<Rightarrow> bridge list \<Rightarrow> bridge list res" where
  "make_port min_dev port eps =
     bindE port (\<lambda>p. add_endpoint min_dev (p\<lparr>pri_bus_num := 0, sec_bus_num := 0, sub_bus_num := 0\<rparr>) eps)"

section \<open>TreeItem\<close>

record tree_data =
  ti_id :: pcie_id
  ti_vendor_id :: int
  ti_device_id :: int
  ti_sec_bus_num :: int
  ti_sub_bus_num :: int
  ti_bar :: "int option list"
  ti_bar_size :: "int option list"
  ti_io_base :: int
  ti_io_limit :: int
  ti_mem_base :: int
  ti_mem_limit :: int
  ti_prefetchable_mem_base :: int
  ti_prefetchable_mem_limit :: int
  ti_capabilities :: "(int \<times> int) list"
  ti_ext_capabilities :: "(int \<times> int) list"
  ti_msi_addr :: "int option"
  ti_msi_data :: "int option"

datatype tree = TreeItem (ti_data: tree_data) (children: "tree list")

definition tree_init :: tree_data where
  "tree_init = \<lparr>ti_id = PcieId 0 0 0, ti_vendor_id = 0, ti_device_id = 0, ti_sec_bus_num = 0, ti_sub_bus_num = 0,
     ti_bar = replicate 6 None, ti_bar_size = replicate 6 None, ti_io_base = 0, ti_io_limit = 0,
     ti_mem_base = 0, ti_mem_limit = 0, ti_prefetchable_mem_base = 0, ti_prefetchable_mem_limit = 0,
     ti_capabilities = [], ti_ext_capabilities = [], ti_msi_addr = None, ti_msi_data = None\<rparr>"

fun find_dev :: "pcie_id \<Rightarrow> tree \<Rightarrow> tree option"
  and find_dev_list :: "pcie_id \<Rightarrow> tree list \<Rightarrow> tree option" where
  "find_dev i (TreeItem d cs) = (if i = ti_id d then Some (TreeItem d cs) else find_dev_list i cs)"
| "find_dev_list i [] = None"
| "find_dev_list i (c # cs) = (case find_dev i c of Some t \<Rightarrow> Some t | None \<Rightarrow> find_dev_list i cs)"

definition get_capability_offset :: "tree \<Rightarrow> int \<Rightarrow> int option" where
  "get_capability_offset t cap = map_of (ti_capabilities (ti_data t)) cap"

section \<open>Properties\<close>

subsection \<open>Function numbers\<close>

definition dev_ok :: "'a device \<Rightarrow> bool" where
  "dev_ok d \<longleftrightarrow> sorted (map function_num (dev_functions d)) \<and> distinct (map function_num (dev_functions d)) \<and>
     (\<forall>f \<in> set (dev_functions d). 0 \<le> function_num f \<and> function_num f < 8) \<and>
     (length (dev_functions d) > 1 \<longrightarrow> (\<forall>f \<in> set (dev_functions d). bit (header_type f) 7))"

lemma first_gap_Some:
  "first_gap x ns = Some y \<Longrightarrow> sorted ns \<Longrightarrow> distinct ns \<Longrightarrow> \<forall>n \<in> set ns. x \<le> n \<Longrightarrow>
     x \<le> y \<and> y \<notin> set ns \<and> y < x + int (length ns) \<and> (\<forall>m. x \<le> m \<and> m < y \<longrightarrow> m \<in> set ns)"
proof (induction x ns rule: first_gap.induct)
  case (2 x n ns)
  show ?case
  proof (cases "n = x")
    case False
    then have "y = x" "x < n" using 2 by auto
    then show ?thesis using 2 by auto
  next
    case True
    have "x + 1 \<le> k" if "k \<in> set ns" for k
      using that True 2(3,4) by (cases "k = x") (auto simp: order.order_iff_strict)
    then have "x + 1 \<le> y \<and> y \<notin> set ns \<and> y < x + 1 + int (length ns) \<and> (\<forall>m. x + 1 \<le> m \<and> m < y \<longrightarrow> m \<in> set ns)"
      using 2 True by simp
    moreover have "x \<le> m \<and> m < y \<Longrightarrow> m = x \<or> x + 1 \<le> m \<and> m < y" for m by auto
    ultimately show ?thesis using True by auto
  qed
qed simp

lemma first_gap_None: "first_gap x ns = None \<Longrightarrow> set ns = {x..<x + int (length ns)}"
proof (induction x ns rule: first_gap.induct)
  case (2 x n ns)
  then have "set ns = {x + 1..<x + 1 + int (length ns)}" "n = x" by (auto split: if_splits)
  then show ?case by auto
qed simp

lemma sort_key_sorted: "sorted (map k xs) \<Longrightarrow> sort_key k xs = xs"
  by (induction xs) (auto simp: insort_is_Cons)

lemma distinct_map_insort: "distinct (map k (insort_key k x xs)) = (k x \<notin> k ` set xs \<and> distinct (map k xs))"
  by (induction xs) (auto simp: set_insort_key)

lemma distinct_map_sort_key: "distinct (map k (sort_key k xs)) = distinct (map k xs)"
  by (induction xs) (auto simp: distinct_map_insort)

lemma next_free_spec:
  assumes "dev_ok d"
  shows "length (dev_functions d) < 8 \<Longrightarrow> \<exists>n. next_free_function_number d = (Some n, d) \<and> 0 \<le> n \<and> n < 8 \<and>
      n \<notin> function_num ` set (dev_functions d) \<and> (\<forall>m. 0 \<le> m \<and> m < n \<longrightarrow> m \<in> function_num ` set (dev_functions d))"
    and "length (dev_functions d) = 8 \<Longrightarrow> next_free_function_number d = (None, d)"
proof -
  let ?ns = "map function_num (dev_functions d)"
  have ok: "sorted ?ns" "distinct ?ns" "\<forall>n \<in> set ?ns. 0 \<le> n" "\<forall>n \<in> set ?ns. n < 8" using assms by (auto simp: dev_ok_def)
  have nf: "next_free_function_number d = (if dev_functions d = [] then Some 0
      else case first_gap 0 ?ns of Some x \<Rightarrow> Some x
        | None \<Rightarrow> if length (dev_functions d) < 8 then Some (int (length (dev_functions d))) else None, d)"
    using ok(1) by (simp add: next_free_function_number_def sort_key_sorted Let_def)
  show "\<exists>n. next_free_function_number d = (Some n, d) \<and> 0 \<le> n \<and> n < 8 \<and>
      n \<notin> function_num ` set (dev_functions d) \<and> (\<forall>m. 0 \<le> m \<and> m < n \<longrightarrow> m \<in> function_num ` set (dev_functions d))"
    if l: "length (dev_functions d) < 8"
  proof (cases "first_gap 0 ?ns")
    case None
    from first_gap_None [OF None] have "function_num ` set (dev_functions d) = {0..<int (length (dev_functions d))}" by simp
    then show ?thesis using None l nf by (auto split: if_splits)
  next
    case (Some y)
    from first_gap_Some [OF Some ok(1-3)] show ?thesis using Some l nf by (auto split: if_splits)
  qed
  show "next_free_function_number d = (None, d)" if l: "length (dev_functions d) = 8"
  proof (cases "first_gap 0 ?ns")
    case None
    then show ?thesis using l nf by auto
  next
    case (Some y)
    have "card (set ?ns) = 8" using l ok(2) distinct_card [of ?ns] by simp
    moreover have "set ?ns \<subseteq> {0..<8}" using ok(3,4) by auto
    ultimately have "set ?ns = {0..<8}" by (intro card_subset_eq) auto
    then show ?thesis using first_gap_Some [OF Some ok(1-3)] l by auto
  qed
qed

lemma bit_header: "bit ((h::int) OR 0x80) 7"
  using bit_exp_iff [of 7 7, where ?'a = int] by (simp add: bit_or_iff)

text \<open>
  A device hands out function numbers as it should: a function appended to a device with a free
  number gets the least number that is not in use, the functions stay sorted with distinct numbers below
  eight and, when there are several, all are marked multi-function; a ninth function is refused.
\<close>

theorem append_function_correct:
  assumes "dev_ok d"
  shows "(length (dev_functions d) < 8 \<longrightarrow> (\<exists>n d'. append_function f d = Inr d' \<and> dev_ok d' \<and> 0 \<le> n \<and> n < 8 \<and>
      n \<notin> function_num ` set (dev_functions d) \<and> (\<forall>m. 0 \<le> m \<and> m < n \<longrightarrow> m \<in> function_num ` set (dev_functions d)) \<and>
      function_num ` set (dev_functions d') = insert n (function_num ` set (dev_functions d)))) \<and>
    (length (dev_functions d) = 8 \<longrightarrow> append_function f d = Inl TypeError)"
proof (intro conjI impI)
  assume "length (dev_functions d) < 8"
  then obtain n where n: "next_free_function_number d = (Some n, d)" "0 \<le> n" "n < 8"
      "n \<notin> function_num ` set (dev_functions d)" "\<forall>m. 0 \<le> m \<and> m < n \<longrightarrow> m \<in> function_num ` set (dev_functions d)"
    using next_free_spec(1) [OF assms] by blast
  let ?g = "f\<lparr>function_num := n, upstream_tx_set := True\<rparr>"
  let ?fs = "sort_key function_num (dev_functions d @ [?g])"
  let ?hs = "if length ?fs > 1 then map (\<lambda>g. g\<lparr>header_type := header_type g OR 0x80\<rparr>) ?fs else ?fs"
  have res: "append_function f d = Inr (d\<lparr>dev_functions := ?hs\<rparr>)"
    using n(1,4) by (simp add: append_function_def add_function_def Let_def)
  have nums: "map function_num ?hs = map function_num ?fs" by (simp add: comp_def)
  have set: "set (map function_num ?hs) = insert n (function_num ` set (dev_functions d))" unfolding nums by simp
  have "distinct (map function_num (dev_functions d @ [?g]))" using assms n(4) by (simp add: dev_ok_def)
  then have dist: "distinct (map function_num ?hs)" unfolding nums distinct_map_sort_key .
  have "sorted (map function_num ?hs)" unfolding nums by simp
  moreover have "\<forall>m \<in> set (map function_num ?hs). 0 \<le> m \<and> m < 8" unfolding set using assms n by (auto simp: dev_ok_def)
  moreover have "length ?hs > 1 \<Longrightarrow> \<forall>h \<in> set ?hs. bit (header_type h) 7" using bit_header by auto
  ultimately have ok': "dev_ok (d\<lparr>dev_functions := ?hs\<rparr>)" using dist by (simp add: dev_ok_def)
  moreover have "function_num ` set (dev_functions (d\<lparr>dev_functions := ?hs\<rparr>)) = insert n (function_num ` set (dev_functions d))"
    using set by simp
  ultimately show "\<exists>n d'. append_function f d = Inr d' \<and> dev_ok d' \<and> 0 \<le> n \<and> n < 8 \<and>
      n \<notin> function_num ` set (dev_functions d) \<and> (\<forall>m. 0 \<le> m \<and> m < n \<longrightarrow> m \<in> function_num ` set (dev_functions d)) \<and>
      function_num ` set (dev_functions d') = insert n (function_num ` set (dev_functions d))"
    using n res ok' by blast
next
  assume "length (dev_functions d) = 8"
  then show "append_function f d = Inl TypeError"
    using next_free_spec(2) [OF assms] by (simp add: append_function_def)
qed


theorem append_function_correct_witness:
  "dev_ok (Device :: unit device) \<and> length (dev_functions (Device :: unit device)) < 8 \<and>
   (\<exists>d'. append_function func_init (Device :: unit device) = Inr d' \<and> dev_ok d' \<and> function_num ` set (dev_functions d') = {0})"
proof -
  have ok: "dev_ok (Device :: unit device)" "length (dev_functions (Device :: unit device)) < 8"
    by (simp_all add: dev_ok_def Device_def)
  from append_function_correct [OF ok(1), of func_init] ok(2) obtain n d'
    where "append_function func_init (Device :: unit device) = Inr d'" "dev_ok d'" "0 \<le> n"
      "\<forall>m. 0 \<le> m \<and> m < n \<longrightarrow> m \<in> function_num ` set (dev_functions (Device :: unit device))"
      "function_num ` set (dev_functions d') = insert n (function_num ` set (dev_functions (Device :: unit device)))"
    by blast
  moreover from this have "n = 0" by (cases "0 < n") (auto simp: Device_def)
  ultimately show ?thesis using ok by (auto simp: Device_def)
qed

subsection \<open>Device numbers of a switch\<close>

lemma free_device_ge: "free_device d ns = Some m \<Longrightarrow> sorted ns \<Longrightarrow> \<forall>n \<in> set ns. d \<le> n + 1 \<Longrightarrow> d \<le> m"
proof (induction d ns rule: free_device.induct)
  case (2 d n ns)
  then show ?case by (fastforce split: if_splits)
qed (simp split: if_splits)

lemma free_device_unused: "free_device d ns = Some m \<Longrightarrow> sorted ns \<Longrightarrow> m \<notin> set ns"
proof (induction d ns rule: free_device.induct)
  case (2 d n ns)
  show ?case
  proof (cases "n > d")
    case False
    then have "n + 1 \<le> m" using 2 by (intro free_device_ge [of "n + 1" ns]) auto
    then show ?thesis using False 2 by auto
  qed (use 2 in auto)
qed simp

lemma sort_endpoints_sorted: "sorted (map device_num (sort_endpoints eps))"
  by (simp add: sort_endpoints_def)

text \<open>
  The device number that a switch gives to a new endpoint is in use by none of the endpoints that it
  has, and every endpoint that was there is still there.
\<close>

theorem add_endpoint_fresh:
  assumes "add_endpoint min_dev ep eps = Inr eps'" "eps \<noteq> []"
  shows "\<exists>m. m \<notin> device_num ` set eps \<and>
    set eps' = insert (ep\<lparr>bus_num := 0, device_num := m, function_num := 0, upstream_tx_set := True\<rparr>) (set eps)"
proof -
  from assms obtain m where m: "free_device min_dev (map device_num (sort_endpoints eps)) = Some m"
    and r: "eps' = append_endpoint (ep\<lparr>bus_num := 0, device_num := m, function_num := 0\<rparr>) (sort_endpoints eps)"
    by (auto simp: add_endpoint_def next_free_device_number_def split: option.splits)
  have "m \<notin> device_num ` set eps"
    using free_device_unused [OF m sort_endpoints_sorted] by (simp add: sort_endpoints_def)
  moreover have "set eps' = insert (ep\<lparr>bus_num := 0, device_num := m, function_num := 0, upstream_tx_set := True\<rparr>) (set eps)"
    using r by (simp add: append_endpoint_def sort_endpoints_def)
  ultimately show ?thesis by blast
qed

theorem add_endpoint_fresh_witness:
  "\<exists>m eps'. add_endpoint 1 func_init [func_init\<lparr>device_num := 1\<rparr>] = Inr eps' \<and> m \<notin> {1} \<and>
    set eps' = {func_init\<lparr>bus_num := 0, device_num := m, function_num := 0, upstream_tx_set := True\<rparr>, func_init\<lparr>device_num := 1\<rparr>}"
proof -
  obtain eps' where "add_endpoint 1 func_init [func_init\<lparr>device_num := 1\<rparr>] = Inr eps'"
    by (simp add: add_endpoint_def next_free_device_number_def sort_endpoints_def)
  with add_endpoint_fresh [OF this] show ?thesis by auto
qed

subsection \<open>Trees\<close>

text \<open>The items of a tree in the order in which they are visited.\<close>

fun items :: "tree \<Rightarrow> tree list" where
  "items (TreeItem d cs) = TreeItem d cs # concat (map items cs)"

lemma find_append: "find P (xs @ ys) = (case find P xs of Some x \<Rightarrow> Some x | None \<Rightarrow> find P ys)"
  by (induction xs) auto

lemma find_dev_items:
  "find_dev i t = find (\<lambda>s. ti_id (ti_data s) = i) (items t)"
  "find_dev_list i ts = find (\<lambda>s. ti_id (ti_data s) = i) (concat (map items ts))"
  by (induction i t and i ts rule: find_dev_find_dev_list.induct)
     (auto simp: find_append split: option.splits)


text \<open>
  Looking a device up in the tree finds the first item, in depth-first order, that has the
  identifier: a result has the identifier and is in the tree, and there is none only when no item of the
  tree has it.
\<close>

theorem find_dev_correct:
  "find_dev i t = find (\<lambda>s. ti_id (ti_data s) = i) (items t) \<and>
   (find_dev i t = None \<longleftrightarrow> (\<nexists>s. s \<in> set (items t) \<and> ti_id (ti_data s) = i))"
  by (auto simp: find_dev_items find_None_iff)

end
