(* ===== verification/Pcie_RootComplex.thy ===== *)
theory Pcie_RootComplex
  imports Pcie_Device Pcie_Bar
begin

unbundle bit_operations_syntax

text \<open>
  The class \<open>RootComplex\<close> of \<open>lib/pcie/tb/pcie.py\<close> without enumeration: the memory and IO regions of the
  host, the handlers of requests from devices, and the configuration, capability, IO and memory accesses
  of the host, with their word variants.

  The handlers return the completions that the root complex sends. The accesses are state transformers
  over the root complex and the fabric \<open>'e\<close> behind it; \<open>net\<close> is the reaction of the fabric to a packet, as
  in \<open>Pcie_Requester\<close>. The attribute and traffic class arguments \<open>at\<close> and \<open>tc\<close> come first.
\<close>

section \<open>State\<close>

text \<open>A region is a memory that the root complex owns (an \<open>mmap\<close> object), a pair of call-backs of the
  test bench, or the MSI region, whose call-backs are methods of the root complex. The values of read
  call-backs are not used by the source, so a call-back is represented by whether it raises.\<close>

datatype rc_store =
    Store_mem "byte list"
  | Store_callback "(int \<Rightarrow> int \<Rightarrow> unit res) option" "(int \<Rightarrow> byte list \<Rightarrow> unit res) option"
  | Store_msi

record rc_region =
  rg_addr :: int
  rg_size :: int
  rg_store :: rc_store

text \<open>An MSI signal is either the one that \<open>configure_msi\<close> creates for a message number or one that a
  test bench registers. A registered call-back is an identifier; \<open>rc_called\<close> lists the calls made.\<close>

datatype msi_signal = Msi_signal int | User_signal nat

record root_complex =
  rc_req :: requester
  rc_rx_tlp_handler :: "int \<times> int \<Rightarrow> rx_handler option"
  rc_bridge :: bridge
  rc_tree :: tree
  rc_io_base :: int
  rc_io_limit :: int
  rc_mem_base :: int
  rc_mem_limit :: int
  rc_prefetchable_mem_base :: int
  rc_prefetchable_mem_limit :: int
  rc_max_payload_size :: int
  rc_max_read_request_size :: int
  rc_extended_tag_field_enable :: bool
  rc_region_base :: int
  rc_region_limit :: int
  rc_io_region_base :: int
  rc_io_region_limit :: int
  rc_regions :: "rc_region list"
  rc_io_regions :: "rc_region list"
  rc_msi_addr :: "int option"
  rc_msi_msg_limit :: int
  rc_msi_signals :: "int \<rightharpoonup> msi_signal list"
  rc_msi_callbacks :: "int \<rightharpoonup> nat list"
  rc_signal :: "msi_signal \<Rightarrow> bool"
  rc_called :: "nat list"

definition rc_register_rx_tlp_handler :: "int \<times> int \<Rightarrow> rx_handler \<Rightarrow> root_complex \<Rightarrow> root_complex" where
  "rc_register_rx_tlp_handler ft h rc = rc\<lparr>rc_rx_tlp_handler := (rc_rx_tlp_handler rc)(ft \<mapsto> h)\<rparr>"

definition host_windows :: "root_complex \<Rightarrow> root_complex" where
  "host_windows rc = rc\<lparr>rc_bridge := (rc_bridge rc)
     \<lparr>io_base := rc_io_base rc, io_limit := rc_io_limit rc, mem_base := rc_mem_base rc, mem_limit := rc_mem_limit rc,
      prefetchable_mem_base := rc_prefetchable_mem_base rc, prefetchable_mem_limit := rc_prefetchable_mem_limit rc\<rparr>\<rparr>"

definition rc_init :: "bridge \<Rightarrow> root_complex" where
  "rc_init hb =
     \<lparr>rc_req = \<lparr>current_tag = 0, rx_cpl_queues = replicate 256 []\<rparr>, rc_rx_tlp_handler = Map.empty,
      rc_bridge = hb\<lparr>is_root := True, upstream_tx_set := True\<rparr>, rc_tree = TreeItem tree_init [],
      rc_io_base = 0x80000000, rc_io_limit = 0x80000000, rc_mem_base = 0x80000000, rc_mem_limit = 0x80000000,
      rc_prefetchable_mem_base = 0x8000000000000000, rc_prefetchable_mem_limit = 0x8000000000000000,
      rc_max_payload_size = 0, rc_max_read_request_size = 2, rc_extended_tag_field_enable = True,
      rc_region_base = 0, rc_region_limit = 0, rc_io_region_base = 0, rc_io_region_limit = 0,
      rc_regions = [], rc_io_regions = [], rc_msi_addr = None, rc_msi_msg_limit = 0,
      rc_msi_signals = Map.empty, rc_msi_callbacks = Map.empty, rc_signal = (\<lambda>_. False), rc_called = []\<rparr>"

definition RootComplex :: "root_complex res" where
  "RootComplex = bindE HostBridge (\<lambda>hb.
     Inr (rc_register_rx_tlp_handler TLP_MEM_WRITE_64 Handle_mem_write
       (rc_register_rx_tlp_handler TLP_MEM_WRITE Handle_mem_write
       (rc_register_rx_tlp_handler TLP_MEM_READ_64 Handle_mem_read
       (rc_register_rx_tlp_handler TLP_MEM_READ Handle_mem_read
       (rc_register_rx_tlp_handler TLP_IO_WRITE Handle_io_write
       (rc_register_rx_tlp_handler TLP_IO_READ Handle_io_read
         (host_windows (rc_init hb)))))))))"

section \<open>Regions\<close>

text \<open>\<open>st\<close> is \<open>None\<close> when neither call-back is given. \<open>clog2\<close> stands for \<open>math.ceil(math.log(size, 2))\<close>.\<close>

definition new_region :: "int \<Rightarrow> int \<Rightarrow> rc_store option \<Rightarrow> rc_region" where
  "new_region addr sz st =
     \<lparr>rg_addr = addr, rg_size = sz, rg_store = (case st of None \<Rightarrow> Store_mem (replicate (nat sz) 0) | Some s \<Rightarrow> s)\<rparr>"

definition alloc_region :: "(int \<Rightarrow> nat) \<Rightarrow> int \<Rightarrow> rc_store option \<Rightarrow> root_complex \<Rightarrow> (int \<times> root_complex) res" where
  "alloc_region clog2 sz st rc =
     (if sz \<le> 0 then Inl ValueError
      else let addr = align (rc_region_limit rc) (2 ^ clog2 sz - 1)
           in Inr (addr, rc\<lparr>rc_region_limit := addr + sz - 1, rc_regions := rc_regions rc @ [new_region addr sz st]\<rparr>))"

definition alloc_io_region :: "(int \<Rightarrow> nat) \<Rightarrow> int \<Rightarrow> rc_store option \<Rightarrow> root_complex \<Rightarrow> (int \<times> root_complex) res" where
  "alloc_io_region clog2 sz st rc =
     (if sz \<le> 0 then Inl ValueError
      else let addr = align (rc_io_region_limit rc) (2 ^ clog2 sz - 1)
           in Inr (addr, rc\<lparr>rc_io_region_limit := addr + sz - 1, rc_io_regions := rc_io_regions rc @ [new_region addr sz st]\<rparr>))"

definition in_region :: "int \<Rightarrow> rc_region \<Rightarrow> bool" where
  "in_region addr rg \<longleftrightarrow> rg_addr rg \<le> addr \<and> addr < rg_addr rg + rg_size rg"

definition find_region :: "root_complex \<Rightarrow> int \<Rightarrow> rc_region option" where
  "find_region rc addr = find (in_region addr) (rc_regions rc)"

definition find_io_region :: "root_complex \<Rightarrow> int \<Rightarrow> rc_region option" where
  "find_io_region rc addr = find (in_region addr) (rc_io_regions rc)"

definition rc_read_region :: "root_complex \<Rightarrow> int \<Rightarrow> int \<Rightarrow> byte list option res" where
  "rc_read_region rc addr len =
     (case find_region rc addr of
        None \<Rightarrow> Inl (PyException ''Invalid address'')
      | Some rg \<Rightarrow>
          let offset = addr - rg_addr rg
          in case rg_store rg of
               Store_mem m \<Rightarrow> Inr (Some (py_slice offset (offset + len) m))
             | Store_callback rd wr \<Rightarrow>
                 (case rd of None \<Rightarrow> Inl TypeError | Some g \<Rightarrow> bindE (g offset len) (\<lambda>_. Inr None))
             | Store_msi \<Rightarrow> Inr None)"

text \<open>The read call-back of an IO region is called with the undefined name \<open>data\<close>.\<close>

definition read_io_region :: "root_complex \<Rightarrow> int \<Rightarrow> int \<Rightarrow> byte list res" where
  "read_io_region rc addr len =
     (case find_io_region rc addr of
        None \<Rightarrow> Inl (PyException ''Invalid address'')
      | Some rg \<Rightarrow>
          let offset = addr - rg_addr rg
          in case rg_store rg of
               Store_mem m \<Rightarrow> Inr (py_slice offset (offset + len) m)
             | _ \<Rightarrow> Inl NameError)"

text \<open>The first region that contains the address is changed. An assignment to a slice of an \<open>mmap\<close> object
  must have the length of the slice.\<close>

fun put_store :: "int \<Rightarrow> rc_store \<Rightarrow> rc_region list \<Rightarrow> rc_region list" where
  "put_store addr st [] = []"
| "put_store addr st (rg # rgs) =
     (if in_region addr rg then rg\<lparr>rg_store := st\<rparr> # rgs else rg # put_store addr st rgs)"

definition mmap_assign :: "int \<Rightarrow> byte list \<Rightarrow> byte list \<Rightarrow> byte list res" where
  "mmap_assign offset data m =
     (if length (py_slice offset (offset + int (length data)) m) = length data
      then Inr (py_splice offset (offset + int (length data)) data m) else Inl IndexError)"

definition call_write :: "(int \<Rightarrow> byte list \<Rightarrow> unit res) option \<Rightarrow> int \<Rightarrow> byte list \<Rightarrow> unit res" where
  "call_write wr offset data = (case wr of None \<Rightarrow> Inl TypeError | Some g \<Rightarrow> g offset data)"

definition msi_region_read :: "int \<Rightarrow> int \<Rightarrow> byte list" where
  "msi_region_read addr len = replicate (nat len) 0"

definition msi_region_write :: "int \<Rightarrow> byte list \<Rightarrow> root_complex \<Rightarrow> root_complex res" where
  "msi_region_write addr data rc =
     bindE (assertE (addr = 0)) (\<lambda>_. bindE (assertE (length data = 4)) (\<lambda>_.
     bindE (unpack_L data) (\<lambda>number.
       case rc_msi_signals rc number of
         None \<Rightarrow> Inl AssertionError
       | Some sigs \<Rightarrow>
           (case rc_msi_callbacks rc number of
              None \<Rightarrow> Inl KeyError
            | Some cbs \<Rightarrow>
                Inr (rc\<lparr>rc_signal := (\<lambda>s. if s \<in> set sigs then \<not> rc_signal rc s else rc_signal rc s),
                        rc_called := rc_called rc @ cbs\<rparr>)))))"

definition rc_write_region :: "int \<Rightarrow> byte list \<Rightarrow> root_complex \<Rightarrow> root_complex res" where
  "rc_write_region addr data rc =
     (case find_region rc addr of
        None \<Rightarrow> Inl (PyException ''Invalid address'')
      | Some rg \<Rightarrow>
          let offset = addr - rg_addr rg
          in case rg_store rg of
               Store_mem m \<Rightarrow>
                 bindE (mmap_assign offset data m) (\<lambda>m'.
                   Inr (rc\<lparr>rc_regions := put_store addr (Store_mem m') (rc_regions rc)\<rparr>))
             | Store_callback rd wr \<Rightarrow> bindE (call_write wr offset data) (\<lambda>_. Inr rc)
             | Store_msi \<Rightarrow> msi_region_write offset data rc)"

definition write_io_region :: "int \<Rightarrow> byte list \<Rightarrow> root_complex \<Rightarrow> root_complex res" where
  "write_io_region addr data rc =
     (case find_io_region rc addr of
        None \<Rightarrow> Inl (PyException ''Invalid address'')
      | Some rg \<Rightarrow>
          let offset = addr - rg_addr rg
          in case rg_store rg of
               Store_mem m \<Rightarrow>
                 bindE (mmap_assign offset data m) (\<lambda>m'.
                   Inr (rc\<lparr>rc_io_regions := put_store addr (Store_mem m') (rc_io_regions rc)\<rparr>))
             | Store_callback rd wr \<Rightarrow> bindE (call_write wr offset data) (\<lambda>_. Inr rc)
             | Store_msi \<Rightarrow> msi_region_write offset data rc)"

section \<open>Received packets\<close>

definition rc_send :: "tlp \<Rightarrow> unit res" where
  "rc_send t = assertE (tlp_check t)"

definition rc_reply :: "tlp \<Rightarrow> root_complex \<Rightarrow> (root_complex \<times> tlp list) res" where
  "rc_reply c rc = bindE (rc_send c) (\<lambda>_. Inr (rc, [c]))"

definition rc_ur :: "tlp \<Rightarrow> root_complex \<Rightarrow> (root_complex \<times> tlp list) res" where
  "rc_ur t rc = rc_reply (set_ur_completion t (PcieId 0 0 0) TLP) rc"

definition rc_handle_io_read_tlp :: "tlp \<Rightarrow> root_complex \<Rightarrow> (root_complex \<times> tlp list) res" where
  "rc_handle_io_read_tlp t rc =
     (if find_io_region rc (tlp_address t) \<noteq> None then
        bindE (assertE (tlp_length t = 1)) (\<lambda>_.
        bindE (be_single (\<lambda>so off d. bindE (read_io_region rc (tlp_address t + int so) (int (off - so)))
                   (\<lambda>bs. Inr (splice so off bs d))) t (replicate 4 0)) (\<lambda>data.
        bindE (set_data data (set_completion_data t (PcieId 0 0 0) TLP)) (\<lambda>cpl.
          rc_reply (cpl\<lparr>tlp_byte_count := 4, tlp_length := 1\<rparr>) rc)))
      else rc_ur t rc)"

definition rc_handle_io_write_tlp :: "tlp \<Rightarrow> root_complex \<Rightarrow> (root_complex \<times> tlp list) res" where
  "rc_handle_io_write_tlp t rc =
     (if find_io_region rc (tlp_address t) \<noteq> None then
        bindE (assertE (tlp_length t = 1)) (\<lambda>_.
        bindE (get_data t) (\<lambda>data.
        bindE (be_single (\<lambda>so off. write_io_region (tlp_address t + int so) (slice so off data)) t rc) (\<lambda>rc1.
          rc_reply ((set_completion t (PcieId 0 0 0) False CPL_STATUS_SC TLP)\<lparr>tlp_byte_count := 4\<rparr>) rc1)))
      else rc_ur t rc)"

text \<open>A region with call-backs gives no data, which cannot be sliced.\<close>

definition rc_handle_mem_read_tlp :: "tlp \<Rightarrow> root_complex \<Rightarrow> (root_complex \<times> tlp list) res" where
  "rc_handle_mem_read_tlp t rc =
     (if find_region rc (tlp_address t) \<noteq> None then
        if tlp_length t * 4 > 0x1000 - (tlp_address t AND 0xfff) then Inr (rc, [])
        else bindE (rc_read_region rc (tlp_address t) (tlp_length t * 4)) (\<lambda>d.
             bindE (case d of
                      Some data \<Rightarrow> mem_read_completions rc_send (PcieId 0 0 0) (nat (rc_max_payload_size rc)) t data
                    | None \<Rightarrow> if 0 < tlp_length t then Inl TypeError else Inr []) (\<lambda>cpls. Inr (rc, cpls)))
      else rc_ur t rc)"

definition rc_handle_mem_write_tlp :: "tlp \<Rightarrow> root_complex \<Rightarrow> (root_complex \<times> tlp list) res" where
  "rc_handle_mem_write_tlp t rc =
     (if find_region rc (tlp_address t) \<noteq> None then
        if tlp_length t * 4 > 0x1000 - (tlp_address t AND 0xfff) then Inr (rc, [])
        else bindE (get_data t) (\<lambda>data.
             bindE (be_multi (\<lambda>so off. rc_write_region (tlp_address t + int so) (slice so off data)) t rc) (\<lambda>rc1.
               Inr (rc1, [])))
      else Inr (rc, []))"

definition rc_run :: "rx_handler \<Rightarrow> tlp \<Rightarrow> root_complex \<Rightarrow> (root_complex \<times> tlp list) res" where
  "rc_run h t rc =
     (case h of
        Handle_config_0 \<Rightarrow> Inl AttributeError
      | Handle_io_read \<Rightarrow> rc_handle_io_read_tlp t rc
      | Handle_io_write \<Rightarrow> rc_handle_io_write_tlp t rc
      | Handle_mem_read \<Rightarrow> rc_handle_mem_read_tlp t rc
      | Handle_mem_write \<Rightarrow> rc_handle_mem_write_tlp t rc)"

definition rc_handle_tlp :: "tlp \<Rightarrow> root_complex \<Rightarrow> (root_complex \<times> tlp list) res" where
  "rc_handle_tlp t rc =
     (if is_cpl t then bindE (push_cpl t (rc_req rc)) (\<lambda>rq. Inr (rc\<lparr>rc_req := rq\<rparr>, []))
      else case rc_rx_tlp_handler rc (fmt_type t) of
        Some h \<Rightarrow> rc_run h t rc
      | None \<Rightarrow> Inl (PyException ''Unhandled TLP''))"

definition rc_downstream_recv :: "tlp \<Rightarrow> root_complex \<Rightarrow> (root_complex \<times> tlp list) res" where
  "rc_downstream_recv t rc = bindE (assertE (tlp_check t)) (\<lambda>_. rc_handle_tlp t rc)"

text \<open>\<open>downstream_send\<close>: the packet enters the host bridge, on whose internal bus are the root ports.\<close>

definition rc_downstream_send :: "bus_dev list \<Rightarrow> tlp \<Rightarrow> root_complex \<Rightarrow> (root_complex \<times> bridge_out list) res" where
  "rc_downstream_send ports t rc =
     bindE (rc_send t) (\<lambda>_.
     bindE (br_upstream_recv (bus_route ports) t (rc_bridge rc)) (\<lambda>(b, outs). Inr (rc\<lparr>rc_bridge := b\<rparr>, outs)))"

section \<open>Requests\<close>

text \<open>The accesses change the root complex and the fabric behind it.\<close>

definition on_req ::
  "(requester \<Rightarrow> 'e \<Rightarrow> ('a \<times> requester \<times> 'e) res) \<Rightarrow> (root_complex \<times> 'e, 'a) stm" where
  "on_req g = (\<lambda>(rc, e). bindE (g (rc_req rc) e) (\<lambda>(x, rq, e'). Inr (x, rc\<lparr>rc_req := rq\<rparr>, e')))"

definition no_value :: "(requester \<times> 'e) res \<Rightarrow> (unit \<times> requester \<times> 'e) res" where
  "no_value r = bindE r (\<lambda>(rq, e). Inr ((), rq, e))"

definition rc_get_free_tag :: "root_complex \<Rightarrow> int option \<times> root_complex" where
  "rc_get_free_tag rc = (case free_tag_loop 32 32 (rc_req rc) of (t, rq) \<Rightarrow> (t, rc\<lparr>rc_req := rq\<rparr>))"

definition rc_recv_cpl :: "int \<Rightarrow> root_complex \<Rightarrow> (tlp option \<times> root_complex) res" where
  "rc_recv_cpl tag rc = bindE (pop_cpl tag (rc_req rc)) (\<lambda>(c, rq). Inr (c, rc\<lparr>rc_req := rq\<rparr>))"

definition rc_proto :: "int \<times> int \<Rightarrow> tlp" where
  "rc_proto ft = set_fmt_type ft (TLP\<lparr>tlp_requester_id := PcieId 0 0 0\<rparr>)"

text \<open>A missing or unsuccessful completion reads as all ones.\<close>

definition config_dword :: "tlp option \<Rightarrow> byte list res" where
  "config_dword c = (case c of None \<Rightarrow> Inr (replicate 4 (- 1))
     | Some t \<Rightarrow> if tlp_status t \<noteq> CPL_STATUS_SC then Inr (replicate 4 (- 1)) else cpl_dword t)"

definition config_register :: "int \<Rightarrow> tlp \<Rightarrow> tlp" where
  "config_register addr t = t\<lparr>tlp_register_number := drop_bit 2 addr\<rparr>"

definition config_read :: "'e net \<Rightarrow> pcie_id \<Rightarrow> int \<Rightarrow> int \<Rightarrow> (root_complex \<times> 'e, byte list) stm" where
  "config_read net dev addr len =
     on_req (dword_read_loop rc_send net 32 config_register config_dword
       ((rc_proto TLP_CFG_READ_1)\<lparr>tlp_dest_id := dev\<rparr>) 0 len addr [])"

definition config_write :: "'e net \<Rightarrow> pcie_id \<Rightarrow> int \<Rightarrow> byte list \<Rightarrow> (root_complex \<times> 'e, unit) stm" where
  "config_write net dev addr data =
     on_req (\<lambda>rq e. no_value (dword_write_loop rc_send net 32 config_register (\<lambda>_. Inr ())
       ((rc_proto TLP_CFG_WRITE_1)\<lparr>tlp_dest_id := dev\<rparr>) 0 data addr rq e))"


subsection \<open>Word accesses\<close>

text \<open>The word accessors of the four kinds of access differ only in the read or write that they call.\<close>

definition read_words :: "(int \<Rightarrow> ('s, byte list) stm) \<Rightarrow> nat \<Rightarrow> nat \<Rightarrow> ('s, int list) stm" where
  "read_words rd count ws =
     bindS (liftS (assertE (word_size_ok ws))) (\<lambda>_.
     bindS (rd (int (count * ws))) (\<lambda>data. retS (words_of_bytes ws count data)))"

definition write_words :: "(byte list \<Rightarrow> ('s, unit) stm) \<Rightarrow> int list \<Rightarrow> nat \<Rightarrow> ('s, unit) stm" where
  "write_words wr words ws =
     bindS (liftS (assertE (word_size_ok ws))) (\<lambda>_. bindS (liftS (words_to_bytes ws words)) wr)"

definition first_of :: "('s, 'a list) stm \<Rightarrow> ('s, 'a) stm" where
  "first_of m = bindS m (\<lambda>xs. liftS (nth_res xs 0))"

subsubsection \<open>Configuration space\<close>

definition config_read_words :: "'e net \<Rightarrow> pcie_id \<Rightarrow> int \<Rightarrow> nat \<Rightarrow> nat \<Rightarrow> (root_complex \<times> 'e, int list) stm" where
  "config_read_words net dev addr count ws = read_words (config_read net dev addr) count ws"

definition config_read_dwords :: "'e net \<Rightarrow> pcie_id \<Rightarrow> int \<Rightarrow> nat \<Rightarrow> (root_complex \<times> 'e, int list) stm" where
  "config_read_dwords net dev addr count = config_read_words net dev addr count 4"

definition config_read_qwords :: "'e net \<Rightarrow> pcie_id \<Rightarrow> int \<Rightarrow> nat \<Rightarrow> (root_complex \<times> 'e, int list) stm" where
  "config_read_qwords net dev addr count = config_read_words net dev addr count 8"

definition config_read_byte :: "'e net \<Rightarrow> pcie_id \<Rightarrow> int \<Rightarrow> (root_complex \<times> 'e, byte) stm" where
  "config_read_byte net dev addr = first_of (config_read net dev addr 1)"

definition config_read_word :: "'e net \<Rightarrow> pcie_id \<Rightarrow> int \<Rightarrow> (root_complex \<times> 'e, int) stm" where
  "config_read_word net dev addr = first_of (config_read_words net dev addr 1 2)"

definition config_read_dword :: "'e net \<Rightarrow> pcie_id \<Rightarrow> int \<Rightarrow> (root_complex \<times> 'e, int) stm" where
  "config_read_dword net dev addr = first_of (config_read_dwords net dev addr 1)"

definition config_read_qword :: "'e net \<Rightarrow> pcie_id \<Rightarrow> int \<Rightarrow> (root_complex \<times> 'e, int) stm" where
  "config_read_qword net dev addr = first_of (config_read_qwords net dev addr 1)"

text \<open>The byte accessors pass the list \<open>[data]\<close>, and adding a list to a \<open>bytearray\<close> is a \<open>TypeError\<close>.\<close>

definition config_write_words :: "'e net \<Rightarrow> pcie_id \<Rightarrow> int \<Rightarrow> int list \<Rightarrow> nat \<Rightarrow> (root_complex \<times> 'e, unit) stm" where
  "config_write_words net dev addr words ws = write_words (config_write net dev addr) words ws"

definition config_write_dwords :: "'e net \<Rightarrow> pcie_id \<Rightarrow> int \<Rightarrow> int list \<Rightarrow> (root_complex \<times> 'e, unit) stm" where
  "config_write_dwords net dev addr words = config_write_words net dev addr words 4"

definition config_write_qwords :: "'e net \<Rightarrow> pcie_id \<Rightarrow> int \<Rightarrow> int list \<Rightarrow> (root_complex \<times> 'e, unit) stm" where
  "config_write_qwords net dev addr words = config_write_words net dev addr words 8"

definition config_write_byte :: "(root_complex \<times> 'e, unit) stm" where
  "config_write_byte = errS TypeError"

definition config_write_word :: "'e net \<Rightarrow> pcie_id \<Rightarrow> int \<Rightarrow> int \<Rightarrow> (root_complex \<times> 'e, unit) stm" where
  "config_write_word net dev addr w = config_write_words net dev addr [w] 2"

definition config_write_dword :: "'e net \<Rightarrow> pcie_id \<Rightarrow> int \<Rightarrow> int \<Rightarrow> (root_complex \<times> 'e, unit) stm" where
  "config_write_dword net dev addr w = config_write_dwords net dev addr [w]"

definition config_write_qword :: "'e net \<Rightarrow> pcie_id \<Rightarrow> int \<Rightarrow> int \<Rightarrow> (root_complex \<times> 'e, unit) stm" where
  "config_write_qword net dev addr w = config_write_qwords net dev addr [w]"

subsubsection \<open>Capabilities\<close>

definition cap_offset :: "pcie_id \<Rightarrow> int \<Rightarrow> (root_complex \<times> 'e, int) stm" where
  "cap_offset dev cap =
     bindS (getS (\<lambda>(rc, e). rc_tree rc)) (\<lambda>tree.
       case find_dev dev tree of
         None \<Rightarrow> errS (PyException ''Device not found'')
       | Some ti \<Rightarrow>
           (case get_capability_offset ti cap of
              None \<Rightarrow> errS (PyException ''Capability not found'')
            | Some offset \<Rightarrow> if offset = 0 then errS (PyException ''Capability not found'') else retS offset))"

definition capability_read :: "'e net \<Rightarrow> pcie_id \<Rightarrow> int \<Rightarrow> int \<Rightarrow> int \<Rightarrow> (root_complex \<times> 'e, byte list) stm" where
  "capability_read net dev cap addr len =
     bindS (cap_offset dev cap) (\<lambda>offset. config_read net dev (addr + offset) len)"

definition capability_write :: "'e net \<Rightarrow> pcie_id \<Rightarrow> int \<Rightarrow> int \<Rightarrow> byte list \<Rightarrow> (root_complex \<times> 'e, unit) stm" where
  "capability_write net dev cap addr data =
     bindS (cap_offset dev cap) (\<lambda>offset. config_write net dev (addr + offset) data)"

definition capability_read_words :: "'e net \<Rightarrow> pcie_id \<Rightarrow> int \<Rightarrow> int \<Rightarrow> nat \<Rightarrow> nat \<Rightarrow> (root_complex \<times> 'e, int list) stm" where
  "capability_read_words net dev cap addr count ws = read_words (capability_read net dev cap addr) count ws"

definition capability_read_dwords :: "'e net \<Rightarrow> pcie_id \<Rightarrow> int \<Rightarrow> int \<Rightarrow> nat \<Rightarrow> (root_complex \<times> 'e, int list) stm" where
  "capability_read_dwords net dev cap addr count = capability_read_words net dev cap addr count 4"

definition capability_read_qwords :: "'e net \<Rightarrow> pcie_id \<Rightarrow> int \<Rightarrow> int \<Rightarrow> nat \<Rightarrow> (root_complex \<times> 'e, int list) stm" where
  "capability_read_qwords net dev cap addr count = capability_read_words net dev cap addr count 8"

definition capability_read_byte :: "'e net \<Rightarrow> pcie_id \<Rightarrow> int \<Rightarrow> int \<Rightarrow> (root_complex \<times> 'e, byte) stm" where
  "capability_read_byte net dev cap addr = first_of (capability_read net dev cap addr 1)"

definition capability_read_word :: "'e net \<Rightarrow> pcie_id \<Rightarrow> int \<Rightarrow> int \<Rightarrow> (root_complex \<times> 'e, int) stm" where
  "capability_read_word net dev cap addr = first_of (capability_read_words net dev cap addr 1 2)"

definition capability_read_dword :: "'e net \<Rightarrow> pcie_id \<Rightarrow> int \<Rightarrow> int \<Rightarrow> (root_complex \<times> 'e, int) stm" where
  "capability_read_dword net dev cap addr = first_of (capability_read_dwords net dev cap addr 1)"

definition capability_read_qword :: "'e net \<Rightarrow> pcie_id \<Rightarrow> int \<Rightarrow> int \<Rightarrow> (root_complex \<times> 'e, int) stm" where
  "capability_read_qword net dev cap addr = first_of (capability_read_qwords net dev cap addr 1)"

definition capability_write_words :: "'e net \<Rightarrow> pcie_id \<Rightarrow> int \<Rightarrow> int \<Rightarrow> int list \<Rightarrow> nat \<Rightarrow> (root_complex \<times> 'e, unit) stm" where
  "capability_write_words net dev cap addr words ws = write_words (capability_write net dev cap addr) words ws"

definition capability_write_dwords :: "'e net \<Rightarrow> pcie_id \<Rightarrow> int \<Rightarrow> int \<Rightarrow> int list \<Rightarrow> (root_complex \<times> 'e, unit) stm" where
  "capability_write_dwords net dev cap addr words = capability_write_words net dev cap addr words 4"

definition capability_write_qwords :: "'e net \<Rightarrow> pcie_id \<Rightarrow> int \<Rightarrow> int \<Rightarrow> int list \<Rightarrow> (root_complex \<times> 'e, unit) stm" where
  "capability_write_qwords net dev cap addr words = capability_write_words net dev cap addr words 8"

definition capability_write_byte :: "pcie_id \<Rightarrow> int \<Rightarrow> (root_complex \<times> 'e, unit) stm" where
  "capability_write_byte dev cap = bindS (cap_offset dev cap) (\<lambda>_. errS TypeError)"

definition capability_write_word :: "'e net \<Rightarrow> pcie_id \<Rightarrow> int \<Rightarrow> int \<Rightarrow> int \<Rightarrow> (root_complex \<times> 'e, unit) stm" where
  "capability_write_word net dev cap addr w = capability_write_words net dev cap addr [w] 2"

definition capability_write_dword :: "'e net \<Rightarrow> pcie_id \<Rightarrow> int \<Rightarrow> int \<Rightarrow> int \<Rightarrow> (root_complex \<times> 'e, unit) stm" where
  "capability_write_dword net dev cap addr w = capability_write_dwords net dev cap addr [w]"

definition capability_write_qword :: "'e net \<Rightarrow> pcie_id \<Rightarrow> int \<Rightarrow> int \<Rightarrow> int \<Rightarrow> (root_complex \<times> 'e, unit) stm" where
  "capability_write_qword net dev cap addr w = capability_write_qwords net dev cap addr [w]"

subsubsection \<open>IO space\<close>

text \<open>The test of \<open>io_read\<close> and \<open>io_write\<close> looks the address up in the memory regions.\<close>

definition rc_io_read :: "'e net \<Rightarrow> int \<Rightarrow> int \<Rightarrow> (root_complex \<times> 'e, byte list) stm" where
  "rc_io_read net addr len =
     (\<lambda>(rc, e). if find_region rc addr \<noteq> None
        then bindE (read_io_region rc addr len) (\<lambda>data. Inr (data, rc, e))
        else on_req (dword_read_loop rc_send net 32 (\<lambda>_ t. t) (\<lambda>c. bindE (check_cpl c) cpl_dword)
               (rc_proto TLP_IO_READ) 0 len addr []) (rc, e))"

definition rc_io_write :: "'e net \<Rightarrow> int \<Rightarrow> byte list \<Rightarrow> (root_complex \<times> 'e, unit) stm" where
  "rc_io_write net addr data =
     (\<lambda>(rc, e). if find_region rc addr \<noteq> None
        then bindE (write_io_region addr data rc) (\<lambda>rc'. Inr ((), rc', e))
        else on_req (\<lambda>rq e. no_value (dword_write_loop rc_send net 32 (\<lambda>_ t. t)
               (\<lambda>c. bindE (check_cpl c) (\<lambda>_. Inr ())) (rc_proto TLP_IO_WRITE) 0 data addr rq e)) (rc, e))"

text \<open>As in \<open>Function\<close>, the word accessors pass two arguments too many.\<close>

definition rc_io_read_words :: "nat \<Rightarrow> (root_complex \<times> 'e, 'b) stm" where
  "rc_io_read_words ws = bindS (liftS (assertE (word_size_ok ws))) (\<lambda>_. errS TypeError)"

definition rc_io_read_dwords :: "(root_complex \<times> 'e, 'b) stm" where
  "rc_io_read_dwords = rc_io_read_words 4"

definition rc_io_read_qwords :: "(root_complex \<times> 'e, 'b) stm" where
  "rc_io_read_qwords = rc_io_read_words 8"

definition rc_io_read_byte :: "(root_complex \<times> 'e, 'b) stm" where
  "rc_io_read_byte = errS TypeError"

definition rc_io_read_word :: "(root_complex \<times> 'e, 'b) stm" where
  "rc_io_read_word = rc_io_read_words 2"

definition rc_io_read_dword :: "(root_complex \<times> 'e, 'b) stm" where
  "rc_io_read_dword = rc_io_read_dwords"

definition rc_io_read_qword :: "(root_complex \<times> 'e, 'b) stm" where
  "rc_io_read_qword = rc_io_read_qwords"

definition rc_io_write_words :: "int list \<Rightarrow> nat \<Rightarrow> (root_complex \<times> 'e, unit) stm" where
  "rc_io_write_words words ws = write_words (\<lambda>_. errS TypeError) words ws"

definition rc_io_write_dwords :: "int list \<Rightarrow> (root_complex \<times> 'e, unit) stm" where
  "rc_io_write_dwords words = rc_io_write_words words 4"

definition rc_io_write_qwords :: "int list \<Rightarrow> (root_complex \<times> 'e, unit) stm" where
  "rc_io_write_qwords words = rc_io_write_words words 8"

definition rc_io_write_byte :: "(root_complex \<times> 'e, unit) stm" where
  "rc_io_write_byte = errS TypeError"

definition rc_io_write_word :: "int \<Rightarrow> (root_complex \<times> 'e, unit) stm" where
  "rc_io_write_word w = rc_io_write_words [w] 2"

definition rc_io_write_dword :: "int \<Rightarrow> (root_complex \<times> 'e, unit) stm" where
  "rc_io_write_dword w = rc_io_write_dwords [w]"

definition rc_io_write_qword :: "int \<Rightarrow> (root_complex \<times> 'e, unit) stm" where
  "rc_io_write_qword w = rc_io_write_qwords [w]"

subsubsection \<open>Memory space\<close>

definition rc_mem_read :: "'e net \<Rightarrow> int \<Rightarrow> int \<Rightarrow> int \<Rightarrow> int \<Rightarrow> (root_complex \<times> 'e, byte list option) stm" where
  "rc_mem_read net at tc addr len =
     (\<lambda>(rc, e). if find_region rc addr \<noteq> None
        then bindE (rc_read_region rc addr len) (\<lambda>val. Inr (val, rc, e))
        else on_req (\<lambda>rq e. bindE (mem_read_loop rc_send net 32 (\<lambda>l. l) (nat (rc_max_read_request_size rc))
               (TLP\<lparr>tlp_requester_id := PcieId 0 0 0, tlp_attr := at, tlp_tc := tc\<rparr>) 0 len addr [] rq e)
               (\<lambda>(data, st). Inr (Some data, st))) (rc, e))"

definition rc_mem_write :: "'e net \<Rightarrow> int \<Rightarrow> int \<Rightarrow> int \<Rightarrow> byte list \<Rightarrow> (root_complex \<times> 'e, unit) stm" where
  "rc_mem_write net at tc addr data =
     (\<lambda>(rc, e). if find_region rc addr \<noteq> None
        then bindE (rc_write_region addr data rc) (\<lambda>rc'. Inr ((), rc', e))
        else on_req (\<lambda>rq e. no_value (mem_write_loop rc_send net (nat (rc_max_payload_size rc))
               (TLP\<lparr>tlp_requester_id := PcieId 0 0 0, tlp_attr := at, tlp_tc := tc\<rparr>) 0 data addr rq e)) (rc, e))"

text \<open>A read of a region with call-backs gives \<open>None\<close>, which has no slices and no elements.\<close>

definition rc_mem_read_words ::
  "'e net \<Rightarrow> int \<Rightarrow> int \<Rightarrow> int \<Rightarrow> nat \<Rightarrow> nat \<Rightarrow> (root_complex \<times> 'e, int list) stm" where
  "rc_mem_read_words net at tc addr count ws =
     bindS (liftS (assertE (word_size_ok ws))) (\<lambda>_.
     bindS (rc_mem_read net at tc addr (int (count * ws))) (\<lambda>d. liftS (words_of_read ws count d)))"

definition rc_mem_read_byte :: "'e net \<Rightarrow> int \<Rightarrow> int \<Rightarrow> int \<Rightarrow> (root_complex \<times> 'e, byte) stm" where
  "rc_mem_read_byte net at tc addr =
     bindS (rc_mem_read net at tc addr 1) (\<lambda>d.
       case d of None \<Rightarrow> errS TypeError | Some data \<Rightarrow> liftS (nth_res data 0))"

definition rc_mem_read_dwords :: "'e net \<Rightarrow> int \<Rightarrow> int \<Rightarrow> int \<Rightarrow> nat \<Rightarrow> (root_complex \<times> 'e, int list) stm" where
  "rc_mem_read_dwords net at tc addr count = rc_mem_read_words net at tc addr count 4"

definition rc_mem_read_qwords :: "'e net \<Rightarrow> int \<Rightarrow> int \<Rightarrow> int \<Rightarrow> nat \<Rightarrow> (root_complex \<times> 'e, int list) stm" where
  "rc_mem_read_qwords net at tc addr count = rc_mem_read_words net at tc addr count 8"

definition rc_mem_read_word :: "'e net \<Rightarrow> int \<Rightarrow> int \<Rightarrow> int \<Rightarrow> (root_complex \<times> 'e, int) stm" where
  "rc_mem_read_word net at tc addr = first_of (rc_mem_read_words net at tc addr 1 2)"

definition rc_mem_read_dword :: "'e net \<Rightarrow> int \<Rightarrow> int \<Rightarrow> int \<Rightarrow> (root_complex \<times> 'e, int) stm" where
  "rc_mem_read_dword net at tc addr = first_of (rc_mem_read_dwords net at tc addr 1)"

definition rc_mem_read_qword :: "'e net \<Rightarrow> int \<Rightarrow> int \<Rightarrow> int \<Rightarrow> (root_complex \<times> 'e, int) stm" where
  "rc_mem_read_qword net at tc addr = first_of (rc_mem_read_qwords net at tc addr 1)"

definition rc_mem_write_words :: "'e net \<Rightarrow> int \<Rightarrow> int \<Rightarrow> int \<Rightarrow> int list \<Rightarrow> nat \<Rightarrow> (root_complex \<times> 'e, unit) stm" where
  "rc_mem_write_words net at tc addr words ws = write_words (rc_mem_write net at tc addr) words ws"

definition rc_mem_write_dwords :: "'e net \<Rightarrow> int \<Rightarrow> int \<Rightarrow> int \<Rightarrow> int list \<Rightarrow> (root_complex \<times> 'e, unit) stm" where
  "rc_mem_write_dwords net at tc addr words = rc_mem_write_words net at tc addr words 4"

definition rc_mem_write_qwords :: "'e net \<Rightarrow> int \<Rightarrow> int \<Rightarrow> int \<Rightarrow> int list \<Rightarrow> (root_complex \<times> 'e, unit) stm" where
  "rc_mem_write_qwords net at tc addr words = rc_mem_write_words net at tc addr words 8"

text \<open>\<open>mem_write_byte\<close> passes the list \<open>[data]\<close>: neither an \<open>mmap\<close> slice nor a packet accepts it.\<close>

definition rc_mem_write_byte :: "int \<Rightarrow> byte \<Rightarrow> (root_complex \<times> 'e, unit) stm" where
  "rc_mem_write_byte addr b =
     (\<lambda>(rc, e). case find_region rc addr of
        None \<Rightarrow> Inl TypeError
      | Some rg \<Rightarrow> (case rg_store rg of
            Store_mem m \<Rightarrow> Inl TypeError
          | Store_callback rd wr \<Rightarrow> bindE (call_write wr (addr - rg_addr rg) [b]) (\<lambda>_. Inr ((), rc, e))
          | Store_msi \<Rightarrow> Inl AssertionError))"

definition rc_mem_write_word :: "'e net \<Rightarrow> int \<Rightarrow> int \<Rightarrow> int \<Rightarrow> int \<Rightarrow> (root_complex \<times> 'e, unit) stm" where
  "rc_mem_write_word net at tc addr w = rc_mem_write_words net at tc addr [w] 2"

definition rc_mem_write_dword :: "'e net \<Rightarrow> int \<Rightarrow> int \<Rightarrow> int \<Rightarrow> int \<Rightarrow> (root_complex \<times> 'e, unit) stm" where
  "rc_mem_write_dword net at tc addr w = rc_mem_write_dwords net at tc addr [w]"

definition rc_mem_write_qword :: "'e net \<Rightarrow> int \<Rightarrow> int \<Rightarrow> int \<Rightarrow> int \<Rightarrow> (root_complex \<times> 'e, unit) stm" where
  "rc_mem_write_qword net at tc addr w = rc_mem_write_qwords net at tc addr [w]"

section \<open>Properties\<close>

subsection \<open>Regions as byte stores\<close>

lemma in_region_store [simp]: "in_region a (rg\<lparr>rg_store := st\<rparr>) = in_region a rg"
  by (simp add: in_region_def)

lemma put_store_put_store: "put_store a st (put_store a st' rgs) = put_store a st rgs"
  by (induction rgs) auto

lemma put_store_same: "find (in_region a) rgs = Some rg \<Longrightarrow> put_store a (rg_store rg) rgs = rgs"
  by (induction rgs) (auto split: if_splits)

lemma find_in_region: "find (in_region a) rgs = Some rg \<Longrightarrow> in_region a rg"
  by (auto simp: find_Some_iff)

lemma find_put_store:
  "find (in_region a) rgs = Some rg \<Longrightarrow> find (in_region b) rgs = Some rg \<Longrightarrow>
     find (in_region b) (put_store a st rgs) = Some (rg\<lparr>rg_store := st\<rparr>)"
  by (induction rgs) (auto split: if_splits dest: find_in_region)

lemma find_put_store_other:
  "find (in_region a) rgs = Some rg \<Longrightarrow> \<not> in_region b rg \<Longrightarrow>
     find (in_region b) (put_store a st rgs) = find (in_region b) rgs"
  by (induction rgs) (auto split: if_splits)

lemma put_store_eq:
  "find (in_region a) rgs = Some rg \<Longrightarrow> find (in_region b) rgs = Some rg \<Longrightarrow> put_store a st rgs = put_store b st rgs"
  by (induction rgs) (auto split: if_splits dest: find_in_region)

text \<open>The memory of the region at address \<open>b\<close>, when every address of it leads to that region.\<close>

definition rc_get :: "int \<Rightarrow> root_complex \<Rightarrow> byte list option" where
  "rc_get b rc =
     (case find_region rc b of
        None \<Rightarrow> None
      | Some rg \<Rightarrow>
          (case rg_store rg of
             Store_mem m \<Rightarrow>
               if rg_addr rg = b \<and> rg_size rg = int (length m) \<and>
                  (\<forall>k < length m. find_region rc (b + int k) = Some rg) then Some m else None
           | _ \<Rightarrow> None))"

definition rc_put :: "int \<Rightarrow> byte list \<Rightarrow> root_complex \<Rightarrow> root_complex" where
  "rc_put b m rc = rc\<lparr>rc_regions := put_store b (Store_mem m) (rc_regions rc)\<rparr>"

lemma rc_get_Some:
  "rc_get b rc = Some m \<longleftrightarrow>
     (\<exists>rg. find_region rc b = Some rg \<and> rg_store rg = Store_mem m \<and> rg_addr rg = b \<and> rg_size rg = int (length m) \<and>
       (\<forall>k < length m. find_region rc (b + int k) = Some rg))"
  by (auto simp: rc_get_def split: option.splits rc_store.splits)

lemma rc_get_find:
  assumes "rc_get b rc = Some m" "b \<le> a" "a < b + int (length m)"
  obtains rg where "find_region rc a = Some rg" "rg_store rg = Store_mem m" "rg_addr rg = b"
proof -
  from assms(2,3) have "a = b + int (nat (a - b))" "nat (a - b) < length m" by linarith+
  with assms(1) that show ?thesis unfolding rc_get_Some by metis
qed

interpretation rc_store: byte_store rc_get rc_put "\<lambda>b k bs. rc_write_region (b + int k) bs"
proof
  fix b and rc :: root_complex and m m' bs :: "byte list" and k :: nat
  { assume "rc_get b rc = Some m" "length m' = length m"
    then show "rc_get b (rc_put b m' rc) = Some m'"
      by (auto simp: rc_get_Some rc_put_def find_region_def find_put_store) }
  { assume "rc_get b rc = Some m"
    then show "rc_put b m rc = rc"
      by (auto simp: rc_get_Some rc_put_def find_region_def dest: put_store_same) }
  show "rc_put b m (rc_put b m' rc) = rc_put b m rc"
    by (simp add: rc_put_def put_store_put_store)
  assume get: "rc_get b rc = Some m" and k: "bs \<noteq> []" "k + length bs \<le> length m"
  then have "k < length m" by (cases bs) auto
  with get obtain rg where rg: "find_region rc b = Some rg" "find_region rc (b + int k) = Some rg"
      "rg_store rg = Store_mem m" "rg_addr rg = b"
    unfolding rc_get_Some by blast
  have "py_slice (int k) (int k + int (length bs)) m = slice k (k + length bs) m"
    "py_splice (int k) (int k + int (length bs)) bs m = splice k (k + length bs) bs m"
    by (simp_all add: py_slice_nat py_splice_nat nat_add_distrib)
  then have "mmap_assign (int k) bs m = Inr (splice k (k + length bs) bs m)"
    using k by (simp add: mmap_assign_def)
  then show "rc_write_region (b + int k) bs rc = Inr (rc_put b (splice k (k + length bs) bs m) rc)"
    using rg put_store_eq [of "b + int k" "rc_regions rc" rg b]
    by (simp add: rc_write_region_def rc_put_def find_region_def)
qed

subsection \<open>The host memory as a target of requests\<close>

definition rc_net :: "root_complex net" where
  "rc_net rc t = bindE (rc_downstream_recv t rc) (\<lambda>(rc', out). Inr (out, rc'))"

definition rc_mem :: "int \<Rightarrow> root_complex \<Rightarrow> byte list" where
  "rc_mem b rc = (case rc_get b rc of None \<Rightarrow> [] | Some m \<Rightarrow> m)"

definition rc_handlers :: "root_complex \<Rightarrow> bool" where
  "rc_handlers rc \<longleftrightarrow>
     rc_rx_tlp_handler rc TLP_MEM_READ = Some Handle_mem_read \<and>
     rc_rx_tlp_handler rc TLP_MEM_READ_64 = Some Handle_mem_read \<and>
     rc_rx_tlp_handler rc TLP_MEM_WRITE = Some Handle_mem_write \<and>
     rc_rx_tlp_handler rc TLP_MEM_WRITE_64 = Some Handle_mem_write"

definition rc_serves :: "int \<Rightarrow> root_complex \<Rightarrow> bool" where
  "rc_serves b rc \<longleftrightarrow> rc_handlers rc \<and> rc_get b rc \<noteq> None \<and> 4 dvd b \<and> 4 dvd int (length (rc_mem b rc))"

lemma rc_serves_mem: "rc_serves b rc \<Longrightarrow> rc_get b rc = Some (rc_mem b rc)"
  by (auto simp: rc_serves_def rc_mem_def)

lemma rc_net_mem:
  assumes "rc_handlers rc" "tlp_check t"
  shows "fmt_type t = TLP_MEM_READ \<or> fmt_type t = TLP_MEM_READ_64 \<Longrightarrow>
      rc_net rc t = bindE (rc_handle_mem_read_tlp t rc) (\<lambda>(rc', out). Inr (out, rc'))"
    and "fmt_type t = TLP_MEM_WRITE \<or> fmt_type t = TLP_MEM_WRITE_64 \<Longrightarrow>
      rc_net rc t = bindE (rc_handle_mem_write_tlp t rc) (\<lambda>(rc', out). Inr (out, rc'))"
  using assms
  by (auto simp: rc_net_def rc_downstream_recv_def rc_handle_tlp_def is_cpl_def rc_handlers_def rc_run_def)

lemma rc_read_split:
  assumes rc: "rc_serves b rc" and a: "b \<le> a" "1 \<le> len" "a + len \<le> b + int (length (rc_mem b rc))"
    "a mod 4096 + len \<le> 4096" and t_def: "t = (mem_read_req a len p)\<lparr>tlp_tag := tag\<rparr>"
  shows "\<exists>cs. rc_handle_mem_read_tlp t rc = Inr (rc, cs) \<and>
    cpl_split a (slice (nat (a - b)) (nat (a - b + len)) (rc_mem b rc)) cs \<and>
    (\<forall>c\<in>set cs. cpl_for t (PcieId 0 0 0) (nat (rc_max_payload_size rc)) c)"
proof -
  let ?m = "rc_mem b rc" and ?A = "a - a mod 4" and ?o = "a - a mod 4 - b"
  have srv: "4 dvd b" "4 dvd int (length ?m)" using rc by (auto simp: rc_serves_def)
  note be = mem_read_req_be [OF a(2) t_def]
  note w = window_dwords [OF srv a(1-3) be(2)]
  have "b \<le> ?A" using w(1) by simp
  then obtain rg where rg: "find_region rc ?A = Some rg" "rg_store rg = Store_mem ?m" "rg_addr rg = b"
    using rc_get_find [OF rc_serves_mem [OF rc] _ w(3)] by blast
  have "0 \<le> ?o + tlp_length t * 4" using w(1,5) a(2) pos_mod_sign [of 4 a] by linarith
  then have rd: "rc_read_region rc ?A (tlp_length t * 4) = Inr (Some (slice (nat ?o) (nat (?o + tlp_length t * 4)) ?m))"
    using rg py_slice_nat [OF w(1)] by (simp add: rc_read_region_def Let_def)
  have "\<forall>c. cpl_for t (PcieId 0 0 0) (nat (rc_max_payload_size rc)) c \<longrightarrow> rc_send c = Inr ()"
    by (simp add: cpl_for_def rc_send_def)
  from read_window [OF srv a(1-3) t_def this]
  show ?thesis
    using rg(1) rd page_dwords [OF a(2,4)] be(1,2) by (elim exE) (simp add: rc_handle_mem_read_tlp_def)
qed

lemma rc_write_splice:
  assumes rc: "rc_serves b rc" and a: "b \<le> a" "bs \<noteq> []" "a + int (length bs) \<le> b + int (length (rc_mem b rc))"
    "a mod 4096 + int (length bs) \<le> 4096" and t: "mem_write_req a bs p = Inr t"
  shows "tlp_check t \<and> (fmt_type t = TLP_MEM_WRITE \<or> fmt_type t = TLP_MEM_WRITE_64) \<and>
    rc_handle_mem_write_tlp t rc
      = Inr (rc_put b (splice (nat (a - b)) (nat (a - b) + length bs) bs (rc_mem b rc)) rc, [])"
proof -
  let ?m = "rc_mem b rc" and ?A = "a - a mod 4" and ?o = "a - a mod 4 - b"
  have srv: "4 dvd b" "4 dvd int (length ?m)" using rc by (auto simp: rc_serves_def)
  have len: "1 \<le> int (length bs)" using a(2) by (cases bs) simp_all
  obtain data where d: "tlp_check t" "fmt_type t = TLP_MEM_WRITE \<or> fmt_type t = TLP_MEM_WRITE_64"
    "tlp_address t = ?A" "0 < tlp_length t" "get_data t = Inr data"
    "tlp_length t * 4 = a mod 4 + int (length bs) + (3 - (a + int (length bs) - 1) mod 4)"
    "be_multi (\<lambda>so off. rc_write_region (b + int (nat ?o + so)) (slice so off data)) t rc
       = Inr (rc_put b (splice (nat (a - b)) (nat (a - b) + length bs) bs ?m) rc)"
    by (rule rc_store.write_window [OF rc_serves_mem [OF rc] srv a t])
  note w = window_dwords [OF srv a(1) len a(3) d(6)]
  have "b \<le> ?A" using w(1) by simp
  then have "find_region rc ?A \<noteq> None"
    using rc_get_find [OF rc_serves_mem [OF rc] _ w(3)] by blast
  moreover have "b + int (nat ?o + so) = ?A + int so" for so using w(1) by simp
  note d(7) [unfolded this]
  ultimately show ?thesis
    using d(1-6) page_dwords [OF len a(4)] by (simp add: rc_handle_mem_write_tlp_def)
qed

lemma rc_serves_put:
  assumes "rc_serves b rc" "length m = length (rc_mem b rc)"
  shows "rc_serves b (rc_put b m rc) \<and> rc_mem b (rc_put b m rc) = m"
proof -
  have "rc_get b (rc_put b m rc) = Some m"
    using rc_store.get_put [OF rc_serves_mem [OF assms(1)] assms(2)] .
  then show ?thesis
    using assms by (simp add: rc_serves_def rc_mem_def rc_handlers_def rc_put_def)
qed

interpretation rc_target: mem_target rc_net "rc_serves b" "\<lambda>_. b" "rc_mem b" for b
proof
  fix rc a len tag and p t :: tlp and bs :: "byte list"
  assume rc: "rc_serves b rc" and a: "b \<le> a"
  { assume l: "1 \<le> len" "a + len \<le> b + int (length (rc_mem b rc))" "a mod 4096 + len \<le> 4096"
    let ?t = "(mem_read_req a len p)\<lparr>tlp_tag := tag\<rparr>"
    have "fmt_type ?t = TLP_MEM_READ \<or> fmt_type ?t = TLP_MEM_READ_64"
      using mem_read_req_fields(4) [of a len p] by (auto simp: fmt_type_def)
    then have "rc_net rc ?t = bindE (rc_handle_mem_read_tlp ?t rc) (\<lambda>(rc', out). Inr (out, rc'))"
      using rc by (intro rc_net_mem(1) mem_read_req_check [OF l(1,3)]) (simp add: rc_serves_def)
    then show "\<exists>cs. rc_net rc ?t = Inr (cs, rc) \<and>
        cpl_split a (slice (nat (a - b)) (nat (a - b + len)) (rc_mem b rc)) cs \<and> (\<forall>c\<in>set cs. tlp_tag c = tag)"
      using rc_read_split [OF rc a l refl, of tag p] by (auto simp: cpl_for_def) }
  assume l: "bs \<noteq> []" "a + int (length bs) \<le> b + int (length (rc_mem b rc))"
    "a mod 4096 + int (length bs) \<le> 4096" "mem_write_req a bs p = Inr t"
  let ?m = "splice (nat (a - b)) (nat (a - b) + length bs) bs (rc_mem b rc)"
  note w = rc_write_splice [OF rc a l]
  have "nat (a - b) + length bs \<le> length (rc_mem b rc)" using l(2) a by linarith
  then have len: "length ?m = length (rc_mem b rc)" by (intro length_splice) simp_all
  then have "rc_serves b (rc_put b ?m rc)" "rc_mem b (rc_put b ?m rc) = ?m"
    using rc_serves_put [OF rc] by blast+
  moreover have "rc_net rc t = Inr ([], rc_put b ?m rc)"
    using w rc rc_net_mem(2) [of rc t] by (auto simp: rc_serves_def)
  ultimately show "\<exists>rc'. rc_net rc t = Inr ([], rc') \<and> rc_serves b rc' \<and> b = b \<and> rc_mem b rc' = ?m"
    by blast
qed

subsection \<open>Host accesses to a memory endpoint\<close>

text \<open>A root complex with one memory region of 16 bytes.\<close>

definition rc_example :: root_complex where
  "rc_example =
     (case bindE RootComplex (alloc_region (\<lambda>_. 4) 16 None) of
        Inl _ \<Rightarrow> rc_init br_example
      | Inr (_, rc) \<Rightarrow> rc)"

lemma rc_example_sel:
  "rc_req rc_example = \<lparr>current_tag = 0, rx_cpl_queues = replicate 256 []\<rparr>" "rc_handlers rc_example"
  "rc_regions rc_example = [\<lparr>rg_addr = 0, rg_size = 16, rg_store = Store_mem (replicate 16 0)\<rparr>]"
proof -
  obtain g where g: "Function = Inr g" "g = func_init\<lparr>capabilities := capabilities g, cap_ptr := cap_ptr g\<rparr>"
    using Function_ok by blast
  show "rc_req rc_example = \<lparr>current_tag = 0, rx_cpl_queues = replicate 256 []\<rparr>" "rc_handlers rc_example"
    "rc_regions rc_example = [\<lparr>rg_addr = 0, rg_size = 16, rg_store = Store_mem (replicate 16 0)\<rparr>]"
    by (simp_all add: rc_example_def RootComplex_def HostBridge_def SwitchUpstreamPort_def Bridge_def g(1)
      rc_register_rx_tlp_handler_def host_windows_def rc_init_def alloc_region_def new_region_def align_def rc_handlers_def)
qed

lemma rc_example_get: "rc_get 0 rc_example = Some (replicate 16 0)"
  by (auto simp: rc_get_Some find_region_def rc_example_sel in_region_def)

lemma host_mem_roundtrip:
  assumes "find_region rc a = None" "idle (rc_req rc)" and f: "ep_serves r b f"
    and a: "b \<le> a" "a + int (length data) \<le> b + int (length (ep_mem r f))"
  shows "\<exists>f' rc'. rc_mem_write ep_net at tc a data (rc, f) = Inr ((), rc, f') \<and>
    ep_mem r f' = splice (nat (a - b)) (nat (a - b) + length data) data (ep_mem r f) \<and>
    rc_mem_read ep_net at' tc' a (int (length data)) (rc, f') = Inr (Some data, rc', f')"
proof -
  have send: "\<forall>t. tlp_check t \<longrightarrow> rc_send t = Inr ()" by (simp add: rc_send_def)
  let ?p = "TLP\<lparr>tlp_requester_id := PcieId 0 0 0, tlp_attr := at, tlp_tc := tc\<rparr>"
    and ?q = "TLP\<lparr>tlp_requester_id := PcieId 0 0 0, tlp_attr := at', tlp_tc := tc'\<rparr>"
  obtain f' rq' where w: "mem_write_loop rc_send ep_net (nat (rc_max_payload_size rc)) ?p 0 data a (rc_req rc) f = Inr (rc_req rc, f')"
      and r: "mem_read_loop rc_send ep_net 32 (\<lambda>l. l) (nat (rc_max_read_request_size rc)) ?q 0 (int (length data)) a [] (rc_req rc) f'
        = Inr (data, rq', f')"
    using ep_target.write_then_read [where tc = 32 and mps = "nat (rc_max_payload_size rc)" and p = ?p and q = ?q
        and mrrs = "nat (rc_max_read_request_size rc)", OF _ _ send assms(2) f a] by auto
  moreover have "ep_mem r f' = splice (nat (a - b)) (nat (a - b) + length data) data (ep_mem r f)"
    using ep_target.write_all [OF send f, of 0 data a "nat (rc_max_payload_size rc)" ?p "rc_req rc"] a w by auto
  ultimately show ?thesis
    using assms(1) by (simp add: rc_mem_write_def rc_mem_read_def on_req_def no_value_def)
qed

text \<open>
  C1. What the host writes to the memory of an endpoint it reads back: for every address and length inside
  the window of a memory BAR, \<open>mem_write\<close> followed by \<open>mem_read\<close> returns the data that was written, and the
  write changed only the addressed bytes, however the accesses are cut into requests and completions.
\<close>

theorem host_write_read:
  assumes "find_region rc a = None" "idle (rc_req rc)" and f: "ep_serves r b f"
    and a: "b \<le> a" "a + int (length data) \<le> b + int (length (ep_mem r f))"
  shows "\<exists>f' rc'. rc_mem_write ep_net at tc a data (rc, f) = Inr ((), rc, f') \<and>
    ep_mem r f' = splice (nat (a - b)) (nat (a - b) + length data) data (ep_mem r f) \<and>
    rc_mem_read ep_net at' tc' a (int (length data)) (rc, f') = Inr (Some data, rc', f')"
  using assms by (rule host_mem_roundtrip)

theorem host_write_read_witness:
  "find_region rc_example 0x1003 = None \<and> idle (rc_req rc_example) \<and> ep_serves 0 0x1000 ep_example \<and>
   (\<exists>f' rc'. rc_mem_write ep_net 0 0 0x1003 [1, 2, 3, 4, 5, 6] (rc_example, ep_example) = Inr ((), rc_example, f') \<and>
     rc_mem_read ep_net 0 0 0x1003 6 (rc_example, f') = Inr (Some [1, 2, 3, 4, 5, 6], rc', f'))"
proof -
  have rc: "find_region rc_example 0x1003 = None" "idle (rc_req rc_example)"
    by (simp_all add: find_region_def rc_example_sel in_region_def idle_def)
  note f = ep_example_serves
  have "ep_mem 0 ep_example = replicate 16 0" using ep_example_sel by (simp add: ep_mem_def)
  then show ?thesis
    using host_write_read [OF rc f, of "[1, 2, 3, 4, 5, 6]" 0 0 0 0] rc f by auto
qed

text \<open>Words survive the byte order conversions of the word accessors.\<close>

lemma words_of_bytes_concat:
  "list_all (\<lambda>bs. length bs = ws) bss \<Longrightarrow> words_of_bytes ws (length bss) (concat bss) = map le_int bss"
proof (induction bss)
  case (Cons bs bss)
  have *: "slice (ws * Suc k) (ws * (Suc k + 1)) (bs @ ys) = slice (ws * k) (ws * (k + 1)) ys" if "length bs = ws" for k ys
    using that by (simp add: slice_def add.commute)
  have l: "[0..<length (bs # bss)] = 0 # map Suc [0..<length bss]"
    by (simp add: upt_conv_Cons map_Suc_upt del: upt_Suc)
  have "slice (ws * 0) (ws * (0 + 1)) (concat (bs # bss)) = bs" using Cons.prems by (simp add: slice_def)
  then show ?case
    using Cons * unfolding words_of_bytes_def l by (simp add: comp_def del: mult_Suc_right upt_Suc)
qed (simp add: words_of_bytes_def)

lemma words_roundtrip:
  assumes "list_all (\<lambda>w. 0 \<le> w \<and> w < 256 ^ ws) words"
  obtains data where "words_to_bytes ws words = Inr data" "length data = length words * ws"
    "words_of_bytes ws (length words) data = words"
proof
  let ?bss = "map (le_bytes ws) words"
  have "mapE (to_bytes ws) words = Inr ?bss"
    using assms by (intro mapE_Inr_map) (auto simp: to_bytes_def list_all_iff)
  then show "words_to_bytes ws words = Inr (concat ?bss)" by (simp add: words_to_bytes_def)
  show "length (concat ?bss) = length words * ws"
    by (induction words) simp_all
  have "map le_int ?bss = words"
    using assms by (induction words) (simp_all add: le_int_le_bytes)
  then show "words_of_bytes ws (length words) (concat ?bss) = words"
    using words_of_bytes_concat [of ws ?bss] by (simp add: list_all_iff)
qed

text \<open>
  C10. The word accessors of the host are inverse to each other: words of 1, 2, 4 or 8 bytes that
  \<open>mem_write_words\<close> stores in the memory of an endpoint are returned by \<open>mem_read_words\<close>.
\<close>

theorem host_words_roundtrip:
  assumes "find_region rc a = None" "idle (rc_req rc)" and f: "ep_serves r b f"
    and ws: "ws \<in> {1, 2, 4, 8}" "list_all (\<lambda>w. 0 \<le> w \<and> w < 256 ^ ws) words"
    and a: "b \<le> a" "a + int (length words * ws) \<le> b + int (length (ep_mem r f))"
  shows "\<exists>f' rc'. rc_mem_write_words ep_net at tc a words ws (rc, f) = Inr ((), rc, f') \<and>
    rc_mem_read_words ep_net at tc a (length words) ws (rc, f') = Inr (words, rc', f')"
proof -
  obtain data where d: "words_to_bytes ws words = Inr data" "length data = length words * ws"
      "words_of_bytes ws (length words) data = words"
    using words_roundtrip [OF ws(2)] .
  have fit: "a + int (length data) \<le> b + int (length (ep_mem r f))" using a(2) d(2) by simp
  have "word_size_ok ws" using ws(1) by (simp add: word_size_ok_def)
  with host_mem_roundtrip [OF assms(1,2) f a(1) fit, of at tc at tc] d show ?thesis
    by (fastforce simp: rc_mem_write_words_def rc_mem_read_words_def write_words_def bindS_def liftS_def words_of_read_def)
qed

theorem host_words_roundtrip_witness:
  "\<exists>f' rc'. rc_mem_write_words ep_net 0 0 0x1002 [0xdeadbeef, 7] 4 (rc_example, ep_example) = Inr ((), rc_example, f') \<and>
    rc_mem_read_words ep_net 0 0 0x1002 2 4 (rc_example, f') = Inr ([0xdeadbeef, 7], rc', f')"
proof -
  have rc: "find_region rc_example 0x1002 = None" "idle (rc_req rc_example)"
    by (simp_all add: find_region_def rc_example_sel in_region_def idle_def)
  have "ep_mem 0 ep_example = replicate 16 0" using ep_example_sel by (simp add: ep_mem_def)
  then show ?thesis
    using host_words_roundtrip [OF rc ep_example_serves, of 4 "[0xdeadbeef, 7]" 0 0] by (simp add: numeral_2_eq_2)
qed

subsection \<open>Device accesses to the host memory\<close>

text \<open>An access that fits in one request: the byte enables of \<open>Function.mem_read\<close> are right then.\<close>

lemma mem_read_loop_single:
  assumes "chunk_length (push_bit mrrs 128) a len = len"
  shows "mem_read_loop send net tc (\<lambda>_. len) mrrs p 0 len a [] rq e = mem_read_loop send net tc (\<lambda>l. l) mrrs p 0 len a [] rq e"
  using assms by (subst (1 2) mem_read_loop.simps)
    (simp add: mem_read_loop.simps [of send net tc _ mrrs p len len] Let_def cong: bindE_cong if_cong)

text \<open>
  C6. DMA writes of a bus master reach the host memory, and reads see them: \<open>Function.mem_write\<close> of data of any
  length inside a region of the host changes exactly the written bytes, and a following \<open>Function.mem_read\<close> of any
  range of the region that fits in one request (not longer than the maximum read request size less the misalignment of
  its address, and not across a 4 KB boundary) returns the bytes of the changed memory.
\<close>

theorem dma_write_read:
  assumes f: "bus_master_enable f" "upstream_tx_set f" "idle (req f)" and rc: "rc_serves b rc"
    and w: "b \<le> a" "a + int (length data) \<le> b + int (length (rc_mem b rc))"
    and r: "b \<le> c" "0 \<le> n" "c + n \<le> b + int (length (rc_mem b rc))"
    and one: "n + c mod 4 \<le> 128 * 2 ^ nat (max_read_request_size (dev_ctl (pcie f)))" "c mod 4096 + n \<le> 4096"
  shows "\<exists>rc' f'. mem_write rc_net a data at tc f rc = Inr (f, rc') \<and>
    rc_mem b rc' = splice (nat (a - b)) (nat (a - b) + length data) data (rc_mem b rc) \<and>
    mem_read rc_net c n at' tc' f rc' = Inr (Some (slice (nat (c - b)) (nat (c - b + n)) (rc_mem b rc')), f', rc')"
proof -
  have send: "\<forall>t. tlp_check t \<longrightarrow> send_check f t = Inr ()" using f(2) by (simp add: send_check_ok)
  let ?mps = "nat (max_payload_size (dev_ctl (pcie f)))" and ?mrrs = "nat (max_read_request_size (dev_ctl (pcie f)))"
  have tc: "0 < tag_count f" "tag_count f \<le> 256" by (simp_all add: tag_count_def)
  obtain rc' where w': "mem_write_loop (send_check f) rc_net ?mps (request_proto f at tc) 0 data a (req f) rc = Inr (req f, rc')"
      "rc_serves b rc'" "rc_mem b rc' = splice (nat (a - b)) (nat (a - b) + length data) data (rc_mem b rc)"
    using rc_target.write_all [OF send rc, of 0 data a ?mps "request_proto f at tc" "req f"] w by auto
  have "nat (a - b) + length data \<le> length (rc_mem b rc)" using w by linarith
  then have len: "length (rc_mem b rc') = length (rc_mem b rc)" unfolding w'(3) by (intro length_splice) simp_all
  have "\<exists>rq'. mem_read_loop (send_check f) rc_net (tag_count f) (\<lambda>l. l) ?mrrs (request_proto f at' tc') 0 n c [] (req f) rc'
        = Inr (slice (nat (c - b)) (nat (c - b + n)) (rc_mem b rc'), rq', rc')"
    using rc_target.read_all [OF tc send w'(2) f(3), of 0 n c ?mrrs "request_proto f at' tc'" "[]"] r len by auto
  moreover have "chunk_length (push_bit ?mrrs 128) c n = n" using one by (simp add: chunk_length_def push_bit_eq_mult)
  ultimately show ?thesis
    using f(1) w' unfolding mem_write_def mem_read_def by (auto simp: mem_read_loop_single)
qed

theorem dma_write_read_witness:
  "\<exists>rc' f'. mem_write rc_net 1 [1, 2, 3, 4, 5] 0 0 (func_init\<lparr>bus_master_enable := True, upstream_tx_set := True\<rparr>) rc_example
      = Inr (func_init\<lparr>bus_master_enable := True, upstream_tx_set := True\<rparr>, rc') \<and>
    mem_read rc_net 2 6 0 0 (func_init\<lparr>bus_master_enable := True, upstream_tx_set := True\<rparr>) rc'
      = Inr (Some [2, 3, 4, 5, 0, 0], f', rc')"
proof -
  let ?f = "func_init\<lparr>bus_master_enable := True, upstream_tx_set := True\<rparr>"
  have f: "bus_master_enable ?f" "upstream_tx_set ?f" "idle (req ?f)" by (simp_all add: func_init_def idle_def)
  have rc: "rc_serves 0 rc_example" "rc_mem 0 rc_example = replicate 16 0"
    using rc_example_get rc_example_sel(2) by (simp_all add: rc_serves_def rc_mem_def)
  have one: "(6::int) + 2 mod 4 \<le> 128 * 2 ^ nat (max_read_request_size (dev_ctl (pcie ?f)))"
    by (simp add: func_init_def PCIECapability_def)
  have s: "slice 2 8 (splice (Suc 0) (Suc (Suc (Suc (Suc (Suc (Suc 0)))))) [1, 2, 3, 4, 5] (replicate 16 (0::byte))) = [2, 3, 4, 5, 0, 0]" by code_simp
  from dma_write_read [OF f rc(1), of 1 "[1, 2, 3, 4, 5]" 2 6 0 0 0 0] show ?thesis using one rc(2) s by auto
qed

context mem_target
begin

text \<open>A request that asks for more bytes than its sender then waits for.\<close>

lemma read_overlong:
  assumes rq: "idle rq" "0 < tc" "tc \<le> 256" and send: "\<forall>t. tlp_check t \<longrightarrow> send t = Inr ()"
    and e: "ok e" "base e \<le> a" "1 \<le> len" "a + len \<le> base e + int (length (mem e))" "a mod 4096 + len \<le> 4096"
    and bl: "0 < bl" "bl < len"
  defines "tag \<equiv> (current_tag rq + 1) mod tc"
  shows "\<exists>rq2. transact send net ((mem_read_req a len p)\<lparr>tlp_tag := tag\<rparr>) (rq\<lparr>current_tag := tag\<rparr>) e = Inr (rq2, e) \<and>
      recv_mem_read tag bl data rq2 = Inl AssertionError"
proof -
  let ?bs = "slice (nat (a - base e)) (nat (a - base e + len)) (mem e)"
  obtain cs where cs: "net e ((mem_read_req a len p)\<lparr>tlp_tag := tag\<rparr>) = Inr (cs, e)"
      "cpl_split a ?bs cs" "\<forall>c\<in>set cs. tlp_tag c = tag"
    using read_law [OF e] by blast
  have tag: "0 \<le> tag" "nat tag < 256"
    using rq(2,3) pos_mod_bound [of tc "current_tag rq + 1"] pos_mod_sign [of tc "current_tag rq + 1"]
    unfolding tag_def by linarith+
  let ?rq1 = "rq\<lparr>current_tag := tag\<rparr>"
  let ?rq2 = "?rq1\<lparr>rx_cpl_queues := (rx_cpl_queues rq)[nat tag := cs]\<rparr>"
  have q: "rx_cpl_queues rq = replicate 256 []" using rq(1) by (simp add: idle_def)
  have "foldE push_cpl cs ?rq1 = Inr ?rq2"
    using foldE_push_cpl [OF cs(3) tag(1), of ?rq1] tag by (simp add: q)
  then have "transact send net ((mem_read_req a len p)\<lparr>tlp_tag := tag\<rparr>) ?rq1 e = Inr (?rq2, e)"
    using send mem_read_req_check [OF e(3,5)] cs(1) by (simp add: transact_def)
  moreover have len: "int (length ?bs) = len" using e length_slice_int [of "a - base e" "a - base e + len" "mem e"] by simp
  obtain c cs' where c: "cs = c # cs'" using cs(2) len e(3) by (cases cs) auto
  then have "tlp_status c = CPL_STATUS_SC" "tlp_byte_count c = len" using cs(2) len by simp_all
  then have "mem_read_cpls bl 0 data cs = Inl AssertionError"
    using bl c by (simp add: check_cpl_def assertE_def)
  then have "recv_mem_read tag bl data ?rq2 = Inl AssertionError"
    using tag by (simp add: recv_mem_read_def py_index_def q)
  ultimately show ?thesis by blast
qed

end

lemma mem_read_req_cross:
  assumes "1 \<le> len" "4096 < a mod 4096 + len"
  shows "\<not> tlp_check ((mem_read_req a len p)\<lparr>tlp_tag := tag\<rparr>)"
proof -
  let ?t = "mem_read_req a len p"
  have l: "tlp_length ?t * 4 = a mod 4 + len + (3 - (a + len - 1) mod 4)"
    using assms(1) by (simp add: mem_read_req_def set_be_length)
  have ad: "tlp_address ?t = a - a mod 4" by simp
  have "a mod 4096 = 4 * (a div 4 mod 1024) + a mod 4" using zmod_zmult2_eq [of 1024 a 4] by simp
  moreover have "(a - a mod 4) mod 4096 = 4 * (a div 4 mod 1024)"
    using mult_mod_right [of 4 "a div 4" 1024] by (simp add: minus_mod_eq_mult_div)
  ultimately have "(a - a mod 4) mod 4096 = a mod 4096 - a mod 4" by simp
  moreover have "(a + len - 1) mod 4 \<le> 3" using pos_mod_bound [of 4 "a + len - 1"] by linarith
  ultimately have "tlp_length ?t * 4 > 4096 - tlp_address ?t mod 4096" using l assms(2) unfolding ad by linarith
  then show ?thesis using mem_read_req_fields(4) [of a len p] by (auto simp: tlp_check_def tlp_kind_defs split: if_splits)
qed

text \<open>
  C40. A function cannot read more than one request's worth of host memory, be it because of the maximum
  read request size or of a 4 KB boundary: \<open>Function.mem_read\<close> sets the byte enables of every request for the whole
  remaining access instead of for the chunk it then waits for, so that either the request itself fails its check or
  the byte count of the first completion contradicts the expected one. In both cases an assertion fails, although
  the host memory holds the whole range.
\<close>

theorem dma_read_multi_fails:
  assumes f: "bus_master_enable f" "upstream_tx_set f" "idle (req f)" and rc: "rc_serves b rc"
    and a: "b \<le> a" "a + len \<le> b + int (length (rc_mem b rc))"
    and many: "0 < len" "128 * 2 ^ nat (max_read_request_size (dev_ctl (pcie f))) < len + a mod 4 \<or> 4096 < a mod 4096 + len"
  shows "mem_read rc_net a len at tc f rc = Inl AssertionError"
proof -
  let ?mrrs = "nat (max_read_request_size (dev_ctl (pcie f)))" and ?p = "request_proto f at tc"
  let ?bl = "chunk_length (push_bit ?mrrs 128) a len" and ?tag = "(current_tag (req f) + 1) mod tag_count f"
  have send: "\<forall>t. tlp_check t \<longrightarrow> send_check f t = Inr ()" using f(2) by (simp add: send_check_ok)
  have tcs: "0 < tag_count f" "tag_count f \<le> 256" by (simp_all add: tag_count_def)
  have bl: "0 < ?bl" "?bl < len" using chunk_128_pos [OF many(1)] many by (auto simp: chunk_length_def push_bit_eq_mult)
  have l: "1 \<le> len" using many(1) by simp
  have "mem_read_loop (send_check f) rc_net (tag_count f) (\<lambda>_. len) ?mrrs ?p 0 len a [] (req f) rc = Inl AssertionError"
  proof (cases "a mod 4096 + len \<le> 4096")
    case True
    from rc_target.read_overlong [OF f(3) tcs send rc a(1) l a(2) True bl, of ?p "[]"] show ?thesis
      using many(1) by (subst mem_read_loop.simps) (auto simp: with_tag_idle [OF f(3) tcs])
  next
    case False
    then have "\<not> tlp_check ((mem_read_req a len ?p)\<lparr>tlp_tag := ?tag\<rparr>)" using mem_read_req_cross [OF l] by simp
    then have "send_check f ((mem_read_req a len ?p)\<lparr>tlp_tag := ?tag\<rparr>) = Inl AssertionError"
      by (simp add: send_check_def upstream_send_def assertE_def)
    then show ?thesis
      using many(1) by (subst mem_read_loop.simps) (simp add: with_tag_idle [OF f(3) tcs] transact_def)
  qed
  then show ?thesis using f(1) by (simp add: mem_read_def)
qed

theorem dma_read_multi_fails_witness:
  "mem_read rc_net 4 600 0 0 (func_init\<lparr>bus_master_enable := True, upstream_tx_set := True\<rparr>)
     (rc_example\<lparr>rc_regions := [\<lparr>rg_addr = 0, rg_size = 8192, rg_store = Store_mem (replicate 8192 0)\<rparr>]\<rparr>) = Inl AssertionError \<and>
   mem_read rc_net 4094 4 0 0 (func_init\<lparr>bus_master_enable := True, upstream_tx_set := True\<rparr>)
     (rc_example\<lparr>rc_regions := [\<lparr>rg_addr = 0, rg_size = 8192, rg_store = Store_mem (replicate 8192 0)\<rparr>]\<rparr>) = Inl AssertionError"
proof -
  let ?f = "func_init\<lparr>bus_master_enable := True, upstream_tx_set := True\<rparr>"
    and ?rc = "rc_example\<lparr>rc_regions := [\<lparr>rg_addr = 0, rg_size = 8192, rg_store = Store_mem (replicate 8192 0)\<rparr>]\<rparr>"
  have f: "bus_master_enable ?f" "upstream_tx_set ?f" "idle (req ?f)" by (simp_all add: func_init_def idle_def)
  have mrrs: "max_read_request_size (dev_ctl (pcie ?f)) = 2" by (simp add: func_init_def PCIECapability_def)
  have "rc_get 0 ?rc = Some (replicate 8192 0)" by (auto simp: rc_get_Some find_region_def in_region_def)
  then have rc: "rc_serves 0 ?rc" "rc_mem 0 ?rc = replicate 8192 0"
    using rc_example_sel(2) by (simp_all add: rc_serves_def rc_mem_def rc_handlers_def)
  show ?thesis
    using dma_read_multi_fails [OF f rc(1), of 4 600 0 0] dma_read_multi_fails [OF f rc(1), of 4094 4 0 0] mrrs
    by (simp add: rc(2))
qed

subsection \<open>Allocation of regions\<close>

definition regions_disjoint :: "rc_region list \<Rightarrow> bool" where
  "regions_disjoint rgs \<longleftrightarrow>
     sorted_wrt (\<lambda>r s. rg_addr r + rg_size r \<le> rg_addr s) rgs"

text \<open>The invariant of a root complex whose regions all have an even size: the regions follow each other
  without overlap, and the limit is the last byte of the last one.\<close>

definition alloc_inv :: "root_complex \<Rightarrow> bool" where
  "alloc_inv rc \<longleftrightarrow> regions_disjoint (rc_regions rc) \<and>
     (rc_regions rc = [] \<and> rc_region_limit rc = 0 \<or>
      odd (rc_region_limit rc) \<and> (\<forall>rg \<in> set (rc_regions rc). rg_addr rg + rg_size rg \<le> rc_region_limit rc + 1))"

lemma align_gt:
  assumes "1 \<le> k" "odd x"
  shows "x < align x (2 ^ k - 1)"
proof -
  have "even (align x (2 ^ k - 1))" using align_mask_dvd [of k x] assms(1) dvd_power_le [of 2 2 1 k]
    by (metis dvd_trans dvd_power power_one_right not_one_le_zero gr0I dvd_refl le_imp_power_dvd)
  then show ?thesis using align_mask_ge [of x k] assms(2) by (metis order.order_iff_strict)
qed

lemma alloc_region_step:
  assumes inv: "alloc_inv rc" and sz: "even sz" "0 < sz" and clog2: "1 \<le> clog2 sz"
  shows "\<exists>addr rc'. alloc_region clog2 sz st rc = Inr (addr, rc') \<and> alloc_inv rc' \<and> 2 ^ clog2 sz dvd addr \<and>
    (\<forall>rg \<in> set (rc_regions rc). rg_addr rg + rg_size rg \<le> addr) \<and>
    rc_regions rc' = rc_regions rc @ [new_region addr sz st]"
proof -
  let ?a = "align (rc_region_limit rc) (2 ^ clog2 sz - 1)"
  have d: "2 ^ clog2 sz dvd ?a" by (rule align_mask_dvd)
  then have even: "even ?a" using clog2 by (metis dvd_trans dvd_power gr0I not_one_le_zero)
  have above: "\<forall>rg \<in> set (rc_regions rc). rg_addr rg + rg_size rg \<le> ?a"
    using inv align_gt [OF clog2, of "rc_region_limit rc"] by (auto simp: alloc_inv_def)
  have "regions_disjoint (rc_regions rc @ [new_region ?a sz st])"
    using inv above by (simp add: alloc_inv_def regions_disjoint_def sorted_wrt_append new_region_def)
  moreover have "odd (?a + sz - 1)" using even sz(1) by simp
  moreover have "\<forall>rg \<in> set (rc_regions rc @ [new_region ?a sz st]). rg_addr rg + rg_size rg \<le> ?a + sz - 1 + 1"
    using above sz(2) by (auto simp: new_region_def)
  ultimately show ?thesis
    using sz(2) d above by (simp add: alloc_region_def alloc_inv_def Let_def)
qed

text \<open>
  C26. Host memory regions of even size do not overlap: every allocation returns an address that is aligned to the
  size rounded up to a power of two, above all regions allocated before, so that an address leads to at
  most one region.
\<close>

theorem alloc_region_disjoint:
  assumes inv: "alloc_inv rc" and sz: "even sz" "0 < sz" and clog2: "1 \<le> clog2 sz"
  shows "\<exists>addr rc'. alloc_region clog2 sz st rc = Inr (addr, rc') \<and> alloc_inv rc' \<and> 2 ^ clog2 sz dvd addr \<and>
    (\<forall>rg \<in> set (rc_regions rc). rg_addr rg + rg_size rg \<le> addr) \<and>
    rc_regions rc' = rc_regions rc @ [new_region addr sz st]"
  using assms by (rule alloc_region_step)

lemma rc_example_limit: "rc_region_limit rc_example = 15"
proof -
  obtain g where g: "Function = Inr g" using Function_ok by blast
  show ?thesis
    by (simp add: rc_example_def RootComplex_def HostBridge_def SwitchUpstreamPort_def Bridge_def g
      rc_register_rx_tlp_handler_def host_windows_def rc_init_def alloc_region_def align_def Let_def)
qed

theorem alloc_region_disjoint_witness:
  "\<exists>addr rc'. alloc_region (\<lambda>_. 12) 4096 None rc_example = Inr (addr, rc') \<and> alloc_inv rc' \<and> 2 ^ 12 dvd addr \<and> 16 \<le> addr"
proof -
  have "alloc_inv rc_example" by (simp add: alloc_inv_def regions_disjoint_def rc_example_sel rc_example_limit)
  from alloc_region_disjoint [OF this, of 4096 "\<lambda>_. 12" None] show ?thesis by (auto simp: rc_example_sel)
qed

text \<open>
  Regions of odd size may overlap: the limit kept after an allocation is the last byte of the region,
  not the byte after it, so that a region of five bytes and one of four bytes share a byte.
\<close>

theorem alloc_region_overlap:
  "\<exists>rc1 rc2. alloc_region (\<lambda>sz. if sz = 5 then 3 else 2) 5 None (rc_init br_example) = Inr (0, rc1) \<and>
    alloc_region (\<lambda>sz. if sz = 5 then 3 else 2) 4 None rc1 = Inr (4, rc2) \<and>
    in_region 4 (rc_regions rc2 ! 0) \<and> in_region 4 (rc_regions rc2 ! 1)"
  by (simp add: alloc_region_def rc_init_def align_def new_region_def in_region_def Let_def)

subsection \<open>Tags\<close>

text \<open>
  The root complex never reuses a tag whose completions it has not taken: a tag that \<open>get_free_tag\<close>
  returns has an empty queue, and it returns none only when all 32 tags have completions waiting.
\<close>

theorem rc_get_free_tag_correct:
  "(case rc_get_free_tag rc of
      (Some tag, rc') \<Rightarrow> 0 \<le> tag \<and> tag < 32 \<and> rx_cpl_queues (rc_req rc) ! nat tag = [] \<and>
        current_tag (rc_req rc') = tag \<and> rx_cpl_queues (rc_req rc') = rx_cpl_queues (rc_req rc)
    | (None, rc') \<Rightarrow> (\<nexists>tag. 0 \<le> tag \<and> tag < 32 \<and> rx_cpl_queues (rc_req rc) ! nat tag = []))"
proof (cases "free_tag_loop 32 32 (rc_req rc)")
  case (Pair r rq)
  show ?thesis
  proof (cases r)
    case (Some tag)
    then show ?thesis
      using Pair free_tag_loop_Some [of 32 32 "rc_req rc" tag rq] free_tag_loop_keeps_queues [of 32 32 "rc_req rc" r rq]
      by (simp add: rc_get_free_tag_def)
  next
    case None
    have "rx_cpl_queues (rc_req rc) ! nat tag \<noteq> []" if t: "0 \<le> tag" "tag < 32" for tag
    proof -
      obtain j where "j \<in> {1..int 32}" "(current_tag (rc_req rc) + j) mod 32 = tag"
        using mod_cover [of 32 tag "current_tag (rc_req rc)"] t by auto
      then show ?thesis using free_tag_loop_None [of 32 32 "rc_req rc" rq] Pair None by auto
    qed
    then show ?thesis using Pair None by (auto simp: rc_get_free_tag_def)
  qed
qed

end
