(* ===== verification/Pcie_Enumerate.thy ===== *)
theory Pcie_Enumerate
  imports Pcie_RootComplex
begin

unbundle bit_operations_syntax

text \<open>
  Enumeration and interrupt configuration of the class \<open>RootComplex\<close> of \<open>lib/pcie/tb/pcie.py\<close>:
  \<open>configure_msi\<close> and the registration of MSI signals and call-backs, \<open>enumerate_segment\<close> and \<open>enumerate\<close>.

  All methods are state transformers over the root complex and the fabric. The tree that enumeration
  builds is part of the root complex; an item of it is addressed by the path of child indices. The long
  body of \<open>enumerate_segment\<close> is cut at its comments: the base address registers (\<open>probe_bar\<close> to
  \<open>bar_loop\<close>), the capability list (\<open>cap_walk\<close>), the device control register (\<open>set_dev_ctrl\<close>), the bridge
  registers (\<open>set_bus_numbers\<close>, \<open>set_windows\<close>), then \<open>scan_function\<close> and \<open>scan_device\<close> for the two inner loops.
\<close>

section \<open>Interrupts\<close>

text \<open>The item that \<open>find_dev\<close> finds is changed in place.\<close>

fun update_dev :: "pcie_id \<Rightarrow> (tree_data \<Rightarrow> tree_data) \<Rightarrow> tree \<Rightarrow> tree"
  and update_dev_list :: "pcie_id \<Rightarrow> (tree_data \<Rightarrow> tree_data) \<Rightarrow> tree list \<Rightarrow> tree list" where
  "update_dev i h (TreeItem d cs) =
     (if i = ti_id d then TreeItem (h d) cs else TreeItem d (update_dev_list i h cs))"
| "update_dev_list i h [] = []"
| "update_dev_list i h (c # cs) =
     (if find_dev i c \<noteq> None then update_dev i h c # cs else c # update_dev_list i h cs)"

definition msi_region :: "(int \<Rightarrow> nat) \<Rightarrow> (root_complex \<times> 'e, int) stm" where
  "msi_region clog2 =
     (\<lambda>(rc, e). case rc_msi_addr rc of
        Some a \<Rightarrow> Inr (a, rc, e)
      | None \<Rightarrow> bindE (alloc_region clog2 4 (Some Store_msi) rc) (\<lambda>(a, rc').
          Inr (a, rc'\<lparr>rc_msi_addr := Some a\<rparr>, e)))"

definition new_msi_signal :: "root_complex \<Rightarrow> root_complex" where
  "new_msi_signal rc =
     (let n = rc_msi_msg_limit rc
      in rc\<lparr>rc_msi_signals := (rc_msi_signals rc)(n \<mapsto> [Msi_signal n]),
            rc_msi_callbacks := (rc_msi_callbacks rc)(n \<mapsto> []),
            rc_signal := (rc_signal rc)(Msi_signal n := False),
            rc_msi_msg_limit := n + 1\<rparr>)"

definition msi_program :: "'e net \<Rightarrow> pcie_id \<Rightarrow> int \<Rightarrow> (root_complex \<times> 'e, unit) stm" where
  "msi_program net dev addr =
     bindS (capability_read_dword net dev MSI_CAP_ID 0) (\<lambda>msg_ctrl.
     bindS (getS (\<lambda>(rc, e). rc_msi_msg_limit rc)) (\<lambda>limit.
     let msi_64bit = drop_bit 23 msg_ctrl AND 1; msi_mmcap = drop_bit 17 msg_ctrl AND 7
     in bindS (capability_write_dword net dev MSI_CAP_ID 4 (addr AND 0xfffffffc)) (\<lambda>_.
        bindS (if msi_64bit \<noteq> 0 then
                 bindS (capability_write_dword net dev MSI_CAP_ID 8 (drop_bit 32 addr AND 0xffffffff)) (\<lambda>_.
                   capability_write_dword net dev MSI_CAP_ID 12 limit)
               else capability_write_dword net dev MSI_CAP_ID 8 limit) (\<lambda>_.
          capability_write_dword net dev MSI_CAP_ID 0
            ((msg_ctrl AND NOT (push_bit 20 7)) OR push_bit 16 1 OR push_bit 20 msi_mmcap)))))"

definition configure_msi :: "(int \<Rightarrow> nat) \<Rightarrow> 'e net \<Rightarrow> pcie_id \<Rightarrow> (root_complex \<times> 'e, bool) stm" where
  "configure_msi clog2 net dev =
     bindS (msi_region clog2) (\<lambda>addr.
     bindS (getS (\<lambda>(rc, e). find_dev dev (rc_tree rc))) (\<lambda>found.
       case found of
         None \<Rightarrow> retS False
       | Some ti \<Rightarrow>
           if get_capability_offset ti MSI_CAP_ID = None then retS False
           else if ti_msi_addr (ti_data ti) \<noteq> None \<and> ti_msi_data (ti_data ti) \<noteq> None then retS True
           else bindS (msi_program net dev addr) (\<lambda>_.
                bindS (modS (\<lambda>(rc, e). (rc\<lparr>rc_tree := update_dev dev
                    (\<lambda>d. d\<lparr>ti_msi_addr := Some addr, ti_msi_data := Some (rc_msi_msg_limit rc)\<rparr>) (rc_tree rc)\<rparr>, e))) (\<lambda>_.
                bindS (modS (\<lambda>(rc, e). ((new_msi_signal ^^ 32) rc, e))) (\<lambda>_. retS True)))))"

definition msi_number :: "root_complex \<Rightarrow> pcie_id \<Rightarrow> int \<Rightarrow> int option" where
  "msi_number rc dev number =
     (case find_dev dev (rc_tree rc) of None \<Rightarrow> None
      | Some ti \<Rightarrow> map_option (\<lambda>d. d + number) (ti_msi_data (ti_data ti)))"

text \<open>The first signal of a list: the lists that \<open>configure_msi\<close> creates are not empty.\<close>

definition msi_get_signal :: "root_complex \<Rightarrow> pcie_id \<Rightarrow> int \<Rightarrow> msi_signal option res" where
  "msi_get_signal rc dev number =
     (case msi_number rc dev number of None \<Rightarrow> Inr None
      | Some n \<Rightarrow> (case rc_msi_signals rc n of None \<Rightarrow> Inr None
          | Some sigs \<Rightarrow> bindE (nth_res sigs 0) (\<lambda>s. Inr (Some s))))"

definition msi_register_signal :: "pcie_id \<Rightarrow> msi_signal \<Rightarrow> int \<Rightarrow> root_complex \<Rightarrow> root_complex" where
  "msi_register_signal dev sig number rc =
     (case msi_number rc dev number of None \<Rightarrow> rc
      | Some n \<Rightarrow> (case rc_msi_signals rc n of None \<Rightarrow> rc
          | Some sigs \<Rightarrow> rc\<lparr>rc_msi_signals := (rc_msi_signals rc)(n \<mapsto> sigs @ [sig])\<rparr>))"

definition msi_register_callback :: "pcie_id \<Rightarrow> nat \<Rightarrow> int \<Rightarrow> root_complex \<Rightarrow> root_complex" where
  "msi_register_callback dev cb number rc =
     (case msi_number rc dev number of None \<Rightarrow> rc
      | Some n \<Rightarrow> (case rc_msi_callbacks rc n of None \<Rightarrow> rc
          | Some cbs \<Rightarrow> rc\<lparr>rc_msi_callbacks := (rc_msi_callbacks rc)(n \<mapsto> cbs @ [cb])\<rparr>))"

section \<open>Enumeration\<close>

text \<open>An item of the tree under construction is addressed by the path of child indices from the root.\<close>

primrec tree_map :: "nat list \<Rightarrow> (tree \<Rightarrow> tree) \<Rightarrow> tree \<Rightarrow> tree" where
  "tree_map [] g t = g t"
| "tree_map (i # p) g t = TreeItem (ti_data t) ((children t)[i := tree_map p g (children t ! i)])"

primrec tree_at :: "nat list \<Rightarrow> tree \<Rightarrow> tree" where
  "tree_at [] t = t"
| "tree_at (i # p) t = tree_at p (children t ! i)"

definition set_item :: "nat list \<Rightarrow> (tree_data \<Rightarrow> tree_data) \<Rightarrow> (root_complex \<times> 'e, unit) stm" where
  "set_item p h = modS (\<lambda>(rc, e).
     (rc\<lparr>rc_tree := tree_map p (\<lambda>t. TreeItem (h (ti_data t)) (children t)) (rc_tree rc)\<rparr>, e))"

definition get_item :: "nat list \<Rightarrow> (root_complex \<times> 'e, tree_data) stm" where
  "get_item p = getS (\<lambda>(rc, e). ti_data (tree_at p (rc_tree rc)))"

definition add_child :: "nat list \<Rightarrow> tree_data \<Rightarrow> (root_complex \<times> 'e, nat list) stm" where
  "add_child p d = (\<lambda>(rc, e).
     Inr (p @ [length (children (tree_at p (rc_tree rc)))],
          rc\<lparr>rc_tree := tree_map p (\<lambda>t. TreeItem (ti_data t) (children t @ [TreeItem d []])) (rc_tree rc)\<rparr>, e))"

subsection \<open>Base address registers\<close>

text \<open>The allocation of one window: the address is the limit of the space aligned to the size.\<close>

definition alloc_io_bar :: "int \<Rightarrow> int \<Rightarrow> root_complex \<Rightarrow> int \<times> root_complex" where
  "alloc_io_bar val msk rc =
     (let l = align (rc_io_limit rc) msk in ((val AND 3) OR l, rc\<lparr>rc_io_limit := l + (msk + 1)\<rparr>))"

definition alloc_mem_bar :: "int \<Rightarrow> int \<Rightarrow> root_complex \<Rightarrow> int \<times> root_complex" where
  "alloc_mem_bar val msk rc =
     (let l = align (rc_mem_limit rc) msk in ((val AND 15) OR l, rc\<lparr>rc_mem_limit := l + (msk + 1)\<rparr>))"

definition alloc_prefetchable_bar :: "int \<Rightarrow> int \<Rightarrow> root_complex \<Rightarrow> int \<times> root_complex" where
  "alloc_prefetchable_bar val msk rc =
     (let l = align (rc_prefetchable_mem_limit rc) msk
      in ((val AND 15) OR l, rc\<lparr>rc_prefetchable_mem_limit := l + (msk + 1)\<rparr>))"

definition on_rc :: "(root_complex \<Rightarrow> 'a \<times> root_complex) \<Rightarrow> (root_complex \<times> 'e, 'a) stm" where
  "on_rc g = (\<lambda>(rc, e). case g rc of (x, rc') \<Rightarrow> Inr (x, rc', e))"

definition record_bar :: "nat list \<Rightarrow> nat \<Rightarrow> int \<Rightarrow> int \<Rightarrow> (root_complex \<times> 'e, unit) stm" where
  "record_bar p k val sz =
     set_item p (\<lambda>d. d\<lparr>ti_bar := (ti_bar d)[k := Some val], ti_bar_size := (ti_bar_size d)[k := Some sz]\<rparr>)"

definition bar_addr :: "nat \<Rightarrow> int" where
  "bar_addr k = 0x10 + int k * 4"

text \<open>\<open>probe_bar\<close> writes all ones and reads the register back. \<open>config_bar\<close> returns whether the register
  above was used as well.\<close>

definition probe_bar :: "'e net \<Rightarrow> pcie_id \<Rightarrow> nat \<Rightarrow> (root_complex \<times> 'e, int) stm" where
  "probe_bar net dev k =
     bindS (config_write_dword net dev (bar_addr k) 0xffffffff) (\<lambda>_. config_read_dword net dev (bar_addr k))"

definition config_io_bar :: "'e net \<Rightarrow> pcie_id \<Rightarrow> nat list \<Rightarrow> nat \<Rightarrow> int \<Rightarrow> (root_complex \<times> 'e, unit) stm" where
  "config_io_bar net dev p k val =
     (let msk = (NOT val AND 0xffffffff) OR 3
      in bindS (on_rc (alloc_io_bar val msk)) (\<lambda>v.
         bindS (record_bar p k v (msk + 1)) (\<lambda>_. config_write_dword net dev (bar_addr k) v)))"

definition config_mem_bar :: "'e net \<Rightarrow> pcie_id \<Rightarrow> nat list \<Rightarrow> nat \<Rightarrow> int \<Rightarrow> (root_complex \<times> 'e, unit) stm" where
  "config_mem_bar net dev p k val =
     (let msk = (NOT val AND 0xffffffff) OR 15
      in bindS (on_rc (alloc_mem_bar val msk)) (\<lambda>v.
         bindS (record_bar p k v (msk + 1)) (\<lambda>_. config_write_dword net dev (bar_addr k) v)))"

definition config_mem64_bar :: "'e net \<Rightarrow> pcie_id \<Rightarrow> nat list \<Rightarrow> nat \<Rightarrow> int \<Rightarrow> (root_complex \<times> 'e, unit) stm" where
  "config_mem64_bar net dev p k val =
     (let msk = (NOT val AND 0xffffffffffffffff) OR 15
      in bindS (on_rc (if val AND 8 \<noteq> 0 then alloc_prefetchable_bar val msk else alloc_mem_bar val msk)) (\<lambda>v.
         bindS (record_bar p k v (msk + 1)) (\<lambda>_.
         bindS (config_write_dword net dev (bar_addr k) (v AND 0xffffffff)) (\<lambda>_.
           config_write_dword net dev (bar_addr (k + 1)) (drop_bit 32 v AND 0xffffffff)))))"

definition config_bar ::
  "'e net \<Rightarrow> pcie_id \<Rightarrow> nat list \<Rightarrow> nat \<Rightarrow> nat \<Rightarrow> int \<Rightarrow> (root_complex \<times> 'e, bool) stm" where
  "config_bar net dev p bar_cnt k val =
     (if val AND 1 \<noteq> 0 then bindS (config_io_bar net dev p k val) (\<lambda>_. retS False)
      else if val AND 4 \<noteq> 0 then
        if k + 1 \<ge> bar_cnt then errS (PyException ''Invalid BAR configuration'')
        else bindS (probe_bar net dev (k + 1)) (\<lambda>val2.
             bindS (config_mem64_bar net dev p k (val OR push_bit 32 val2)) (\<lambda>_. retS True))
      else bindS (config_mem_bar net dev p k val) (\<lambda>_. retS False))"

function bar_loop :: "'e net \<Rightarrow> pcie_id \<Rightarrow> nat list \<Rightarrow> nat \<Rightarrow> nat \<Rightarrow> (root_complex \<times> 'e, unit) stm" where
  "bar_loop net dev p bar_cnt k =
     (if k < bar_cnt then
        bindS (probe_bar net dev k) (\<lambda>val.
          if val = 0 then bar_loop net dev p bar_cnt (k + 1)
          else bindS (config_bar net dev p bar_cnt k val) (\<lambda>two.
                 bar_loop net dev p bar_cnt (k + (if two then 2 else 1))))
      else retS ())"
  by pat_completeness auto
termination
  by (relation "measure (\<lambda>(net, dev, p, bar_cnt, k). bar_cnt - k)") auto

declare bar_loop.simps [simp del]

subsection \<open>Capabilities and control registers\<close>

text \<open>The walk ends at a zero pointer. A device may close its list to a ring, so the number of steps is
  bounded by \<open>fuel\<close>.\<close>

primrec cap_walk :: "nat \<Rightarrow> 'e net \<Rightarrow> pcie_id \<Rightarrow> nat list \<Rightarrow> int \<Rightarrow> (root_complex \<times> 'e, unit) stm" where
  "cap_walk 0 net dev p ptr = (if ptr > 0 then errS Unfinished else retS ())"
| "cap_walk (Suc fuel) net dev p ptr =
     (if ptr > 0 then
        bindS (config_read net dev ptr 2) (\<lambda>val.
        bindS (liftS (nth_res val 0)) (\<lambda>cap. bindS (liftS (nth_res val 1)) (\<lambda>nxt.
        bindS (set_item p (\<lambda>d. d\<lparr>ti_capabilities := ti_capabilities d @ [(uint cap, ptr)]\<rparr>)) (\<lambda>_.
          cap_walk fuel net dev p (uint nxt AND 0xfc)))))
      else retS ())"

definition walk_capabilities :: "nat \<Rightarrow> 'e net \<Rightarrow> pcie_id \<Rightarrow> nat list \<Rightarrow> (root_complex \<times> 'e, unit) stm" where
  "walk_capabilities fuel net dev p =
     bindS (config_read_byte net dev 0x34) (\<lambda>ptr. cap_walk fuel net dev p (uint ptr AND 0xfc))"

definition dev_ctrl_value :: "root_complex \<Rightarrow> int \<Rightarrow> int \<Rightarrow> int" where
  "dev_ctrl_value rc dcap dev_ctrl_sta =
     (let mps = min 0x5 (min (rc_max_payload_size rc) (dcap AND 7));
          ext_tag = (if rc_extended_tag_field_enable rc \<and> dcap AND push_bit 5 1 \<noteq> 0 then 1 else 0);
          mrrs = min 0x5 (rc_max_read_request_size rc)
      in (dev_ctrl_sta AND 0x00008e1f) OR push_bit 5 mps OR push_bit 8 ext_tag OR push_bit 12 mrrs)"

definition set_dev_ctrl :: "'e net \<Rightarrow> pcie_id \<Rightarrow> (root_complex \<times> 'e, unit) stm" where
  "set_dev_ctrl net dev =
     bindS (capability_read_dword net dev PCIE_CAP_ID 4) (\<lambda>dcap.
     bindS (capability_read_dword net dev PCIE_CAP_ID 8) (\<lambda>dev_ctrl_sta.
     bindS (getS (\<lambda>(rc, e). dev_ctrl_value rc dcap dev_ctrl_sta)) (\<lambda>v.
       capability_write_dword net dev PCIE_CAP_ID 8 v)))"

definition enable_bus_master :: "'e net \<Rightarrow> pcie_id \<Rightarrow> (root_complex \<times> 'e, unit) stm" where
  "enable_bus_master net dev =
     bindS (config_read_word net dev 0x04) (\<lambda>val. config_write_word net dev 0x04 (val OR 4))"

subsection \<open>Bridges\<close>

definition bytes_of :: "int list \<Rightarrow> byte list res" where
  "bytes_of vs = mapE (\<lambda>v. if 0 \<le> v \<and> v < 256 then Inr (word_of_int v) else Inl ValueError) vs"

definition pack_B :: "int \<Rightarrow> byte list res" where
  "pack_B v = (if 0 \<le> v \<and> v < 256 then Inr (le_bytes 1 v) else Inl StructError)"

definition pack2 :: "(int \<Rightarrow> byte list res) \<Rightarrow> int \<Rightarrow> int \<Rightarrow> byte list res" where
  "pack2 pk a b = bindE (pk a) (\<lambda>x. bindE (pk b) (\<lambda>y. Inr (x @ y)))"

definition write_packed :: "'e net \<Rightarrow> pcie_id \<Rightarrow> int \<Rightarrow> byte list res \<Rightarrow> (root_complex \<times> 'e, unit) stm" where
  "write_packed net dev addr bs = bindS (liftS bs) (config_write net dev addr)"

definition set_bus_numbers :: "'e net \<Rightarrow> pcie_id \<Rightarrow> int \<Rightarrow> int \<Rightarrow> int \<Rightarrow> (root_complex \<times> 'e, unit) stm" where
  "set_bus_numbers net dev pri sec sub = write_packed net dev 0x018 (bytes_of [pri, sec, sub])"

definition set_windows :: "'e net \<Rightarrow> pcie_id \<Rightarrow> tree_data \<Rightarrow> (root_complex \<times> 'e, unit) stm" where
  "set_windows net dev ti =
     bindS (write_packed net dev 0x01c
       (pack2 pack_B (drop_bit 8 (ti_io_base ti) AND 0xf0) (drop_bit 8 (ti_io_limit ti) AND 0xf0))) (\<lambda>_.
     bindS (write_packed net dev 0x030 (pack2 pack_H (drop_bit 16 (ti_io_base ti)) (drop_bit 16 (ti_io_limit ti)))) (\<lambda>_.
     bindS (write_packed net dev 0x020
       (pack2 pack_H (drop_bit 16 (ti_mem_base ti) AND 0xfff0) (drop_bit 16 (ti_mem_limit ti) AND 0xfff0))) (\<lambda>_.
     bindS (write_packed net dev 0x024
       (pack2 pack_H (drop_bit 16 (ti_prefetchable_mem_base ti) AND 0xfff0)
                     (drop_bit 16 (ti_prefetchable_mem_limit ti) AND 0xfff0))) (\<lambda>_.
     bindS (write_packed net dev 0x028 (pack_L (drop_bit 32 (ti_prefetchable_mem_base ti)))) (\<lambda>_.
       write_packed net dev 0x02c (pack_L (drop_bit 32 (ti_prefetchable_mem_limit ti))))))))"

subsection \<open>Functions, devices and segments\<close>

text \<open>The arguments of \<open>enumerate\<close> and what stands for code outside the model.\<close>

record 'e enum_env =
  en_net :: "'e net"
  en_clog2 :: "int \<Rightarrow> nat"
  en_fuel :: nat
  en_bus_mastering :: bool
  en_configure_msi :: bool

definition scan_bridge ::
  "'e enum_env \<Rightarrow> (nat list \<Rightarrow> int \<Rightarrow> (root_complex \<times> 'e, int) stm) \<Rightarrow> pcie_id \<Rightarrow> nat list \<Rightarrow> int \<Rightarrow> int \<Rightarrow>
   (root_complex \<times> 'e, int) stm" where
  "scan_bridge en rec dev p bus sec_bus =
     bindS (set_bus_numbers (en_net en) dev bus sec_bus 255) (\<lambda>_.
     bindS (rec p sec_bus) (\<lambda>sub_bus.
     bindS (set_bus_numbers (en_net en) dev bus sec_bus sub_bus) (\<lambda>_.
     bindS (get_item p) (\<lambda>ti.
     bindS (set_windows (en_net en) dev ti) (\<lambda>_. retS sub_bus)))))"

definition scan_function ::
  "'e enum_env \<Rightarrow> (nat list \<Rightarrow> int \<Rightarrow> (root_complex \<times> 'e, int) stm) \<Rightarrow> nat list \<Rightarrow> int \<Rightarrow> int \<Rightarrow> int \<Rightarrow>
   int \<times> int \<Rightarrow> (root_complex \<times> 'e, int \<times> int) stm" where
  "scan_function en rec p bus d f buses =
     (let dev = PcieId bus d f; net = en_net en
      in bindS (config_read net dev 0 4) (\<lambda>val.
         if val = replicate 4 (- 1) then retS buses
         else if length val \<noteq> 4 then errS StructError
         else bindS (add_child p (tree_init\<lparr>ti_id := dev, ti_vendor_id := le_int (slice 0 2 val),
                ti_device_id := le_int (slice 2 4 val)\<rparr>)) (\<lambda>q.
              bindS (config_read_byte net dev 0x00e) (\<lambda>typ.
              let bridge = (uint typ AND 0x7f = 1)
              in bindS (bar_loop net dev q (if bridge then 2 else 6) 0) (\<lambda>_.
                 bindS (walk_capabilities (en_fuel en) net dev q) (\<lambda>_.
                 bindS (set_dev_ctrl net dev) (\<lambda>_.
                 bindS (whenS (en_bus_mastering en) (enable_bus_master net dev)) (\<lambda>_.
                 bindS (whenS (en_configure_msi en) (bindS (configure_msi (en_clog2 en) net dev) (\<lambda>_. retS ()))) (\<lambda>_.
                   if bridge then
                     bindS (scan_bridge en rec dev q bus (fst buses)) (\<lambda>sub_bus. retS (sub_bus + 1, sub_bus))
                   else retS buses)))))))))"

definition scan_device ::
  "'e enum_env \<Rightarrow> (nat list \<Rightarrow> int \<Rightarrow> (root_complex \<times> 'e, int) stm) \<Rightarrow> nat list \<Rightarrow> int \<Rightarrow> int \<Rightarrow>
   int \<times> int \<Rightarrow> (root_complex \<times> 'e, int \<times> int) stm" where
  "scan_device en rec p bus d buses =
     (if bus = 0 \<and> d = 0 then retS buses
      else bindS (config_read_dword (en_net en) (PcieId bus d 0) 0) (\<lambda>val.
        if val = 0xffffffff then retS buses
        else bindS (config_read_byte (en_net en) (PcieId bus d 0) 0x00e) (\<lambda>typ.
          foldS (scan_function en rec p bus d)
            (map int [0..<(if uint typ AND 0x80 \<noteq> 0 then 8 else 1)]) buses)))"

definition align_limits :: "root_complex \<Rightarrow> root_complex" where
  "align_limits rc = rc\<lparr>rc_io_limit := align (rc_io_limit rc) 0xfff,
     rc_mem_limit := align (rc_mem_limit rc) 0xfffff,
     rc_prefetchable_mem_limit := align (rc_prefetchable_mem_limit rc) 0xfffff\<rparr>"

definition open_segment :: "nat list \<Rightarrow> int \<Rightarrow> (root_complex \<times> 'e, unit) stm" where
  "open_segment p bus =
     bindS (modS (\<lambda>(rc, e). (align_limits rc, e))) (\<lambda>_.
     bindS (getS fst) (\<lambda>rc.
       set_item p (\<lambda>d. d\<lparr>ti_sec_bus_num := bus, ti_io_base := rc_io_limit rc, ti_io_limit := rc_io_limit rc,
         ti_mem_base := rc_mem_limit rc, ti_mem_limit := rc_mem_limit rc,
         ti_prefetchable_mem_base := rc_prefetchable_mem_limit rc,
         ti_prefetchable_mem_limit := rc_prefetchable_mem_limit rc\<rparr>)))"

definition close_segment :: "nat list \<Rightarrow> int \<Rightarrow> (root_complex \<times> 'e, unit) stm" where
  "close_segment p sub_bus =
     bindS (modS (\<lambda>(rc, e). (align_limits rc, e))) (\<lambda>_.
     bindS (getS fst) (\<lambda>rc.
       set_item p (\<lambda>d. d\<lparr>ti_sub_bus_num := sub_bus, ti_io_limit := rc_io_limit rc - 1,
         ti_mem_limit := rc_mem_limit rc - 1, ti_prefetchable_mem_limit := rc_prefetchable_mem_limit rc - 1\<rparr>)))"

text \<open>The depth of the recursion is bounded by its first argument; \<open>enumerate\<close> starts with 256, as
  many as there are bus numbers.\<close>

primrec enumerate_segment ::
  "nat \<Rightarrow> 'e enum_env \<Rightarrow> nat list \<Rightarrow> int \<Rightarrow> (root_complex \<times> 'e, int) stm" where
  "enumerate_segment 0 en p bus = errS RecursionError"
| "enumerate_segment (Suc n) en p bus =
     bindS (open_segment p bus) (\<lambda>_.
     bindS (foldS (scan_device en (enumerate_segment n en) p bus) (map int [0..<32]) (bus + 1, bus)) (\<lambda>(sec_bus, sub_bus).
     bindS (close_segment p sub_bus) (\<lambda>_. retS sub_bus)))"

definition rc_enumerate :: "'e enum_env \<Rightarrow> (root_complex \<times> 'e, unit) stm" where
  "rc_enumerate en =
     bindS (modS (\<lambda>(rc, e). (rc\<lparr>rc_io_limit := rc_io_base rc, rc_mem_limit := rc_mem_base rc,
       rc_prefetchable_mem_limit := rc_prefetchable_mem_base rc, rc_tree := TreeItem tree_init []\<rparr>, e))) (\<lambda>_.
     bindS (enumerate_segment 256 en [] 0) (\<lambda>_.
       modS (\<lambda>(rc, e). (host_windows rc, e))))"

section \<open>Properties\<close>

subsection \<open>Paths in the tree\<close>

primrec valid_path :: "nat list \<Rightarrow> tree \<Rightarrow> bool" where
  "valid_path [] t = True"
| "valid_path (i # p) t = (i < length (children t) \<and> valid_path p (children t ! i))"

definition map_data :: "(tree_data \<Rightarrow> tree_data) \<Rightarrow> tree \<Rightarrow> tree" where
  "map_data h t = TreeItem (h (ti_data t)) (children t)"

definition append_item :: "tree_data \<Rightarrow> tree \<Rightarrow> tree" where
  "append_item d t = TreeItem (ti_data t) (children t @ [TreeItem d []])"

lemma valid_path_map_data: "valid_path q (tree_map p (map_data h) t) = valid_path q t"
proof (induction p arbitrary: q t)
  case Nil
  show ?case by (cases q) (simp_all add: map_data_def)
next
  case (Cons i p)
  show ?case
  proof (cases q)
    case (Cons j q')
    then show ?thesis using Cons.IH by (cases "i = j") auto
  qed simp
qed

lemma tree_at_map_data:
  "valid_path q t \<Longrightarrow> ti_data (tree_at q (tree_map p (map_data h) t)) =
     (if q = p then h (ti_data (tree_at q t)) else ti_data (tree_at q t))"
proof (induction p arbitrary: q t)
  case Nil
  then show ?case by (cases q) (simp_all add: map_data_def)
next
  case (Cons i p)
  show ?case
  proof (cases q)
    case (Cons j q')
    then show ?thesis using Cons.prems Cons.IH [of q' "children t ! j"] by (cases "i = j") auto
  qed simp
qed

lemma valid_path_append_item:
  "valid_path q (tree_map p (append_item d) t) \<longleftrightarrow>
     valid_path q t \<or> valid_path p t \<and> q = p @ [length (children (tree_at p t))]"
proof (induction p arbitrary: q t)
  case Nil
  show ?case
  proof (cases q)
    case (Cons j q')
    then show ?thesis by (cases q') (auto simp: append_item_def nth_append less_Suc_eq)
  qed (simp add: append_item_def)
next
  case (Cons i p)
  show ?case
  proof (cases q)
    case (Cons j q')
    then show ?thesis using Cons.IH [of q' "children t ! j"] by (cases "i = j") auto
  qed simp
qed

lemma tree_at_append_item:
  "valid_path q (tree_map p (append_item d) t) \<Longrightarrow>
     ti_data (tree_at q (tree_map p (append_item d) t)) = (if valid_path q t then ti_data (tree_at q t) else d)"
proof (induction p arbitrary: q t)
  case Nil
  show ?case
  proof (cases q)
    case (Cons j q')
    then show ?thesis using Nil by (cases q') (auto simp: append_item_def nth_append less_Suc_eq)
  qed (simp add: append_item_def)
next
  case (Cons i p)
  show ?case
  proof (cases q)
    case (Cons j q')
    then show ?thesis using Cons.prems Cons.IH [of q' "children t ! j"] by (cases "i = j") auto
  qed simp
qed

definition same_items :: "(tree_data \<Rightarrow> 'a) \<Rightarrow> tree \<Rightarrow> tree \<Rightarrow> bool" where
  "same_items P t t' \<longleftrightarrow>
     (\<forall>q. valid_path q t' = valid_path q t \<and>
       (valid_path q t \<longrightarrow> P (ti_data (tree_at q t')) = P (ti_data (tree_at q t))))"

lemma same_items_TreeItem:
  "P d' = P d \<Longrightarrow> length cs' = length cs \<Longrightarrow> \<forall>j < length cs. same_items P (cs ! j) (cs' ! j) \<Longrightarrow>
     same_items P (TreeItem d cs) (TreeItem d' cs')"
  unfolding same_items_def
proof (intro allI)
  fix q
  assume "P d' = P d" "length cs' = length cs"
    "\<forall>j<length cs. \<forall>q. valid_path q (cs' ! j) = valid_path q (cs ! j) \<and>
       (valid_path q (cs ! j) \<longrightarrow> P (ti_data (tree_at q (cs' ! j))) = P (ti_data (tree_at q (cs ! j))))"
  then show "valid_path q (TreeItem d' cs') = valid_path q (TreeItem d cs) \<and>
      (valid_path q (TreeItem d cs) \<longrightarrow>
        P (ti_data (tree_at q (TreeItem d' cs'))) = P (ti_data (tree_at q (TreeItem d cs))))"
    by (cases q) auto
qed

lemma same_items_refl [simp]: "same_items P t t"
  by (simp add: same_items_def)

lemma same_items_update_dev:
  "\<forall>d. P (h d) = P d \<Longrightarrow> same_items P t (update_dev i h t)"
  "\<forall>d. P (h d) = P d \<Longrightarrow> length (update_dev_list i h ts) = length ts \<and>
     (\<forall>j < length ts. same_items P (ts ! j) (update_dev_list i h ts ! j))"
proof (induction i h t and i h ts rule: update_dev_update_dev_list.induct)
  case (1 i h d cs)
  then show ?case by (auto intro: same_items_TreeItem)
next
  case (3 i h c cs)
  then show ?case by (auto simp: nth_Cons split: nat.split)
qed simp

lemma same_items_map_data: "\<forall>d. P (h d) = P d \<Longrightarrow> same_items P t (tree_map p (map_data h) t)"
  by (simp add: same_items_def valid_path_map_data tree_at_map_data)

subsection \<open>What the operations change\<close>

text \<open>Accesses to the configuration space change the requester and the fabric only.\<close>

definition only_req :: "root_complex \<times> 'e \<Rightarrow> root_complex \<times> 'e \<Rightarrow> bool" where
  "only_req s t \<longleftrightarrow> fst t = (fst s)\<lparr>rc_req := rc_req (fst t)\<rparr>"

lemma reflp_only_req: "reflp only_req"
  by (simp add: reflp_def only_req_def)

lemma transp_only_req: "transp only_req"
proof (rule transpI)
  fix s t u :: "root_complex \<times> 'e"
  assume "only_req s t" "only_req t u"
  then show "only_req s u" unfolding only_req_def
    by (cases "fst s"; cases "fst t"; cases "fst u") auto
qed

lemma keeps_ret: "reflp P \<Longrightarrow> keeps P (retS x)" "reflp P \<Longrightarrow> keeps P (getS g)" "keeps P (errS e)" "reflp P \<Longrightarrow> keeps P (liftS r)"
  by (auto simp: keeps_def reflp_def liftS_def)

lemma keeps_if: "keeps P m \<Longrightarrow> keeps P n \<Longrightarrow> keeps P (if b then m else n)"
  by simp

lemma only_req_on_req: "keeps only_req (on_req g)"
  by (auto simp: keeps_def on_req_def only_req_def)

lemmas only_req_rules = keeps_bindS [OF transp_only_req] keeps_ret(1,2,4) [OF reflp_only_req] keeps_ret(3) only_req_on_req

lemma only_req_config:
  "keeps only_req (config_read net dev a len)" "keeps only_req (config_write net dev a data)"
  by (simp_all add: config_read_def config_write_def only_req_on_req)

lemma only_req_words:
  "keeps only_req (config_read_dword net dev a)" "keeps only_req (config_read_word net dev a)"
  "keeps only_req (config_read_byte net dev a)"
  "keeps only_req (config_write_dword net dev a w)" "keeps only_req (config_write_word net dev a w)"
  by (simp_all add: config_read_dword_def config_read_dwords_def config_read_word_def config_read_words_def
      config_read_byte_def first_of_def read_words_def config_write_dword_def config_write_dwords_def
      config_write_word_def config_write_words_def write_words_def only_req_rules only_req_config)

lemma only_req_cap_offset: "keeps only_req (cap_offset dev cap)"
  by (auto simp: keeps_def cap_offset_def bindS_eq_Inr only_req_def split: option.splits if_splits prod.splits)

lemma only_req_capability:
  "keeps only_req (capability_read_dword net dev cap a)" "keeps only_req (capability_write_dword net dev cap a w)"
  by (simp_all add: capability_read_dword_def capability_read_dwords_def capability_read_words_def capability_read_def
      first_of_def read_words_def capability_write_dword_def capability_write_dwords_def capability_write_words_def
      capability_write_def write_words_def only_req_rules only_req_config only_req_cap_offset)

subsection \<open>Windows\<close>

text \<open>The address spaces and the window that a recorded base address register describes.\<close>

datatype space = IO_space | Mem_space | Prefetchable_space

definition bar_space :: "int \<Rightarrow> space" where
  "bar_space v = (if bit v 0 then IO_space else if bit v 2 \<and> bit v 3 then Prefetchable_space else Mem_space)"

definition bar_base :: "int \<Rightarrow> int" where
  "bar_base v = (if bit v 0 then v - v mod 4 else v - v mod 16)"

definition space_base :: "root_complex \<Rightarrow> space \<Rightarrow> int" where
  "space_base rc sp = (case sp of IO_space \<Rightarrow> rc_io_base rc | Mem_space \<Rightarrow> rc_mem_base rc
     | Prefetchable_space \<Rightarrow> rc_prefetchable_mem_base rc)"

definition space_limit :: "root_complex \<Rightarrow> space \<Rightarrow> int" where
  "space_limit rc sp = (case sp of IO_space \<Rightarrow> rc_io_limit rc | Mem_space \<Rightarrow> rc_mem_limit rc
     | Prefetchable_space \<Rightarrow> rc_prefetchable_mem_limit rc)"

text \<open>Register \<open>k\<close> of the item at path \<open>q\<close> has been given the value \<open>v\<close>, for a window of \<open>sz\<close> bytes.\<close>

definition recorded :: "tree \<Rightarrow> nat list \<Rightarrow> nat \<Rightarrow> int \<Rightarrow> int \<Rightarrow> bool" where
  "recorded t q k v sz \<longleftrightarrow> valid_path q t \<and>
     (let d = ti_data (tree_at q t)
      in k < length (ti_bar d) \<and> k < length (ti_bar_size d) \<and> ti_bar d ! k = Some v \<and> ti_bar_size d ! k = Some sz)"

text \<open>A window whose size is a power of two starts at a multiple of its size.\<close>

definition window_aligned :: "int \<Rightarrow> int \<Rightarrow> bool" where
  "window_aligned v sz \<longleftrightarrow> (\<forall>j. sz = 2 ^ j \<longrightarrow> sz dvd bar_base v)"

definition windows_ok :: "root_complex \<Rightarrow> bool" where
  "windows_ok rc \<longleftrightarrow>
     (\<forall>sp. space_base rc sp \<le> space_limit rc sp) \<and>
     (\<forall>q k v sz. recorded (rc_tree rc) q k v sz \<longrightarrow>
        0 < sz \<and> space_base rc (bar_space v) \<le> bar_base v \<and> bar_base v + sz \<le> space_limit rc (bar_space v) \<and>
        window_aligned v sz) \<and>
     (\<forall>q k v sz q' k' v' sz'. recorded (rc_tree rc) q k v sz \<and> recorded (rc_tree rc) q' k' v' sz' \<and>
        (q, k) \<noteq> (q', k') \<and> bar_space v = bar_space v' \<longrightarrow>
        bar_base v + sz \<le> bar_base v' \<or> bar_base v' + sz' \<le> bar_base v)"

definition keeps_windows :: "(root_complex \<times> 'e, 'a) stm \<Rightarrow> bool" where
  "keeps_windows m \<longleftrightarrow> keeps (\<lambda>s t. windows_ok (fst s) \<longrightarrow> windows_ok (fst t)) m"

lemma keeps_windowsD: "keeps_windows m \<Longrightarrow> m (rc, e) = Inr (x, rc', e') \<Longrightarrow> windows_ok rc \<Longrightarrow> windows_ok rc'"
  by (auto simp: keeps_windows_def dest: keepsD)

lemma keeps_windows_bindS: "keeps_windows m \<Longrightarrow> (\<And>x. keeps_windows (f x)) \<Longrightarrow> keeps_windows (bindS m f)"
  unfolding keeps_windows_def by (rule keeps_bindS) (auto simp: transp_def)

lemma keeps_windows_foldS: "(\<And>x a. keeps_windows (f x a)) \<Longrightarrow> keeps_windows (foldS f xs a)"
  unfolding keeps_windows_def by (rule keeps_foldS) (auto simp: transp_def reflp_def)

lemma keeps_windows_pure:
  "keeps_windows (retS x)" "keeps_windows (getS g)" "keeps_windows (errS e)" "keeps_windows (liftS r)"
  "keeps_windows m \<Longrightarrow> keeps_windows (whenS b m)"
  by (auto simp: keeps_windows_def keeps_def liftS_def whenS_def)

text \<open>The invariant depends on the base address registers in the tree and on the limits only.\<close>

lemma recorded_same_items:
  "same_items (\<lambda>d. (ti_bar d, ti_bar_size d)) t t' \<Longrightarrow> recorded t' q k v sz = recorded t q k v sz"
  by (auto simp: same_items_def recorded_def Let_def)

lemma windows_ok_same:
  assumes "same_items (\<lambda>d. (ti_bar d, ti_bar_size d)) (rc_tree rc) (rc_tree rc')"
    "space_base rc' = space_base rc" "space_limit rc' = space_limit rc"
  shows "windows_ok rc' = windows_ok rc"
  unfolding windows_ok_def recorded_same_items [OF assms(1)] assms(2,3) ..

lemma windows_ok_mono:
  assumes "windows_ok rc" "same_items (\<lambda>d. (ti_bar d, ti_bar_size d)) (rc_tree rc) (rc_tree rc')"
    "space_base rc' = space_base rc" "\<And>sp. space_limit rc sp \<le> space_limit rc' sp"
  shows "windows_ok rc'"
  using assms(1,4) unfolding windows_ok_def recorded_same_items [OF assms(2)] assms(3)
  by (meson order_trans)

lemma only_req_windows: "keeps only_req m \<Longrightarrow> keeps_windows m"
  unfolding keeps_windows_def keeps_def
proof (intro allI impI)
  fix s x t assume m: "\<forall>s x t. m s = Inr (x, t) \<longrightarrow> only_req s t" "m s = Inr (x, t)" and w: "windows_ok (fst s)"
  from m have t: "fst t = (fst s)\<lparr>rc_req := rc_req (fst t)\<rparr>" unfolding only_req_def by blast
  have "windows_ok ((fst s)\<lparr>rc_req := rc_req (fst t)\<rparr>) = windows_ok (fst s)"
    by (rule windows_ok_same) (simp_all add: fun_eq_iff space_base_def space_limit_def split: space.split)
  with t w show "windows_ok (fst t)" by simp
qed

lemmas req_windows = only_req_config [THEN only_req_windows] only_req_words [THEN only_req_windows]
  only_req_capability [THEN only_req_windows]

lemma keeps_windows_set_item:
  assumes "\<forall>d. ti_bar (h d) = ti_bar d \<and> ti_bar_size (h d) = ti_bar_size d"
  shows "keeps_windows (set_item p h)"
proof -
  have "windows_ok (rc\<lparr>rc_tree := tree_map p (map_data h) (rc_tree rc)\<rparr>) = windows_ok rc" for rc
    using assms by (intro windows_ok_same) (auto simp: fun_eq_iff space_base_def space_limit_def split: space.split
        intro: same_items_map_data)
  then show ?thesis
    by (auto simp: keeps_windows_def keeps_def set_item_def map_data_def [abs_def])
qed

lemma recorded_append_item:
  assumes "ti_bar d = replicate 6 None"
  shows "recorded (tree_map p (append_item d) t) q k v sz \<longleftrightarrow> recorded t q k v sz"
  using assms unfolding recorded_def Let_def
  by (cases "valid_path q t") (auto simp: valid_path_append_item tree_at_append_item)

lemma keeps_windows_add_child:
  assumes "ti_bar d = replicate 6 None"
  shows "keeps_windows (add_child p d)"
proof -
  have "windows_ok (rc\<lparr>rc_tree := tree_map p (append_item d) (rc_tree rc)\<rparr>) = windows_ok rc" for rc
    unfolding windows_ok_def by (simp add: recorded_append_item [OF assms] space_base_def space_limit_def cong: space.case_cong)
  then show ?thesis
    by (auto simp: keeps_windows_def keeps_def add_child_def append_item_def [abs_def])
qed


lemma windows_ok_record:
  assumes ok: "windows_ok rc" and base: "space_base rc' = space_base rc"
    and mono: "\<And>sp. space_limit rc sp \<le> space_limit rc' sp"
    and tree: "rc_tree rc' = tree_map p (map_data (\<lambda>d. d\<lparr>ti_bar := (ti_bar d)[k := Some v],
      ti_bar_size := (ti_bar_size d)[k := Some sz]\<rparr>)) (rc_tree rc)"
    and win: "0 < sz" "space_limit rc (bar_space v) \<le> bar_base v" "bar_base v + sz \<le> space_limit rc' (bar_space v)"
      "window_aligned v sz"
  shows "windows_ok rc'"
proof -
  let ?t = "rc_tree rc" and ?t' = "rc_tree rc'"
  have rec: "q = p \<and> j = k \<and> w = v \<and> z = sz \<or> recorded ?t q j w z \<and> (q, j) \<noteq> (p, k)" if "recorded ?t' q j w z" for q j w z
    using that unfolding recorded_def tree Let_def
    by (cases "j = k") (auto simp: valid_path_map_data tree_at_map_data split: if_splits)
  have old: "0 < z \<and> space_base rc (bar_space w) \<le> bar_base w \<and> bar_base w + z \<le> space_limit rc (bar_space w) \<and>
      window_aligned w z"
    if "recorded ?t q j w z" for q j w z
    using ok that unfolding windows_ok_def by blast
  have bl: "space_base rc sp \<le> space_limit rc sp" for sp using ok unfolding windows_ok_def by blast
  show ?thesis
    unfolding windows_ok_def
  proof (intro conjI allI impI)
    fix sp show "space_base rc' sp \<le> space_limit rc' sp"
      unfolding base using bl mono by (rule order_trans)
  next
    fix q j w z assume r: "recorded ?t' q j w z"
    show "window_aligned w z" using rec [OF r] win(4) old [of q j w z] by blast
    from rec [OF r] show "0 < z" "space_base rc' (bar_space w) \<le> bar_base w" "bar_base w + z \<le> space_limit rc' (bar_space w)"
      using win old [of q j w z] mono [of "bar_space w"] bl [of "bar_space w"] unfolding base by (auto intro: order_trans)
  next
    fix q j w z q' j' w' z'
    assume a: "recorded ?t' q j w z \<and> recorded ?t' q' j' w' z' \<and> (q, j) \<noteq> (q', j') \<and> bar_space w = bar_space w'"
    then have r: "recorded ?t' q j w z" "recorded ?t' q' j' w' z'" by blast+
    show "bar_base w + z \<le> bar_base w' \<or> bar_base w' + z' \<le> bar_base w"
    proof (cases "recorded ?t q j w z \<and> recorded ?t q' j' w' z'")
      case True
      then show ?thesis using ok a unfolding windows_ok_def by blast
    next
      case False
      then show ?thesis
        using rec [OF r(1)] rec [OF r(2)] old [of q j w z] old [of q' j' w' z'] a win(2) by auto
    qed
  qed
qed

lemma align_or_mask:
  assumes "0 \<le> x" and m_def: "m = x OR (2 ^ n - 1 :: int)"
  shows "2 ^ n dvd align val m" "val \<le> align val m" "0 \<le> m"
proof -
  have bit_m: "bit m j" if "j < n" for j
    using that by (simp add: m_def bit_or_iff bit_mask_iff flip: mask_eq_exp_minus_1)
  have d1: "2 ^ n dvd val AND NOT m" for val
  proof -
    have "take_bit n (val AND NOT m) = 0"
      by (rule bit_eqI) (auto simp: bit_take_bit_iff bit_and_iff bit_not_iff bit_m)
    then show ?thesis by (simp only: take_bit_eq_0_iff)
  qed
  have "take_bit n m = mask n"
    by (rule bit_eqI) (auto simp: bit_take_bit_iff bit_mask_iff bit_m)
  then have "m mod 2 ^ n = 2 ^ n - 1" by (simp add: take_bit_eq_mod mask_eq_exp_minus_1)
  then have d2: "2 ^ n dvd m + 1"
    by (metis add_diff_cancel_left' diff_add_cancel dvd_eq_mod_eq_0 mod_add_left_eq mod_self)
  show m0: "0 \<le> m" using assms by simp
  have split: "val - (val AND m) = val AND NOT m" using and_add_and_not [of val m] by linarith
  show "2 ^ n dvd align val m"
  proof (cases "val AND m = 0")
    case True
    then show ?thesis using split d1 [of val] by (simp add: align_def)
  next
    case False
    have "align val m = (val AND NOT m) + (m + 1)" using False split by (simp add: align_def)
    then show ?thesis using d1 [of val] d2 by simp
  qed
  have "val AND m \<le> m" using m0 by (simp add: AND_upper2)
  then show "val \<le> align val m" using m0 by (auto simp only: align_def split: if_split)
qed

text \<open>For a mask of ones, the alignment is a multiple of the size.\<close>

lemma window_alignedI: "bar_base v = align val m \<Longrightarrow> window_aligned v (m + 1)"
  unfolding window_aligned_def
proof (intro allI impI)
  fix j assume b: "bar_base v = align val m" and j: "m + 1 = 2 ^ j"
  then have "m = 0 OR (2 ^ j - 1)" by simp
  from align_or_mask(1) [OF order_refl this, of val] show "m + 1 dvd bar_base v" unfolding b j .
qed

lemma or_aligned:
  fixes l :: int
  assumes "2 ^ n dvd l"
  shows "(val AND (2 ^ n - 1)) OR l = val mod 2 ^ n + l"
    and "j < n \<Longrightarrow> bit ((val AND (2 ^ n - 1)) OR l) j = bit val j"
proof -
  obtain c where c: "l = push_bit n c" using assms by (auto simp: dvd_def push_bit_eq_mult mult.commute)
  show "(val AND (2 ^ n - 1)) OR l = val mod 2 ^ n + l"
    unfolding c and_mask_int using or_push_bit_eq_add [of "val mod 2 ^ n" n c] by (simp add: push_bit_eq_mult)
  show "bit ((val AND (2 ^ n - 1)) OR l) j = bit val j" if "j < n"
    unfolding c using that by (simp add: bit_or_iff bit_mask_int bit_push_bit_iff_int)
qed


subsection \<open>Allocation of windows\<close>

lemma and_bit_iff: "(v::int) AND 1 \<noteq> 0 \<longleftrightarrow> bit v 0" "v AND 4 \<noteq> 0 \<longleftrightarrow> bit v 2" "v AND 8 \<noteq> 0 \<longleftrightarrow> bit v 3"
  using and_exp_eq_0_iff_not_bit [of v 0] and_exp_eq_0_iff_not_bit [of v 2] and_exp_eq_0_iff_not_bit [of v 3]
  by (simp_all del: and_low_masks)

text \<open>The value for a register whose low bits are those of \<open>val\<close> and whose window starts at \<open>l\<close>.\<close>

lemma bar_value_io:
  assumes "4 dvd l" "bit val 0"
  shows "bar_space ((val AND 3) OR l) = IO_space" "bar_base ((val AND 3) OR l) = l"
proof -
  have d: "(2::int) ^ 2 dvd l" using assms(1) by simp
  have b: "bit ((val AND 3) OR l) 0" using or_aligned(2) [OF d, of 0 val] assms(2) by (simp del: and_low_masks)
  then show "bar_space ((val AND 3) OR l) = IO_space" by (simp add: bar_space_def del: and_low_masks)
  have e: "(val AND 3) OR l = val mod 4 + l" using or_aligned(1) [OF d, of val] by simp
  have "(val mod 4 + l) mod 4 = val mod 4" using assms(1) by (auto simp: dvd_def)
  then show "bar_base ((val AND 3) OR l) = l" using b unfolding bar_base_def e by simp
qed

lemma bar_value_mem:
  assumes "16 dvd l" "\<not> bit val 0"
  shows "bar_space ((val AND 15) OR l) = (if bit val 2 \<and> bit val 3 then Prefetchable_space else Mem_space)"
    "bar_base ((val AND 15) OR l) = l"
proof -
  have d: "(2::int) ^ 4 dvd l" using assms(1) by simp
  have b: "\<not> bit ((val AND 15) OR l) 0" "bit ((val AND 15) OR l) 2 = bit val 2" "bit ((val AND 15) OR l) 3 = bit val 3"
    using or_aligned(2) [OF d, of 0 val] or_aligned(2) [OF d, of 2 val] or_aligned(2) [OF d, of 3 val] assms(2)
    by (simp_all del: and_low_masks)
  then show "bar_space ((val AND 15) OR l) = (if bit val 2 \<and> bit val 3 then Prefetchable_space else Mem_space)"
    by (simp add: bar_space_def del: and_low_masks)
  have e: "(val AND 15) OR l = val mod 16 + l" using or_aligned(1) [OF d, of val] by simp
  have "(val mod 16 + l) mod 16 = val mod 16" using assms(1) by (auto simp: dvd_def)
  then show "bar_base ((val AND 15) OR l) = l" using b(1) unfolding bar_base_def e by simp
qed

text \<open>An allocation followed by its record: the window lies above the limit of its space.\<close>

lemma keeps_windows_alloc:
  assumes alloc: "\<And>rc v rc'. alloc rc = (v, rc') \<Longrightarrow>
      space_base rc' = space_base rc \<and> (\<forall>sp. space_limit rc sp \<le> space_limit rc' sp) \<and> rc_tree rc' = rc_tree rc \<and>
      space_limit rc (bar_space v) \<le> bar_base v \<and> bar_base v + sz \<le> space_limit rc' (bar_space v) \<and>
      window_aligned v sz"
    and "0 < sz" and f: "\<And>v. keeps_windows (f v)"
  shows "keeps_windows (bindS (on_rc alloc) (\<lambda>v. bindS (record_bar p k v sz) (\<lambda>_. f v)))"
  unfolding keeps_windows_def keeps_def
proof (intro allI impI)
  fix s x t
  assume run: "bindS (on_rc alloc) (\<lambda>v. bindS (record_bar p k v sz) (\<lambda>_. f v)) s = Inr (x, t)" and ok: "windows_ok (fst s)"
  obtain rc e where s: "s = (rc, e)" by (cases s)
  obtain v rc1 where a: "alloc rc = (v, rc1)" by (cases "alloc rc")
  let ?rc2 = "rc1\<lparr>rc_tree := tree_map p (map_data (\<lambda>d. d\<lparr>ti_bar := (ti_bar d)[k := Some v],
      ti_bar_size := (ti_bar_size d)[k := Some sz]\<rparr>)) (rc_tree rc1)\<rparr>"
  have run2: "f v (?rc2, e) = Inr (x, t)"
    using run by (simp add: s bindS_def on_rc_def a record_bar_def set_item_def map_data_def [abs_def])
  have same: "space_base (rc1\<lparr>rc_tree := u\<rparr>) = space_base rc1" "space_limit (rc1\<lparr>rc_tree := u\<rparr>) = space_limit rc1" for u
    by (simp_all add: space_base_def space_limit_def fun_eq_iff split: space.splits)
  have al: "space_base rc1 = space_base rc" "\<forall>sp. space_limit rc sp \<le> space_limit rc1 sp" "rc_tree rc1 = rc_tree rc"
    "space_limit rc (bar_space v) \<le> bar_base v" "bar_base v + sz \<le> space_limit rc1 (bar_space v)"
    "window_aligned v sz"
    using alloc [OF a] by blast+
  have "windows_ok ?rc2"
  proof (rule windows_ok_record [where rc = rc and p = p and k = k and v = v and sz = sz])
    show "windows_ok rc" using ok s by simp
    show "space_base ?rc2 = space_base rc" unfolding same by (rule al(1))
    show "space_limit rc sp \<le> space_limit ?rc2 sp" for sp unfolding same using al(2) by blast
    show "bar_base v + sz \<le> space_limit ?rc2 (bar_space v)" unfolding same by (rule al(5))
    show "window_aligned v sz" by (rule al(6))
  qed (simp_all add: al(3,4) \<open>0 < sz\<close>)
  then show "windows_ok (fst t)"
    using keepsD [OF f [unfolded keeps_windows_def] run2] by simp
qed


lemma keeps_windows_io_bar:
  assumes "bit val 0"
  shows "keeps_windows (config_io_bar net dev p k val)"
proof -
  define m where "m = (NOT val AND 0xffffffff) OR 3"
  have m: "4 dvd align l m" "l \<le> align l m" "0 \<le> m" for l
    using align_or_mask(1,2) [of "NOT val AND 0xffffffff" m 2 l] align_or_mask(3) [of "NOT val AND 0xffffffff" m 2] by (simp_all add: m_def)
  show ?thesis
    unfolding config_io_bar_def Let_def m_def [symmetric]
  proof (rule keeps_windows_alloc)
    fix rc v rc'
    assume "alloc_io_bar val m rc = (v, rc')"
    then have v: "v = (val AND 3) OR align (rc_io_limit rc) m" and rc': "rc' = rc\<lparr>rc_io_limit := align (rc_io_limit rc) m + (m + 1)\<rparr>"
      by (simp_all add: alloc_io_bar_def Let_def)
    note b = bar_value_io [OF m(1) assms, of "rc_io_limit rc", folded v]
    show "space_base rc' = space_base rc \<and> (\<forall>sp. space_limit rc sp \<le> space_limit rc' sp) \<and> rc_tree rc' = rc_tree rc \<and>
        space_limit rc (bar_space v) \<le> bar_base v \<and> bar_base v + (m + 1) \<le> space_limit rc' (bar_space v) \<and>
        window_aligned v (m + 1)"
      using m(2) [of "rc_io_limit rc"] m(3)
      by (auto simp: b rc' window_alignedI [OF b(2)] space_base_def space_limit_def fun_eq_iff split: space.split)
  qed (use m(3) in \<open>simp_all add: req_windows\<close>)
qed


text \<open>The three ways to place a memory window.\<close>

lemma keeps_windows_mem_alloc:
  assumes "\<not> bit val 0" and m: "\<And>l. 16 dvd align l m" "\<And>l. l \<le> align l m" "0 \<le> m" and f: "\<And>v. keeps_windows (f v)"
  shows "\<not> (bit val 2 \<and> bit val 3) \<Longrightarrow>
      keeps_windows (bindS (on_rc (alloc_mem_bar val m)) (\<lambda>v. bindS (record_bar p k v (m + 1)) (\<lambda>_. f v)))"
    and "bit val 2 \<and> bit val 3 \<Longrightarrow>
      keeps_windows (bindS (on_rc (alloc_prefetchable_bar val m)) (\<lambda>v. bindS (record_bar p k v (m + 1)) (\<lambda>_. f v)))"
proof -
  note b = bar_value_mem [OF m(1) assms(1)]
  show "keeps_windows (bindS (on_rc (alloc_mem_bar val m)) (\<lambda>v. bindS (record_bar p k v (m + 1)) (\<lambda>_. f v)))"
    if np: "\<not> (bit val 2 \<and> bit val 3)"
  proof (rule keeps_windows_alloc)
    fix rc v rc'
    assume "alloc_mem_bar val m rc = (v, rc')"
    then have v: "v = (val AND 15) OR align (rc_mem_limit rc) m" and rc': "rc' = rc\<lparr>rc_mem_limit := align (rc_mem_limit rc) m + (m + 1)\<rparr>"
      by (simp_all add: alloc_mem_bar_def Let_def)
    show "space_base rc' = space_base rc \<and> (\<forall>sp. space_limit rc sp \<le> space_limit rc' sp) \<and> rc_tree rc' = rc_tree rc \<and>
        space_limit rc (bar_space v) \<le> bar_base v \<and> bar_base v + (m + 1) \<le> space_limit rc' (bar_space v) \<and>
        window_aligned v (m + 1)"
      using m(2) [of "rc_mem_limit rc"] m(3) np
      by (auto simp: b [of "rc_mem_limit rc", folded v] window_alignedI [OF b(2) [of "rc_mem_limit rc", folded v]] rc' space_base_def space_limit_def fun_eq_iff split: space.split)
  qed (use m(3) f in auto)
  show "keeps_windows (bindS (on_rc (alloc_prefetchable_bar val m)) (\<lambda>v. bindS (record_bar p k v (m + 1)) (\<lambda>_. f v)))"
    if pf: "bit val 2 \<and> bit val 3"
  proof (rule keeps_windows_alloc)
    fix rc v rc'
    assume "alloc_prefetchable_bar val m rc = (v, rc')"
    then have v: "v = (val AND 15) OR align (rc_prefetchable_mem_limit rc) m"
      and rc': "rc' = rc\<lparr>rc_prefetchable_mem_limit := align (rc_prefetchable_mem_limit rc) m + (m + 1)\<rparr>"
      by (simp_all add: alloc_prefetchable_bar_def Let_def)
    show "space_base rc' = space_base rc \<and> (\<forall>sp. space_limit rc sp \<le> space_limit rc' sp) \<and> rc_tree rc' = rc_tree rc \<and>
        space_limit rc (bar_space v) \<le> bar_base v \<and> bar_base v + (m + 1) \<le> space_limit rc' (bar_space v) \<and>
        window_aligned v (m + 1)"
      using m(2) [of "rc_prefetchable_mem_limit rc"] m(3) pf
      by (auto simp: b [of "rc_prefetchable_mem_limit rc", folded v]
          window_alignedI [OF b(2) [of "rc_prefetchable_mem_limit rc", folded v]] rc' space_base_def space_limit_def fun_eq_iff split: space.split)
  qed (use m(3) f in auto)
qed

lemma keeps_windows_mem_bar:
  assumes "\<not> bit val 0" "\<not> bit val 2"
  shows "keeps_windows (config_mem_bar net dev p k val)"
proof -
  define m where "m = (NOT val AND 0xffffffff) OR 15"
  have m: "16 dvd align l m" "l \<le> align l m" "0 \<le> m" for l
    using align_or_mask(1,2) [of "NOT val AND 0xffffffff" m 4 l] align_or_mask(3) [of "NOT val AND 0xffffffff" m 4] by (simp_all add: m_def)
  show ?thesis
    unfolding config_mem_bar_def Let_def m_def [symmetric]
    by (rule keeps_windows_mem_alloc(1) [OF assms(1) m]) (use assms in \<open>simp_all add: req_windows\<close>)
qed

lemma keeps_windows_mem64_bar:
  assumes "\<not> bit val 0" "bit val 2"
  shows "keeps_windows (config_mem64_bar net dev p k val)"
proof -
  define m where "m = (NOT val AND 0xffffffffffffffff) OR 15"
  have m: "16 dvd align l m" "l \<le> align l m" "0 \<le> m" for l
    using align_or_mask(1,2) [of "NOT val AND 0xffffffffffffffff" m 4 l] align_or_mask(3) [of "NOT val AND 0xffffffffffffffff" m 4] by (simp_all add: m_def)
  have w: "keeps_windows (bindS (config_write_dword net dev (bar_addr k) x) (\<lambda>_. config_write_dword net dev y z))" for x y z
    by (intro keeps_windows_bindS req_windows)
  show ?thesis
  proof (cases "bit val 3")
    case True
    then have v8: "val AND 8 \<noteq> 0" using and_bit_iff(3) by blast
    show ?thesis
      unfolding config_mem64_bar_def Let_def m_def [symmetric] if_P [OF v8]
      using assms(2) True by (intro keeps_windows_mem_alloc(2) [OF assms(1) m w]) simp
  next
    case False
    then have v8: "\<not> val AND 8 \<noteq> 0" using and_bit_iff(3) by blast
    show ?thesis
      unfolding config_mem64_bar_def Let_def m_def [symmetric] if_not_P [OF v8]
      using False by (intro keeps_windows_mem_alloc(1) [OF assms(1) m w]) simp
  qed
qed

lemma keeps_windows_bar_loop: "keeps_windows (bar_loop net dev p n k)"
proof (induction net dev p n k rule: bar_loop.induct)
  case (1 net dev p n k)
  have probe: "keeps_windows (probe_bar net dev j)" for j
    unfolding probe_bar_def by (intro keeps_windows_bindS req_windows)
  have cfg: "keeps_windows (config_bar net dev p n k val)" for val
  proof -
    have v: "bit (val OR push_bit 32 w) j = bit val j" if "j < 32" for w j :: _
      using that by (simp add: bit_or_iff bit_push_bit_iff_int)
    have io: "bit val 0 \<Longrightarrow> keeps_windows (bindS (config_io_bar net dev p k val) (\<lambda>_. retS False))"
      by (intro keeps_windows_bindS keeps_windows_io_bar keeps_windows_pure)
    have mem: "\<not> bit val 0 \<Longrightarrow> \<not> bit val 2 \<Longrightarrow> keeps_windows (bindS (config_mem_bar net dev p k val) (\<lambda>_. retS False))"
      by (intro keeps_windows_bindS keeps_windows_mem_bar keeps_windows_pure)
    have mem64: "\<not> bit val 0 \<Longrightarrow> bit val 2 \<Longrightarrow> keeps_windows (bindS (probe_bar net dev (k + 1)) (\<lambda>w.
        bindS (config_mem64_bar net dev p k (val OR push_bit 32 w)) (\<lambda>_. retS True)))"
      by (intro keeps_windows_bindS probe keeps_windows_mem64_bar keeps_windows_pure) (simp_all add: v)
    show ?thesis
      unfolding config_bar_def and_bit_iff using io mem mem64 by (simp add: keeps_windows_pure)
  qed
  show ?case
    by (subst bar_loop.simps) (use 1 in \<open>auto intro!: keeps_windows_bindS probe cfg keeps_windows_pure\<close>)
qed


subsection \<open>Enumeration keeps the windows apart\<close>

lemma keeps_windows_only_limits:
  assumes "\<And>rc. rc_tree (g rc) = rc_tree rc" "\<And>rc. space_base (g rc) = space_base rc"
    "\<And>rc sp. space_limit rc sp \<le> space_limit (g rc) sp"
  shows "keeps_windows (modS (\<lambda>(rc, e). (g rc, e)))"
proof -
  have "windows_ok (g rc)" if "windows_ok rc" for rc
    by (rule windows_ok_mono [OF that]) (simp_all add: assms)
  then show ?thesis by (auto simp: keeps_windows_def keeps_def)
qed

lemma align_limits_ge: "space_limit rc sp \<le> space_limit (align_limits rc) sp"
  using align_mask_ge [of "rc_io_limit rc" 12] align_mask_ge [of "rc_mem_limit rc" 20]
    align_mask_ge [of "rc_prefetchable_mem_limit rc" 20]
  by (simp add: space_limit_def align_limits_def split: space.split)

lemma keeps_windows_segment: "keeps_windows (open_segment p bus)" "keeps_windows (close_segment p bus)"
proof -
  have "keeps_windows (modS (\<lambda>(rc, e). (align_limits rc, e)))"
    by (rule keeps_windows_only_limits [OF _ _ align_limits_ge])
       (auto simp: align_limits_def space_base_def fun_eq_iff split: space.split)
  then show "keeps_windows (open_segment p bus)" "keeps_windows (close_segment p bus)"
    unfolding open_segment_def close_segment_def
    by (intro keeps_windows_bindS keeps_windows_pure keeps_windows_set_item; simp)+
qed

lemma keeps_windows_cap_walk: "keeps_windows (cap_walk fuel net dev p ptr)"
proof (induction fuel arbitrary: ptr)
  case (Suc fuel)
  then show ?case
    unfolding cap_walk.simps
    by (auto intro!: keeps_windows_bindS keeps_windows_pure keeps_windows_set_item req_windows)
qed (simp add: keeps_windows_pure)

lemma keeps_windows_msi: "keeps_windows (configure_msi clog2 net dev)"
proof -
  have same: "windows_ok (rc\<lparr>rc_region_limit := l, rc_regions := rgs, rc_msi_addr := x\<rparr>) = windows_ok rc" for rc x l rgs
    by (rule windows_ok_same) (auto simp: space_base_def space_limit_def fun_eq_iff split: space.split)
  have "keeps_windows (msi_region clog2)"
    unfolding keeps_windows_def keeps_def msi_region_def
    using same by (auto simp: alloc_region_def Let_def split: option.splits if_splits)
  moreover have "keeps_windows (msi_program net dev addr)" for addr
    unfolding msi_program_def Let_def
    by (auto intro!: keeps_windows_bindS keeps_windows_pure req_windows)
  moreover have "keeps_windows (modS (\<lambda>(rc, e). (rc\<lparr>rc_tree := update_dev dev (\<lambda>d. d\<lparr>ti_msi_addr := a, ti_msi_data := b rc\<rparr>) (rc_tree rc)\<rparr>, e)))"
    for a b
  proof -
    have "windows_ok (rc\<lparr>rc_tree := update_dev dev (\<lambda>d. d\<lparr>ti_msi_addr := a, ti_msi_data := b rc\<rparr>) (rc_tree rc)\<rparr>) = windows_ok rc" for rc
    proof (rule windows_ok_same)
      show "same_items (\<lambda>d. (ti_bar d, ti_bar_size d)) (rc_tree rc)
          (rc_tree (rc\<lparr>rc_tree := update_dev dev (\<lambda>d. d\<lparr>ti_msi_addr := a, ti_msi_data := b rc\<rparr>) (rc_tree rc)\<rparr>))"
        by (simp add: same_items_update_dev)
    qed (simp_all add: space_base_def space_limit_def fun_eq_iff split: space.split)
    then show ?thesis by (auto simp: keeps_windows_def keeps_def)
  qed
  moreover have "windows_ok ((new_msi_signal ^^ n) rc) = windows_ok rc" for n rc
  proof (induction n)
    case (Suc n)
    have "windows_ok (new_msi_signal r) = windows_ok r" for r
      by (rule windows_ok_same) (auto simp: new_msi_signal_def Let_def space_base_def space_limit_def fun_eq_iff split: space.split)
    then show ?case using Suc by simp
  qed simp
  then have "keeps_windows (modS (\<lambda>(rc, e). ((new_msi_signal ^^ 32) rc, e)))"
    by (auto simp: keeps_windows_def keeps_def)
  ultimately show ?thesis
    unfolding configure_msi_def
    by (auto intro!: keeps_windows_bindS keeps_windows_pure split: option.split)
qed

lemma keeps_windows_scan_function:
  assumes "\<And>q b. keeps_windows (rec q b)"
  shows "keeps_windows (scan_function en rec p bus d f buses)"
proof -
  have wp: "keeps_windows (write_packed net dev addr bs)" for net dev addr bs
    unfolding write_packed_def by (intro keeps_windows_bindS keeps_windows_pure req_windows)
  have br: "keeps_windows (scan_bridge en rec dev q bus sec)" for dev q sec
    unfolding scan_bridge_def set_windows_def set_bus_numbers_def get_item_def
    by (intro keeps_windows_bindS keeps_windows_pure wp assms)
  have mid: "keeps_windows (set_dev_ctrl net dev)" "keeps_windows (enable_bus_master net dev)"
      "keeps_windows (walk_capabilities fuel net dev q)" for net dev q fuel
    unfolding set_dev_ctrl_def enable_bus_master_def walk_capabilities_def
    by (intro keeps_windows_bindS keeps_windows_pure req_windows keeps_windows_cap_walk)+
  show ?thesis
    unfolding scan_function_def Let_def
    by (auto intro!: keeps_windows_bindS keeps_windows_pure mid br keeps_windows_bar_loop keeps_windows_msi
        keeps_windows_add_child req_windows simp: tree_init_def)
qed

lemma keeps_windows_enumerate_segment: "keeps_windows (enumerate_segment n en p bus)"
proof (induction n arbitrary: p bus)
  case (Suc n)
  have "keeps_windows (scan_device en (enumerate_segment n en) p bus d buses)" for d buses
    unfolding scan_device_def
    by (auto intro!: keeps_windows_bindS keeps_windows_pure keeps_windows_foldS keeps_windows_scan_function Suc
        req_windows)
  then show ?case
    unfolding enumerate_segment.simps
    by (auto intro!: keeps_windows_bindS keeps_windows_foldS keeps_windows_segment keeps_windows_pure split: prod.split)
qed (simp add: keeps_windows_pure)


text \<open>
  C2. Enumeration gives every base address register a window of its own: whatever the devices answer, after
  an \<open>enumerate\<close> that returns, the window recorded in the tree for each register is not empty, lies between
  the base and the limit of its address space (IO, memory or prefetchable memory) and is aligned to its
  size when the size is a power of two, as for every register that \<open>configure_bar\<close> has set up. The windows
  of any two registers of the same address space are disjoint.
\<close>

theorem enumerate_windows_disjoint:
  assumes "rc_enumerate en (rc, e) = Inr (u, rc', e')"
  shows "windows_ok rc'"
proof -
  let ?rc0 = "rc\<lparr>rc_io_limit := rc_io_base rc, rc_mem_limit := rc_mem_base rc,
       rc_prefetchable_mem_limit := rc_prefetchable_mem_base rc, rc_tree := TreeItem tree_init []\<rparr>"
  obtain sub rc1 e1 where run: "enumerate_segment 256 en [] 0 (?rc0, e) = Inr (sub, rc1, e1)" and rc': "rc' = host_windows rc1"
    using assms by (cases "enumerate_segment 256 en [] 0 (?rc0, e)") (auto simp: rc_enumerate_def bindS_def)
  have "\<not> recorded (TreeItem tree_init []) q k v sz" for q k v sz
    by (cases q) (auto simp: recorded_def Let_def tree_init_def)
  then have "windows_ok ?rc0"
    by (simp add: windows_ok_def space_base_def space_limit_def split: space.split)
  then have "windows_ok rc1" using keeps_windowsD [OF keeps_windows_enumerate_segment run] by blast
  moreover have "windows_ok (host_windows rc1) = windows_ok rc1"
    by (rule windows_ok_same) (simp_all add: host_windows_def space_base_def space_limit_def fun_eq_iff split: space.split)
  ultimately show ?thesis by (simp add: rc')
qed

text \<open>The enumeration of a memory endpoint with two regions, device 1 on the internal bus of the host bridge:
  a packet of the root complex is routed by the bridge, and what the endpoint answers goes back through it.\<close>

definition to_root :: "bridge_out list \<Rightarrow> tlp list" where
  "to_root os = concat (map (\<lambda>out. case out of Out_up t \<Rightarrow> [t] | _ \<Rightarrow> []) os)"

definition from_endpoint :: "bridge \<times> mem_endpoint \<Rightarrow> tlp \<Rightarrow> tlp list res" where
  "from_endpoint = (\<lambda>(b, f) c.
     bindE (br_downstream_recv (bus_route [Bus_function (func.truncate f)]) c b) (\<lambda>(b', os). Inr (to_root os)))"

definition bus0_net :: "(bridge \<times> mem_endpoint) net" where
  "bus0_net = (\<lambda>(b, f) t.
     bindE (br_upstream_recv (bus_route [Bus_function (func.truncate f)]) t b) (\<lambda>(b', os).
       case os of
         [Out_port _ u] \<Rightarrow> bindE (ep_recv u f) (\<lambda>(f', cs).
           bindE (mapE (from_endpoint (b', f')) cs) (\<lambda>css. Inr (concat css, b', f')))
       | _ \<Rightarrow> Inr (to_root os, b', f)))"

definition bus0_endpoint :: mem_endpoint where
  "bus0_endpoint =
     (case bindE MemoryEndpoint (\<lambda>f. bindE (add_mem_region (\<lambda>_. 4) 16 None False f) (add_mem_region (\<lambda>_. 5) 32 None False)) of
        Inl _ \<Rightarrow> ep_example
      | Inr f \<Rightarrow> f\<lparr>upstream_tx_set := True, device_num := 1\<rparr>)"

definition bus0_bridge :: bridge where
  "bus0_bridge = (case HostBridge of Inl _ \<Rightarrow> br_example | Inr b \<Rightarrow> b\<lparr>is_root := True\<rparr>)"

definition bus0_env :: "(bridge \<times> mem_endpoint) enum_env" where
  "bus0_env = \<lparr>en_net = bus0_net, en_clog2 = (\<lambda>_. 2), en_fuel = 64, en_bus_mastering = True, en_configure_msi = True\<rparr>"

lemma bus0_enumerated:
  "case rc_enumerate bus0_env (rc_example, bus0_bridge, bus0_endpoint) of
     Inl _ \<Rightarrow> False
   | Inr (_, rc, b, f) \<Rightarrow>
       length (children (rc_tree rc)) = 1 \<and>
       ti_bar (ti_data (children (rc_tree rc) ! 0)) = [Some 0x80000000, Some 0x80000020, None, None, None, None] \<and>
       ti_bar_size (ti_data (children (rc_tree rc) ! 0)) = [Some 16, Some 32, None, None, None, None] \<and>
       bar f = [0x80000000, 0x80000020, 0, 0, 0, 0]"
  by code_simp

theorem enumerate_windows_disjoint_witness:
  "\<exists>rc b f. rc_enumerate bus0_env (rc_example, bus0_bridge, bus0_endpoint) = Inr ((), rc, b, f) \<and> windows_ok rc \<and>
     recorded (rc_tree rc) [0] 0 0x80000000 16 \<and> recorded (rc_tree rc) [0] 1 0x80000020 32 \<and>
     take 2 (bar f) = [0x80000000, 0x80000020]"
proof -
  obtain rc b f where run: "rc_enumerate bus0_env (rc_example, bus0_bridge, bus0_endpoint) = Inr ((), rc, b, f)"
    and tree: "length (children (rc_tree rc)) = 1"
      "ti_bar (ti_data (children (rc_tree rc) ! 0)) = [Some 0x80000000, Some 0x80000020, None, None, None, None]"
      "ti_bar_size (ti_data (children (rc_tree rc) ! 0)) = [Some 16, Some 32, None, None, None, None]"
    and bars: "bar f = [0x80000000, 0x80000020, 0, 0, 0, 0]"
    using bus0_enumerated by (auto split: sum.splits prod.splits)
  have "recorded (rc_tree rc) [0] 0 0x80000000 16" "recorded (rc_tree rc) [0] 1 0x80000020 32"
    using tree by (simp_all add: recorded_def)
  then show ?thesis using run enumerate_windows_disjoint [OF run] bars by auto
qed

subsection \<open>Enumeration ends\<close>

text \<open>\<open>shallow\<close>: a result that is not the end of the bound on the recursion depth.\<close>

definition shallow :: "'a res \<Rightarrow> bool" where
  "shallow r \<longleftrightarrow> r \<noteq> Inl RecursionError"

named_theorems shallow_rules "computations that do not use up the recursion depth"

lemma shallow_bindE [shallow_rules]: "shallow m \<Longrightarrow> (\<And>x. m = Inr x \<Longrightarrow> shallow (f x)) \<Longrightarrow> shallow (bindE m f)"
  by (cases m) (simp_all add: shallow_def)

lemma shallow_basic [shallow_rules]:
  "shallow (Inr x)" "e \<noteq> RecursionError \<Longrightarrow> shallow (Inl e)" "shallow (assertE b)" "shallow (nth_res xs i)"
  "shallow (py_index n j)" "shallow (pack_L v)" "shallow (pack_B v)" "shallow (pack_H v)" "shallow (to_bytes n v)"
  by (auto simp: shallow_def assertE_def nth_res_def py_index_def pack_L_def pack_B_def pack_H_def to_bytes_def)

lemma shallow_mapE [shallow_rules]: "(\<And>x. shallow (f x)) \<Longrightarrow> shallow (mapE f xs)"
  by (induction xs) (auto intro!: shallow_rules)

lemma shallow_foldE [shallow_rules]: "(\<And>x s. shallow (f x s)) \<Longrightarrow> shallow (foldE f xs s)"
  by (induction xs arbitrary: s) (auto intro!: shallow_rules)

definition shallowS :: "('s, 'a) stm \<Rightarrow> bool" where
  "shallowS m \<longleftrightarrow> (\<forall>s. shallow (m s))"

lemma shallowS_bindS: "shallowS m \<Longrightarrow> (\<And>x. shallowS (f x)) \<Longrightarrow> shallowS (bindS m f)"
  unfolding shallowS_def bindS_def by (auto intro!: shallow_bindE split: prod.split)

lemma shallowS_basic:
  "shallowS (retS x)" "shallowS (getS g)" "shallowS (modS h)" "e \<noteq> RecursionError \<Longrightarrow> shallowS (errS e)"
  "shallow r \<Longrightarrow> shallowS (liftS r)" "shallowS m \<Longrightarrow> shallowS (whenS b m)"
  by (auto simp: shallowS_def shallow_def liftS_def whenS_def bindE_eq_Inl)

lemma shallow_dwords [shallow_rules]: "shallow (dwords_of_bytes bs)"
  by (induction bs rule: dwords_of_bytes.induct) (auto intro!: shallow_rules simp: unpack_L_def)

lemma shallow_set_data [shallow_rules]: "shallow (set_data bs t)" "shallow (set_be_data a bs t)"
proof -
  show "shallow (set_data bs t)" for bs t
    unfolding set_data_def by (auto intro!: shallow_rules)
  then show "shallow (set_be_data a bs t)" by (simp add: set_be_data_def split: prod.split)
qed

definition shallow_net :: "'e net \<Rightarrow> bool" where
  "shallow_net net \<longleftrightarrow> (\<forall>e t. shallow (net e t))"

lemma shallow_request:
  assumes "shallow_net net"
  shows "shallow (request_cpl rc_send net tc t rq e)"
proof -
  have "shallow (push_cpl c rq)" "shallow (pop_cpl tag rq)" for c tag rq
    unfolding push_cpl_def pop_cpl_def by (auto intro!: shallow_rules split: list.split)
  moreover from this have "shallow (transact rc_send net t rq e)" for t rq e
    using assms unfolding transact_def shallow_net_def rc_send_def by (auto intro!: shallow_rules split: prod.split)
  ultimately show ?thesis
    unfolding request_cpl_def with_tag_def by (auto intro!: shallow_rules split: prod.split option.split)
qed

lemma shallow_config_dword [shallow_rules]: "shallow (config_dword c)"
  unfolding config_dword_def cpl_dword_def by (auto intro!: shallow_rules split: option.split)

lemma shallow_read_loop:
  "shallow_net net \<Longrightarrow> shallow (dword_read_loop rc_send net tc mk config_dword p n len a data rq e)"
proof (induction "nat (len - n)" arbitrary: n a data rq e rule: less_induct)
  case less
  then show ?case
    by (subst dword_read_loop.simps)
       (auto intro!: shallow_rules shallow_request less simp: Let_def dword_step_less split: prod.split)
qed

lemma shallow_write_loop:
  "shallow_net net \<Longrightarrow> shallow (dword_write_loop rc_send net tc mk (\<lambda>_. Inr ()) p n data a rq e)"
proof (induction "length data - n" arbitrary: n a rq e rule: less_induct)
  case less
  then show ?case
    by (subst dword_write_loop.simps)
       (auto intro!: shallow_rules shallow_request less simp: Let_def dword_step_less_nat split: prod.split)
qed

lemma shallow_config:
  assumes "shallow_net net"
  shows "shallowS (config_read net dev a len)" "shallowS (config_write net dev a data)"
  unfolding config_read_def config_write_def shallowS_def on_req_def no_value_def
  by (auto intro!: shallow_rules shallow_read_loop shallow_write_loop assms split: prod.split)

lemma shallow_words_to_bytes: "shallow (words_to_bytes ws words)"
  unfolding words_to_bytes_def by (auto intro!: shallow_rules)

lemmas shallow_words_defs = config_read_dword_def config_read_dwords_def config_read_word_def config_read_words_def
  config_read_byte_def first_of_def read_words_def config_write_dword_def config_write_dwords_def
  config_write_word_def config_write_words_def write_words_def

lemma shallow_words:
  assumes "shallow_net net"
  shows "shallowS (config_read_dword net dev a)" "shallowS (config_read_word net dev a)" "shallowS (config_read_byte net dev a)"
    "shallowS (config_write_dword net dev a w)" "shallowS (config_write_word net dev a w)"
  unfolding shallow_words_defs
  by (intro shallowS_bindS shallowS_basic shallow_config [OF assms] shallow_rules shallow_words_to_bytes)+

lemma shallow_cap_offset: "shallowS (cap_offset dev cap)"
  unfolding cap_offset_def by (auto intro!: shallowS_bindS shallowS_basic split: option.split)

lemma shallow_capability:
  assumes "shallow_net net"
  shows "shallowS (capability_read_dword net dev cap a)" "shallowS (capability_write_dword net dev cap a w)"
  unfolding capability_read_dword_def capability_read_dwords_def capability_read_words_def capability_read_def
    capability_write_dword_def capability_write_dwords_def capability_write_words_def capability_write_def
    first_of_def read_words_def write_words_def
  by (intro shallowS_bindS shallowS_basic shallow_config [OF assms] shallow_rules shallow_words_to_bytes shallow_cap_offset)+

lemma shallow_tree: "shallowS (set_item p h)" "shallowS (get_item p)" "shallowS (add_child p d)" "shallowS (on_rc g)"
  "shallowS (record_bar p k v sz)"
  by (auto simp: set_item_def get_item_def add_child_def on_rc_def record_bar_def shallowS_def shallow_def split: prod.split)

lemma shallow_bar_loop: "shallow_net net \<Longrightarrow> shallowS (bar_loop net dev p n k)"
proof (induction net dev p n k rule: bar_loop.induct)
  case (1 net dev p n k)
  note w = shallow_words [OF 1(3)]
  have probe: "shallowS (probe_bar net dev j)" for j
    unfolding probe_bar_def by (intro shallowS_bindS w)
  have "shallowS (config_bar net dev p n k val)" for val
    unfolding config_bar_def config_io_bar_def config_mem_bar_def config_mem64_bar_def Let_def
    by (auto intro!: shallowS_bindS shallowS_basic shallow_tree w probe)
  then show ?case
    by (subst bar_loop.simps) (use 1 in \<open>auto intro!: shallowS_bindS shallowS_basic probe\<close>)
qed

lemma shallow_cap_walk: "shallow_net net \<Longrightarrow> shallowS (cap_walk fuel net dev p ptr)"
proof (induction fuel arbitrary: ptr)
  case (Suc fuel)
  then show ?case
    unfolding cap_walk.simps
    by (auto intro!: shallowS_bindS shallowS_basic shallow_tree shallow_config shallow_rules)
qed (simp add: shallowS_basic)

lemma shallow_msi:
  assumes "shallow_net net"
  shows "shallowS (configure_msi clog2 net dev)"
proof -
  have "shallowS (msi_region clog2)"
    unfolding msi_region_def shallowS_def alloc_region_def
    by (auto intro!: shallow_rules simp: Let_def split: option.split prod.split)
  moreover have "shallowS (msi_program net dev a)" for a
    unfolding msi_program_def Let_def by (auto intro!: shallowS_bindS shallowS_basic shallow_capability assms)
  ultimately show ?thesis
    unfolding configure_msi_def by (auto intro!: shallowS_bindS shallowS_basic split: option.split)
qed

text \<open>\<open>post Q m\<close>: besides, the value that \<open>m\<close> returns satisfies \<open>Q\<close>.\<close>

definition post :: "('a \<Rightarrow> bool) \<Rightarrow> ('s, 'a) stm \<Rightarrow> bool" where
  "post Q m \<longleftrightarrow> (\<forall>s. shallow (m s) \<and> (\<forall>x t. m s = Inr (x, t) \<longrightarrow> Q x))"

lemma post_bindS: "post Q m \<Longrightarrow> (\<And>x. Q x \<Longrightarrow> post R (f x)) \<Longrightarrow> post R (bindS m f)"
  unfolding post_def bindS_def by (fastforce intro!: shallow_bindE split: prod.split)

lemma post_shallow: "shallowS m \<Longrightarrow> (\<And>x. post R (f x)) \<Longrightarrow> post R (bindS m f)"
  by (rule post_bindS [where Q = "\<lambda>_. True"]) (simp_all add: post_def shallowS_def)

lemma post_ret: "R x \<Longrightarrow> post R (retS x)" "e \<noteq> RecursionError \<Longrightarrow> post R (errS e)"
  by (simp_all add: post_def shallow_def)

lemma post_foldS: "(\<And>x a. I a \<Longrightarrow> post I (f x a)) \<Longrightarrow> I a \<Longrightarrow> post I (foldS f xs a)"
  by (induction xs arbitrary: a) (auto intro!: post_ret post_bindS)

lemma post_set_bus_numbers:
  assumes "shallow_net net"
  shows "post (\<lambda>_. sec < 256) (set_bus_numbers net dev pri sec sub)"
proof -
  have b: "shallow (bytes_of [pri, sec, sub])" "bytes_of [pri, sec, sub] = Inr x \<Longrightarrow> sec < 256" for x
    by (auto simp: bytes_of_def shallow_def split: if_splits)
  have "post (\<lambda>_. sec < 256) (liftS (bytes_of [pri, sec, sub]) :: (root_complex \<times> 'a, byte list) stm)"
    using b by (auto simp: post_def liftS_def intro!: shallow_bindE shallow_basic)
  then show ?thesis
    unfolding set_bus_numbers_def write_packed_def
    by (rule post_bindS) (use shallow_config(2) [OF assms] in \<open>simp add: post_def shallowS_def\<close>)
qed

text \<open>The pair of the next secondary bus and the last bus seen, on the segment \<open>bus\<close>.\<close>

definition buses_ok :: "int \<Rightarrow> int \<times> int \<Rightarrow> bool" where
  "buses_ok bus b \<longleftrightarrow> bus < fst b \<and> bus \<le> snd b"

lemma post_scan_function:
  assumes net: "shallow_net (en_net en)" and rec: "\<And>q b. bus < b \<Longrightarrow> b < 256 \<Longrightarrow> post (\<lambda>sub. b \<le> sub) (rec q b)"
    and buses: "buses_ok bus buses"
  shows "post (buses_ok bus) (scan_function en rec p bus d f buses)"
proof -
  have wp: "shallow bs \<Longrightarrow> shallowS (write_packed (en_net en) dev addr bs)" for dev addr bs
    unfolding write_packed_def by (intro shallowS_bindS shallowS_basic shallow_config net)
  have "shallowS (set_windows (en_net en) dev ti)" for dev ti
    unfolding set_windows_def pack2_def by (intro shallowS_bindS wp shallow_rules)
  then have br: "post (\<lambda>sub. fst buses \<le> sub) (scan_bridge en rec dev q bus (fst buses))" for dev q
    unfolding scan_bridge_def using buses
    by (intro post_bindS [OF post_set_bus_numbers [OF net]] post_bindS [OF rec] post_shallow shallow_tree post_ret)
       (auto simp: buses_ok_def)
  have mid: "shallowS (set_dev_ctrl (en_net en) dev)" "shallowS (enable_bus_master (en_net en) dev)"
      "shallowS (walk_capabilities fuel (en_net en) dev q)" for dev q fuel
    unfolding set_dev_ctrl_def enable_bus_master_def walk_capabilities_def
    by (intro shallowS_bindS shallowS_basic shallow_words shallow_capability shallow_cap_walk net)+
  have "buses_ok bus (sub + 1, sub)" if "fst buses \<le> sub" for sub
    using buses that by (simp add: buses_ok_def)
  then show ?thesis
    unfolding scan_function_def Let_def
    by (auto intro!: post_shallow [OF shallow_config(1) [OF net]] post_ret buses
        post_shallow [OF shallow_tree(3)] post_shallow [OF shallow_words(3) [OF net]]
        post_shallow [OF shallow_bar_loop [OF net]] post_shallow [OF mid(1)] post_shallow [OF mid(3)]
        post_shallow [OF shallowS_basic(6)] mid shallowS_bindS shallowS_basic shallow_msi net post_bindS [OF br])
qed

lemma post_enumerate_segment:
  assumes net: "shallow_net (en_net en)"
  shows "0 \<le> bus \<Longrightarrow> bus < 256 \<Longrightarrow> 256 \<le> bus + int n \<Longrightarrow> post (\<lambda>sub. bus \<le> sub) (enumerate_segment n en p bus)"
proof (induction n arbitrary: p bus)
  case (Suc n)
  have "post (buses_ok bus) (scan_device en (enumerate_segment n en) p bus d buses)" if "buses_ok bus buses" for d buses
    unfolding scan_device_def
    using that Suc by (auto intro!: post_ret post_shallow [OF shallow_words(1) [OF net]]
      post_shallow [OF shallow_words(3) [OF net]] post_foldS post_scan_function net)
  then have "post (buses_ok bus) (foldS (scan_device en (enumerate_segment n en) p bus) (map int [0..<32]) (bus + 1, bus))"
    by (intro post_foldS) (auto simp: buses_ok_def)
  moreover have "shallowS (open_segment p bus)" "shallowS (close_segment p sub)" for sub
    unfolding open_segment_def close_segment_def by (intro shallowS_bindS shallowS_basic shallow_tree)+
  ultimately show ?case
    unfolding enumerate_segment.simps
    by (intro post_shallow post_bindS [where Q = "buses_ok bus"]) (auto intro!: post_shallow post_ret simp: buses_ok_def)
qed simp

text \<open>
  C7. The recursion of \<open>enumerate_segment\<close> ends: bus numbers grow from a bridge to the bridges behind it
  and do not fit a byte after 255, so a depth of 256 is never used up, whatever the devices answer.
\<close>

theorem enumerate_depth_bound:
  assumes "\<forall>e t. en_net en e t \<noteq> Inl RecursionError"
  shows "rc_enumerate en s \<noteq> Inl RecursionError"
proof -
  have "shallow_net (en_net en)" using assms by (simp add: shallow_net_def shallow_def)
  from post_enumerate_segment [OF this, of 0 256 "[]"] have "shallowS (enumerate_segment 256 en [] 0)"
    by (simp add: post_def shallowS_def)
  then have "shallowS (rc_enumerate en)"
    unfolding rc_enumerate_def by (intro shallowS_bindS shallowS_basic)
  then show ?thesis unfolding shallowS_def shallow_def by blast
qed

text \<open>No device answers: the tree stays empty.\<close>

definition empty_env :: "unit enum_env" where
  "empty_env = \<lparr>en_net = (\<lambda>e t. Inr ([], e)), en_clog2 = (\<lambda>_. 2), en_fuel = 64, en_bus_mastering = False, en_configure_msi = False\<rparr>"

theorem enumerate_depth_bound_witness: "rc_enumerate empty_env (rc_example, ()) \<noteq> Inl RecursionError"
  by (rule enumerate_depth_bound) (simp add: empty_env_def)

subsection \<open>Delivery of interrupts\<close>

text \<open>A write of one full DWORD is one access to the region.\<close>

lemma be_multi_full:
  assumes "tlp_length t = 1" "\<forall>i < 4. be_enabled t i"
  shows "be_multi act t s = act 0 4 s"
proof -
  have "tlp_first_be t AND push_bit k 1 \<noteq> 0" if "k < 4" for k
    using assms(2) that by (auto simp: be_enabled_def and_exp_eq_0_iff_not_bit)
  note b = this [of 0] this [of 1] this [of 2] this [of 3]
  have "[0..<4] = [0, 1, 2, 3::nat]" by (simp add: upt_rec)
  then have "be_dword act (tlp_first_be t) ((None, 0), s) = Inr ((Some 0, 4), s)"
    using b by (simp add: be_dword_def be_round_def)
  then show ?thesis using assms(1) by (simp add: be_multi_def be_middle_def be_flush_def)
qed

text \<open>
  C3. An interrupt reaches the host: when a function's MSI capability holds the address of the MSI region of the
  root complex, \<open>issue_msi_interrupt\<close> makes one write that toggles exactly the signals registered for
  the message number and calls the registered call-backs in order; nothing else changes.
\<close>

theorem msi_delivered:
  assumes f: "bus_master_enable f" "upstream_tx_set f" "msi_message_word (msi f) number = Some w" "0 \<le> w" "w < 2 ^ 32"
    and a: "msi_message_address (msi f) = a" "4 dvd a"
    and rc: "rc_handlers rc" "find_region rc a = Some rg" "rg_addr rg = a" "rg_store rg = Store_msi"
      "rc_msi_signals rc w = Some sigs" "rc_msi_callbacks rc w = Some cbs"
  shows "issue_msi_interrupt rc_net number at tc f rc =
    Inr (f, rc\<lparr>rc_signal := (\<lambda>s. if s \<in> set sigs then \<not> rc_signal rc s else rc_signal rc s), rc_called := rc_called rc @ cbs\<rparr>)"
proof -
  let ?rc = "rc\<lparr>rc_signal := (\<lambda>s. if s \<in> set sigs then \<not> rc_signal rc s else rc_signal rc s), rc_called := rc_called rc @ cbs\<rparr>"
  let ?data = "le_bytes 4 w" and ?p = "request_proto f at tc" and ?mps = "nat (max_payload_size (dev_ctl (pcie f)))"
  have mod4: "a mod 4 = 0" "(a + 3) mod 4 = 3" using a(2) by presburger+
  have page: "a mod 4096 + 4 \<le> 4096"
  proof -
    have "4 dvd a mod 4096" using a(2) by (simp add: dvd_mod)
    then show ?thesis using pos_mod_bound [of 4096 a] by presburger
  qed
  obtain t where t: "mem_write_req a ?data ?p = Inr t" "tlp_check t"
      "fmt_type t = (if a > 0xffffffff then TLP_MEM_WRITE_64 else TLP_MEM_WRITE)" "tlp_address t = a"
      "tlp_length t = 1" "get_data t = Inr ?data" "\<forall>i < 4. be_enabled t i"
  proof -
    have ne: "?data \<noteq> []" using length_le_bytes [of 4 w] by (metis list.size(3) zero_neq_numeral)
    show ?thesis
      by (rule mem_write_req_spec [OF ne, of a ?p]) (use mod4 page that in auto)
  qed
  have "rc_write_region a ?data rc = Inr ?rc"
    using rc f(4,5) by (simp add: rc_write_region_def msi_region_write_def unpack_L_def le_int_le_bytes)
  then have "be_multi (\<lambda>so off. rc_write_region (a + int so) (slice so off ?data)) t rc = Inr ?rc"
    by (subst be_multi_full [OF t(5,7)]) simp
  then have "rc_handle_mem_write_tlp t rc = Inr (?rc, [])"
    using rc(2) t page by (simp add: rc_handle_mem_write_tlp_def)
  then have net: "rc_net rc t = Inr ([], ?rc)"
    using rc_net_mem(2) [OF rc(1) t(2)] t(3) by simp
  have chunk: "chunk_length (push_bit ?mps 128) a 4 = 4"
    using page mod4 shift_128_ge [of ?mps] by (simp add: chunk_length_def)
  have "mem_write_loop (send_check f) rc_net ?mps ?p 0 ?data a (req f) rc = Inr (req f, ?rc)"
    using t(1) net send_check_ok [OF f(2) t(2)]
    by (subst mem_write_loop.simps) (simp add: chunk transact_def mem_write_loop.simps [of _ _ _ _ 4])
  then show ?thesis
    using f a(1) by (simp add: issue_msi_interrupt_def pack_L_def mem_write_def)
qed


theorem msi_delivered_witness:
  "\<exists>rc'. issue_msi_interrupt rc_net 0 0 0
      (func_init\<lparr>bus_master_enable := True, upstream_tx_set := True,
        msi := MSICapability\<lparr>msi_enable := True, msi_message_address := 0x10, msi_message_data := 0\<rparr>\<rparr>)
      (new_msi_signal (rc_example\<lparr>rc_regions := [\<lparr>rg_addr = 0x10, rg_size = 4, rg_store = Store_msi\<rparr>], rc_msi_msg_limit := 0\<rparr>))
    = Inr (func_init\<lparr>bus_master_enable := True, upstream_tx_set := True,
        msi := MSICapability\<lparr>msi_enable := True, msi_message_address := 0x10, msi_message_data := 0\<rparr>\<rparr>, rc') \<and>
    rc_signal rc' (Msi_signal 0)"
proof -
  let ?f = "func_init\<lparr>bus_master_enable := True, upstream_tx_set := True,
        msi := MSICapability\<lparr>msi_enable := True, msi_message_address := 0x10, msi_message_data := 0\<rparr>\<rparr>"
  let ?rc = "new_msi_signal (rc_example\<lparr>rc_regions := [\<lparr>rg_addr = 0x10, rg_size = 4, rg_store = Store_msi\<rparr>], rc_msi_msg_limit := 0\<rparr>)"
  have f: "bus_master_enable ?f" "upstream_tx_set ?f" "msi_message_word (msi ?f) 0 = Some 0" "(0::int) \<le> 0" "(0::int) < 2 ^ 32"
    by (simp_all add: msi_message_word_def)
  have a: "msi_message_address (msi ?f) = 0x10" "4 dvd (0x10::int)" by simp_all
  have rc: "rc_handlers ?rc" "find_region ?rc 0x10 = Some \<lparr>rg_addr = 0x10, rg_size = 4, rg_store = Store_msi\<rparr>"
    "rg_addr \<lparr>rg_addr = 0x10, rg_size = 4, rg_store = Store_msi\<rparr> = 0x10"
    "rg_store \<lparr>rg_addr = 0x10, rg_size = 4, rg_store = Store_msi\<rparr> = Store_msi"
    "rc_msi_signals ?rc 0 = Some [Msi_signal 0]" "rc_msi_callbacks ?rc 0 = Some []"
    using rc_example_sel(2)
    by (simp_all add: new_msi_signal_def Let_def rc_handlers_def find_region_def in_region_def)
  have "rc_signal ?rc (Msi_signal 0) = False" by (simp add: new_msi_signal_def Let_def)
  then show ?thesis using msi_delivered [OF f a rc, of 0 0] by simp
qed

end
