(* ===== verification/Pcie_Port.thy ===== *)
theory Pcie_Port
  imports Pcie_Tlp "HOL-Library.Multiset"
begin

text \<open>Ports and links (src/hardware/fpga/lib/pcie/tb/pcie.py, classes Port and BusPort): connecting two ports,
  and the transmission of packets as a step relation over the processes that \<open>send\<close> and \<open>transmit\<close> start, with
  the proof that a port loses no packet, when it delivers them in order, and a run in which it does not.\<close>

unbundle bit_operations_syntax
section \<open>Ports and connections\<close>

text \<open>A port is connected to at most one other port, the port of a bus to a list of them. Ports are named
  by numbers; \<open>ports\<close> is the store that holds the port objects.\<close>

datatype link = Single "nat option" | Bus "nat list"

record port =
  other :: link
  rx_handler_set :: bool
  max_speed :: int
  max_width :: int
  port_delay :: int
  cur_speed :: int
  cur_width :: int
  link_delay :: int

definition Port :: "bool \<Rightarrow> port" where
  "Port h = \<lparr>other = Single None, rx_handler_set = h, max_speed = 3, max_width = 16, port_delay = 5,
     cur_speed = 1, cur_width = 1, link_delay = 0\<rparr>"

definition BusPort :: "bool \<Rightarrow> port" where
  "BusPort h = (Port h)\<lparr>other := Bus []\<rparr>"

type_synonym ports = "nat \<Rightarrow> port"

definition train :: "port \<Rightarrow> port \<Rightarrow> port" where
  "train q p = p\<lparr>cur_speed := min (max_speed p) (max_speed q), cur_width := min (max_width p) (max_width q),
     link_delay := port_delay p + port_delay q\<rparr>"

text \<open>\<open>a._connect_int(b)\<close>, for both classes.\<close>

definition connect_int :: "nat \<Rightarrow> nat \<Rightarrow> ports \<Rightarrow> ports res" where
  "connect_int a b ps =
     (case other (ps a) of
        Single (Some _) \<Rightarrow> Inl (PyException ''Already connected'')
      | Single None \<Rightarrow> Inr (ps(a := train (ps b) ((ps a)\<lparr>other := Single (Some b)\<rparr>)))
      | Bus cs \<Rightarrow>
          if b \<in> set cs then Inl (PyException ''Already connected'')
          else Inr (ps(a := train (ps b) ((ps a)\<lparr>other := Bus (cs @ [b])\<rparr>))))"

definition connected :: "nat \<Rightarrow> nat \<Rightarrow> ports \<Rightarrow> bool" where
  "connected a b ps = (case other (ps a) of Single x \<Rightarrow> x \<noteq> None | Bus cs \<Rightarrow> b \<in> set cs)"

definition connect :: "nat \<Rightarrow> nat \<Rightarrow> ports \<Rightarrow> ports res" where
  "connect a b ps =
     (if connected a b ps then Inl (PyException ''Already connected'')
      else bindE (connect_int b a ps) (connect_int a b))"

definition ext_recv :: "port \<Rightarrow> unit res" where
  "ext_recv p = (if rx_handler_set p then Inr () else Inl (PyException ''Receive handler not set''))"

text \<open>The ports that a transmitted packet is handed to.\<close>

definition transmit_to :: "nat \<Rightarrow> ports \<Rightarrow> nat list res" where
  "transmit_to a ps =
     (case other (ps a) of
        Single None \<Rightarrow> Inl (PyException ''Port not connected'')
      | Single (Some b) \<Rightarrow> bindE (ext_recv (ps b)) (\<lambda>_. Inr [b])
      | Bus cs \<Rightarrow> if cs = [] then Inl (PyException ''Port not connected'')
                   else bindE (mapE (\<lambda>b. ext_recv (ps b)) cs) (\<lambda>_. Inr cs))"

section \<open>Transmission\<close>

text \<open>The processes that \<open>send\<close> and \<open>transmit\<close> start. \<open>Set_flag\<close> is the rest of a \<open>send\<close> after its
  \<open>yield\<close>, \<open>Start\<close> a \<open>transmit\<close> that has not begun, \<open>Serial t d\<close> one that has taken packet \<open>t\<close> and waits until
  time \<open>d\<close>, \<open>Link t d\<close> one that delivers its packet at time \<open>d\<close>.\<close>

datatype 'p proc = Set_flag | Start | Serial 'p nat | Link 'p nat

record 'p tx =
  tx_queue :: "'p list"
  tx_scheduled :: bool
  procs :: "'p proc list"
  now :: nat
  delivered :: "'p list"

definition tx_init :: "'p tx" where
  "tx_init = \<lparr>tx_queue = [], tx_scheduled = False, procs = [], now = 0, delivered = []\<rparr>"

definition port_send :: "'p \<Rightarrow> 'p tx \<Rightarrow> 'p tx" where
  "port_send t s =
     (let s1 = s\<lparr>tx_queue := tx_queue s @ [t]\<rparr>
      in if tx_scheduled s then s1 else s1\<lparr>procs := procs s @ [Start, Set_flag]\<rparr>)"

text \<open>One step of a process: the processes it becomes and the new state of the port. \<open>ser t\<close> is the time
  that \<open>t\<close> takes on the wire, \<open>ld\<close> the delay of the link.\<close>

fun run_proc :: "('p \<Rightarrow> nat) \<Rightarrow> nat \<Rightarrow> 'p proc \<Rightarrow> 'p tx \<Rightarrow> ('p proc list \<times> 'p tx) option" where
  "run_proc ser ld Set_flag s = Some ([], s\<lparr>tx_scheduled := True\<rparr>)"
| "run_proc ser ld Start s =
     (case tx_queue s of
        [] \<Rightarrow> Some ([], s\<lparr>tx_scheduled := False\<rparr>)
      | t # q \<Rightarrow> Some ([Serial t (now s + ser t)], s\<lparr>tx_queue := q\<rparr>))"
| "run_proc ser ld (Serial t d) s = (if d \<le> now s then Some ([Link t (now s + ld), Start], s) else None)"
| "run_proc ser ld (Link t d) s = (if d \<le> now s then Some ([], s\<lparr>delivered := delivered s @ [t]\<rparr>) else None)"

definition ready :: "nat \<Rightarrow> 'p proc \<Rightarrow> bool" where
  "ready n p = (case p of Set_flag \<Rightarrow> True | Start \<Rightarrow> True | Serial t d \<Rightarrow> d \<le> n | Link t d \<Rightarrow> d \<le> n)"

text \<open>The simulator runs a process that is ready, in any order; the time advances when none is ready. The owner
  of the port may call \<open>send\<close> at any moment, also between the \<open>yield\<close> of an earlier \<open>send\<close> and the
  assignment after it.\<close>

datatype 'p event = Send 'p | Run | Tick

inductive tx_step :: "('p \<Rightarrow> nat) \<Rightarrow> nat \<Rightarrow> 'p tx \<Rightarrow> 'p event \<Rightarrow> 'p tx \<Rightarrow> bool"
  for ser :: "'p \<Rightarrow> nat" and ld :: nat where
  step_send: "tx_step ser ld s (Send t) (port_send t s)"
| step_run: "procs s = ps @ p # qs \<Longrightarrow> run_proc ser ld p s = Some (new, s') \<Longrightarrow>
    tx_step ser ld s Run (s'\<lparr>procs := ps @ new @ qs\<rparr>)"
| step_tick: "\<forall>p \<in> set (procs s). \<not> ready (now s) p \<Longrightarrow> tx_step ser ld s Tick (s\<lparr>now := now s + 1\<rparr>)"

text \<open>A run is a sequence of steps. The condition \<open>G\<close> on the state and the event holds at every step:
  \<open>any_send\<close> excludes nothing, \<open>lone_send\<close> a call of \<open>send\<close> while an earlier one has not finished.\<close>

inductive tx_run ::
  "('p \<Rightarrow> nat) \<Rightarrow> nat \<Rightarrow> ('p tx \<Rightarrow> 'p event \<Rightarrow> bool) \<Rightarrow> 'p tx \<Rightarrow> 'p event list \<Rightarrow> 'p tx \<Rightarrow> bool"
  for ser :: "'p \<Rightarrow> nat" and ld :: nat and G :: "'p tx \<Rightarrow> 'p event \<Rightarrow> bool" where
  run_nil: "tx_run ser ld G s [] s"
| run_snoc: "tx_run ser ld G s es s' \<Longrightarrow> G s' e \<Longrightarrow> tx_step ser ld s' e s'' \<Longrightarrow> tx_run ser ld G s (es @ [e]) s''"

definition any_send :: "'p tx \<Rightarrow> 'p event \<Rightarrow> bool" where
  "any_send s e = True"

definition lone_send :: "'p tx \<Rightarrow> 'p event \<Rightarrow> bool" where
  "lone_send s e = (case e of Send t \<Rightarrow> Set_flag \<notin> set (procs s) | _ \<Rightarrow> True)"

inductive_simps step_simps: "tx_step ser ld s (Send t) s'" "tx_step ser ld s Run s'" "tx_step ser ld s Tick s'"

fun_cases run_procE: "run_proc ser ld p s = Some r"

fun sent :: "'p event list \<Rightarrow> 'p list" where
  "sent [] = []"
| "sent (Send t # es) = t # sent es"
| "sent (_ # es) = sent es"

lemma sent_append [simp]: "sent (es @ fs) = sent es @ sent fs"
  by (induction es rule: sent.induct) simp_all

section \<open>Packets are delivered in the order in which they were sent\<close>

text \<open>The processes of a port are deliveries with increasing deadlines, then at most one \<open>transmit\<close>
  (\<open>tok\<close>), then at most one unfinished \<open>send\<close> (\<open>fl\<close>).\<close>

definition links :: "('p \<times> nat) list \<Rightarrow> 'p proc list" where
  "links ls = map (\<lambda>(t, d). Link t d) ls"

definition link_inv :: "nat \<Rightarrow> nat \<Rightarrow> ('p \<times> nat) list \<Rightarrow> bool" where
  "link_inv lo hi ls \<longleftrightarrow> sorted_wrt (<) (map snd ls) \<and> (\<forall>d \<in> set (map snd ls). lo \<le> d \<and> d \<le> hi)"

datatype 'p token = Idle | Starting | Sending 'p nat

fun token_procs :: "'p token \<Rightarrow> 'p proc list" where
  "token_procs Idle = []"
| "token_procs Starting = [Start]"
| "token_procs (Sending t d) = [Serial t d]"

fun held :: "'p token \<Rightarrow> 'p list" where
  "held (Sending t d) = [t]"
| "held _ = []"

definition flag_procs :: "bool \<Rightarrow> 'p proc list" where
  "flag_procs fl = (if fl then [Set_flag] else [])"

fun token_inv :: "nat \<Rightarrow> 'p tx \<Rightarrow> bool \<Rightarrow> ('p \<times> nat) list \<Rightarrow> 'p token \<Rightarrow> bool" where
  "token_inv ld s fl ls Idle \<longleftrightarrow> \<not> fl \<and> \<not> tx_scheduled s \<and> tx_queue s = [] \<and> link_inv (now s) (now s + ld) ls"
| "token_inv ld s fl ls Starting \<longleftrightarrow> (if fl then tx_queue s \<noteq> [] else tx_scheduled s) \<and> link_inv (now s) (now s + ld) ls"
| "token_inv ld s fl ls (Sending t d) \<longleftrightarrow> (if fl then now s < d else tx_scheduled s \<and> now s \<le> d) \<and>
     0 < d + ld \<and> link_inv (now s) (d + ld - 1) ls"

definition port_inv :: "nat \<Rightarrow> 'p tx \<Rightarrow> 'p list \<Rightarrow> bool \<Rightarrow> ('p \<times> nat) list \<Rightarrow> 'p token \<Rightarrow> bool" where
  "port_inv ld s ts fl ls tok \<longleftrightarrow>
     procs s = links ls @ token_procs tok @ flag_procs fl \<and>
     ts = delivered s @ map fst ls @ held tok @ tx_queue s \<and> token_inv ld s fl ls tok"

lemma set_flag_in: "Set_flag \<in> set (links ls @ token_procs tok @ flag_procs fl) \<longleftrightarrow> fl"
  by (cases tok) (auto simp: links_def flag_procs_def)

lemma inv_init: "port_inv ld tx_init [] False [] Idle"
  by (simp add: port_inv_def tx_init_def links_def flag_procs_def link_inv_def)

lemma inv_send:
  assumes "port_inv ld s ts fl ls tok" "\<not> fl"
  shows "\<exists>fl' ls' tok'. port_inv ld (port_send t s) (ts @ [t]) fl' ls' tok'"
proof (cases tok)
  case Idle
  then have "port_inv ld (port_send t s) (ts @ [t]) True ls Starting"
    using assms by (auto simp: port_inv_def port_send_def flag_procs_def)
  then show ?thesis by blast
next
  case Starting
  then have "port_inv ld (port_send t s) (ts @ [t]) fl ls tok"
    using assms by (auto simp: port_inv_def port_send_def flag_procs_def)
  then show ?thesis by blast
next
  case (Sending u d)
  then have "port_inv ld (port_send t s) (ts @ [t]) fl ls tok"
    using assms by (auto simp: port_inv_def port_send_def flag_procs_def)
  then show ?thesis by blast
qed

lemma inv_tick:
  assumes "port_inv ld s ts fl ls tok" "\<forall>p \<in> set (procs s). \<not> ready (now s) p"
  shows "port_inv ld (s\<lparr>now := now s + 1\<rparr>) ts fl ls tok"
proof -
  have late: "now s + 1 \<le> d" if "(t, d) \<in> set ls" for t d
    using that assms(1) bspec [OF assms(2), of "Link t d"] by (force simp: port_inv_def links_def ready_def)
  have li: "link_inv (now s + 1) (h + k) ls" if "link_inv (now s) h ls" for h k
    using that late by (auto simp: link_inv_def)
  show ?thesis
    using assms li [of "now s + ld" 1] li [of _ 0]
    by (cases tok) (auto simp: port_inv_def flag_procs_def ready_def split: if_splits)
qed

lemma link_inv_snoc: "link_inv lo h ls \<Longrightarrow> h < d \<Longrightarrow> lo \<le> d \<Longrightarrow> link_inv lo d (ls @ [(t, d)])"
  by (force simp: link_inv_def sorted_wrt_append)

text \<open>Only the first delivery can be due.\<close>

lemma link_due:
  assumes "link_inv lo h (as @ (t, d) # bs)" "d \<le> lo"
  shows "as = [] \<and> link_inv lo h bs"
  using assms by (cases as) (auto simp: link_inv_def)


lemma links_split:
  "links ls @ rs = ps @ p # qs \<Longrightarrow>
     (\<exists>as t d bs. ls = as @ (t, d) # bs \<and> ps = links as \<and> p = Link t d \<and> qs = links bs @ rs) \<or>
     (\<exists>ps'. ps = links ls @ ps' \<and> rs = ps' @ p # qs)"
proof (induction ls arbitrary: ps)
  case (Cons x ls)
  then show ?case
  proof (cases ps)
    case (Cons q ps')
    with Cons.prems have "links ls @ rs = ps' @ p # qs" and q: "q = (case x of (t, d) \<Rightarrow> Link t d)"
      by (simp_all add: links_def)
    with Cons.IH [of ps'] consider
      as t d bs where "ls = as @ (t, d) # bs" "ps' = links as" "p = Link t d" "qs = links bs @ rs"
      | ps'' where "ps' = links ls @ ps''" "rs = ps'' @ p # qs" by blast
    then show ?thesis
    proof cases
      case 1
      then have "x # ls = (x # as) @ (t, d) # bs \<and> ps = links (x # as) \<and> p = Link t d \<and> qs = links bs @ rs"
        using Cons q by (simp add: links_def)
      then show ?thesis by blast
    next
      case 2
      then show ?thesis using Cons q by (simp add: links_def)
    qed
  qed (cases x; force simp: links_def)
qed (simp add: links_def)

text \<open>Which process a step runs: a delivery, the \<open>transmit\<close>, or the end of a \<open>send\<close>.\<close>

lemma procs_split:
  assumes "links ls @ token_procs tok @ flag_procs fl = ps @ p # qs"
  shows "(\<exists>as t d bs. ls = as @ (t, d) # bs \<and> ps = links as \<and> p = Link t d \<and>
            qs = links bs @ token_procs tok @ flag_procs fl) \<or>
         (token_procs tok = [p] \<and> ps = links ls \<and> qs = flag_procs fl) \<or>
         (fl \<and> p = Set_flag \<and> ps = links ls @ token_procs tok \<and> qs = [])"
proof -
  have "(token_procs tok = [p] \<and> ps' = [] \<and> qs = flag_procs fl) \<or> (fl \<and> p = Set_flag \<and> ps' = token_procs tok \<and> qs = [])"
    if "token_procs tok @ flag_procs fl = ps' @ p # qs" for ps'
    using that by (cases tok; cases ps') (auto simp: flag_procs_def Cons_eq_append_conv split: if_splits)
  then show ?thesis using links_split [OF assms] by fastforce
qed

lemma link_tl: "link_inv lo h (x # ls) \<Longrightarrow> link_inv lo h ls"
  by (simp add: link_inv_def)

lemma inv_deliver:
  assumes "port_inv ld s ts fl (as @ (t, d) # bs) tok" "d \<le> now s"
  shows "port_inv ld (s\<lparr>delivered := delivered s @ [t], procs := links as @ links bs @ token_procs tok @ flag_procs fl\<rparr>)
           ts fl bs tok"
proof -
  obtain h where "link_inv (now s) h (as @ (t, d) # bs)" using assms(1) by (cases tok) (auto simp: port_inv_def)
  from link_due [OF this assms(2)] have "as = []" by simp
  then show ?thesis using assms(1) by (cases tok) (auto simp: port_inv_def links_def dest: link_tl)
qed

lemma inv_start:
  assumes "port_inv ld s ts fl ls Starting" "run_proc ser ld Start s = Some (new, s')" "\<And>t. 0 < ser t"
  shows "\<exists>tok. port_inv ld (s'\<lparr>procs := links ls @ new @ flag_procs fl\<rparr>) ts fl ls tok"
proof (cases "tx_queue s")
  case Nil
  then have "port_inv ld (s'\<lparr>procs := links ls @ new @ flag_procs fl\<rparr>) ts fl ls Idle"
    using assms(1,2) by (auto simp: port_inv_def split: if_splits)
  then show ?thesis by blast
next
  case (Cons t q)
  have "link_inv (now s) (now s + ser t + ld - 1) ls" if "link_inv (now s) (now s + ld) ls"
    using that assms(3) [of t] by (auto simp: link_inv_def)
  then have "port_inv ld (s'\<lparr>procs := links ls @ new @ flag_procs fl\<rparr>) ts fl ls (Sending t (now s + ser t))"
    using assms(1,2) assms(3) [of t] Cons by (auto simp: port_inv_def split: if_splits)
  then show ?thesis by blast
qed

lemma inv_serial:
  assumes "port_inv ld s ts fl ls (Sending t d)" "d \<le> now s"
  shows "port_inv ld (s\<lparr>procs := links ls @ [Link t (now s + ld), Start] @ flag_procs fl\<rparr>)
           ts fl (ls @ [(t, now s + ld)]) Starting"
  using assms by (auto simp: port_inv_def links_def intro!: link_inv_snoc split: if_splits)

lemma inv_set_flag:
  assumes "port_inv ld s ts True ls tok"
  shows "port_inv ld (s\<lparr>tx_scheduled := True, procs := links ls @ token_procs tok\<rparr>) ts False ls tok"
  using assms by (cases tok) (auto simp: port_inv_def flag_procs_def)

lemma inv_run:
  assumes inv: "port_inv ld s ts fl ls tok" and ser: "\<And>t. 0 < ser t"
    and p: "procs s = ps @ p # qs" "run_proc ser ld p s = Some (new, s')"
  shows "\<exists>fl' ls' tok'. port_inv ld (s'\<lparr>procs := ps @ new @ qs\<rparr>) ts fl' ls' tok'"
proof -
  have "links ls @ token_procs tok @ flag_procs fl = ps @ p # qs" using inv p(1) by (simp add: port_inv_def)
  then consider
    as t d bs where "ls = as @ (t, d) # bs" "ps = links as" "p = Link t d" "qs = links bs @ token_procs tok @ flag_procs fl"
    | "token_procs tok = [p]" "ps = links ls" "qs = flag_procs fl"
    | "fl" "p = Set_flag" "ps = links ls @ token_procs tok" "qs = []"
    using procs_split by blast
  then show ?thesis
  proof cases
    case 1
    then show ?thesis using inv_deliver [of ld s ts fl as t d bs tok] inv p(2) by (auto split: if_splits)
  next
    case 2
    show ?thesis
    proof (cases tok)
      case Starting
      then show ?thesis using 2 inv_start [of ld s ts fl ls ser new s'] inv p(2) ser by auto
    next
      case (Sending t d)
      then have "d \<le> now s" "new = [Link t (now s + ld), Start]" "s' = s"
        using 2 p(2) by (auto split: if_splits)
      then show ?thesis using 2 Sending inv_serial [of ld s ts fl ls t d] inv by blast
    qed (use 2 in simp)
  next
    case 3
    then show ?thesis using inv_set_flag [of ld s ts ls tok] inv p(2) by auto
  qed
qed

lemma run_inv_holds:
  assumes "tx_run ser ld lone_send s0 es s" "s0 = tx_init" "\<And>t. 0 < ser t"
  shows "\<exists>fl ls tok. port_inv ld s (sent es) fl ls tok"
  using assms
proof (induction rule: tx_run.induct)
  case (run_nil s)
  then show ?case using inv_init by simp blast
next
  case (run_snoc s es s' e s'')
  then obtain fl ls tok where i: "port_inv ld s' (sent es) fl ls tok" by blast
  show ?case
  proof (cases e)
    case (Send t)
    then have "\<not> fl" "s'' = port_send t s'"
      using run_snoc.hyps(2,3) i set_flag_in by (auto simp: step_simps port_inv_def lone_send_def)
    then show ?thesis using inv_send [OF i] Send by simp
  next
    case Run
    then show ?thesis using run_snoc.hyps(3) inv_run [OF i run_snoc.prems(2)] by (force simp: step_simps)
  next
    case Tick
    then have "s'' = s'\<lparr>now := now s' + 1\<rparr>" "\<forall>p \<in> set (procs s'). \<not> ready (now s') p"
      using run_snoc.hyps(3) by (simp_all add: step_simps)
    then have "port_inv ld s'' (sent es) fl ls tok" using inv_tick [OF i] by simp
    then show ?thesis using Tick by auto
  qed
qed

text \<open>C8. A port delivers packets in the order in which they were handed to \<open>send\<close>, provided that no \<open>send\<close> is
  called between the \<open>yield\<close> of an earlier \<open>send\<close> and its assignment of \<open>tx_scheduled\<close>, and that every packet
  takes at least one unit of time on the wire: at every moment the delivered packets are an initial part of the
  sent ones, and once the port has no process left they are all of them.\<close>

theorem port_fifo:
  assumes "tx_run ser ld lone_send tx_init es s" "\<And>t. 0 < ser t"
  shows "\<exists>rest. sent es = delivered s @ rest \<and> (procs s = [] \<longrightarrow> rest = [])"
proof -
  obtain fl ls tok where i: "port_inv ld s (sent es) fl ls tok" using run_inv_holds [OF assms(1) refl assms(2)] by blast
  then have "rest = []" if "procs s = []" "rest = map fst ls @ held tok @ tx_queue s" for rest
    using that by (cases tok) (auto simp: port_inv_def links_def)
  then show ?thesis using i by (auto simp: port_inv_def)
qed

text \<open>A scheduler that picks the process to run by its position; what it computes is a run.\<close>

fun exec :: "('p \<Rightarrow> nat) \<Rightarrow> nat \<Rightarrow> ('p tx \<Rightarrow> 'p event \<Rightarrow> bool) \<Rightarrow> ('p event \<times> nat) list \<Rightarrow> 'p tx \<Rightarrow> 'p tx option" where
  "exec ser ld G [] s = Some s"
| "exec ser ld G ((Send t, i) # es) s = (if G s (Send t) then exec ser ld G es (port_send t s) else None)"
| "exec ser ld G ((Run, i) # es) s =
     (if G s Run \<and> i < length (procs s)
      then case run_proc ser ld (procs s ! i) s of
             None \<Rightarrow> None
           | Some (new, s') \<Rightarrow> exec ser ld G es (s'\<lparr>procs := take i (procs s) @ new @ drop (Suc i) (procs s)\<rparr>)
      else None)"
| "exec ser ld G ((Tick, i) # es) s =
     (if \<not> G s Tick \<or> list_ex (ready (now s)) (procs s) then None else exec ser ld G es (s\<lparr>now := now s + 1\<rparr>))"

lemma exec_sound:
  "exec ser ld G es s = Some s' \<Longrightarrow> tx_run ser ld G s0 fs s \<Longrightarrow> tx_run ser ld G s0 (fs @ map fst es) s'"
proof (induction ser ld G es s arbitrary: fs rule: exec.induct)
  case (2 ser ld G t i es s)
  then have "tx_run ser ld G s0 (fs @ [Send t]) (port_send t s)"
    by (auto intro: run_snoc step_send split: if_splits)
  from "2.IH" [OF _ _ this] "2.prems"(1) show ?case by (simp split: if_splits)
next
  case (3 ser ld G i es s)
  then obtain new u where g: "G s Run" and i: "i < length (procs s)" and r: "run_proc ser ld (procs s ! i) s = Some (new, u)"
    and e: "exec ser ld G es (u\<lparr>procs := take i (procs s) @ new @ drop (Suc i) (procs s)\<rparr>) = Some s'"
    by (auto split: if_splits option.splits)
  have "tx_run ser ld G s0 (fs @ [Run]) (u\<lparr>procs := take i (procs s) @ new @ drop (Suc i) (procs s)\<rparr>)"
    using run_snoc [OF "3.prems"(2) g step_run [OF id_take_nth_drop [OF i] r]] .
  from "3.IH" [OF conjI [OF g i] r refl e this] show ?case by simp
next
  case (4 ser ld G i es s)
  then have "tx_run ser ld G s0 (fs @ [Tick]) (s\<lparr>now := now s + 1\<rparr>)"
    by (auto simp: list_ex_iff step_simps simp del: One_nat_def split: if_splits intro!: run_snoc)
  from "4.IH" [OF _ _ this] "4.prems"(1) show ?case by (simp split: if_splits)
qed simp

text \<open>A run in which a short packet is sent while a long one is on the wire: both arrive, in order.\<close>

definition two_sends :: "(nat event \<times> nat) list" where
  "two_sends = [(Send 2, 0), (Run, 0), (Run, 1), (Send 0, 0), (Tick, 0), (Tick, 0), (Tick, 0), (Run, 0), (Run, 1),
     (Tick, 0), (Run, 1), (Run, 0), (Run, 1), (Tick, 0), (Run, 0)]"

lemma two_sends_run: "\<exists>s. exec Suc 1 lone_send two_sends tx_init = Some s \<and> procs s = [] \<and> delivered s = [2, 0]"
  by (simp add: two_sends_def tx_init_def port_send_def ready_def lone_send_def)

theorem port_fifo_witness:
  "\<exists>s. tx_run Suc 1 lone_send tx_init (map fst two_sends) s \<and> procs s = [] \<and> sent (map fst two_sends) = delivered s"
proof -
  obtain s where s: "exec Suc 1 lone_send two_sends tx_init = Some s" "procs s = []" using two_sends_run by blast
  then have "tx_run Suc 1 lone_send tx_init (map fst two_sends) s" using exec_sound [OF s(1) run_nil] by simp
  then show ?thesis using port_fifo [of Suc 1 "map fst two_sends" s] s(2) by auto
qed

text \<open>A run with two calls of \<open>send\<close> in the same moment.\<close>

definition overlapping_sends :: "(nat event \<times> nat) list" where
  "overlapping_sends = [(Send 2, 0), (Send 0, 0), (Run, 0), (Run, 1), (Run, 1), (Run, 2), (Tick, 0), (Run, 1), (Run, 2),
     (Tick, 0), (Run, 1), (Tick, 0), (Run, 0), (Run, 1), (Tick, 0), (Run, 0)]"

lemma overlapping_sends_run:
  "\<exists>s. exec Suc 1 any_send overlapping_sends tx_init = Some s \<and> procs s = [] \<and> delivered s = [0, 2]"
  by (simp add: overlapping_sends_def tx_init_def port_send_def ready_def any_send_def)

text \<open>The order is lost when two calls of \<open>send\<close> overlap: the second one also finds \<open>tx_scheduled\<close> false, so two
  \<open>transmit\<close> processes put their packets on the wire at the same time. There is a run in which a packet that
  takes three units of time is sent first, one that takes one unit second, and the second is delivered first.\<close>

theorem port_overtaking:
  "\<exists>es s. tx_run Suc 1 any_send tx_init es s \<and> sent es = [2, 0] \<and> delivered s = [0, 2] \<and> procs s = []"
proof -
  obtain s where s: "exec Suc 1 any_send overlapping_sends tx_init = Some s" "procs s = []" "delivered s = [0, 2]"
    using overlapping_sends_run by blast
  moreover have "tx_run Suc 1 any_send tx_init (map fst overlapping_sends) s" using exec_sound [OF s(1) run_nil] by simp
  moreover have "sent (map fst overlapping_sends) = [2, 0]" by (simp add: overlapping_sends_def)
  ultimately show ?thesis by blast
qed

section \<open>No packet is lost\<close>

fun carried :: "'p proc \<Rightarrow> 'p multiset" where
  "carried (Serial t d) = {#t#}"
| "carried (Link t d) = {#t#}"
| "carried _ = {#}"

definition on_wire :: "'p proc list \<Rightarrow> 'p multiset" where
  "on_wire ps = sum_list (map carried ps)"

text \<open>Some \<open>transmit\<close> has not ended; some \<open>transmit\<close> has a packet on the wire at time \<open>n\<close> and does not end yet.\<close>

definition transmitting :: "'p proc list \<Rightarrow> bool" where
  "transmitting ps = list_ex (\<lambda>p. case p of Start \<Rightarrow> True | Serial t d \<Rightarrow> True | _ \<Rightarrow> False) ps"

definition sending :: "nat \<Rightarrow> 'p proc list \<Rightarrow> bool" where
  "sending n ps = list_ex (\<lambda>p. case p of Serial t d \<Rightarrow> n < d | _ \<Rightarrow> False) ps"

text \<open>Every packet is in one place, and as long as packets wait some \<open>transmit\<close> is active. While a \<open>send\<close> is
  unfinished, a packet is on the wire or a \<open>transmit\<close> is about to take one.\<close>

definition loss_inv :: "'p tx \<Rightarrow> 'p list \<Rightarrow> bool" where
  "loss_inv s ts \<longleftrightarrow>
     mset ts = mset (delivered s) + on_wire (procs s) + mset (tx_queue s) \<and>
     (tx_queue s \<noteq> [] \<or> tx_scheduled s \<longrightarrow> transmitting (procs s)) \<and>
     (Set_flag \<in> set (procs s) \<longrightarrow> sending (now s) (procs s) \<or> tx_queue s \<noteq> [] \<and> Start \<in> set (procs s))"

lemma on_wire_simps [simp]:
  "on_wire [] = {#}" "on_wire (p # ps) = carried p + on_wire ps" "on_wire (ps @ qs) = on_wire ps + on_wire qs"
  by (simp_all add: on_wire_def)

lemma sending_transmitting: "sending n ps \<or> Start \<in> set ps \<Longrightarrow> transmitting ps"
  by (induction ps) (auto simp: sending_def transmitting_def split: proc.splits)

lemma loss_send: "loss_inv s ts \<Longrightarrow> loss_inv (port_send t s) (ts @ [t])"
  by (cases "tx_scheduled s") (auto simp: loss_inv_def port_send_def Let_def transmitting_def)

lemma loss_tick:
  assumes "loss_inv s ts" "\<forall>p \<in> set (procs s). \<not> ready (now s) p"
  shows "loss_inv (s\<lparr>now := now s + 1\<rparr>) ts"
proof -
  have "Set_flag \<notin> set (procs s)" using assms(2) by (force simp: ready_def)
  then show ?thesis using assms(1) by (simp add: loss_inv_def)
qed

lemma loss_run:
  assumes inv: "loss_inv s ts" and ser: "\<And>t. 0 < ser t"
    and p: "procs s = ps @ p # qs" "run_proc ser ld p s = Some (new, s')"
  shows "loss_inv (s'\<lparr>procs := ps @ new @ qs\<rparr>) ts"
proof (cases p)
  case Set_flag
  then have "transmitting (procs s)" using inv p(1) sending_transmitting by (auto simp: loss_inv_def)
  then show ?thesis using inv p Set_flag by (auto simp: loss_inv_def transmitting_def sending_def)
next
  case Start
  then show ?thesis using inv p ser
    by (cases "tx_queue s") (auto simp: loss_inv_def transmitting_def sending_def)
qed (use inv p in \<open>auto simp: loss_inv_def transmitting_def sending_def split: if_splits\<close>)

lemma loss_inv_holds:
  assumes "tx_run ser ld G s0 es s" "s0 = tx_init" "\<And>t. 0 < ser t"
  shows "loss_inv s (sent es)"
  using assms
proof (induction rule: tx_run.induct)
  case (run_nil s)
  then show ?case by (simp add: loss_inv_def tx_init_def)
next
  case (run_snoc s es s' e s'')
  then have i: "loss_inv s' (sent es)" by blast
  from run_snoc.hyps(3) show ?case
  proof cases
    case (step_run ps p qs new u)
    then show ?thesis using loss_run [OF i run_snoc.prems(2)] by simp
  qed (use i loss_send loss_tick in auto)
qed

text \<open>C9. A port loses and duplicates no packet, whenever \<open>send\<close> is called: at every moment the delivered packets
  are some of the sent ones, each as often as it was sent or less often, and once the port has no process left they
  are all of them. Every packet takes at least one unit of time on the wire.\<close>

theorem port_no_loss:
  assumes "tx_run ser ld any_send tx_init es s" "\<And>t. 0 < ser t"
  shows "mset (delivered s) \<subseteq># mset (sent es) \<and> (procs s = [] \<longrightarrow> mset (delivered s) = mset (sent es))"
proof -
  have "loss_inv s (sent es)" using loss_inv_holds [OF assms(1) refl assms(2)] .
  then show ?thesis by (auto simp: loss_inv_def transmitting_def)
qed

theorem port_no_loss_witness:
  "\<exists>s. tx_run Suc 1 any_send tx_init (map fst overlapping_sends) s \<and> procs s = [] \<and>
     mset (delivered s) = mset (sent (map fst overlapping_sends))"
proof -
  obtain s where s: "exec Suc 1 any_send overlapping_sends tx_init = Some s" "procs s = []"
    using overlapping_sends_run by blast
  then have "tx_run Suc 1 any_send tx_init (map fst overlapping_sends) s" using exec_sound [OF s(1) run_nil] by simp
  then show ?thesis using port_no_loss [of Suc 1 "map fst overlapping_sends" s] s(2) by auto
qed

text \<open>Two ports that connect agree on the link: each is the other's peer, both run at the smaller of the
  two speeds and widths, and both see the same delay. A port that has a peer refuses a second connection.\<close>

theorem connect_symmetric:
  assumes "a \<noteq> b" "other (ps a) = Single None" "other (ps b) = Single None"
  shows "\<exists>ps'. connect a b ps = Inr ps' \<and> other (ps' a) = Single (Some b) \<and> other (ps' b) = Single (Some a) \<and>
           cur_speed (ps' a) = min (max_speed (ps a)) (max_speed (ps b)) \<and> cur_speed (ps' b) = cur_speed (ps' a) \<and>
           cur_width (ps' a) = min (max_width (ps a)) (max_width (ps b)) \<and> cur_width (ps' b) = cur_width (ps' a) \<and>
           link_delay (ps' a) = port_delay (ps a) + port_delay (ps b) \<and> link_delay (ps' b) = link_delay (ps' a) \<and>
           (\<forall>c. c \<noteq> a \<longrightarrow> c \<noteq> b \<longrightarrow> ps' c = ps c) \<and>
           (\<forall>c. connect a c ps' = Inl (PyException ''Already connected'')) \<and>
           transmit_to a ps' = bindE (ext_recv (ps b)) (\<lambda>_. Inr [b])"
  using assms by (auto simp: connect_def connected_def connect_int_def train_def transmit_to_def ext_recv_def min.commute)

theorem connect_symmetric_witness:
  "\<exists>ps'. connect 0 1 (\<lambda>_. Port True) = Inr ps' \<and> cur_speed (ps' 0) = 3 \<and> link_delay (ps' 1) = 10"
  using connect_symmetric [of 0 1 "\<lambda>_. Port True"] by (auto simp: Port_def)

end
