(* ===== verification/Pcie_Us.thy ===== *)
theory Pcie_Us
  imports Pcie_Tlp
begin

unbundle bit_operations_syntax

text \<open>
  The descriptors of the PCIe hard block of Xilinx UltraScale devices: \<open>USPcieFrame\<close> and \<open>TLP_us\<close> of
  \<open>lib/pcie/tb/pcie_us.py\<close>. A packet crosses the four user interfaces (completer request and
  completion, requester request and completion) as a descriptor of three or four words and a payload,
  with byte enables and parity beside them. The theory models packing and unpacking on each interface
  and shows that they are inverse on packets whose fields fit, and that parity detects single-bit errors.

  A \<open>tlp_us\<close> holds its inherited part, a \<open>tlp\<close>, in \<open>us_tlp\<close>. The words are Python integers.
\<close>

section \<open>Frames\<close>

abbreviation (input) TLP_FETCH_ADD :: "int \<times> int" where "TLP_FETCH_ADD \<equiv> (FMT_3DW_DATA, 0x0C)"
abbreviation (input) TLP_FETCH_ADD_64 :: "int \<times> int" where "TLP_FETCH_ADD_64 \<equiv> (FMT_4DW_DATA, 0x0C)"
abbreviation (input) TLP_SWAP :: "int \<times> int" where "TLP_SWAP \<equiv> (FMT_3DW_DATA, 0x0D)"
abbreviation (input) TLP_SWAP_64 :: "int \<times> int" where "TLP_SWAP_64 \<equiv> (FMT_4DW_DATA, 0x0D)"
abbreviation (input) TLP_CAS :: "int \<times> int" where "TLP_CAS \<equiv> (FMT_3DW_DATA, 0x0E)"
abbreviation (input) TLP_CAS_64 :: "int \<times> int" where "TLP_CAS_64 \<equiv> (FMT_4DW_DATA, 0x0E)"

definition dword_parity :: "int \<Rightarrow> int" where
  "dword_parity d0 =
     (let d1 = d0 XOR drop_bit 4 d0; d2 = d1 XOR drop_bit 2 d1; d = d2 XOR drop_bit 1 d2
      in (d AND 0x1) OR drop_bit 7 (d AND 0x100) OR drop_bit 14 (d AND 0x10000) OR drop_bit 21 (d AND 0x1000000))"

record us_frame =
  fr_data :: "int list"
  fr_byte_en :: "int list"
  fr_parity :: "int list"
  fr_first_be :: int
  fr_last_be :: int
  fr_discontinue :: bool
  fr_seq_num :: int

definition USPcieFrame :: us_frame where
  "USPcieFrame = \<lparr>fr_data = [], fr_byte_en = [], fr_parity = [], fr_first_be = 0, fr_last_be = 0,
     fr_discontinue = False, fr_seq_num = 0\<rparr>"

definition update_parity :: "us_frame \<Rightarrow> us_frame" where
  "update_parity f = f\<lparr>fr_parity := map (\<lambda>d. dword_parity d XOR 0xf) (fr_data f)\<rparr>"

definition check_parity :: "us_frame \<Rightarrow> bool" where
  "check_parity f \<longleftrightarrow> fr_parity f = map (\<lambda>d. dword_parity d XOR 0xf) (fr_data f)"

abbreviation RC_ERROR_NORMAL_TERMINATION :: int where
  "RC_ERROR_NORMAL_TERMINATION \<equiv> 0"

abbreviation RC_ERROR_BAD_STATUS :: int where
  "RC_ERROR_BAD_STATUS \<equiv> 2"

text \<open>A \<open>TLP_us\<close> is a \<open>TLP\<close> with further fields; \<open>us_tlp\<close> holds the inherited ones. \<open>us_error\<close> is the attribute
  \<open>error\<close>, which no constructor sets and only the receiver of completions assigns.\<close>

record tlp_us =
  us_tlp :: tlp
  us_bar_id :: int
  us_bar_aperture :: int
  us_completer_id_enable :: bool
  us_requester_id_enable :: bool
  us_discontinue :: bool
  us_seq_num :: int
  us_error_code :: int
  us_error :: "int option"

definition TLP_us :: tlp_us where
  "TLP_us = \<lparr>us_tlp = TLP, us_bar_id = 0, us_bar_aperture = 0, us_completer_id_enable = False,
     us_requester_id_enable = False, us_discontinue = False, us_seq_num = 0,
     us_error_code = RC_ERROR_NORMAL_TERMINATION, us_error = None\<rparr>"

definition TLP_us_copy :: "tlp_us \<Rightarrow> tlp_us" where
  "TLP_us_copy t = t\<lparr>us_tlp := TLP_copy (us_tlp t), us_error := None\<rparr>"

section \<open>Requests\<close>

text \<open>The request types that the descriptors carry.\<close>

definition req_type_of :: "int \<times> int \<Rightarrow> int" where
  "req_type_of ft =
     (if ft = TLP_MEM_READ \<or> ft = TLP_MEM_READ_64 then 0
      else if ft = TLP_MEM_WRITE \<or> ft = TLP_MEM_WRITE_64 then 1
      else if ft = TLP_IO_READ then 2
      else if ft = TLP_IO_WRITE then 3
      else if ft = TLP_FETCH_ADD \<or> ft = TLP_FETCH_ADD_64 then 4
      else if ft = TLP_SWAP \<or> ft = TLP_SWAP_64 then 5
      else if ft = TLP_CAS \<or> ft = TLP_CAS_64 then 6
      else if ft = TLP_MEM_READ_LOCKED \<or> ft = TLP_MEM_READ_LOCKED_64 then 7
      else if ft = TLP_CFG_READ_0 then 8
      else if ft = TLP_CFG_READ_1 then 9
      else if ft = TLP_CFG_WRITE_0 then 10
      else if ft = TLP_CFG_WRITE_1 then 11
      else 0)"

definition fmt_type_of :: "int \<Rightarrow> (int \<times> int) option" where
  "fmt_type_of r =
     (if r = 0 then Some TLP_MEM_READ else if r = 1 then Some TLP_MEM_WRITE else if r = 2 then Some TLP_IO_READ
      else if r = 3 then Some TLP_IO_WRITE else if r = 4 then Some TLP_FETCH_ADD else if r = 5 then Some TLP_SWAP
      else if r = 6 then Some TLP_CAS else if r = 7 then Some TLP_MEM_READ_LOCKED
      else if r = 8 then Some TLP_CFG_READ_0 else if r = 9 then Some TLP_CFG_READ_1
      else if r = 10 then Some TLP_CFG_WRITE_0 else if r = 11 then Some TLP_CFG_WRITE_1 else None)"

text \<open>The first two words: the address, or the register number of a configuration request.\<close>

definition address_words :: "tlp \<Rightarrow> int list" where
  "address_words t = [(tlp_at t AND 0x3) OR (tlp_address t AND 0xfffffffc),
     drop_bit 32 (tlp_address t AND 0xffffffff00000000)]"

definition request_word :: "tlp \<Rightarrow> int \<Rightarrow> int" where
  "request_word t r = (tlp_length t AND 0x7ff) OR push_bit 11 r OR push_bit 16 (id_int (tlp_requester_id t))"

definition payload_byte_en :: "int \<Rightarrow> int \<Rightarrow> int list \<Rightarrow> int list" where
  "payload_byte_en fbe lbe data =
     (if length data \<ge> 1 then [fbe] else []) @ replicate (length data - 2) 0xf @ (if length data > 1 then [lbe] else [])"

definition cq_word3 :: "tlp_us \<Rightarrow> int" where
  "cq_word3 u = (let t = us_tlp u
     in (tlp_tag t AND 0xff) OR push_bit 8 (pid_function (tlp_completer_id t) AND 0xff) OR
        push_bit 16 (us_bar_id u AND 0x7) OR push_bit 19 (us_bar_aperture u AND 0x3f) OR
        push_bit 25 (tlp_tc t AND 0x7) OR push_bit 28 (tlp_attr t AND 0x7))"

definition pack_us_cq :: "tlp_us \<Rightarrow> us_frame res" where
  "pack_us_cq u =
     (let t = us_tlp u
      in if is_io t \<or> fmt_type t \<in> {TLP_MEM_READ, TLP_MEM_READ_64, TLP_MEM_WRITE, TLP_MEM_WRITE_64}
         then Inr (update_parity (USPcieFrame\<lparr>
           fr_data := address_words t @ [request_word t (req_type_of (fmt_type t)), cq_word3 u] @ tlp_data t,
           fr_first_be := tlp_first_be t, fr_last_be := tlp_last_be t, fr_discontinue := us_discontinue u,
           fr_byte_en := replicate 4 0 @ payload_byte_en (tlp_first_be t) (tlp_last_be t) (tlp_data t)\<rparr>))
         else Inl (PyException ''Invalid packet type for interface''))"

definition wide_fmt :: "int \<Rightarrow> int \<Rightarrow> int" where
  "wide_fmt addr f =
     (if addr > 0xffffffff then if f = FMT_3DW then FMT_4DW else if f = FMT_3DW_DATA then FMT_4DW_DATA else f else f)"

text \<open>The fields that a receiver of a request takes from every request word.\<close>

definition unpack_request :: "us_frame \<Rightarrow> int \<times> int \<Rightarrow> tlp \<Rightarrow> tlp res" where
  "unpack_request f ft t =
     bindE (nth_res (fr_data f) 2) (\<lambda>w2. bindE (nth_res (fr_data f) 3) (\<lambda>w3.
       Inr ((set_fmt_type ft t)\<lparr>tlp_length := w2 AND 0x7ff, tlp_requester_id := from_int (drop_bit 16 w2),
         tlp_tag := w3 AND 0xff, tlp_tc := drop_bit 25 w3 AND 0x7, tlp_attr := drop_bit 28 w3 AND 0x7\<rparr>)))"

definition unpack_address :: "us_frame \<Rightarrow> tlp \<Rightarrow> tlp res" where
  "unpack_address f t =
     bindE (nth_res (fr_data f) 0) (\<lambda>w0. bindE (nth_res (fr_data f) 1) (\<lambda>w1.
       let addr = push_bit 32 w1 OR (w0 AND 0xfffffffc)
       in Inr (t\<lparr>tlp_at := w0 AND 3, tlp_address := addr, tlp_fmt := wide_fmt addr (tlp_fmt t)\<rparr>)))"

definition unpack_us_cq :: "us_frame \<Rightarrow> bool \<Rightarrow> tlp_us \<Rightarrow> tlp_us res" where
  "unpack_us_cq f parity u =
     bindE (nth_res (fr_data f) 2) (\<lambda>w2.
       let req_type = drop_bit 11 w2 AND 0xf
       in if req_type \<ge> 8 then Inl (PyException ''Invalid packet type'')
          else bindE (unpack_request f (the (fmt_type_of req_type)) (us_tlp u)) (\<lambda>t.
               bindE (unpack_address f t) (\<lambda>t.
               bindE (nth_res (fr_data f) 3) (\<lambda>w3.
               let t = t\<lparr>tlp_completer_id := PcieId 0 0 (drop_bit 8 w3 AND 0xff), tlp_first_be := fr_first_be f,
                          tlp_last_be := fr_last_be f, tlp_data := drop 4 (fr_data f)\<rparr>
               in bindE (assertE (replicate 4 0 @ payload_byte_en (tlp_first_be t) (tlp_last_be t) (tlp_data t) = fr_byte_en f)) (\<lambda>_.
                  bindE (assertE (parity \<longrightarrow> check_parity f)) (\<lambda>_.
                    Inr (u\<lparr>us_tlp := t, us_bar_id := drop_bit 16 w3 AND 7, us_bar_aperture := drop_bit 19 w3 AND 0x3f,
                           us_discontinue := fr_discontinue f\<rparr>)))))))"

definition rq_word3 :: "tlp_us \<Rightarrow> int" where
  "rq_word3 u = (let t = us_tlp u
     in (tlp_tag t AND 0xff) OR push_bit 8 (id_int (tlp_completer_id t)) OR
        (if us_requester_id_enable u then push_bit 24 1 else 0) OR
        push_bit 25 (tlp_tc t AND 0x7) OR push_bit 28 (tlp_attr t AND 0x7))"

definition pack_us_rq :: "tlp_us \<Rightarrow> us_frame res" where
  "pack_us_rq u =
     (let t = us_tlp u
      in if is_io t \<or> is_cfg t \<or> fmt_type t \<in> {TLP_MEM_READ, TLP_MEM_READ_64, TLP_MEM_WRITE, TLP_MEM_WRITE_64}
         then Inr (update_parity (USPcieFrame\<lparr>
           fr_data := (if is_cfg t then [push_bit 2 (tlp_register_number t AND 0x3ff), 0] else address_words t) @
             [request_word t (req_type_of (fmt_type t)), rq_word3 u] @ tlp_data t,
           fr_first_be := tlp_first_be t, fr_last_be := tlp_last_be t, fr_discontinue := us_discontinue u,
           fr_seq_num := us_seq_num u\<rparr>))
         else Inl (PyException ''Invalid packet type for interface''))"

definition unpack_us_rq :: "us_frame \<Rightarrow> bool \<Rightarrow> tlp_us \<Rightarrow> tlp_us res" where
  "unpack_us_rq f parity u =
     bindE (nth_res (fr_data f) 2) (\<lambda>w2.
       let req_type = drop_bit 11 w2 AND 0xf
       in case fmt_type_of req_type of
            None \<Rightarrow> Inl (PyException ''Invalid packet type'')
          | Some ft \<Rightarrow>
              bindE (unpack_request f ft (us_tlp u)) (\<lambda>t.
              bindE (if req_type < 8 then unpack_address f t
                     else bindE (nth_res (fr_data f) 0) (\<lambda>w0. Inr (t\<lparr>tlp_register_number := drop_bit 2 w0 AND 0x3ff\<rparr>))) (\<lambda>t.
              bindE (nth_res (fr_data f) 3) (\<lambda>w3.
              bindE (assertE (parity \<longrightarrow> check_parity f)) (\<lambda>_.
                Inr (u\<lparr>us_tlp := t\<lparr>tlp_completer_id := from_int (drop_bit 8 w3), tlp_first_be := fr_first_be f,
                         tlp_last_be := fr_last_be f, tlp_data := drop 4 (fr_data f)\<rparr>,
                       us_requester_id_enable := (drop_bit 24 w3 AND 1 \<noteq> 0), us_discontinue := fr_discontinue f,
                       us_seq_num := fr_seq_num f\<rparr>))))))"

section \<open>Completions\<close>

definition cpl_word0 :: "tlp_us \<Rightarrow> int \<Rightarrow> int" where
  "cpl_word0 u low =
     low OR push_bit 16 (tlp_byte_count (us_tlp u) AND 0x1fff) OR
     (if fmt_type (us_tlp u) \<in> {TLP_CPL_LOCKED, TLP_CPL_LOCKED_DATA} then push_bit 29 1 else 0)"

definition cpl_word1 :: "tlp \<Rightarrow> int" where
  "cpl_word1 t = (tlp_length t AND 0x7ff) OR push_bit 11 (tlp_status t AND 0x7) OR push_bit 16 (id_int (tlp_requester_id t))"

definition cpl_word2 :: "tlp \<Rightarrow> bool \<Rightarrow> int" where
  "cpl_word2 t en = (tlp_tag t AND 0xff) OR push_bit 8 (id_int (tlp_completer_id t)) OR (if en then push_bit 24 1 else 0) OR
     push_bit 25 (tlp_tc t AND 0x7) OR push_bit 28 (tlp_attr t AND 0x7)"

definition pack_us_cc :: "tlp_us \<Rightarrow> us_frame res" where
  "pack_us_cc u =
     (let t = us_tlp u
      in if is_cpl t then Inr (update_parity (USPcieFrame\<lparr>
           fr_data := [cpl_word0 u ((tlp_lower_address t AND 0x7f) OR push_bit 8 (tlp_at t AND 3)), cpl_word1 t,
                       cpl_word2 t (us_completer_id_enable u)] @ tlp_data t,
           fr_discontinue := us_discontinue u\<rparr>))
         else Inl (PyException ''Invalid packet type for interface''))"

text \<open>The part that the two receivers of completions share.\<close>

definition unpack_cpl_words :: "us_frame \<Rightarrow> tlp \<Rightarrow> tlp res" where
  "unpack_cpl_words f t =
     bindE (nth_res (fr_data f) 0) (\<lambda>w0. bindE (nth_res (fr_data f) 1) (\<lambda>w1. bindE (nth_res (fr_data f) 2) (\<lambda>w2.
       let t = set_fmt_type (if w0 AND push_bit 29 1 \<noteq> 0 then TLP_CPL_LOCKED else TLP_CPL) t; n = w1 AND 0x7ff
       in Inr (t\<lparr>tlp_byte_count := drop_bit 16 w0 AND 0x1fff, tlp_length := n,
            tlp_fmt := (if n > 0 then FMT_3DW_DATA else tlp_fmt t), tlp_status := drop_bit 11 w1 AND 7,
            tlp_requester_id := from_int (drop_bit 16 w1), tlp_completer_id := from_int (drop_bit 8 w2),
            tlp_tag := w2 AND 0xff, tlp_tc := drop_bit 25 w2 AND 0x7, tlp_attr := drop_bit 28 w2 AND 0x7,
            tlp_data := (if n > 0 then slice 3 (nat (3 + n)) (fr_data f) else tlp_data t)\<rparr>))))"

definition unpack_us_cc :: "us_frame \<Rightarrow> bool \<Rightarrow> tlp_us \<Rightarrow> tlp_us res" where
  "unpack_us_cc f parity u =
     bindE (unpack_cpl_words f (us_tlp u)) (\<lambda>t.
     bindE (nth_res (fr_data f) 0) (\<lambda>w0. bindE (nth_res (fr_data f) 2) (\<lambda>w2.
     bindE (assertE (parity \<longrightarrow> check_parity f)) (\<lambda>_.
       Inr (u\<lparr>us_tlp := t\<lparr>tlp_lower_address := w0 AND 0x7f, tlp_at := drop_bit 8 w0 AND 3\<rparr>,
              us_completer_id_enable := (drop_bit 24 w2 AND 1 \<noteq> 0), us_discontinue := fr_discontinue f\<rparr>)))))"

text \<open>The byte enables of the payload of a completion, from its lower address, byte count and length.\<close>

definition cpl_byte_en :: "tlp \<Rightarrow> int list" where
  "cpl_byte_en t =
     (let fbe = push_bit (nat (tlp_lower_address t AND 3)) 0xf AND 0xf;
          lbe = (if tlp_byte_count t + (tlp_lower_address t AND 3) > tlp_length t * 4 then 0xf
                  else drop_bit (nat ((4 - tlp_byte_count t - tlp_lower_address t) AND 3)) 0xf)
      in replicate 3 0 @ (if length (tlp_data t) = 1 then payload_byte_en (fbe AND lbe) 0 (tlp_data t)
                          else payload_byte_en fbe lbe (tlp_data t)))"

definition pack_us_rc :: "tlp_us \<Rightarrow> us_frame res" where
  "pack_us_rc u =
     (let t = us_tlp u
      in if is_cpl t then Inr (update_parity (USPcieFrame\<lparr>
           fr_data := [cpl_word0 u ((tlp_lower_address t AND 0xfff) OR push_bit 12 (us_error_code u AND 0xf)), cpl_word1 t,
                       cpl_word2 t False] @ tlp_data t,
           fr_discontinue := us_discontinue u, fr_byte_en := cpl_byte_en t\<rparr>))
         else Inl (PyException ''Invalid packet type for interface''))"

definition unpack_us_rc :: "us_frame \<Rightarrow> bool \<Rightarrow> tlp_us \<Rightarrow> tlp_us res" where
  "unpack_us_rc f parity u =
     bindE (unpack_cpl_words f (us_tlp u)) (\<lambda>t.
     bindE (nth_res (fr_data f) 0) (\<lambda>w0.
     let t = t\<lparr>tlp_lower_address := w0 AND 0xfff\<rparr>
     in bindE (assertE (cpl_byte_en t = fr_byte_en f)) (\<lambda>_.
        bindE (assertE (parity \<longrightarrow> check_parity f)) (\<lambda>_.
          Inr (u\<lparr>us_tlp := t, us_error_code := drop_bit 12 w0 AND 0xf, us_discontinue := fr_discontinue f\<rparr>)))))"

text \<open>\<open>TLP_us\<close> compares the fields of \<open>TLP\<close> but \<open>th\<close>.\<close>

definition us_eq :: "tlp_us \<Rightarrow> tlp_us \<Rightarrow> bool" where
  "us_eq a b \<longleftrightarrow> (us_tlp a)\<lparr>tlp_th := 0\<rparr> = (us_tlp b)\<lparr>tlp_th := 0\<rparr>"

section \<open>Fields of the descriptor words\<close>

lemma bit_and_more [bit_masks]:
  "bit ((x::int) AND 63) i \<longleftrightarrow> bit x i \<and> i < 6"
  "bit ((x::int) AND 2047) i \<longleftrightarrow> bit x i \<and> i < 11"
  "bit ((x::int) AND 8191) i \<longleftrightarrow> bit x i \<and> i < 13"
  "bit ((x::int) AND 4294967295) i \<longleftrightarrow> bit x i \<and> i < 32"
  subgoal using bit_mask_int [of x 6 i] by (simp del: and_low_masks push_bit_and)
  subgoal using bit_mask_int [of x 11 i] by (simp del: and_low_masks push_bit_and)
  subgoal using bit_mask_int [of x 13 i] by (simp del: and_low_masks)
  subgoal using bit_mask_int [of x 32 i] by (simp del: and_low_masks)
  done

lemma and_more_masks: "(x::int) AND 2047 = x mod 2048" "(x::int) AND 8191 = x mod 8192"
  using and_mask_int [of x 11] and_mask_int [of x 13] by simp_all

lemma bit_enable [bit_masks]: "bit (if b then push_bit n 1 else 0 :: int) i \<longleftrightarrow> b \<and> i = n"
  using bit_exp_iff [of n i, where ?'a = int] by (auto simp: push_bit_eq_mult)

lemma bit_id_int: "bit (id_int x) i \<Longrightarrow> i < 16"
  using id_int_bounds [of x] bit_high_zero [of "id_int x" 16 i] by (cases "i < 16") auto

lemma from_int_bits: "(\<And>i. i < 16 \<Longrightarrow> bit v i = bit w i) \<Longrightarrow> from_int v = from_int w"
proof -
  assume b: "\<And>i. i < 16 \<Longrightarrow> bit v i = bit w i"
  have "drop_bit 8 v AND 255 = drop_bit 8 w AND 255" "drop_bit 3 v AND 31 = drop_bit 3 w AND 31" "v AND 7 = w AND 7"
    by (rule bit_eqI, use b in \<open>auto simp: bit_masks simp del: and_low_masks push_bit_and\<close>)+
  then show ?thesis by (simp add: from_int_def)
qed

lemma request_word_fields:
  assumes "0 \<le> r" "r < 16"
  shows "request_word t r AND 0x7ff = tlp_length t AND 0x7ff" "drop_bit 11 (request_word t r) AND 0xf = r"
    "from_int (drop_bit 16 (request_word t r)) = from_int (id_int (tlp_requester_id t))"
proof -
  have r: "bit r i \<Longrightarrow> i < 4" for i using bit_high_zero [of r 4 i] assms by (cases "i < 4") auto
  show "request_word t r AND 0x7ff = tlp_length t AND 0x7ff"
    by (rule bit_eqI) (auto simp: request_word_def bit_masks simp del: and_low_masks push_bit_and)
  show "drop_bit 11 (request_word t r) AND 0xf = r"
    by (rule bit_eqI) (auto simp: request_word_def bit_masks dest: r simp del: and_low_masks push_bit_and)
  show "from_int (drop_bit 16 (request_word t r)) = from_int (id_int (tlp_requester_id t))"
    by (rule from_int_bits) (auto simp: request_word_def bit_masks dest: r simp del: and_low_masks push_bit_and)
qed

lemma bit_dword_mask: "bit ((x::int) AND 0xfffffffc) i \<longleftrightarrow> bit x i \<and> 2 \<le> i \<and> i < 32"
proof -
  have "(0xfffffffc::int) = (2 ^ 32 - 1) AND NOT (2 ^ 2 - 1)" by simp
  then have "bit (0xfffffffc::int) i \<longleftrightarrow> i < 32 \<and> \<not> i < 2"
    by (simp only: bit_and_iff bit_not_iff mask_eq_exp_minus_1 [symmetric] bit_mask_iff) auto
  then show ?thesis by (auto simp: bit_and_iff)
qed

lemma bit_upper_mask: "bit ((x::int) AND 0xffffffff00000000) i \<longleftrightarrow> bit x i \<and> 32 \<le> i \<and> i < 64"
proof -
  have "(0xffffffff00000000::int) = (2 ^ 64 - 1) AND NOT (2 ^ 32 - 1)" by simp
  then have "bit (0xffffffff00000000::int) i \<longleftrightarrow> i < 64 \<and> \<not> i < 32"
    by (simp only: bit_and_iff bit_not_iff mask_eq_exp_minus_1 [symmetric] bit_mask_iff) auto
  then show ?thesis by (auto simp: bit_and_iff)
qed

lemma address_words_fields:
  assumes "0 \<le> tlp_address t" "tlp_address t < 2 ^ 64" "4 dvd tlp_address t"
  shows "address_words t ! 0 AND 3 = tlp_at t AND 3"
    "push_bit 32 (address_words t ! 1) OR (address_words t ! 0 AND 0xfffffffc) = tlp_address t"
proof -
  have low: "\<not> bit (tlp_address t) i" if "i < 2" for i
    using that assms(3) by (auto simp: bit_iff_odd less_Suc_eq numeral_2_eq_2 dvd_def)
  have high: "\<not> bit (tlp_address t) i" if "64 \<le> i" for i
    by (rule bit_high_zero [of _ 64]) (use assms that in auto)
  show "address_words t ! 0 AND 3 = tlp_at t AND 3"
    by (rule bit_eqI) (auto simp: address_words_def bit_masks bit_dword_mask simp del: and_low_masks push_bit_and)
  show "push_bit 32 (address_words t ! 1) OR (address_words t ! 0 AND 0xfffffffc) = tlp_address t"
  proof (rule bit_eqI)
    fix i
    show "bit (push_bit 32 (address_words t ! 1) OR (address_words t ! 0 AND 0xfffffffc)) i = bit (tlp_address t) i"
      using low [of i] high [of i]
      by (cases "i < 2"; cases "i < 32"; cases "i < 64")
         (auto simp: address_words_def bit_masks bit_dword_mask bit_upper_mask simp del: and_low_masks push_bit_and)
  qed
qed

lemma cq_word3_fields:
  "cq_word3 u AND 0xff = tlp_tag (us_tlp u) AND 0xff"
  "drop_bit 8 (cq_word3 u) AND 0xff = pid_function (tlp_completer_id (us_tlp u)) AND 0xff"
  "drop_bit 16 (cq_word3 u) AND 7 = us_bar_id u AND 7"
  "drop_bit 19 (cq_word3 u) AND 0x3f = us_bar_aperture u AND 0x3f"
  "drop_bit 25 (cq_word3 u) AND 7 = tlp_tc (us_tlp u) AND 7"
  "drop_bit 28 (cq_word3 u) AND 7 = tlp_attr (us_tlp u) AND 7"
  unfolding cq_word3_def Let_def
  by (rule bit_eqI, auto simp: bit_masks simp del: and_low_masks push_bit_and)+

lemma and_1_bit: "drop_bit n (x::int) AND 1 \<noteq> 0 \<longleftrightarrow> bit x n"
  by (simp add: bit_iff_odd_drop_bit odd_iff_mod_2_eq_one)

lemma rq_word3_fields:
  "rq_word3 u AND 0xff = tlp_tag (us_tlp u) AND 0xff"
  "from_int (drop_bit 8 (rq_word3 u)) = from_int (id_int (tlp_completer_id (us_tlp u)))"
  "drop_bit 24 (rq_word3 u) AND 1 \<noteq> 0 \<longleftrightarrow> us_requester_id_enable u"
  "drop_bit 25 (rq_word3 u) AND 7 = tlp_tc (us_tlp u) AND 7"
  "drop_bit 28 (rq_word3 u) AND 7 = tlp_attr (us_tlp u) AND 7"
  unfolding rq_word3_def Let_def
  subgoal by (rule bit_eqI) (auto simp: bit_masks simp del: and_low_masks push_bit_and)
  subgoal by (rule from_int_bits) (auto simp: bit_masks simp del: and_low_masks push_bit_and)
  subgoal unfolding and_1_bit by (auto simp: bit_masks dest: bit_id_int simp del: and_low_masks push_bit_and)
  subgoal by (rule bit_eqI) (auto simp: bit_masks dest: bit_id_int simp del: and_low_masks push_bit_and)
  subgoal by (rule bit_eqI) (auto simp: bit_masks dest: bit_id_int simp del: and_low_masks push_bit_and)
  done

lemma cpl_word0_fields:
  assumes "\<And>i. bit low i \<Longrightarrow> i < 16"
  shows "drop_bit 16 (cpl_word0 u low) AND 0x1fff = tlp_byte_count (us_tlp u) AND 0x1fff"
    "cpl_word0 u low AND push_bit 29 1 \<noteq> 0 \<longleftrightarrow> fmt_type (us_tlp u) \<in> {TLP_CPL_LOCKED, TLP_CPL_LOCKED_DATA}"
    "j \<le> 16 \<Longrightarrow> m + j \<le> 16 \<Longrightarrow> drop_bit j (cpl_word0 u low) AND (2 ^ m - 1) = drop_bit j low AND (2 ^ m - 1)"
proof -
  show "drop_bit 16 (cpl_word0 u low) AND 0x1fff = tlp_byte_count (us_tlp u) AND 0x1fff"
    by (rule bit_eqI) (auto simp: cpl_word0_def bit_masks dest: assms simp del: and_low_masks push_bit_and)
  show "cpl_word0 u low AND push_bit 29 1 \<noteq> 0 \<longleftrightarrow> fmt_type (us_tlp u) \<in> {TLP_CPL_LOCKED, TLP_CPL_LOCKED_DATA}"
    unfolding and_push_bit_1
    by (auto simp: cpl_word0_def bit_masks dest: assms simp del: and_low_masks push_bit_and)
  show "drop_bit j (cpl_word0 u low) AND (2 ^ m - 1) = drop_bit j low AND (2 ^ m - 1)" if "j \<le> 16" "m + j \<le> 16"
    by (rule bit_eqI) (use that in \<open>auto simp: cpl_word0_def bit_masks bit_mask_int simp del: and_low_masks push_bit_and\<close>)
qed

lemma cpl_word1_fields:
  "cpl_word1 t AND 0x7ff = tlp_length t AND 0x7ff" "drop_bit 11 (cpl_word1 t) AND 7 = tlp_status t AND 7"
  "from_int (drop_bit 16 (cpl_word1 t)) = from_int (id_int (tlp_requester_id t))"
  unfolding cpl_word1_def
  subgoal by (rule bit_eqI) (auto simp: bit_masks simp del: and_low_masks push_bit_and)
  subgoal by (rule bit_eqI) (auto simp: bit_masks simp del: and_low_masks push_bit_and)
  subgoal by (rule from_int_bits) (auto simp: bit_masks simp del: and_low_masks push_bit_and)
  done

lemma cpl_word2_fields:
  "cpl_word2 t en AND 0xff = tlp_tag t AND 0xff"
  "from_int (drop_bit 8 (cpl_word2 t en)) = from_int (id_int (tlp_completer_id t))"
  "drop_bit 24 (cpl_word2 t en) AND 1 \<noteq> 0 \<longleftrightarrow> en"
  "drop_bit 25 (cpl_word2 t en) AND 7 = tlp_tc t AND 7" "drop_bit 28 (cpl_word2 t en) AND 7 = tlp_attr t AND 7"
  unfolding cpl_word2_def
  subgoal by (rule bit_eqI) (auto simp: bit_masks simp del: and_low_masks push_bit_and)
  subgoal by (rule from_int_bits) (auto simp: bit_masks simp del: and_low_masks push_bit_and)
  subgoal unfolding and_1_bit by (auto simp: bit_masks dest: bit_id_int simp del: and_low_masks push_bit_and)
  subgoal by (rule bit_eqI) (auto simp: bit_masks dest: bit_id_int simp del: and_low_masks push_bit_and)
  subgoal by (rule bit_eqI) (auto simp: bit_masks dest: bit_id_int simp del: and_low_masks push_bit_and)
  done

section \<open>Round trips\<close>

lemma check_update_parity [simp]: "check_parity (update_parity f)"
  by (simp add: check_parity_def update_parity_def)

lemma update_parity_sel [simp]:
  "fr_data (update_parity f) = fr_data f" "fr_byte_en (update_parity f) = fr_byte_en f"
  "fr_first_be (update_parity f) = fr_first_be f" "fr_last_be (update_parity f) = fr_last_be f"
  "fr_discontinue (update_parity f) = fr_discontinue f" "fr_seq_num (update_parity f) = fr_seq_num f"
  by (simp_all add: update_parity_def)

text \<open>The fields of a completion fit into its descriptor, and the payload has the length that it states.\<close>

definition us_cpl_wf :: "tlp \<Rightarrow> bool" where
  "us_cpl_wf t \<longleftrightarrow> is_cpl t \<and> tlp_length t \<in> {0..<2048} \<and> (tlp_fmt t = FMT_3DW_DATA \<longleftrightarrow> tlp_length t > 0) \<and>
     int (length (tlp_data t)) = tlp_length t \<and> tlp_byte_count t \<in> {0..<8192} \<and> tlp_status t \<in> {0..<8} \<and>
     tlp_tag t \<in> {0..<256} \<and> tlp_tc t \<in> {0..<8} \<and> tlp_attr t \<in> {0..<8} \<and>
     id_wf (tlp_requester_id t) \<and> id_wf (tlp_completer_id t)"

definition cpl_part :: "tlp \<Rightarrow> tlp \<Rightarrow> tlp" where
  "cpl_part t t0 = t0\<lparr>tlp_fmt := tlp_fmt t, tlp_type := tlp_type t, tlp_byte_count := tlp_byte_count t,
     tlp_length := tlp_length t, tlp_status := tlp_status t, tlp_requester_id := tlp_requester_id t,
     tlp_completer_id := tlp_completer_id t, tlp_tag := tlp_tag t, tlp_tc := tlp_tc t, tlp_attr := tlp_attr t,
     tlp_data := (if tlp_length t > 0 then tlp_data t else tlp_data t0)\<rparr>"

lemma cpl_part_sel:
  "tlp_byte_count (cpl_part t t0) = tlp_byte_count t" "tlp_length (cpl_part t t0) = tlp_length t"
  by (simp_all add: cpl_part_def)

lemma unpack_cpl_words_pack:
  assumes wf: "us_cpl_wf (us_tlp u)" and low: "\<And>i. bit low i \<Longrightarrow> i < 16"
    and f: "fr_data f = [cpl_word0 u low, cpl_word1 (us_tlp u), cpl_word2 (us_tlp u) en] @ tlp_data (us_tlp u)"
  shows "unpack_cpl_words f t0 = Inr (cpl_part (us_tlp u) t0)"
proof -
  let ?t = "us_tlp u"
  have kind: "tlp_type ?t = (if fmt_type ?t \<in> {TLP_CPL_LOCKED, TLP_CPL_LOCKED_DATA} then 11 else 10)"
    "tlp_fmt ?t = (if tlp_length ?t > 0 then 2 else 0)"
    using wf by (auto simp: us_cpl_wf_def tlp_kind_defs)
  have r: "tlp_byte_count ?t mod 8192 = tlp_byte_count ?t" "tlp_length ?t mod 2048 = tlp_length ?t"
    "tlp_status ?t mod 8 = tlp_status ?t" "tlp_tag ?t mod 256 = tlp_tag ?t" "tlp_tc ?t mod 8 = tlp_tc ?t"
    "tlp_attr ?t mod 8 = tlp_attr ?t" "from_int (id_int (tlp_requester_id ?t)) = tlp_requester_id ?t"
    "from_int (id_int (tlp_completer_id ?t)) = tlp_completer_id ?t"
    using wf by (simp_all add: us_cpl_wf_def from_int_id_int)
  have n: "slice 3 (nat (3 + tlp_length ?t)) (fr_data f) = tlp_data ?t" if "tlp_length ?t > 0"
  proof -
    have "nat (3 + tlp_length ?t) = 3 + length (tlp_data ?t)" using wf unfolding us_cpl_wf_def by linarith
    then show ?thesis by (simp add: f slice_def numeral_3_eq_3)
  qed
  have fields: "drop_bit 16 (cpl_word0 u low) AND 0x1fff = tlp_byte_count ?t"
    "cpl_word0 u low AND push_bit 29 1 \<noteq> 0 \<longleftrightarrow> fmt_type ?t \<in> {TLP_CPL_LOCKED, TLP_CPL_LOCKED_DATA}"
    "cpl_word1 ?t AND 0x7ff = tlp_length ?t" "drop_bit 11 (cpl_word1 ?t) AND 7 = tlp_status ?t"
    "from_int (drop_bit 16 (cpl_word1 ?t)) = tlp_requester_id ?t" "from_int (drop_bit 8 (cpl_word2 ?t en)) = tlp_completer_id ?t"
    "cpl_word2 ?t en AND 0xff = tlp_tag ?t" "drop_bit 25 (cpl_word2 ?t en) AND 7 = tlp_tc ?t"
    "drop_bit 28 (cpl_word2 ?t en) AND 7 = tlp_attr ?t"
    using cpl_word0_fields(1,2) [where low = low and u = u, OF low] cpl_word1_fields [of ?t] cpl_word2_fields [of ?t en]
    by (simp_all only: and_more_masks and_low_masks r)
  show ?thesis
    unfolding unpack_cpl_words_def f append_Cons nth_res_def
    using n kind
    by (simp add: fields Let_def cpl_part_def set_fmt_type_def f del: and_low_masks push_bit_of_1)
qed

text \<open>What a completion and a request say on each of the four interfaces.\<close>

definition cc_part :: "tlp_us \<Rightarrow> tlp_us" where
  "cc_part u = TLP_us\<lparr>us_tlp := (cpl_part (us_tlp u) TLP)\<lparr>tlp_lower_address := tlp_lower_address (us_tlp u),
       tlp_at := tlp_at (us_tlp u)\<rparr>,
     us_completer_id_enable := us_completer_id_enable u, us_discontinue := us_discontinue u\<rparr>"

definition rc_part :: "tlp_us \<Rightarrow> tlp_us" where
  "rc_part u = TLP_us\<lparr>us_tlp := (cpl_part (us_tlp u) TLP)\<lparr>tlp_lower_address := tlp_lower_address (us_tlp u)\<rparr>,
     us_error_code := us_error_code u, us_discontinue := us_discontinue u\<rparr>"

lemma low_bits:
  "bit ((x AND 0x7f) OR push_bit 8 (y AND 3) :: int) i \<Longrightarrow> i < 16"
  "bit ((x AND 0xfff) OR push_bit 12 (z AND 0xf) :: int) i \<Longrightarrow> i < 16"
  by (auto simp: bit_masks simp del: and_low_masks push_bit_and)

lemma low_fields:
  "((x AND 0x7f) OR push_bit 8 (y AND 3)) AND 0x7f = x AND (0x7f::int)"
  "drop_bit 8 ((x AND 0x7f) OR push_bit 8 (y AND 3)) AND 3 = y AND (3::int)"
  "((x AND 0xfff) OR push_bit 12 (z AND 0xf)) AND 0xfff = x AND (0xfff::int)"
  "drop_bit 12 ((x AND 0xfff) OR push_bit 12 (z AND 0xf)) AND 0xf = z AND (0xf::int)"
  by (rule bit_eqI, auto simp: bit_masks simp del: and_low_masks push_bit_and)+

lemma us_cc_pack:
  assumes "us_cpl_wf (us_tlp u)" "tlp_lower_address (us_tlp u) \<in> {0..<128}" "tlp_at (us_tlp u) \<in> {0..<4}"
  shows "bindE (pack_us_cc u) (\<lambda>f. unpack_us_cc f True TLP_us) = Inr (cc_part u)"
proof -
  let ?t = "us_tlp u"
  define low where "low = (tlp_lower_address ?t AND 0x7f) OR push_bit 8 (tlp_at ?t AND 3)"
  define f where "f = update_parity (USPcieFrame\<lparr>fr_data := [cpl_word0 u low, cpl_word1 ?t,
     cpl_word2 ?t (us_completer_id_enable u)] @ tlp_data ?t, fr_discontinue := us_discontinue u\<rparr>)"
  have b: "bit low i \<Longrightarrow> i < 16" for i unfolding low_def by (rule low_bits(1))
  have pk: "pack_us_cc u = Inr f"
    using assms(1) by (simp only: pack_us_cc_def us_cpl_wf_def Let_def f_def low_def if_True)
  have d: "fr_data f = [cpl_word0 u low, cpl_word1 ?t, cpl_word2 ?t (us_completer_id_enable u)] @ tlp_data ?t"
    "check_parity f" "fr_discontinue f = us_discontinue u"
    by (simp_all add: f_def)
  have a: "cpl_word0 u low AND 0x7f = tlp_lower_address ?t" "drop_bit 8 (cpl_word0 u low) AND 3 = tlp_at ?t"
    using cpl_word0_fields(3) [where low = low and u = u and j = 0 and m = 7, OF b]
      cpl_word0_fields(3) [where low = low and u = u and j = 8 and m = 2, OF b]
      low_fields(1,2) [of "tlp_lower_address ?t" "tlp_at ?t", folded low_def] assms(2,3)
    by simp_all
  show ?thesis
    unfolding pk bindE_Inr unpack_us_cc_def using unpack_cpl_words_pack [OF assms(1) b d(1), of TLP]
    by (simp add: TLP_us_def nth_res_def d a cpl_word2_fields cc_part_def del: and_low_masks)
qed

lemma us_rc_pack:
  assumes "us_cpl_wf (us_tlp u)" "tlp_lower_address (us_tlp u) \<in> {0..<4096}" "us_error_code u \<in> {0..<16}"
  shows "bindE (pack_us_rc u) (\<lambda>f. unpack_us_rc f True TLP_us) = Inr (rc_part u)"
proof -
  let ?t = "us_tlp u"
  define low where "low = (tlp_lower_address ?t AND 0xfff) OR push_bit 12 (us_error_code u AND 0xf)"
  define f where "f = update_parity (USPcieFrame\<lparr>fr_data := [cpl_word0 u low, cpl_word1 ?t,
     cpl_word2 ?t False] @ tlp_data ?t, fr_discontinue := us_discontinue u, fr_byte_en := cpl_byte_en ?t\<rparr>)"
  have b: "bit low i \<Longrightarrow> i < 16" for i unfolding low_def by (rule low_bits(2))
  have pk: "pack_us_rc u = Inr f"
    using assms(1) by (simp only: pack_us_rc_def us_cpl_wf_def Let_def f_def low_def if_True)
  have d: "fr_data f = [cpl_word0 u low, cpl_word1 ?t, cpl_word2 ?t False] @ tlp_data ?t"
    "check_parity f" "fr_discontinue f = us_discontinue u" "fr_byte_en f = cpl_byte_en ?t"
    by (simp_all add: f_def)
  have a: "cpl_word0 u low AND 0xfff = tlp_lower_address ?t" "drop_bit 12 (cpl_word0 u low) AND 0xf = us_error_code u"
    using cpl_word0_fields(3) [where low = low and u = u and j = 0 and m = 12, OF b]
      cpl_word0_fields(3) [where low = low and u = u and j = 12 and m = 4, OF b]
      low_fields(3,4) [of "tlp_lower_address ?t" "us_error_code u", folded low_def] assms(2,3)
    by simp_all
  have e: "cpl_byte_en ((cpl_part ?t TLP)\<lparr>tlp_lower_address := tlp_lower_address ?t\<rparr>) = cpl_byte_en ?t"
  proof -
    have "tlp_data (cpl_part ?t TLP) = tlp_data ?t" unfolding cpl_part_def
      using assms(1) by (cases "tlp_data ?t") (simp_all add: us_cpl_wf_def)
    then show ?thesis by (simp add: cpl_byte_en_def cpl_part_sel Let_def)
  qed
  show ?thesis
    unfolding pk bindE_Inr unpack_us_rc_def using unpack_cpl_words_pack [OF assms(1) b d(1), of TLP]
    by (simp add: TLP_us_def nth_res_def d a e assertE_def rc_part_def Let_def del: and_low_masks)
qed

text \<open>The fields of a request fit into its descriptor, and its header is as long as its address needs.\<close>

definition us_req_wf :: "tlp \<Rightarrow> bool" where
  "us_req_wf t \<longleftrightarrow> (is_io t \<or> fmt_type t \<in> {TLP_MEM_READ, TLP_MEM_READ_64, TLP_MEM_WRITE, TLP_MEM_WRITE_64}) \<and>
     tlp_length t \<in> {0..<2048} \<and> tlp_tag t \<in> {0..<256} \<and> tlp_tc t \<in> {0..<8} \<and> tlp_attr t \<in> {0..<8} \<and>
     tlp_at t \<in> {0..<4} \<and> tlp_address t \<in> {0..<2 ^ 64} \<and> 4 dvd tlp_address t \<and>
     (tlp_fmt t \<in> {FMT_4DW, FMT_4DW_DATA} \<longleftrightarrow> tlp_address t > 0xffffffff) \<and> id_wf (tlp_requester_id t)"

definition req_part :: "tlp \<Rightarrow> tlp" where
  "req_part t = TLP\<lparr>tlp_fmt := tlp_fmt t, tlp_type := tlp_type t, tlp_length := tlp_length t,
     tlp_requester_id := tlp_requester_id t, tlp_tag := tlp_tag t, tlp_tc := tlp_tc t, tlp_attr := tlp_attr t,
     tlp_at := tlp_at t, tlp_address := tlp_address t, tlp_first_be := tlp_first_be t, tlp_last_be := tlp_last_be t,
     tlp_data := tlp_data t\<rparr>"

lemma req_type_wf:
  assumes "us_req_wf t"
  obtains r ft where "req_type_of (fmt_type t) = r" "0 \<le> r" "r < 4" "fmt_type_of r = Some ft"
    "snd ft = tlp_type t" "wide_fmt (tlp_address t) (fst ft) = tlp_fmt t"
proof -
  have k: "is_io t \<or> fmt_type t \<in> {TLP_MEM_READ, TLP_MEM_READ_64, TLP_MEM_WRITE, TLP_MEM_WRITE_64}"
    and w: "tlp_fmt t \<in> {FMT_4DW, FMT_4DW_DATA} \<longleftrightarrow> tlp_address t > 0xffffffff"
    using assms unfolding us_req_wf_def by blast+
  define r ft where "r = req_type_of (fmt_type t)" and "ft = the (fmt_type_of r)"
  have "req_type_of (fmt_type t) = r \<and> 0 \<le> r \<and> r < 4 \<and> fmt_type_of r = Some ft \<and>
      snd ft = tlp_type t \<and> wide_fmt (tlp_address t) (fst ft) = tlp_fmt t"
    using k w unfolding r_def ft_def tlp_kind_defs insert_iff empty_iff prod.inject
    by (elim disjE conjE) (simp_all add: req_type_of_def fmt_type_of_def wide_fmt_def)
  then show thesis using that by blast
qed

lemma unpack_request_pack:
  assumes wf: "us_req_wf t" and r: "req_type_of (fmt_type t) = r" "0 \<le> r" "r < 4"
    and ft: "snd ft = tlp_type t" "wide_fmt (tlp_address t) (fst ft) = tlp_fmt t"
    and f: "fr_data f = address_words t @ [request_word t r, w3] @ tlp_data t"
    and w3: "w3 AND 0xff = tlp_tag t AND 0xff" "drop_bit 25 w3 AND 7 = tlp_tc t AND 7" "drop_bit 28 w3 AND 7 = tlp_attr t AND 7"
  shows "bindE (unpack_request f ft TLP) (unpack_address f) =
    Inr ((req_part t)\<lparr>tlp_first_be := 0, tlp_last_be := 0, tlp_data := []\<rparr>)"
proof -
  obtain a0 a1 where a: "address_words t = [a0, a1]" by (simp add: address_words_def)
  have q: "request_word t r AND 0x7ff = tlp_length t" "from_int (drop_bit 16 (request_word t r)) = tlp_requester_id t"
    using request_word_fields [of r t] r wf by (simp_all add: us_req_wf_def and_more_masks from_int_id_int)
  have ad: "a0 AND 3 = tlp_at t" "push_bit 32 a1 OR (a0 AND 0xfffffffc) = tlp_address t"
    using address_words_fields [of t] wf by (simp_all add: us_req_wf_def a)
  have w: "w3 AND 0xff = tlp_tag t" "drop_bit 25 w3 AND 7 = tlp_tc t" "drop_bit 28 w3 AND 7 = tlp_attr t"
    using w3 wf by (simp_all add: us_req_wf_def)
  show ?thesis
    unfolding unpack_request_def unpack_address_def
    by (simp add: f a nth_res_def q ad w ft set_fmt_type_def req_part_def Let_def del: and_low_masks)
qed

definition cq_part :: "tlp_us \<Rightarrow> tlp_us" where
  "cq_part u = TLP_us\<lparr>us_tlp := (req_part (us_tlp u))\<lparr>tlp_completer_id :=
       PcieId 0 0 (pid_function (tlp_completer_id (us_tlp u)))\<rparr>,
     us_bar_id := us_bar_id u, us_bar_aperture := us_bar_aperture u, us_discontinue := us_discontinue u\<rparr>"

definition rq_part :: "tlp_us \<Rightarrow> tlp_us" where
  "rq_part u = TLP_us\<lparr>us_tlp := (req_part (us_tlp u))\<lparr>tlp_completer_id := tlp_completer_id (us_tlp u)\<rparr>,
     us_requester_id_enable := us_requester_id_enable u, us_discontinue := us_discontinue u, us_seq_num := us_seq_num u\<rparr>"

lemma us_cq_pack:
  assumes wf: "us_req_wf (us_tlp u)" and "us_bar_id u \<in> {0..<8}" "us_bar_aperture u \<in> {0..<64}"
    "pid_function (tlp_completer_id (us_tlp u)) \<in> {0..<256}"
  shows "bindE (pack_us_cq u) (\<lambda>f. unpack_us_cq f True TLP_us) = Inr (cq_part u)"
proof -
  let ?t = "us_tlp u"
  obtain r ft where r: "req_type_of (fmt_type ?t) = r" "0 \<le> r" "r < 4" "fmt_type_of r = Some ft"
    and ft: "snd ft = tlp_type ?t" "wide_fmt (tlp_address ?t) (fst ft) = tlp_fmt ?t"
    using req_type_wf [OF wf] .
  obtain a0 a1 where a: "address_words ?t = [a0, a1]" by (simp add: address_words_def)
  define f where "f = update_parity (USPcieFrame\<lparr>
       fr_data := address_words ?t @ [request_word ?t r, cq_word3 u] @ tlp_data ?t,
       fr_first_be := tlp_first_be ?t, fr_last_be := tlp_last_be ?t, fr_discontinue := us_discontinue u,
       fr_byte_en := replicate 4 0 @ payload_byte_en (tlp_first_be ?t) (tlp_last_be ?t) (tlp_data ?t)\<rparr>)"
  have pk: "pack_us_cq u = Inr f"
    using wf by (simp only: pack_us_cq_def us_req_wf_def Let_def f_def r option.sel if_True)
  have d: "fr_data f = address_words ?t @ [request_word ?t r, cq_word3 u] @ tlp_data ?t" "check_parity f"
    "fr_first_be f = tlp_first_be ?t" "fr_last_be f = tlp_last_be ?t" "fr_discontinue f = us_discontinue u"
    "fr_byte_en f = replicate 4 0 @ payload_byte_en (tlp_first_be ?t) (tlp_last_be ?t) (tlp_data ?t)"
    by (simp_all add: f_def)
  have q: "drop_bit 11 (request_word ?t r) AND 15 = r" using request_word_fields(2) [of r ?t] r by simp
  have c: "drop_bit 8 (cq_word3 u) AND 255 = pid_function (tlp_completer_id ?t)"
    "drop_bit 16 (cq_word3 u) AND 7 = us_bar_id u" "drop_bit 19 (cq_word3 u) AND 63 = us_bar_aperture u"
    unfolding cq_word3_fields using assms(2-) by simp_all
  have "bindE (unpack_request f ft TLP) (unpack_address f) =
      Inr ((req_part ?t)\<lparr>tlp_first_be := 0, tlp_last_be := 0, tlp_data := []\<rparr>)"
    by (rule unpack_request_pack [OF wf r(1-3) ft d(1)]) (rule cq_word3_fields)+
  then obtain t1 where p: "unpack_request f ft TLP = Inr t1"
      "unpack_address f t1 = Inr ((req_part ?t)\<lparr>tlp_first_be := 0, tlp_last_be := 0, tlp_data := []\<rparr>)"
    by auto
  have n: "nth_res (fr_data f) 2 = Inr (request_word ?t r)" "nth_res (fr_data f) 3 = Inr (cq_word3 u)"
    "drop 4 (fr_data f) = tlp_data ?t" "us_tlp TLP_us = TLP"
    by (simp_all add: nth_res_def d a TLP_us_def)
  have "unpack_us_cq f True TLP_us = Inr (cq_part u)"
    unfolding unpack_us_cq_def n bindE_Inr Let_def q r(4) option.sel p c d(2-)
    using r(2,3) by (simp add: d(2) assertE_def cq_part_def req_part_def)
  then show ?thesis by (simp add: pk)
qed

lemma us_rq_pack:
  assumes wf: "us_req_wf (us_tlp u)" and "id_wf (tlp_completer_id (us_tlp u))"
  shows "bindE (pack_us_rq u) (\<lambda>f. unpack_us_rq f True TLP_us) = Inr (rq_part u)"
proof -
  let ?t = "us_tlp u"
  obtain r ft where r: "req_type_of (fmt_type ?t) = r" "0 \<le> r" "r < 4" "fmt_type_of r = Some ft"
    and ft: "snd ft = tlp_type ?t" "wide_fmt (tlp_address ?t) (fst ft) = tlp_fmt ?t"
    using req_type_wf [OF wf] .
  obtain a0 a1 where a: "address_words ?t = [a0, a1]" by (simp add: address_words_def)
  define f where "f = update_parity (USPcieFrame\<lparr>
       fr_data := address_words ?t @ [request_word ?t r, rq_word3 u] @ tlp_data ?t,
       fr_first_be := tlp_first_be ?t, fr_last_be := tlp_last_be ?t, fr_discontinue := us_discontinue u,
       fr_seq_num := us_seq_num u\<rparr>)"
  have "\<not> is_cfg ?t" using wf by (auto simp: us_req_wf_def tlp_kind_defs)
  then have pk: "pack_us_rq u = Inr f"
    using wf by (simp only: pack_us_rq_def us_req_wf_def Let_def f_def r option.sel if_True if_False simp_thms)
  have d: "fr_data f = address_words ?t @ [request_word ?t r, rq_word3 u] @ tlp_data ?t" "check_parity f"
    "fr_first_be f = tlp_first_be ?t" "fr_last_be f = tlp_last_be ?t" "fr_discontinue f = us_discontinue u"
    "fr_seq_num f = us_seq_num u"
    by (simp_all add: f_def)
  have q: "drop_bit 11 (request_word ?t r) AND 15 = r" using request_word_fields(2) [of r ?t] r by simp
  have c: "from_int (drop_bit 8 (rq_word3 u)) = tlp_completer_id ?t"
    using rq_word3_fields(2) [of u] assms(2) by (simp add: from_int_id_int)
  have "bindE (unpack_request f ft TLP) (unpack_address f) =
      Inr ((req_part ?t)\<lparr>tlp_first_be := 0, tlp_last_be := 0, tlp_data := []\<rparr>)"
    by (rule unpack_request_pack [OF wf r(1-3) ft d(1)]) (rule rq_word3_fields)+
  then obtain t1 where p: "unpack_request f ft TLP = Inr t1"
      "unpack_address f t1 = Inr ((req_part ?t)\<lparr>tlp_first_be := 0, tlp_last_be := 0, tlp_data := []\<rparr>)"
    by auto
  have n: "nth_res (fr_data f) 2 = Inr (request_word ?t r)" "nth_res (fr_data f) 3 = Inr (rq_word3 u)"
    "drop 4 (fr_data f) = tlp_data ?t" "us_tlp TLP_us = TLP"
    by (simp_all add: nth_res_def d a TLP_us_def)
  have "unpack_us_rq f True TLP_us = Inr (rq_part u)"
    unfolding unpack_us_rq_def n bindE_Inr Let_def q r(4) option.case p c d(2-) rq_word3_fields(3)
    using r(2,3) by (simp add: p n d(2) assertE_def rq_part_def req_part_def)
  then show ?thesis by (simp add: pk)
qed

section \<open>Parity\<close>

lemma bit_power_mask: "bit ((x::int) AND 2 ^ k) n \<longleftrightarrow> bit x k \<and> n = k"
  by (auto simp: bit_and_iff bit_exp_iff)

text \<open>\<open>parity_fold\<close> leaves the parity of each byte in its lowest bit.\<close>

definition parity_fold :: "int \<Rightarrow> int" where
  "parity_fold d = (let d1 = d XOR drop_bit 4 d; d2 = d1 XOR drop_bit 2 d1 in d2 XOR drop_bit 1 d2)"

lemma parity_fold_xor: "parity_fold (x XOR y) = parity_fold x XOR parity_fold y"
  by (simp add: parity_fold_def Let_def drop_bit_xor xor.assoc xor.left_commute)

lemma bit_parity_fold:
  "bit (parity_fold d) j \<longleftrightarrow> ((bit d j \<noteq> bit d (j + 4)) \<noteq> (bit d (j + 2) \<noteq> bit d (j + 6))) \<noteq>
     ((bit d (j + 1) \<noteq> bit d (j + 5)) \<noteq> (bit d (j + 3) \<noteq> bit d (j + 7)))"
  by (simp add: parity_fold_def Let_def bit_xor_iff bit_drop_bit_eq add.commute numeral_3_eq_3)

lemma bit_dword_parity: "bit (dword_parity d) i \<longleftrightarrow> i < 4 \<and> bit (parity_fold d) (8 * i)"
proof -
  let ?x = "parity_fold d"
  have p: "dword_parity d = (?x AND 2 ^ 0) OR drop_bit 7 (?x AND 2 ^ 8) OR drop_bit 14 (?x AND 2 ^ 16) OR
      drop_bit 21 (?x AND 2 ^ 24)"
    by (simp add: dword_parity_def parity_fold_def Let_def)
  consider "i = 0" | "i = 1" | "i = 2" | "i = 3" | "i \<ge> 4" by linarith
  then show ?thesis unfolding p bit_or_iff bit_drop_bit_eq comp_def bit_power_mask by cases simp_all
qed

lemma dword_parity_flip:
  assumes "b < 32"
  shows "dword_parity (d XOR 2 ^ b) \<noteq> dword_parity d"
proof -
  have "bit (2 ^ b :: int) i \<longleftrightarrow> i = b" for i by (auto simp: bit_exp_iff)
  then have "bit (parity_fold (2 ^ b)) (8 * (b div 8))" using assms unfolding bit_parity_fold by presburger
  moreover have "b div 8 < 4" using assms by simp
  ultimately have "bit (dword_parity (d XOR 2 ^ b)) (b div 8) \<noteq> bit (dword_parity d) (b div 8)"
    by (simp add: bit_dword_parity parity_fold_xor bit_xor_iff)
  then show ?thesis by auto
qed

section \<open>Properties\<close>

text \<open>
  C18. Requests survive the descriptors of the hard block: a memory or I/O request whose fields fit,
  packed for the completer request interface and unpacked at the other end with the byte enables and
  the parity checked, comes back with its kind, address, length, identifiers, attributes, byte enables
  and payload, of the completer only the function number, and the BAR that it hit; packed for the
  requester request interface it comes back with the whole completer identifier, the requester-id
  enable and the sequence number. The width of the header is recovered from the address alone.
\<close>

theorem us_request_roundtrip:
  assumes "us_req_wf (us_tlp u)" "us_bar_id u \<in> {0..<8}" "us_bar_aperture u \<in> {0..<64}"
    "id_wf (tlp_completer_id (us_tlp u))"
  shows "bindE (pack_us_cq u) (\<lambda>f. unpack_us_cq f True TLP_us) = Inr (cq_part u) \<and>
    bindE (pack_us_rq u) (\<lambda>f. unpack_us_rq f True TLP_us) = Inr (rq_part u)"
  using us_cq_pack [of u] us_rq_pack [of u] assms by (auto simp: id_wf_def)

definition us_sample :: tlp_us where
  "us_sample = TLP_us\<lparr>us_tlp := TLP\<lparr>tlp_fmt := 3, tlp_type := 0, tlp_length := 2, tlp_address := 0x1234567890,
     tlp_tag := 7, tlp_requester_id := PcieId 1 2 3, tlp_completer_id := PcieId 4 5 6, tlp_first_be := 15,
     tlp_last_be := 3, tlp_data := [0xdeadbeef, 0x42]\<rparr>, us_bar_id := 2, us_bar_aperture := 20\<rparr>"

theorem us_request_roundtrip_witness:
  "bindE (pack_us_cq us_sample) (\<lambda>f. unpack_us_cq f True TLP_us) = Inr (cq_part us_sample) \<and>
   bindE (pack_us_rq us_sample) (\<lambda>f. unpack_us_rq f True TLP_us) = Inr (rq_part us_sample)"
  by (rule us_request_roundtrip) (simp_all add: us_sample_def TLP_us_def us_req_wf_def id_wf_def tlp_kind_defs)

text \<open>
  C19. Completions survive the descriptors of the hard block: a completion whose fields fit, packed for
  the completer completion interface and unpacked at the other end, comes back with every field it
  carries, and so it does over the requester completion interface, where the byte enables that the
  sender computes from the lower address, the byte count and the length are the ones that the receiver
  expects, and the error code is kept.
\<close>

theorem us_completion_roundtrip:
  assumes "us_cpl_wf (us_tlp u)" "tlp_lower_address (us_tlp u) \<in> {0..<128}" "tlp_at (us_tlp u) \<in> {0..<4}"
    "us_error_code u \<in> {0..<16}"
  shows "bindE (pack_us_cc u) (\<lambda>f. unpack_us_cc f True TLP_us) = Inr (cc_part u) \<and>
    bindE (pack_us_rc u) (\<lambda>f. unpack_us_rc f True TLP_us) = Inr (rc_part u)"
  using us_cc_pack [of u] us_rc_pack [of u] assms by auto

definition us_cpl_sample :: tlp_us where
  "us_cpl_sample = TLP_us\<lparr>us_tlp := TLP\<lparr>tlp_fmt := 2, tlp_type := 11, tlp_length := 2, tlp_byte_count := 6,
     tlp_lower_address := 0x41, tlp_status := 1, tlp_tag := 9, tlp_at := 1, tlp_requester_id := PcieId 1 2 3,
     tlp_completer_id := PcieId 4 5 6, tlp_data := [0xdeadbeef, 0x42]\<rparr>, us_error_code := 5\<rparr>"

theorem us_completion_roundtrip_witness:
  "bindE (pack_us_cc us_cpl_sample) (\<lambda>f. unpack_us_cc f True TLP_us) = Inr (cc_part us_cpl_sample) \<and>
   bindE (pack_us_rc us_cpl_sample) (\<lambda>f. unpack_us_rc f True TLP_us) = Inr (rc_part us_cpl_sample)"
  by (rule us_completion_roundtrip) (simp_all add: us_cpl_sample_def TLP_us_def us_cpl_wf_def id_wf_def tlp_kind_defs)

text \<open>
  C36. Parity detects every single-bit error: when one bit of one word of a frame whose parity is right
  is inverted, the parity check fails.
\<close>

theorem us_parity_detects:
  assumes "check_parity f" "i < length (fr_data f)" "b < 32"
  shows "\<not> check_parity (f\<lparr>fr_data := (fr_data f)[i := fr_data f ! i XOR 2 ^ b]\<rparr>)"
proof
  assume "check_parity (f\<lparr>fr_data := (fr_data f)[i := fr_data f ! i XOR 2 ^ b]\<rparr>)"
  then have "map (\<lambda>d. dword_parity d XOR 0xf) (fr_data f) ! i =
      map (\<lambda>d. dword_parity d XOR 0xf) ((fr_data f)[i := fr_data f ! i XOR 2 ^ b]) ! i"
    using assms(1) by (simp add: check_parity_def)
  then have "dword_parity (fr_data f ! i) XOR 0xf = dword_parity (fr_data f ! i XOR 2 ^ b) XOR 0xf"
    using assms(2) by simp
  then have "(dword_parity (fr_data f ! i) XOR 0xf) XOR 0xf = (dword_parity (fr_data f ! i XOR 2 ^ b) XOR 0xf) XOR 0xf"
    by simp
  then show False using dword_parity_flip [OF assms(3), of "fr_data f ! i"] by (simp add: xor.assoc)
qed

theorem us_parity_detects_witness:
  "check_parity (update_parity (USPcieFrame\<lparr>fr_data := [1, 2]\<rparr>)) \<and>
   \<not> check_parity ((update_parity (USPcieFrame\<lparr>fr_data := [1, 2]\<rparr>))\<lparr>fr_data := [1, 2][1 := 2 XOR 2 ^ 31]\<rparr>)"
  using us_parity_detects [of "update_parity (USPcieFrame\<lparr>fr_data := [1, 2]\<rparr>)" 1 31] by simp

end
