(* ===== verification/Pcie_UsStream.thy ===== *)
theory Pcie_UsStream
  imports Pcie_Us
begin

unbundle bit_operations_syntax

text \<open>
  The streaming interfaces of the PCIe hard block: the classes \<open>CQSource\<close>, \<open>CQSink\<close>, \<open>CCSource\<close>, \<open>CCSink\<close>,
  \<open>RQSource\<close>, \<open>RQSink\<close>, \<open>RCSource\<close> and \<open>RCSink\<close> of \<open>lib/pcie/tb/pcie_us.py\<close>. The four sources differ
  only in the layout of \<open>tuser\<close>, and so do the four sinks; a record \<open>us_iface\<close> holds the layout of each, and
  \<open>src_step\<close> and \<open>snk_step\<close> are one clock edge of a source and of a sink.

  The locale \<open>us_stream\<close> states what a layout has to provide, and its lemmas show by an invariant over all
  histories of a connected source and sink that frames arrive unchanged and in order.
\<close>

section \<open>The four interfaces\<close>

text \<open>
  \<open>lane_user\<close>: the value of \<open>tuser\<close> before the lanes; \<open>tail_user\<close>: the bits set when the last word is in the beat;
  \<open>be_base\<close> and \<open>par_base\<close>: where the byte enables and the parity of the lanes start;
  \<open>get_user\<close>: what the sink takes from \<open>tuser\<close> before it reads the lanes.
\<close>

record us_iface =
  wide_width :: nat
  narrow_widths :: "nat list"
  lane_user :: "bool \<Rightarrow> nat \<Rightarrow> us_frame \<Rightarrow> bool \<Rightarrow> int"
  tail_user :: "bool \<Rightarrow> nat \<Rightarrow> int"
  be_base :: "bool \<Rightarrow> nat option"
  par_base :: "bool \<Rightarrow> nat"
  get_user :: "bool \<Rightarrow> nat \<Rightarrow> bool \<Rightarrow> int \<Rightarrow> us_frame \<Rightarrow> us_frame"

definition flag :: "nat \<Rightarrow> bool \<Rightarrow> int" where
  "flag n b = (if b then push_bit n 1 else 0)"

definition cq_if :: us_iface where
  "cq_if = \<lparr>
     wide_width = 183, narrow_widths = [85, 88],
     lane_user = (\<lambda>wide uw f first.
       if wide then
         (if first then (fr_first_be f AND 0xf) OR push_bit 8 (fr_last_be f AND 0xf) OR push_bit 80 1 OR push_bit 82 0 else 0)
         OR flag 96 (fr_discontinue f)
       else (if first then (fr_first_be f AND 0xf) OR push_bit 4 (fr_last_be f AND 0xf) OR push_bit 40 1 else 0)
         OR flag 41 (fr_discontinue f)),
     tail_user = (\<lambda>wide last. if wide then push_bit 86 1 OR push_bit 88 (int last AND 0xf) else 0),
     be_base = (\<lambda>wide. Some (if wide then 16 else 8)),
     par_base = (\<lambda>wide. if wide then 119 else 53),
     get_user = (\<lambda>wide uw first u f.
       let f = (if first then f\<lparr>fr_first_be := u AND 0xf, fr_last_be := drop_bit (if wide then 8 else 4) u AND 0xf\<rparr> else f)
       in if u AND push_bit (if wide then 96 else 41) 1 \<noteq> 0 then f\<lparr>fr_discontinue := True\<rparr> else f)\<rparr>"

definition cc_if :: us_iface where
  "cc_if = \<lparr>
     wide_width = 81, narrow_widths = [33],
     lane_user = (\<lambda>wide uw f first.
       if wide then (if first then push_bit 0 1 OR push_bit 2 0 else 0) OR flag 16 (fr_discontinue f)
       else flag 0 (fr_discontinue f)),
     tail_user = (\<lambda>wide last. if wide then push_bit 6 1 OR push_bit 8 (int last AND 0xf) else 0),
     be_base = (\<lambda>wide. None),
     par_base = (\<lambda>wide. if wide then 17 else 1),
     get_user = (\<lambda>wide uw first u f. if u AND push_bit (if wide then 16 else 0) 1 \<noteq> 0 then f\<lparr>fr_discontinue := True\<rparr> else f)\<rparr>"

definition rq_if :: us_iface where
  "rq_if = \<lparr>
     wide_width = 137, narrow_widths = [60, 62],
     lane_user = (\<lambda>wide uw f first.
       if wide then
         (if first then (fr_first_be f AND 0xf) OR push_bit 8 (fr_last_be f AND 0xf) OR push_bit 20 1 OR push_bit 22 0 else 0)
         OR flag 36 (fr_discontinue f) OR push_bit 61 (fr_seq_num f AND 0x3f)
       else (if first then (fr_first_be f AND 0xf) OR push_bit 4 (fr_last_be f AND 0xf) else 0)
         OR flag 11 (fr_discontinue f) OR push_bit 24 (fr_seq_num f AND 0xf)
         OR (if uw = 62 then push_bit 60 (drop_bit 4 (fr_seq_num f) AND 0x3) else 0)),
     tail_user = (\<lambda>wide last. if wide then push_bit 26 1 OR push_bit 28 (int last AND 0xf) else 0),
     be_base = (\<lambda>wide. None),
     par_base = (\<lambda>wide. if wide then 73 else 28),
     get_user = (\<lambda>wide uw first u f.
       let f = (if first then f\<lparr>fr_first_be := u AND 0xf, fr_last_be := drop_bit (if wide then 8 else 4) u AND 0xf\<rparr> else f);
           f = (if u AND push_bit (if wide then 36 else 11) 1 \<noteq> 0 then f\<lparr>fr_discontinue := True\<rparr> else f)
       in if wide then f\<lparr>fr_seq_num := drop_bit 61 u AND 0x3f\<rparr>
          else if uw = 62 then f\<lparr>fr_seq_num := (drop_bit 24 u AND 0xf) OR push_bit 4 (drop_bit 60 u AND 0x3)\<rparr>
          else f\<lparr>fr_seq_num := drop_bit 24 u AND 0xf\<rparr>)\<rparr>"

definition rc_if :: us_iface where
  "rc_if = \<lparr>
     wide_width = 161, narrow_widths = [75],
     lane_user = (\<lambda>wide uw f first.
       if wide then (if first then push_bit 64 1 OR push_bit 68 0 else 0) OR flag 96 (fr_discontinue f)
       else flag 32 first OR flag 42 (fr_discontinue f)),
     tail_user = (\<lambda>wide last. if wide then push_bit 76 1 OR push_bit 80 (int last)
                             else push_bit 34 (1 OR push_bit 1 (int last))),
     be_base = (\<lambda>wide. Some 0),
     par_base = (\<lambda>wide. if wide then 97 else 43),
     get_user = (\<lambda>wide uw first u f. if u AND push_bit (if wide then 96 else 42) 1 \<noteq> 0 then f\<lparr>fr_discontinue := True\<rparr> else f)\<rparr>"

text \<open>The assertions of \<open>create_logic\<close> on the widths of \<open>tdata\<close>, \<open>tkeep\<close> and \<open>tuser\<close>.\<close>

definition widths_ok :: "us_iface \<Rightarrow> nat \<Rightarrow> nat \<Rightarrow> nat \<Rightarrow> bool" where
  "widths_ok I tw kw uw \<longleftrightarrow> tw \<in> {64, 128, 256, 512} \<and> kw * 32 = tw \<and>
     (if tw = 512 then uw = wide_width I else uw \<in> set (narrow_widths I))"

section \<open>Sources\<close>

record us_beat =
  tdata :: int
  tkeep :: int
  tuser :: int
  tvalid :: bool
  tlast :: bool

record us_source =
  src_queue :: "us_frame list"
  src_active :: bool
  src_frame :: us_frame
  src_data :: "int list"
  src_byte_en :: "int list"
  src_parity :: "int list"
  src_first :: bool
  src_out :: us_beat

definition idle_beat :: us_beat where
  "idle_beat = \<lparr>tdata = 0, tkeep = 0, tuser = 0, tvalid = False, tlast = False\<rparr>"

definition UsSource :: us_source where
  "UsSource = \<lparr>src_queue = [], src_active = False, src_frame = USPcieFrame, src_data = [], src_byte_en = [], src_parity = [],
     src_first = True, src_out = idle_beat\<rparr>"

definition src_send :: "us_frame \<Rightarrow> us_source \<Rightarrow> us_source" where
  "src_send f s = s\<lparr>src_queue := src_queue s @ [f]\<rparr>"

text \<open>The lanes of a beat: \<open>ln_d\<close>, \<open>ln_k\<close> and \<open>ln_u\<close> are the values gathered so far.\<close>

record lanes =
  ln_data :: "int list"
  ln_byte_en :: "int list"
  ln_parity :: "int list"
  ln_d :: int
  ln_k :: int
  ln_u :: int
  ln_last :: nat

definition pop_byte_en :: "nat option \<Rightarrow> nat \<Rightarrow> lanes \<Rightarrow> lanes res" where
  "pop_byte_en be i l =
     (case be of None \<Rightarrow> Inr l
      | Some b \<Rightarrow> (case ln_byte_en l of [] \<Rightarrow> Inl IndexError
                   | x # xs \<Rightarrow> Inr (l\<lparr>ln_byte_en := xs, ln_u := ln_u l OR push_bit (i * 4 + b) x\<rparr>)))"

definition pop_parity :: "nat \<Rightarrow> nat \<Rightarrow> lanes \<Rightarrow> lanes res" where
  "pop_parity p i l =
     (case ln_parity l of [] \<Rightarrow> Inl IndexError
      | x # xs \<Rightarrow> Inr (l\<lparr>ln_parity := xs, ln_u := ln_u l OR push_bit (i * 4 + p) x\<rparr>))"

definition fill_lane :: "nat option \<Rightarrow> nat \<Rightarrow> nat \<Rightarrow> lanes \<Rightarrow> lanes res" where
  "fill_lane be p i l =
     (case ln_data l of
        [] \<Rightarrow> Inr (l\<lparr>ln_u := ln_u l OR push_bit (i * 4 + p) 0xf\<rparr>)
      | x # xs \<Rightarrow>
          bindE (pop_byte_en be i (l\<lparr>ln_data := xs, ln_d := ln_d l OR push_bit (i * 32) x, ln_k := ln_k l OR push_bit i 1\<rparr>)) (\<lambda>l.
          bindE (pop_parity p i l) (\<lambda>l. Inr (l\<lparr>ln_last := i\<rparr>))))"

definition src_beat :: "us_iface \<Rightarrow> nat \<Rightarrow> nat \<Rightarrow> nat \<Rightarrow> bool \<Rightarrow> us_source \<Rightarrow> us_source res" where
  "src_beat I tw kw uw pause s =
     (let wide = (tw = 512)
      in bindE (foldE (fill_lane (be_base I wide) (par_base I wide)) [0..<kw]
                 \<lparr>ln_data = src_data s, ln_byte_en = src_byte_en s, ln_parity = src_parity s, ln_d = 0, ln_k = 0,
                  ln_u = lane_user I wide uw (src_frame s) (src_first s), ln_last = 0\<rparr>) (\<lambda>l.
           Inr (s\<lparr>src_data := ln_data l, src_byte_en := ln_byte_en l, src_parity := ln_parity l, src_active := True,
                  src_first := False,
                  src_out := \<lparr>tdata = ln_d l, tkeep = ln_k l,
                    tuser = (if ln_data l = [] then ln_u l OR tail_user I wide (ln_last l) else ln_u l),
                    tvalid = \<not> pause, tlast = (ln_data l = [])\<rparr>\<rparr>)))"

definition src_reset :: "us_source \<Rightarrow> us_source" where
  "src_reset s = s\<lparr>src_data := [], src_byte_en := [], src_parity := [], src_active := False, src_first := True,
     src_out := idle_beat\<rparr>"

definition src_handshake :: "bool \<Rightarrow> bool \<Rightarrow> us_source \<Rightarrow> us_source" where
  "src_handshake tready pause s =
     (let v = tvalid (src_out s); s = s\<lparr>src_out := (src_out s)\<lparr>tvalid := src_active s \<and> (v \<or> \<not> pause)\<rparr>\<rparr>
      in if tready \<and> v then s\<lparr>src_active := False, src_out := (src_out s)\<lparr>tvalid := False\<rparr>\<rparr> else s)"

definition src_load :: "us_source \<Rightarrow> us_source" where
  "src_load s =
     (case src_queue s of
        f # q \<Rightarrow> if src_data s = [] then s\<lparr>src_queue := q, src_frame := f, src_data := fr_data f, src_byte_en := fr_byte_en f,
                   src_parity := fr_parity f, src_first := True\<rparr> else s
      | [] \<Rightarrow> s)"

definition src_fill :: "us_iface \<Rightarrow> nat \<Rightarrow> nat \<Rightarrow> nat \<Rightarrow> bool \<Rightarrow> us_source \<Rightarrow> us_source res" where
  "src_fill I tw kw uw pause s =
     (let s = src_load s in if src_data s \<noteq> [] \<and> \<not> src_active s then src_beat I tw kw uw pause s else Inr s)"

text \<open>A clock edge; \<open>tready\<close> is the value of the signal before the edge.\<close>

definition src_step :: "us_iface \<Rightarrow> nat \<Rightarrow> nat \<Rightarrow> nat \<Rightarrow> bool \<Rightarrow> bool \<Rightarrow> bool \<Rightarrow> us_source \<Rightarrow> us_source res" where
  "src_step I tw kw uw rst tready pause s =
     (if rst then Inr (src_reset s)
      else src_fill I tw kw uw pause (src_handshake tready pause s))"

section \<open>Sinks\<close>

record us_sink =
  snk_queue :: "us_frame list"
  snk_frame :: us_frame
  snk_first :: bool
  tready_int :: bool

definition UsSink :: us_sink where
  "UsSink = \<lparr>snk_queue = [], snk_frame = USPcieFrame, snk_first = True, tready_int = False\<rparr>"

definition snk_recv :: "us_sink \<Rightarrow> us_frame option \<times> us_sink" where
  "snk_recv s = (case snk_queue s of f # q \<Rightarrow> (Some f, s\<lparr>snk_queue := q\<rparr>) | [] \<Rightarrow> (None, s))"

text \<open>The two loops over \<open>tkeep\<close>, which the code enters with a positive number.\<close>

function strip_zeros :: "int \<Rightarrow> int" where
  "strip_zeros b = (if 0 < b \<and> b AND 1 = 0 then strip_zeros (drop_bit 1 b) else b)"
  by auto
termination by (relation "measure nat") (auto simp: drop_bit_eq_div)

function strip_ones :: "int \<Rightarrow> int" where
  "strip_ones b = (if 0 < b \<and> b AND 1 = 1 then strip_ones (drop_bit 1 b) else b)"
  by auto
termination by (relation "measure nat") (auto simp: drop_bit_eq_div)

definition check_keep :: "nat \<Rightarrow> bool \<Rightarrow> bool \<Rightarrow> int \<Rightarrow> unit res" where
  "check_keep kw first final k =
     bindE (assertE (k \<noteq> 0)) (\<lambda>_.
     bindE (assertE (strip_ones (strip_zeros k) = 0)) (\<lambda>_.
     bindE (assertE (first \<or> k AND 1 \<noteq> 0)) (\<lambda>_.
     assertE (final \<or> k AND push_bit (kw - 1) 1 \<noteq> 0))))"

definition take_lane :: "nat option \<Rightarrow> nat \<Rightarrow> us_beat \<Rightarrow> nat \<Rightarrow> us_frame \<Rightarrow> us_frame" where
  "take_lane be p t i f =
     (if tkeep t AND push_bit i 1 \<noteq> 0
      then f\<lparr>fr_data := fr_data f @ [drop_bit (i * 32) (tdata t) AND 0xffffffff],
             fr_byte_en := fr_byte_en f @ (case be of None \<Rightarrow> [] | Some b \<Rightarrow> [drop_bit (i * 4 + b) (tuser t) AND 0xf]),
             fr_parity := fr_parity f @ [drop_bit (i * 4 + p) (tuser t) AND 0xf]\<rparr>
      else f)"

definition snk_beat :: "us_iface \<Rightarrow> nat \<Rightarrow> nat \<Rightarrow> nat \<Rightarrow> us_beat \<Rightarrow> us_sink \<Rightarrow> us_sink res" where
  "snk_beat I tw kw uw t s =
     (let wide = (tw = 512)
      in bindE (check_keep kw (snk_first s) (tlast t) (tkeep t)) (\<lambda>_.
           let f = fold (take_lane (be_base I wide) (par_base I wide) t) [0..<kw]
                     (get_user I wide uw (snk_first s) (tuser t) (snk_frame s))
           in Inr (if tlast t then s\<lparr>snk_queue := snk_queue s @ [f], snk_frame := USPcieFrame, snk_first := True\<rparr>
                   else s\<lparr>snk_frame := f, snk_first := False\<rparr>)))"

definition snk_step :: "us_iface \<Rightarrow> nat \<Rightarrow> nat \<Rightarrow> nat \<Rightarrow> bool \<Rightarrow> bool \<Rightarrow> us_beat \<Rightarrow> us_sink \<Rightarrow> us_sink res" where
  "snk_step I tw kw uw rst pause t s =
     (if rst then Inr (s\<lparr>tready_int := False, snk_frame := USPcieFrame, snk_first := True\<rparr>)
      else let s = s\<lparr>tready_int := True\<rparr>
           in if tvalid t \<and> \<not> pause then snk_beat I tw kw uw t s else Inr s)"

text \<open>The clock edges of the eight classes.\<close>

definition CQSource_step where "CQSource_step = src_step cq_if"
definition CQSink_step where "CQSink_step = snk_step cq_if"
definition CCSource_step where "CCSource_step = src_step cc_if"
definition CCSink_step where "CCSink_step = snk_step cc_if"
definition RQSource_step where "RQSource_step = src_step rq_if"
definition RQSink_step where "RQSink_step = snk_step rq_if"
definition RCSource_step where "RCSource_step = src_step rc_if"
definition RCSink_step where "RCSink_step = snk_step rc_if"

section \<open>A source connected to a sink\<close>

text \<open>One clock edge of both: each reads the signals as they were before the edge.\<close>

definition link_step :: "us_iface \<Rightarrow> nat \<Rightarrow> nat \<Rightarrow> nat \<Rightarrow> bool \<Rightarrow> bool \<Rightarrow> us_source \<times> us_sink \<Rightarrow> (us_source \<times> us_sink) res" where
  "link_step I tw kw uw src_pause snk_pause = (\<lambda>(s, k).
     bindE (src_step I tw kw uw False (tready_int k \<and> \<not> snk_pause) src_pause s) (\<lambda>s'.
     bindE (snk_step I tw kw uw False snk_pause (src_out s) k) (\<lambda>k'. Inr (s', k'))))"


section \<open>Lanes of a beat\<close>

text \<open>Words of \<open>w\<close> bits side by side, from lane \<open>i\<close> on.\<close>

fun or_lanes :: "nat \<Rightarrow> nat \<Rightarrow> int list \<Rightarrow> int" where
  "or_lanes w i [] = 0"
| "or_lanes w i (x # xs) = push_bit (i * w) x OR or_lanes w (Suc i) xs"

lemma or_lanes_append: "or_lanes w i (xs @ ys) = or_lanes w i xs OR or_lanes w (i + length xs) ys"
  by (induction xs arbitrary: i) (simp_all add: or.assoc)

lemma or_lanes_range: "bit (or_lanes w i xs) n \<Longrightarrow> \<forall>x\<in>set xs. 0 \<le> x \<and> x < 2 ^ w \<Longrightarrow> i * w \<le> n \<and> n < (i + length xs) * w"
proof (induction xs arbitrary: i)
  case (Cons x xs)
  then consider "i * w \<le> n" "bit x (n - i * w)" | "bit (or_lanes w (Suc i) xs) n"
    by (auto simp: bit_or_iff bit_push_bit_iff)
  then show ?case
  proof cases
    case 1
    then have "n - i * w < w" using bit_high_zero [of x w "n - i * w"] Cons.prems by (cases "n - i * w < w") auto
    then show ?thesis using 1 by (simp add: algebra_simps)
  next
    case 2
    then show ?thesis using Cons.IH [of "Suc i"] Cons.prems by (simp add: algebra_simps)
  qed
qed simp

lemma or_lanes_read:
  assumes "j < length xs" "\<forall>x\<in>set xs. 0 \<le> x \<and> x < 2 ^ w" "m < w"
  shows "bit (or_lanes w 0 xs) (j * w + m) = bit (xs ! j) m"
proof -
  have xs: "xs = take j xs @ xs ! j # drop (Suc j) xs" using assms(1) by (simp add: id_take_nth_drop)
  have "\<not> bit (or_lanes w 0 (take j xs)) (j * w + m)"
    using or_lanes_range [of w 0 "take j xs" "j * w + m"] assms by (auto dest: in_set_takeD)
  moreover have "\<not> bit (or_lanes w (Suc j) (drop (Suc j) xs)) (j * w + m)"
    using or_lanes_range [of w "Suc j" "drop (Suc j) xs" "j * w + m"] assms by (auto dest: in_set_dropD)
  ultimately show ?thesis
    using assms(1) by (subst xs, simp add: or_lanes_append bit_or_iff bit_push_bit_iff min_def del: append_take_drop_id)
qed

text \<open>What a round of the lane loop computes.\<close>

definition lane_bits :: "nat option \<Rightarrow> nat \<Rightarrow> nat \<Rightarrow> nat \<Rightarrow> lanes \<Rightarrow> int" where
  "lane_bits be p i m l =
     (case be of None \<Rightarrow> 0 | Some b \<Rightarrow> push_bit b (or_lanes 4 i (take m (ln_byte_en l)))) OR
     push_bit p (or_lanes 4 i (take m (ln_parity l) @ replicate (m - length (ln_parity l)) 15))"

lemma fill_lanes:
  assumes "length (ln_parity l) = length (ln_data l)" "be \<noteq> None \<Longrightarrow> length (ln_byte_en l) = length (ln_data l)"
  shows "foldE (fill_lane be p) [i..<i + m] l = Inr (l\<lparr>ln_data := drop m (ln_data l),
    ln_byte_en := (if be = None then ln_byte_en l else drop m (ln_byte_en l)), ln_parity := drop m (ln_parity l),
    ln_d := ln_d l OR or_lanes 32 i (take m (ln_data l)),
    ln_k := ln_k l OR or_lanes 1 i (replicate (min m (length (ln_data l))) 1),
    ln_u := ln_u l OR lane_bits be p i m l,
    ln_last := (if min m (length (ln_data l)) = 0 then ln_last l else i + min m (length (ln_data l)) - 1)\<rparr>)"
  using assms
proof (induction m arbitrary: i l)
  case 0
  then show ?case by (simp add: lane_bits_def split: option.split)
next
  case (Suc m)
  have up: "[i..<i + Suc m] = i # [Suc i..<Suc i + m]" by (simp add: upt_rec)
  show ?case
  proof (cases "ln_data l")
    case Nil
    then have z: "ln_parity l = []" "be \<noteq> None \<Longrightarrow> ln_byte_en l = []" using Suc.prems by simp_all
    let ?l = "l\<lparr>ln_u := ln_u l OR push_bit (i * 4 + p) 15\<rparr>"
    have u: "ln_u ?l OR lane_bits be p (Suc i) m ?l = ln_u l OR lane_bits be p i (Suc m) l"
      using z by (cases be) (simp_all add: lane_bits_def or.assoc add.commute del: push_bit_numeral)
    have "foldE (fill_lane be p) [i..<i + Suc m] l = foldE (fill_lane be p) [Suc i..<Suc i + m] ?l"
      unfolding up using Nil by (simp add: fill_lane_def)
    also have "\<dots> = Inr (?l\<lparr>ln_u := ln_u ?l OR lane_bits be p (Suc i) m ?l\<rparr>)"
      using Suc.IH [of ?l "Suc i"] Nil z by simp
    finally show ?thesis unfolding u using Nil z by simp
  next
    case (Cons x xs)
    then obtain q qs where q: "ln_parity l = q # qs" "length qs = length xs"
      using Suc.prems by (cases "ln_parity l") auto
    obtain e es where e: "be \<noteq> None \<Longrightarrow> ln_byte_en l = e # es \<and> length es = length xs"
      using Suc.prems Cons by (cases "ln_byte_en l") auto
    let ?b = "case be of None \<Rightarrow> 0 | Some b \<Rightarrow> push_bit (i * 4 + b) e"
    define l1 where "l1 = l\<lparr>ln_data := xs, ln_byte_en := (if be = None then ln_byte_en l else es), ln_parity := qs,
      ln_d := ln_d l OR push_bit (i * 32) x, ln_k := ln_k l OR push_bit i 1,
      ln_u := (ln_u l OR ?b) OR push_bit (i * 4 + p) q, ln_last := i\<rparr>"
    have one: "fill_lane be p i l = Inr l1"
      using Cons q e by (cases be) (simp_all add: fill_lane_def pop_byte_en_def pop_parity_def l1_def)
    have sel: "ln_data l1 = xs" "ln_byte_en l1 = (if be = None then ln_byte_en l else es)" "ln_parity l1 = qs" "ln_last l1 = i"
      by (simp_all add: l1_def)
    have u: "ln_u l1 OR lane_bits be p (Suc i) m l1 = ln_u l OR lane_bits be p i (Suc m) l"
      using e q by (cases be) (simp_all add: lane_bits_def l1_def or.assoc or.left_commute add.commute del: push_bit_numeral)
    have "foldE (fill_lane be p) [i..<i + Suc m] l = foldE (fill_lane be p) [Suc i..<Suc i + m] l1"
      unfolding up by (simp add: one)
    also have "\<dots> = Inr (l1\<lparr>ln_data := drop m xs, ln_byte_en := (if be = None then ln_byte_en l else drop m es),
        ln_parity := drop m qs, ln_d := ln_d l1 OR or_lanes 32 (Suc i) (take m xs),
        ln_k := ln_k l1 OR or_lanes 1 (Suc i) (replicate (min m (length xs)) 1),
        ln_u := ln_u l1 OR lane_bits be p (Suc i) m l1,
        ln_last := (if min m (length xs) = 0 then i else Suc i + min m (length xs) - 1)\<rparr>)"
      using Suc.IH [of l1 "Suc i"] q e by (cases be) (simp_all add: sel del: push_bit_of_1 One_nat_def)
    finally show ?thesis
      unfolding u using Cons q e by (simp add: l1_def or.assoc)
  qed
qed


section \<open>Sending and receiving a beat\<close>

definition in_lanes :: "us_iface \<Rightarrow> bool \<Rightarrow> nat \<Rightarrow> nat \<Rightarrow> bool" where
  "in_lanes I wide kw n \<longleftrightarrow>
     (case be_base I wide of None \<Rightarrow> False | Some b \<Rightarrow> b \<le> n \<and> n < b + 4 * kw) \<or>
     par_base I wide \<le> n \<and> n < par_base I wide + 4 * kw"

text \<open>The words of a frame fit their lanes, each with its byte enables and its parity.\<close>

definition frame_fits :: "us_iface \<Rightarrow> bool \<Rightarrow> us_frame \<Rightarrow> bool" where
  "frame_fits I wide f \<longleftrightarrow> fr_data f \<noteq> [] \<and> (\<forall>x\<in>set (fr_data f). 0 \<le> x \<and> x < 2 ^ 32) \<and>
     length (fr_parity f) = length (fr_data f) \<and> (\<forall>x\<in>set (fr_parity f). 0 \<le> x \<and> x < 2 ^ 4) \<and>
     (be_base I wide \<noteq> None \<longrightarrow> length (fr_byte_en f) = length (fr_data f) \<and> (\<forall>x\<in>set (fr_byte_en f). 0 \<le> x \<and> x < 2 ^ 4))"

lemma or_lanes_ones: "bit (or_lanes 1 0 (replicate m 1)) n \<longleftrightarrow> n < m"
proof (cases "n < m")
  case True
  then show ?thesis using or_lanes_read [of n "replicate m 1" 1 0] by simp
next
  case False
  then show ?thesis using or_lanes_range [of 1 0 "replicate m 1" n] by auto
qed

lemma bit_ones: "bit (2 ^ m - 1 :: int) n \<longleftrightarrow> n < m"
  by (simp add: mask_eq_exp_minus_1 [symmetric] bit_mask_iff)

lemma or_lanes_mask: "or_lanes 1 0 (replicate m 1) = 2 ^ m - 1"
  by (rule bit_eqI) (simp only: or_lanes_ones bit_ones)

lemma strip_ones_mask: "strip_ones (2 ^ m - 1) = 0"
proof (induction m)
  case (Suc m)
  have "drop_bit 1 (2 ^ Suc m - 1 :: int) = 2 ^ m - 1"
    by (rule bit_eqI) (simp only: bit_ones bit_drop_bit_eq comp_def, linarith)
  moreover have "(2 ^ Suc m - 1 :: int) AND 1 = 1" by (simp add: and_one_eq odd_iff_mod_2_eq_one [symmetric])
  moreover have "0 < (2 ^ Suc m - 1 :: int)" using one_le_power [of "2::int" m] unfolding power_Suc by linarith
  ultimately show ?case using Suc by (subst strip_ones.simps) (simp only: simp_thms if_True)
qed simp

lemma check_keep_mask:
  assumes "0 < m" "m \<le> kw" "final \<or> m = kw"
  shows "check_keep kw first final (2 ^ m - 1) = Inr ()"
proof -
  have o: "(2 ^ m - 1 :: int) AND 1 \<noteq> 0"
    using and_1_bit [of 0 "2 ^ m - 1"] assms(1) bit_ones [of m 0] by (simp only: drop_bit_0 id_apply)
  have z: "strip_zeros (2 ^ m - 1) = 2 ^ m - 1" by (subst strip_zeros.simps) (use o in \<open>simp only: simp_thms if_False\<close>)
  have n: "(2 ^ m - 1 :: int) \<noteq> 0" using o by (metis and_zero_eq and.commute)
  have h: "final \<or> (2 ^ m - 1 :: int) AND push_bit (kw - 1) 1 \<noteq> 0"
    using assms unfolding and_push_bit_1 bit_ones by auto
  show ?thesis
    unfolding check_keep_def assertE_def z strip_ones_mask using n o h by (simp only: if_True bindE_Inr simp_thms)
qed

lemma field_eqI:
  assumes "\<And>k. k < w \<Longrightarrow> bit (x::int) (a + k) = bit y (c + k)"
  shows "drop_bit a x AND (2 ^ w - 1) = drop_bit c y AND (2 ^ w - 1)"
  by (rule bit_eqI) (use assms in \<open>auto simp only: bit_and_iff bit_drop_bit_eq comp_def bit_ones\<close>)

lemma lane_read:
  assumes "i < length xs" "\<forall>x\<in>set xs. 0 \<le> x \<and> x < 2 ^ w" "\<And>k. k < w \<Longrightarrow> bit u (a + k) = bit (or_lanes w 0 xs) (i * w + k)"
  shows "drop_bit a u AND (2 ^ w - 1) = xs ! i"
proof (rule bit_eqI)
  fix n
  have "bit (xs ! i) n \<Longrightarrow> n < w" using bit_high_zero [of "xs ! i" w n] assms(1,2) nth_mem by (cases "n < w") auto
  then show "bit (drop_bit a u AND (2 ^ w - 1)) n = bit (xs ! i) n"
    using or_lanes_read [OF assms(1,2), of n] assms(3) [of n]
    by (auto simp only: bit_and_iff bit_drop_bit_eq comp_def bit_ones)
qed

text \<open>A beat carries words \<open>D\<close> with byte enables \<open>B\<close> and parity \<open>P\<close>.\<close>

definition carries :: "nat option \<Rightarrow> nat \<Rightarrow> us_beat \<Rightarrow> int list \<Rightarrow> int list \<Rightarrow> int list \<Rightarrow> bool" where
  "carries be p t D B P \<longleftrightarrow> tkeep t = 2 ^ length D - 1 \<and> length P = length D \<and>
     length B = (if be = None then 0 else length D) \<and>
     (\<forall>i<length D. drop_bit (i * 32) (tdata t) AND 0xffffffff = D ! i \<and> drop_bit (i * 4 + p) (tuser t) AND 0xf = P ! i \<and>
        (\<forall>b. be = Some b \<longrightarrow> drop_bit (i * 4 + b) (tuser t) AND 0xf = B ! i))"

lemma take_lanes:
  assumes "carries be p t D B P"
  shows "fold (take_lane be p t) [0..<n] f = f\<lparr>fr_data := fr_data f @ take n D, fr_byte_en := fr_byte_en f @ take n B,
    fr_parity := fr_parity f @ take n P\<rparr>"
proof (induction n)
  case (Suc n)
  have k: "tkeep t AND push_bit n 1 \<noteq> 0 \<longleftrightarrow> n < length D"
    using assms by (simp only: carries_def and_push_bit_1 bit_ones)
  show ?case
  proof (cases "n < length D")
    case True
    then have v: "drop_bit (n * 32) (tdata t) AND 0xffffffff = D ! n" "drop_bit (n * 4 + p) (tuser t) AND 0xf = P ! n"
      "\<And>b. be = Some b \<Longrightarrow> drop_bit (n * 4 + b) (tuser t) AND 0xf = B ! n" "n < length P" "be = None \<Longrightarrow> B = []"
      "be \<noteq> None \<Longrightarrow> n < length B"
      using assms unfolding carries_def by (auto split: if_splits)
    have "take_lane be p t n g = g\<lparr>fr_data := fr_data g @ [D ! n],
        fr_byte_en := fr_byte_en g @ (if be = None then [] else [B ! n]), fr_parity := fr_parity g @ [P ! n]\<rparr>" for g
      unfolding take_lane_def k v(1,2) using True v(3) by (cases be) (simp_all del: and_low_masks)
    then show ?thesis using Suc v True by (simp add: take_Suc_conv_app_nth)
  next
    case False
    then show ?thesis using k Suc assms by (simp add: take_lane_def carries_def split: if_splits)
  qed
qed simp


lemma lane_pad: "\<forall>x\<in>set ps. 0 \<le> x \<and> x < 2 ^ 4 \<Longrightarrow> \<forall>x\<in>set (take m ps @ replicate j 15). 0 \<le> x \<and> x < (2 ^ 4 :: int)"
  by (auto dest: in_set_takeD)

lemma lane_bits_in:
  assumes "bit (lane_bits be p 0 m l) n" "\<forall>x\<in>set (ln_parity l). 0 \<le> x \<and> x < 2 ^ 4"
    "be \<noteq> None \<Longrightarrow> \<forall>x\<in>set (ln_byte_en l). 0 \<le> x \<and> x < 2 ^ 4"
  shows "(\<exists>b. be = Some b \<and> b \<le> n \<and> n < b + 4 * m) \<or> p \<le> n \<and> n < p + 4 * m"
proof -
  consider b where "be = Some b" "b \<le> n" "bit (or_lanes 4 0 (take m (ln_byte_en l))) (n - b)"
    | "p \<le> n" "bit (or_lanes 4 0 (take m (ln_parity l) @ replicate (m - length (ln_parity l)) 15)) (n - p)"
    using assms(1) by (auto simp: lane_bits_def bit_or_iff bit_push_bit_iff_int split: option.splits)
  then show ?thesis
  proof cases
    case (1 b)
    then have "n - b < length (take m (ln_byte_en l)) * 4"
      using or_lanes_range [OF 1(3)] assms(3) by (auto dest: in_set_takeD)
    then show ?thesis using 1 by auto
  next
    case 2
    have "n - p < length (take m (ln_parity l) @ replicate (m - length (ln_parity l)) 15) * 4"
      using or_lanes_range [OF 2(2) lane_pad [OF assms(2)]] by simp
    then show ?thesis using 2 by auto
  qed
qed

lemma lane_bits_read:
  assumes "i < m" "i < length (ln_parity l)" "k < 4" "\<forall>x\<in>set (ln_parity l). 0 \<le> x \<and> x < 2 ^ 4"
    "\<And>b. be = Some b \<Longrightarrow> b + 4 * m \<le> p \<and> i < length (ln_byte_en l) \<and> (\<forall>x\<in>set (ln_byte_en l). 0 \<le> x \<and> x < 2 ^ 4)"
  shows "bit (lane_bits be p 0 m l) (i * 4 + p + k) = bit (ln_parity l ! i) k"
    "be = Some b \<Longrightarrow> bit (lane_bits be p 0 m l) (i * 4 + b + k) = bit (ln_byte_en l ! i) k"
proof -
  let ?ps = "take m (ln_parity l) @ replicate (m - length (ln_parity l)) 15"
  have ps: "bit (or_lanes 4 0 ?ps) (i * 4 + k) = bit (ln_parity l ! i) k"
    using or_lanes_read [OF _ lane_pad [OF assms(4)] assms(3), of i m "m - length (ln_parity l)"] assms(1,2)
    by (simp add: nth_append)
  have "\<not> bit (or_lanes 4 0 (take m (ln_byte_en l))) (i * 4 + p + k - b)" if "be = Some b" for b
  proof
    assume c: "bit (or_lanes 4 0 (take m (ln_byte_en l))) (i * 4 + p + k - b)"
    have "\<forall>x\<in>set (take m (ln_byte_en l)). 0 \<le> x \<and> x < 2 ^ 4" using assms(5) [OF that] by (auto dest: in_set_takeD)
    then have "i * 4 + p + k - b < length (take m (ln_byte_en l)) * 4" using or_lanes_range [OF c] by simp
    then show False using assms(5) [OF that] by (simp add: min_def split: if_splits)
  qed
  then show "bit (lane_bits be p 0 m l) (i * 4 + p + k) = bit (ln_parity l ! i) k"
    using ps by (auto simp: lane_bits_def bit_or_iff bit_push_bit_iff_int add.assoc add.left_commute [of _ p] split: option.split)
  assume b: "be = Some b"
  have "bit (or_lanes 4 0 (take m (ln_byte_en l))) (i * 4 + k) = bit (ln_byte_en l ! i) k"
    using or_lanes_read [of i "take m (ln_byte_en l)" 4 k] assms(1,3) assms(5) [OF b] by (auto dest: in_set_takeD)
  then show "bit (lane_bits be p 0 m l) (i * 4 + b + k) = bit (ln_byte_en l ! i) k"
    using assms(1,3) assms(5) [OF b] b
    by (auto simp: lane_bits_def bit_or_iff bit_push_bit_iff_int add.assoc add.left_commute [of _ b])
qed

section \<open>Streams\<close>

lemma widths_cases:
  assumes "widths_ok I tw kw uw"
  obtains "tw = 512" "kw = 16" "uw = wide_width I" | "tw \<noteq> 512" "0 < kw" "kw \<le> 8" "uw \<in> set (narrow_widths I)"
  using assms by (fastforce simp: widths_ok_def split: if_splits)

definition user_of :: "us_iface \<Rightarrow> nat \<Rightarrow> nat \<Rightarrow> nat \<Rightarrow> us_frame \<Rightarrow> bool \<Rightarrow> nat option \<Rightarrow> int \<Rightarrow> bool" where
  "user_of I tw kw uw f first l u \<longleftrightarrow> (\<forall>n. \<not> in_lanes I (tw = 512) kw n \<longrightarrow>
     bit u n = (bit (lane_user I (tw = 512) uw f first) n \<or> (\<exists>i<kw. l = Some i \<and> bit (tail_user I (tw = 512) i) n)))"

text \<open>
  What is left of a frame \<open>F\<close> from its word \<open>n\<close> on: in the source (\<open>src_at\<close>), in the beat that the source
  holds on the signals (\<open>in_flight\<close>), and what the sink has of it (\<open>snk_at\<close>).
\<close>

definition payload_be :: "us_iface \<Rightarrow> nat \<Rightarrow> us_frame \<Rightarrow> int list" where
  "payload_be I tw F = (if be_base I (tw = 512) = None then [] else fr_byte_en F)"

definition received :: "us_iface \<Rightarrow> (nat \<Rightarrow> nat \<Rightarrow> us_frame \<Rightarrow> us_frame) \<Rightarrow> nat \<Rightarrow> nat \<Rightarrow> us_frame \<Rightarrow> us_frame" where
  "received I hdr tw uw F = (hdr tw uw F)\<lparr>fr_data := fr_data F, fr_byte_en := payload_be I tw F, fr_parity := fr_parity F\<rparr>"

definition src_at :: "us_iface \<Rightarrow> nat \<Rightarrow> us_frame \<Rightarrow> nat \<Rightarrow> us_source \<Rightarrow> bool" where
  "src_at I tw F n s \<longleftrightarrow> src_frame s = F \<and> src_first s = (n = 0) \<and> src_data s = drop n (fr_data F) \<and> n < length (fr_data F) \<and>
     src_parity s = drop n (fr_parity F) \<and> (be_base I (tw = 512) \<noteq> None \<longrightarrow> src_byte_en s = drop n (fr_byte_en F))"

definition in_flight :: "us_iface \<Rightarrow> nat \<Rightarrow> nat \<Rightarrow> nat \<Rightarrow> us_frame \<Rightarrow> nat \<Rightarrow> us_beat \<Rightarrow> bool" where
  "in_flight I tw kw uw F n t \<longleftrightarrow> frame_fits I (tw = 512) F \<and> n < length (fr_data F) \<and>
     carries (be_base I (tw = 512)) (par_base I (tw = 512)) t (take kw (drop n (fr_data F)))
       (take kw (drop n (payload_be I tw F))) (take kw (drop n (fr_parity F))) \<and>
     tlast t = (length (fr_data F) \<le> n + kw) \<and> (\<exists>l. user_of I tw kw uw F (n = 0) l (tuser t))"

definition snk_at :: "us_iface \<Rightarrow> (nat \<Rightarrow> nat \<Rightarrow> us_frame \<Rightarrow> us_frame) \<Rightarrow> nat \<Rightarrow> nat \<Rightarrow> us_frame \<Rightarrow> nat \<Rightarrow> us_sink \<Rightarrow> bool" where
  "snk_at I hdr tw uw F n k \<longleftrightarrow> snk_first k = (n = 0) \<and>
     snk_frame k = (if n = 0 then USPcieFrame
                    else (hdr tw uw F)\<lparr>fr_data := take n (fr_data F), fr_byte_en := take n (payload_be I tw F),
                           fr_parity := take n (fr_parity F)\<rparr>)"

definition snk_clean :: "us_sink \<Rightarrow> bool" where
  "snk_clean k \<longleftrightarrow> snk_first k \<and> snk_frame k = USPcieFrame"

text \<open>
  The state of a connected source and sink: \<open>fl\<close> is the frame that crosses the link with the number of its words that
  the sink has, \<open>pend\<close> the frames that follow it.
\<close>

definition flow :: "us_iface \<Rightarrow> (nat \<Rightarrow> nat \<Rightarrow> us_frame \<Rightarrow> us_frame) \<Rightarrow> nat \<Rightarrow> nat \<Rightarrow> nat \<Rightarrow>
    (us_frame \<times> nat) option \<Rightarrow> us_frame list \<Rightarrow> us_source \<times> us_sink \<Rightarrow> bool" where
  "flow I hdr tw kw uw fl pend st \<longleftrightarrow> (case st of (s, k) \<Rightarrow>
     (\<forall>f\<in>set pend. frame_fits I (tw = 512) f) \<and> (tvalid (src_out s) \<longrightarrow> fl \<noteq> None \<and> tready_int k) \<and>
     (case fl of
        None \<Rightarrow> \<not> src_active s \<and> src_data s = [] \<and> pend = src_queue s \<and> snk_clean k
      | Some (F, n) \<Rightarrow> src_active s \<and> in_flight I tw kw uw F n (src_out s) \<and> snk_at I hdr tw uw F n k \<and>
          (if n + kw < length (fr_data F) then src_at I tw F (n + kw) s \<and> pend = src_queue s
           else src_data s = [] \<and> pend = src_queue s \<or> src_at I tw (src_frame s) 0 s \<and> pend = src_frame s # src_queue s)))"

definition crossing :: "us_iface \<Rightarrow> (nat \<Rightarrow> nat \<Rightarrow> us_frame \<Rightarrow> us_frame) \<Rightarrow> nat \<Rightarrow> nat \<Rightarrow> (us_frame \<times> nat) option \<Rightarrow> us_frame list \<Rightarrow> us_frame list" where
  "crossing I hdr tw uw fl pend = map (received I hdr tw uw) ((case fl of None \<Rightarrow> [] | Some (F, n) \<Rightarrow> [F]) @ pend)"

definition words_left :: "(us_frame \<times> nat) option \<Rightarrow> us_frame list \<Rightarrow> us_source \<times> us_sink \<Rightarrow> nat" where
  "words_left fl pend st =
     2 * ((case fl of None \<Rightarrow> 0 | Some (F, n) \<Rightarrow> length (fr_data F) - n) + sum_list (map (length \<circ> fr_data) pend)) +
     (if tvalid (src_out (fst st)) then 0 else 1)"

text \<open>\<open>link_goal\<close> is what one clock edge does to a flow.\<close>

definition link_goal :: "us_iface \<Rightarrow> (nat \<Rightarrow> nat \<Rightarrow> us_frame \<Rightarrow> us_frame) \<Rightarrow> nat \<Rightarrow> nat \<Rightarrow> nat \<Rightarrow> bool \<Rightarrow> bool \<Rightarrow>
    (us_frame \<times> nat) option \<Rightarrow> us_frame list \<Rightarrow> us_source \<times> us_sink \<Rightarrow> bool" where
  "link_goal I hdr tw kw uw sp kp fl pend st \<longleftrightarrow> (\<exists>s' k' fl' pend'. link_step I tw kw uw sp kp st = Inr (s', k') \<and>
     flow I hdr tw kw uw fl' pend' (s', k') \<and>
     snk_queue k' @ crossing I hdr tw uw fl' pend' = snk_queue (snd st) @ crossing I hdr tw uw fl pend \<and>
     (\<not> sp \<and> \<not> kp \<and> (fl \<noteq> None \<or> pend \<noteq> []) \<longrightarrow> words_left fl' pend' (s', k') < words_left fl pend st))"

text \<open>
  The histories of a link: frames are sent and received and clock edges happen, with or without a pause at each end, in any order.
  \<open>sent\<close> and \<open>got\<close> are the frames sent and received so far.
\<close>

inductive us_run :: "us_iface \<Rightarrow> nat \<Rightarrow> nat \<Rightarrow> nat \<Rightarrow> us_frame list \<Rightarrow> us_frame list \<Rightarrow> us_source \<times> us_sink \<Rightarrow> bool"
  for I :: us_iface and tw kw uw :: nat where
  start: "us_run I tw kw uw [] [] (UsSource, UsSink)"
| send: "us_run I tw kw uw sent got (s, k) \<Longrightarrow> us_run I tw kw uw (sent @ [f]) got (src_send f s, k)"
| recv: "us_run I tw kw uw sent got (s, k) \<Longrightarrow> snk_recv k = (Some f, k') \<Longrightarrow> us_run I tw kw uw sent (got @ [f]) (s, k')"
| edge: "us_run I tw kw uw sent got st \<Longrightarrow> link_step I tw kw uw sp kp st = Inr st' \<Longrightarrow> us_run I tw kw uw sent got st'"

primrec link_edges :: "us_iface \<Rightarrow> nat \<Rightarrow> nat \<Rightarrow> nat \<Rightarrow> nat \<Rightarrow> us_source \<times> us_sink \<Rightarrow> (us_source \<times> us_sink) res" where
  "link_edges I tw kw uw 0 st = Inr st"
| "link_edges I tw kw uw (Suc m) st = bindE (link_step I tw kw uw False False st) (link_edges I tw kw uw m)"

text \<open>
  What the sender and the receiver of an interface rely on: the lanes overlap neither each other nor the rest of
  \<open>tuser\<close>, and the receiver finds in the rest what the sender put there. \<open>hdr\<close> is the frame without its words.
\<close>

locale us_stream =
  fixes I :: us_iface and hdr :: "nat \<Rightarrow> nat \<Rightarrow> us_frame \<Rightarrow> us_frame"
  assumes lanes_free: "widths_ok I tw kw uw \<Longrightarrow> in_lanes I (tw = 512) kw n \<Longrightarrow> i < kw \<Longrightarrow>
      \<not> bit (lane_user I (tw = 512) uw f first) n \<and> \<not> bit (tail_user I (tw = 512) i) n"
    and be_par: "widths_ok I tw kw uw \<Longrightarrow> be_base I (tw = 512) = Some b \<Longrightarrow> b + 4 * kw \<le> par_base I (tw = 512)"
    and hdr_empty: "fr_data (hdr tw uw f) = []" "fr_byte_en (hdr tw uw f) = []" "fr_parity (hdr tw uw f) = []"
    and get_first: "widths_ok I tw kw uw \<Longrightarrow> user_of I tw kw uw f True l u \<Longrightarrow>
      get_user I (tw = 512) uw True u USPcieFrame = hdr tw uw f"
    and get_later: "widths_ok I tw kw uw \<Longrightarrow> user_of I tw kw uw f False l u \<Longrightarrow>
      get_user I (tw = 512) uw False u ((hdr tw uw f)\<lparr>fr_data := D, fr_byte_en := B, fr_parity := P\<rparr>) =
        (hdr tw uw f)\<lparr>fr_data := D, fr_byte_en := B, fr_parity := P\<rparr>"
begin

lemma beat_in_flight:
  assumes W: "widths_ok I tw kw uw" and fit: "frame_fits I (tw = 512) F" and n: "n < length (fr_data F)"
    and l: "ln_data l = drop n (fr_data F)" "ln_parity l = drop n (fr_parity F)"
      "be_base I (tw = 512) \<noteq> None \<Longrightarrow> ln_byte_en l = drop n (payload_be I tw F)"
      "ln_u l = lane_user I (tw = 512) uw F (n = 0)"
    and m: "m = min kw (length (drop n (fr_data F)))"
    and t: "tdata t = or_lanes 32 0 (take kw (drop n (fr_data F)))" "tkeep t = 2 ^ m - 1"
      "tlast t = (length (fr_data F) \<le> n + kw)"
      "tuser t = ln_u l OR lane_bits (be_base I (tw = 512)) (par_base I (tw = 512)) 0 kw l OR
         (if length (fr_data F) \<le> n + kw then tail_user I (tw = 512) (m - 1) else 0)"
  shows "in_flight I tw kw uw F n t"
proof -
  let ?be = "be_base I (tw = 512)" and ?p = "par_base I (tw = 512)"
  let ?D = "take kw (drop n (fr_data F))" and ?B = "take kw (drop n (payload_be I tw F))" and ?P = "take kw (drop n (fr_parity F))"
  have kw: "0 < kw" using W by (cases rule: widths_cases) auto
  have m1: "m - 1 < kw" using kw n m by linarith
  have len: "length (fr_parity F) = length (fr_data F)" "?be \<noteq> None \<Longrightarrow> length (payload_be I tw F) = length (fr_data F)"
    using fit by (auto simp: frame_fits_def payload_be_def)
  have rng: "\<forall>x\<in>set (ln_parity l). 0 \<le> x \<and> x < 2 ^ 4" "?be \<noteq> None \<Longrightarrow> \<forall>x\<in>set (ln_byte_en l). 0 \<le> x \<and> x < 2 ^ 4"
    "\<forall>x\<in>set ?D. 0 \<le> x \<and> x < 2 ^ 32" "\<forall>x\<in>set ?P. 0 \<le> x \<and> x < 2 ^ 4" "?be \<noteq> None \<Longrightarrow> \<forall>x\<in>set ?B. 0 \<le> x \<and> x < 2 ^ 4"
    using fit l by (auto simp: frame_fits_def payload_be_def dest!: in_set_dropD in_set_takeD)
  have lanes: "bit (tuser t) j = bit (lane_bits ?be ?p 0 kw l) j" if "in_lanes I (tw = 512) kw j" for j
    using lanes_free [OF W that m1, of F "n = 0"] by (auto simp: t l bit_or_iff)
  have word: "drop_bit (i * 32) (tdata t) AND (2 ^ 32 - 1) = ?D ! i" if "i < length ?D" for i
    by (rule lane_read [OF that rng(3)]) (simp add: t)
  have read: "bit (lane_bits ?be ?p 0 kw l) (i * 4 + ?p + k) = bit (ln_parity l ! i) k"
    "?be = Some b \<Longrightarrow> bit (lane_bits ?be ?p 0 kw l) (i * 4 + b + k) = bit (ln_byte_en l ! i) k"
    if "i < length ?D" "k < 4" for i k b
    using lane_bits_read [of i kw l k ?be ?p] that be_par [OF W] rng(1,2) len l by auto
  have par: "drop_bit (i * 4 + ?p) (tuser t) AND (2 ^ 4 - 1) = ?P ! i" if "i < length ?D" for i
  proof (rule lane_read)
    fix k assume k: "k < (4::nat)"
    have "in_lanes I (tw = 512) kw (i * 4 + ?p + k)" using that k by (auto simp: in_lanes_def)
    then show "bit (tuser t) (i * 4 + ?p + k) = bit (or_lanes 4 0 ?P) (i * 4 + k)"
      using lanes read(1) [OF that k] or_lanes_read [OF _ rng(4) k, of i] that len l by simp
  qed (use that len rng(4) in auto)
  have be: "drop_bit (i * 4 + b) (tuser t) AND (2 ^ 4 - 1) = ?B ! i" if "i < length ?D" "?be = Some b" for i b
  proof (rule lane_read)
    fix k assume k: "k < (4::nat)"
    have "in_lanes I (tw = 512) kw (i * 4 + b + k)" using that k by (auto simp: in_lanes_def)
    then show "bit (tuser t) (i * 4 + b + k) = bit (or_lanes 4 0 ?B) (i * 4 + k)"
      using lanes read(2) [OF that(1) k that(2)] or_lanes_read [OF _ rng(5) k, of i] that len l by simp
  qed (use that len rng(5) in auto)
  have "carries ?be ?p t ?D ?B ?P"
    using word par be len n m by (auto simp: carries_def t payload_be_def)
  moreover have "user_of I tw kw uw F (n = 0) (if length (fr_data F) \<le> n + kw then Some (m - 1) else None) (tuser t)"
  proof -
    have "\<not> bit (lane_bits ?be ?p 0 kw l) j" if "\<not> in_lanes I (tw = 512) kw j" for j
      using lane_bits_in [where be = ?be and p = ?p and m = kw and n = j, OF _ rng(1,2)] that by (auto simp: in_lanes_def)
    then show ?thesis unfolding user_of_def using m1 by (auto simp: t l bit_or_iff)
  qed
  ultimately show ?thesis using fit n t by (auto simp: in_flight_def)
qed

lemma src_beat_at:
  assumes W: "widths_ok I tw kw uw" and at: "src_at I tw F n s" and fit: "frame_fits I (tw = 512) F"
  obtains s' where "src_beat I tw kw uw pause s = Inr s'" "src_active s'" "src_queue s' = src_queue s"
    "tvalid (src_out s') = (\<not> pause)" "in_flight I tw kw uw F n (src_out s')"
    "if n + kw < length (fr_data F) then src_at I tw F (n + kw) s' else src_data s' = []"
proof -
  let ?be = "be_base I (tw = 512)" and ?p = "par_base I (tw = 512)"
  let ?D = "fr_data F" and ?B = "payload_be I tw F" and ?P = "fr_parity F"
  let ?m = "min kw (length (drop n ?D))"
  define l where "l = \<lparr>ln_data = src_data s, ln_byte_en = src_byte_en s, ln_parity = src_parity s, ln_d = 0, ln_k = 0,
    ln_u = lane_user I (tw = 512) uw (src_frame s) (src_first s), ln_last = 0\<rparr>"
  have sel: "ln_data l = drop n ?D" "ln_parity l = drop n ?P" "?be \<noteq> None \<Longrightarrow> ln_byte_en l = drop n ?B" "ln_last l = 0"
    "ln_d l = 0" "ln_k l = 0" "ln_u l = lane_user I (tw = 512) uw F (n = 0)"
    using at by (auto simp: l_def src_at_def payload_be_def)
  have kw: "0 < kw" using W by (cases rule: widths_cases) auto
  have n: "n < length ?D" using at by (simp add: src_at_def)
  have rng: "length (ln_parity l) = length (ln_data l)" "\<forall>x\<in>set (ln_data l). 0 \<le> x \<and> x < 2 ^ 32" "\<forall>x\<in>set (ln_parity l). 0 \<le> x \<and> x < 2 ^ 4"
    "?be \<noteq> None \<Longrightarrow> length (ln_byte_en l) = length (ln_data l)"
    "?be \<noteq> None \<Longrightarrow> \<forall>x\<in>set (ln_byte_en l). 0 \<le> x \<and> x < 2 ^ 4"
    using fit sel by (auto simp: frame_fits_def payload_be_def dest!: in_set_dropD)
  define t where "t = \<lparr>tdata = or_lanes 32 0 (take kw (drop n ?D)), tkeep = 2 ^ ?m - 1,
    tuser = ln_u l OR lane_bits ?be ?p 0 kw l OR (if length ?D \<le> n + kw then tail_user I (tw = 512) (?m - 1) else 0),
    tvalid = \<not> pause, tlast = (length ?D \<le> n + kw)\<rparr>"
  define s' where "s' = s\<lparr>src_data := drop kw (ln_data l),
    src_byte_en := (if ?be = None then ln_byte_en l else drop kw (ln_byte_en l)), src_parity := drop kw (ln_parity l),
    src_active := True, src_first := False, src_out := t\<rparr>"
  have out: "src_active s'" "src_queue s' = src_queue s" "src_out s' = t" "tvalid t = (\<not> pause)"
    by (simp_all add: s'_def t_def)
  have "src_beat I tw kw uw pause s = Inr s'"
    using fill_lanes [OF rng(1) rng(4), where i = 0 and m = kw and p = ?p] n kw
    by (simp add: src_beat_def l_def [symmetric] Let_def sel s'_def t_def or_lanes_mask [unfolded One_nat_def] or.assoc)
  moreover have "in_flight I tw kw uw F n t"
    by (rule beat_in_flight [OF W fit n sel(1,2,3,7)]) (simp_all add: t_def)
  moreover have "if n + kw < length ?D then src_at I tw F (n + kw) s' else src_data s' = []"
    using at kw sel by (auto simp: s'_def src_at_def payload_be_def add.commute)
  ultimately show thesis using that [of s'] out by metis
qed

lemma snk_beat_at:
  assumes W: "widths_ok I tw kw uw" and fl: "in_flight I tw kw uw F n t" and at: "snk_at I hdr tw uw F n k"
  obtains k' where "snk_beat I tw kw uw t k = Inr k'" "tready_int k' = tready_int k"
    "if n + kw < length (fr_data F) then snk_queue k' = snk_queue k \<and> snk_at I hdr tw uw F (n + kw) k'
     else snk_queue k' = snk_queue k @ [received I hdr tw uw F] \<and> snk_clean k'"
proof -
  let ?be = "be_base I (tw = 512)" and ?p = "par_base I (tw = 512)"
  let ?D = "fr_data F" and ?B = "payload_be I tw F" and ?P = "fr_parity F"
  let ?part = "\<lambda>m. (hdr tw uw F)\<lparr>fr_data := take m ?D, fr_byte_en := take m ?B, fr_parity := take m ?P\<rparr>"
  have kw: "0 < kw" using W by (cases rule: widths_cases) auto
  obtain l where u: "user_of I tw kw uw F (n = 0) l (tuser t)" using fl by (auto simp: in_flight_def)
  have c: "carries ?be ?p t (take kw (drop n ?D)) (take kw (drop n ?B)) (take kw (drop n ?P))"
    and last: "tlast t = (length ?D \<le> n + kw)" and n: "n < length ?D" using fl by (simp_all add: in_flight_def)
  have keep: "check_keep kw (snk_first k) (tlast t) (tkeep t) = Inr ()"
    using c last n kw check_keep_mask [of "length (take kw (drop n ?D))" kw "tlast t" "snk_first k"]
    by (auto simp: carries_def)
  have "get_user I (tw = 512) uw (snk_first k) (tuser t) (snk_frame k) = ?part n"
    using get_first [OF W, of F l] get_later [OF W, of F l] u at by (cases "n = 0") (auto simp: snk_at_def hdr_empty)
  then have f: "fold (take_lane ?be ?p t) [0..<kw] (get_user I (tw = 512) uw (snk_first k) (tuser t) (snk_frame k)) = ?part (n + kw)"
    using take_lanes [OF c, of kw] by (simp add: take_add)
  show thesis
  proof (rule that)
    show "snk_beat I tw kw uw t k = Inr (if tlast t then k\<lparr>snk_queue := snk_queue k @ [?part (n + kw)], snk_frame := USPcieFrame, snk_first := True\<rparr>
            else k\<lparr>snk_frame := ?part (n + kw), snk_first := False\<rparr>)"
      unfolding snk_beat_def Let_def keep bindE_Inr f by simp
  qed (use last n fl kw in \<open>auto simp: snk_at_def snk_clean_def received_def in_flight_def frame_fits_def payload_be_def\<close>)
qed

lemma src_fill_data:
  assumes W: "widths_ok I tw kw uw" and at: "src_at I tw F n s" "frame_fits I (tw = 512) F" "\<not> src_active s"
  obtains s' where "src_fill I tw kw uw pause s = Inr s'" "src_active s'" "src_queue s' = src_queue s"
    "tvalid (src_out s') = (\<not> pause)" "in_flight I tw kw uw F n (src_out s')"
    "if n + kw < length (fr_data F) then src_at I tw F (n + kw) s' else src_data s' = []"
proof -
  have "src_data s \<noteq> []" using at by (simp add: src_at_def)
  then have "src_fill I tw kw uw pause s = src_beat I tw kw uw pause s"
    using at by (auto simp: src_fill_def src_load_def split: list.split)
  then show thesis using src_beat_at [OF W at(1,2), of pause] that by metis
qed

lemma src_fill_queue:
  assumes W: "widths_ok I tw kw uw" and s: "src_data s = []" "src_queue s = F # q" "frame_fits I (tw = 512) F" "\<not> src_active s"
  obtains s' where "src_fill I tw kw uw pause s = Inr s'" "src_active s'" "src_queue s' = q"
    "tvalid (src_out s') = (\<not> pause)" "in_flight I tw kw uw F 0 (src_out s')"
    "if kw < length (fr_data F) then src_at I tw F kw s' else src_data s' = []"
proof -
  have l: "src_at I tw F 0 (src_load s)" "src_queue (src_load s) = q" "\<not> src_active (src_load s)"
    using s by (auto simp: src_load_def src_at_def frame_fits_def)
  then have "src_load (src_load s) = src_load s" by (auto simp: src_load_def src_at_def split: list.split)
  then have "src_fill I tw kw uw pause s = src_fill I tw kw uw pause (src_load s)" by (simp add: src_fill_def)
  then show thesis using src_fill_data [OF W l(1) s(3) l(3), of pause] l(2) that by (metis add_0)
qed

lemma src_fill_idle: "src_data s = [] \<Longrightarrow> src_queue s = [] \<Longrightarrow> src_fill I tw kw uw pause s = Inr s"
  by (simp add: src_fill_def src_load_def)

lemma src_fill_active: "src_active s \<Longrightarrow> src_fill I tw kw uw pause s = Inr (src_load s)"
  by (auto simp: src_fill_def src_load_def split: list.split)

text \<open>The source and the sink agree on whether the beat on the signals is taken.\<close>

lemma link_step_taken:
  assumes "tvalid (src_out s)" "tready_int k" "\<not> kp"
  shows "link_step I tw kw uw sp kp (s, k) =
    bindE (src_fill I tw kw uw sp (s\<lparr>src_active := False, src_out := (src_out s)\<lparr>tvalid := False\<rparr>\<rparr>)) (\<lambda>s'.
    bindE (snk_beat I tw kw uw (src_out s) (k\<lparr>tready_int := True\<rparr>)) (\<lambda>k'. Inr (s', k')))"
  using assms by (simp add: link_step_def src_step_def snk_step_def src_handshake_def Let_def)

lemma link_step_held:
  assumes "\<not> (tvalid (src_out s) \<and> \<not> kp)"
  shows "link_step I tw kw uw sp kp (s, k) =
    bindE (src_fill I tw kw uw sp (s\<lparr>src_out := (src_out s)\<lparr>tvalid := src_active s \<and> (tvalid (src_out s) \<or> \<not> sp)\<rparr>\<rparr>)) (\<lambda>s'.
    Inr (s', k\<lparr>tready_int := True\<rparr>))"
  using assms by (auto simp: link_step_def src_step_def snk_step_def src_handshake_def Let_def)

lemma in_flight_tvalid [simp]: "in_flight I tw kw uw F n (t\<lparr>tvalid := b\<rparr>) = in_flight I tw kw uw F n t"
  by (simp add: in_flight_def carries_def)

lemma src_at_out [simp]: "src_at I tw F n (s\<lparr>src_out := t\<rparr>) = src_at I tw F n s"
  "src_at I tw F n (s\<lparr>src_active := b\<rparr>) = src_at I tw F n s"
  by (simp_all add: src_at_def)

lemma snk_ready [simp]: "snk_at I hdr tw uw F n (k\<lparr>tready_int := b\<rparr>) = snk_at I hdr tw uw F n k"
  "snk_clean (k\<lparr>tready_int := b\<rparr>) = snk_clean k"
  by (simp_all add: snk_at_def snk_clean_def)

lemma link_held:
  assumes W: "widths_ok I tw kw uw" and fl: "flow I hdr tw kw uw (Some (F, n)) pend (s, k)"
    and h: "\<not> (tvalid (src_out s) \<and> \<not> kp)"
  shows "\<exists>s' k'. link_step I tw kw uw sp kp (s, k) = Inr (s', k') \<and> flow I hdr tw kw uw (Some (F, n)) pend (s', k') \<and>
    snk_queue k' = snk_queue k \<and> tvalid (src_out s') = (tvalid (src_out s) \<or> \<not> sp)"
proof -
  let ?s = "s\<lparr>src_out := (src_out s)\<lparr>tvalid := tvalid (src_out s) \<or> \<not> sp\<rparr>\<rparr>"
  have a: "src_active s" using fl by (simp add: flow_def)
  have st: "link_step I tw kw uw sp kp (s, k) = Inr (src_load ?s, k\<lparr>tready_int := True\<rparr>)"
    using a by (simp add: link_step_held [OF h] src_fill_active)
  have "flow I hdr tw kw uw (Some (F, n)) pend (src_load ?s, k\<lparr>tready_int := True\<rparr>)"
    using fl by (auto simp: flow_def src_load_def src_at_def frame_fits_def split: if_splits list.split)
  moreover have "src_out (src_load ?s) = src_out ?s" by (auto simp: src_load_def split: list.split)
  ultimately show ?thesis using st by auto
qed

lemma link_goal_mid:
  assumes W: "widths_ok I tw kw uw" and fl: "flow I hdr tw kw uw (Some (F, n)) pend (s, k)"
    and v: "tvalid (src_out s)" "\<not> kp" and n: "n + kw < length (fr_data F)"
  shows "link_goal I hdr tw kw uw sp kp (Some (F, n)) pend (s, k)"
proof -
  let ?s = "s\<lparr>src_active := False, src_out := (src_out s)\<lparr>tvalid := False\<rparr>\<rparr>"
  have f: "frame_fits I (tw = 512) F" "in_flight I tw kw uw F n (src_out s)" "snk_at I hdr tw uw F n (k\<lparr>tready_int := True\<rparr>)"
    "src_at I tw F (n + kw) ?s" "pend = src_queue s" "tready_int k" "\<forall>f\<in>set pend. frame_fits I (tw = 512) f"
    using fl v n by (auto simp: flow_def in_flight_def)
  have kw: "0 < kw" using W by (cases rule: widths_cases) auto
  obtain s' where s': "src_fill I tw kw uw sp ?s = Inr s'" "src_active s'" "src_queue s' = src_queue s"
    "tvalid (src_out s') = (\<not> sp)" "in_flight I tw kw uw F (n + kw) (src_out s')"
    "if n + kw + kw < length (fr_data F) then src_at I tw F (n + kw + kw) s' else src_data s' = []"
    using src_fill_data [OF W f(4,1), of sp] by auto
  obtain k' where k': "snk_beat I tw kw uw (src_out s) (k\<lparr>tready_int := True\<rparr>) = Inr k'" "tready_int k'"
    "snk_queue k' = snk_queue k" "snk_at I hdr tw uw F (n + kw) k'"
    using snk_beat_at [OF W f(2,3)] n by auto
  have "link_step I tw kw uw sp kp (s, k) = Inr (s', k')" using link_step_taken [OF v(1) f(6) v(2)] s' k' by simp
  moreover have "flow I hdr tw kw uw (Some (F, n + kw)) pend (s', k')"
    using s' k' f by (auto simp: flow_def)
  ultimately show ?thesis
    unfolding link_goal_def using s' k' n kw v f
    by (intro exI [of _ s'] exI [of _ k'] exI [of _ "Some (F, n + kw)"] exI [of _ pend])
       (auto simp: crossing_def words_left_def)
qed

lemma flow_start:
  assumes W: "widths_ok I tw kw uw" and f: "\<forall>f\<in>set pend. frame_fits I (tw = 512) f" "\<not> src_active s" "\<not> tvalid (src_out s)"
    "src_data s = [] \<and> pend = src_queue s \<or> src_at I tw (src_frame s) 0 s \<and> pend = src_frame s # src_queue s" "snk_clean k" "tready_int k"
  obtains s' fl' pend' where "src_fill I tw kw uw sp s = Inr s'" "flow I hdr tw kw uw fl' pend' (s', k)"
    "crossing I hdr tw uw fl' pend' = crossing I hdr tw uw None pend"
    "sum_list (map (length \<circ> fr_data) pend) = (case fl' of None \<Rightarrow> 0 | Some (F, n) \<Rightarrow> length (fr_data F) - n) + sum_list (map (length \<circ> fr_data) pend')"
    "tvalid (src_out s') = (\<not> sp \<and> pend \<noteq> [])"
proof (cases pend)
  case Nil
  then have "src_fill I tw kw uw sp s = Inr s" "flow I hdr tw kw uw None [] (s, k)"
    using f src_fill_idle by (auto simp: flow_def)
  then show thesis using that [of s None "[]"] Nil f by (simp add: crossing_def)
next
  case (Cons G q)
  have at: "snk_at I hdr tw uw G 0 k" using f by (simp add: snk_at_def snk_clean_def)
  obtain s' where s': "src_fill I tw kw uw sp s = Inr s'" "src_active s'" "src_queue s' = q"
    "tvalid (src_out s') = (\<not> sp)" "in_flight I tw kw uw G 0 (src_out s')"
    "if kw < length (fr_data G) then src_at I tw G kw s' else src_data s' = []"
  proof (cases "src_data s = []")
    case True
    then have "src_queue s = G # q" "frame_fits I (tw = 512) G" using f Cons by (auto simp: src_at_def)
    then show thesis using src_fill_queue [OF W True _ _ f(2)] that by blast
  next
    case False
    then have "src_at I tw G 0 s" "src_queue s = q" "frame_fits I (tw = 512) G" using f Cons by auto
    then show thesis using src_fill_data [OF W _ _ f(2), of G 0] that by (metis add_0)
  qed
  then have "flow I hdr tw kw uw (Some (G, 0)) q (s', k)" using f Cons at by (auto simp: flow_def)
  then show thesis using that [of s' "Some (G, 0)" q] s' Cons by (simp add: crossing_def)
qed

lemma link_goal_last:
  assumes W: "widths_ok I tw kw uw" and fl: "flow I hdr tw kw uw (Some (F, n)) pend (s, k)"
    and v: "tvalid (src_out s)" "\<not> kp" and n: "\<not> n + kw < length (fr_data F)"
  shows "link_goal I hdr tw kw uw sp kp (Some (F, n)) pend (s, k)"
proof -
  let ?s = "s\<lparr>src_active := False, src_out := (src_out s)\<lparr>tvalid := False\<rparr>\<rparr>"
  have f: "in_flight I tw kw uw F n (src_out s)" "snk_at I hdr tw uw F n (k\<lparr>tready_int := True\<rparr>)" "tready_int k"
    "\<forall>f\<in>set pend. frame_fits I (tw = 512) f" "n < length (fr_data F)"
    "src_data ?s = [] \<and> pend = src_queue ?s \<or> src_at I tw (src_frame ?s) 0 ?s \<and> pend = src_frame ?s # src_queue ?s"
    using fl v n by (auto simp: flow_def in_flight_def)
  obtain k' where k': "snk_beat I tw kw uw (src_out s) (k\<lparr>tready_int := True\<rparr>) = Inr k'" "tready_int k'"
    "snk_queue k' = snk_queue k @ [received I hdr tw uw F]" "snk_clean k'"
    using snk_beat_at [OF W f(1,2)] n by auto
  have i: "\<not> src_active ?s" "\<not> tvalid (src_out ?s)" by simp_all
  obtain s' fl' pend' where s': "src_fill I tw kw uw sp ?s = Inr s'" "flow I hdr tw kw uw fl' pend' (s', k')"
    "crossing I hdr tw uw fl' pend' = crossing I hdr tw uw None pend"
    "sum_list (map (length \<circ> fr_data) pend) = (case fl' of None \<Rightarrow> 0 | Some (F, n) \<Rightarrow> length (fr_data F) - n) + sum_list (map (length \<circ> fr_data) pend')"
    using flow_start [OF W f(4) i f(6) k'(4,2), where sp = sp] by blast
  have "link_step I tw kw uw sp kp (s, k) = Inr (s', k')" using link_step_taken [OF v(1) f(3) v(2)] s' k' by simp
  then show ?thesis
    unfolding link_goal_def using s' k' f(5) v
    by (intro exI [of _ s'] exI [of _ k'] exI [of _ fl'] exI [of _ pend']) (auto simp: crossing_def words_left_def)
qed

lemma link_goal_step:
  assumes W: "widths_ok I tw kw uw" and fl: "flow I hdr tw kw uw fl pend (s, k)"
  shows "link_goal I hdr tw kw uw sp kp fl pend (s, k)"
proof (cases fl)
  case None
  then have f: "\<forall>f\<in>set pend. frame_fits I (tw = 512) f" "\<not> src_active s" "\<not> tvalid (src_out s)" "src_data s = []"
    "pend = src_queue s" "snk_clean (k\<lparr>tready_int := True\<rparr>)"
    using fl by (auto simp: flow_def)
  obtain s' fl' pend' where "src_fill I tw kw uw sp s = Inr s'" "flow I hdr tw kw uw fl' pend' (s', k\<lparr>tready_int := True\<rparr>)"
    "crossing I hdr tw uw fl' pend' = crossing I hdr tw uw None pend"
    "sum_list (map (length \<circ> fr_data) pend) = (case fl' of None \<Rightarrow> 0 | Some (F, n) \<Rightarrow> length (fr_data F) - n) + sum_list (map (length \<circ> fr_data) pend')"
    "tvalid (src_out s') = (\<not> sp \<and> pend \<noteq> [])"
    using flow_start [OF W f(1-3) _ f(6), where sp = sp] f(4,5) by auto
  moreover have "link_step I tw kw uw sp kp (s, k) = bindE (src_fill I tw kw uw sp s) (\<lambda>s'. Inr (s', k\<lparr>tready_int := True\<rparr>))"
  proof -
    have e: "s\<lparr>src_out := (src_out s)\<lparr>tvalid := False\<rparr>\<rparr> = s" using f(3) by (cases s; cases "src_out s") auto
    have h: "\<not> (tvalid (src_out s) \<and> \<not> kp)" using f(3) by simp
    show ?thesis by (simp only: link_step_held [OF h] f(2) simp_thms e)
  qed
  ultimately show ?thesis
    unfolding link_goal_def using None f(3) by (auto simp: words_left_def intro!: exI [of _ fl'] exI [of _ pend'])
next
  case (Some Fn)
  obtain F n where F: "Fn = (F, n)" by (cases Fn)
  consider "\<not> (tvalid (src_out s) \<and> \<not> kp)" | "tvalid (src_out s)" "\<not> kp" "n + kw < length (fr_data F)"
    | "tvalid (src_out s)" "\<not> kp" "\<not> n + kw < length (fr_data F)" by blast
  then show ?thesis
  proof cases
    case 1
    show ?thesis
      using link_held [OF W fl [unfolded Some F] 1, of sp] 1 unfolding link_goal_def Some F
      by (fastforce simp: words_left_def)
  next
    case 2
    then show ?thesis using link_goal_mid [OF W fl [unfolded Some F]] by (simp add: Some F)
  next
    case 3
    then show ?thesis using link_goal_last [OF W fl [unfolded Some F]] by (simp add: Some F)
  qed
qed

lemma run_flow:
  assumes W: "widths_ok I tw kw uw"
  shows "us_run I tw kw uw sent got st \<Longrightarrow> \<forall>f\<in>set sent. frame_fits I (tw = 512) f \<Longrightarrow>
    \<exists>fl pend. flow I hdr tw kw uw fl pend st \<and>
      got @ snk_queue (snd st) @ crossing I hdr tw uw fl pend = map (received I hdr tw uw) sent"
proof (induction rule: us_run.induct)
  case start
  have "flow I hdr tw kw uw None [] (UsSource, UsSink)"
    by (simp add: flow_def UsSource_def UsSink_def idle_beat_def snk_clean_def)
  then show ?case by (intro exI [of _ None] exI [of _ "[]"]) (simp add: crossing_def UsSink_def)
next
  case (send sent got s k f)
  then obtain fl pend where "flow I hdr tw kw uw fl pend (s, k)"
    "got @ snk_queue k @ crossing I hdr tw uw fl pend = map (received I hdr tw uw) sent" by auto
  moreover from this(1) have "flow I hdr tw kw uw fl (pend @ [f]) (src_send f s, k)"
    using send.prems by (auto simp: flow_def src_send_def src_at_def split: option.splits if_splits)
  ultimately show ?case
    by (intro exI [of _ fl] exI [of _ "pend @ [f]"]) (auto simp: crossing_def simp flip: append_assoc)
next
  case (recv sent got s k f k')
  then obtain fl pend where fl: "flow I hdr tw kw uw fl pend (s, k)"
    "got @ snk_queue k @ crossing I hdr tw uw fl pend = map (received I hdr tw uw) sent" by auto
  from recv.hyps(2) have k: "snk_queue k = f # snk_queue k'" "k' = k\<lparr>snk_queue := snk_queue k'\<rparr>"
    by (auto simp: snk_recv_def split: list.splits)
  have "flow I hdr tw kw uw fl pend (s, k')"
    using fl(1) by (subst k(2)) (auto simp: flow_def snk_at_def snk_clean_def split: option.splits)
  then show ?case using fl(2) k by (intro exI [of _ fl] exI [of _ pend]) simp
next
  case (edge sent got st sp kp st')
  then obtain fl pend where fl: "flow I hdr tw kw uw fl pend st"
    "got @ snk_queue (snd st) @ crossing I hdr tw uw fl pend = map (received I hdr tw uw) sent" by auto
  obtain fl' pend' where "flow I hdr tw kw uw fl' pend' st'"
    "snk_queue (snd st') @ crossing I hdr tw uw fl' pend' = snk_queue (snd st) @ crossing I hdr tw uw fl pend"
    using link_goal_step [OF W, of fl pend "fst st" "snd st" sp kp] fl(1) edge.hyps(2) by (auto simp: link_goal_def)
  then show ?case using fl(2) by (intro exI [of _ fl'] exI [of _ pend']) simp
qed

lemma run_order:
  assumes W: "widths_ok I tw kw uw" and r: "us_run I tw kw uw sent got st" "\<forall>f\<in>set sent. frame_fits I (tw = 512) f"
  shows "(\<exists>rest. map (received I hdr tw uw) sent = (got @ snk_queue (snd st)) @ rest) \<and>
    (\<exists>st'. link_step I tw kw uw sp kp st = Inr st')"
proof -
  obtain fl pend where fl: "flow I hdr tw kw uw fl pend st"
    "got @ snk_queue (snd st) @ crossing I hdr tw uw fl pend = map (received I hdr tw uw) sent"
    using run_flow [OF W r] by blast
  moreover have "\<exists>st'. link_step I tw kw uw sp kp st = Inr st'"
    using link_goal_step [OF W, of fl pend "fst st" "snd st" sp kp] fl(1) by (auto simp: link_goal_def)
  ultimately show ?thesis by (metis append_assoc)
qed

lemma flow_drains:
  assumes W: "widths_ok I tw kw uw"
  shows "flow I hdr tw kw uw fl pend st \<Longrightarrow> \<exists>m st'. link_edges I tw kw uw m st = Inr st' \<and>
    snk_queue (snd st') = snk_queue (snd st) @ crossing I hdr tw uw fl pend"
proof (induction "words_left fl pend st" arbitrary: fl pend st rule: less_induct)
  case less
  show ?case
  proof (cases "fl \<noteq> None \<or> pend \<noteq> []")
    case True
    obtain s' k' fl' pend' where s: "link_step I tw kw uw False False st = Inr (s', k')" "flow I hdr tw kw uw fl' pend' (s', k')"
      "snk_queue k' @ crossing I hdr tw uw fl' pend' = snk_queue (snd st) @ crossing I hdr tw uw fl pend"
      "words_left fl' pend' (s', k') < words_left fl pend st"
      using link_goal_step [OF W, of fl pend "fst st" "snd st" False False] less.prems True by (auto simp: link_goal_def)
    obtain m st' where "link_edges I tw kw uw m (s', k') = Inr st'"
      "snk_queue (snd st') = snk_queue k' @ crossing I hdr tw uw fl' pend'"
      using less.hyps [OF s(4,2)] by auto
    then show ?thesis using s by (intro exI [of _ "Suc m"] exI [of _ st']) simp
  next
    case False
    then have "fl = None" "pend = []" by blast+
    then show ?thesis by (intro exI [of _ 0] exI [of _ st]) (simp add: crossing_def)
  qed
qed

lemma run_delivers:
  assumes W: "widths_ok I tw kw uw" and r: "us_run I tw kw uw sent got st" "\<forall>f\<in>set sent. frame_fits I (tw = 512) f"
  shows "\<exists>m st'. link_edges I tw kw uw m st = Inr st' \<and> got @ snk_queue (snd st') = map (received I hdr tw uw) sent"
  using run_flow [OF W r] flow_drains [OF W] by fastforce

end


section \<open>The interfaces are streams\<close>

lemma bit_flag [bit_masks]: "bit (flag n b) i \<longleftrightarrow> b \<and> i = n"
  using bit_enable [of b n i] by (simp only: flag_def)

lemma bit_one_int [bit_masks]: "bit (1::int) n \<longleftrightarrow> n = 0"
  using bit_flag [of 0 True n] by (simp add: flag_def)

lemma bit_small: "bit (int m) n \<Longrightarrow> m < 16 \<Longrightarrow> n < 4" "bit (int m * 2) n \<Longrightarrow> m < 8 \<Longrightarrow> n < 4"
  using bit_high_zero [of "int m" 4 n] bit_high_zero [of "int m * 2" 4 n] by (cases "n < 4"; simp)+

lemmas user_bits = in_lanes_def bit_masks

lemma user_bit:
  "user_of I tw kw uw f first l u \<Longrightarrow> \<not> in_lanes I (tw = 512) kw n \<Longrightarrow> \<forall>i<kw. \<not> bit (tail_user I (tw = 512) i) n \<Longrightarrow>
    bit u n = bit (lane_user I (tw = 512) uw f first) n"
  unfolding user_of_def by (drule spec [of _ n]) auto

lemma user_field:
  assumes "user_of I tw kw uw f first l u"
    and "\<And>k. k < w \<Longrightarrow> \<not> in_lanes I (tw = 512) kw (a + k) \<and> (\<forall>i<kw. \<not> bit (tail_user I (tw = 512) i) (a + k))"
    and "\<And>k. k < w \<Longrightarrow> bit (lane_user I (tw = 512) uw f first) (a + k) = bit x k"
  shows "drop_bit a u AND (2 ^ w - 1) = x AND (2 ^ w - 1)"
proof -
  have "bit u (a + k) = bit x (0 + k)" if "k < w" for k
    using user_bit [OF assms(1), of "a + k"] conjunct1 [OF assms(2) [OF that]] conjunct2 [OF assms(2) [OF that]] assms(3) [OF that]
    by (simp only: add_0 simp_thms)
  then have "drop_bit a u AND (2 ^ w - 1) = drop_bit 0 x AND (2 ^ w - 1)" by (rule field_eqI)
  then show ?thesis by (simp only: drop_bit_0 id_apply)
qed

lemma user_flag:
  assumes "user_of I tw kw uw f first l u" "\<not> in_lanes I (tw = 512) kw n" "\<forall>i<kw. \<not> bit (tail_user I (tw = 512) i) n"
    and "bit (lane_user I (tw = 512) uw f first) n = b"
  shows "u AND push_bit n 1 \<noteq> 0 \<longleftrightarrow> b"
  using user_bit [OF assms(1-3)] assms(4) by (simp only: and_push_bit_1)

definition cq_hdr :: "nat \<Rightarrow> nat \<Rightarrow> us_frame \<Rightarrow> us_frame" where
  "cq_hdr tw uw f = USPcieFrame\<lparr>fr_first_be := fr_first_be f AND 0xf, fr_last_be := fr_last_be f AND 0xf,
     fr_discontinue := fr_discontinue f\<rparr>"

definition cc_hdr :: "nat \<Rightarrow> nat \<Rightarrow> us_frame \<Rightarrow> us_frame" where
  "cc_hdr tw uw f = USPcieFrame\<lparr>fr_discontinue := fr_discontinue f\<rparr>"

definition rq_hdr :: "nat \<Rightarrow> nat \<Rightarrow> us_frame \<Rightarrow> us_frame" where
  "rq_hdr tw uw f = USPcieFrame\<lparr>fr_first_be := fr_first_be f AND 0xf, fr_last_be := fr_last_be f AND 0xf,
     fr_discontinue := fr_discontinue f, fr_seq_num := (if tw = 512 \<or> uw = 62 then fr_seq_num f AND 0x3f else fr_seq_num f AND 0xf)\<rparr>"

definition rc_hdr :: "nat \<Rightarrow> nat \<Rightarrow> us_frame \<Rightarrow> us_frame" where
  "rc_hdr tw uw f = USPcieFrame\<lparr>fr_discontinue := fr_discontinue f\<rparr>"

lemma USPcieFrame_sel [simp]:
  "fr_data USPcieFrame = []" "fr_byte_en USPcieFrame = []" "fr_parity USPcieFrame = []" "fr_first_be USPcieFrame = 0"
  "fr_last_be USPcieFrame = 0" "\<not> fr_discontinue USPcieFrame" "fr_seq_num USPcieFrame = 0"
  by (simp_all add: USPcieFrame_def)

declare and_low_masks [simp del] push_bit_and [simp del] push_bit_of_1 [simp del]

lemma cc_get:
  assumes a: "widths_ok cc_if tw kw uw" "user_of cc_if tw kw uw f first l u"
  shows "get_user cc_if (tw = 512) uw first u g = (if fr_discontinue f then g\<lparr>fr_discontinue := True\<rparr> else g)"
proof -
  have "u AND push_bit (if tw = 512 then 16 else 0) 1 \<noteq> 0 \<longleftrightarrow> fr_discontinue f"
    by (cases rule: widths_cases [OF a(1)]; rule user_flag [OF a(2)]) (simp_all add: cc_if_def user_bits)
  then show ?thesis unfolding cc_if_def us_iface.select_convs by (simp only: refl)
qed

interpretation cc: us_stream cc_if cc_hdr
proof
  fix tw kw uw n i f first
  assume a: "widths_ok cc_if tw kw uw" "in_lanes cc_if (tw = 512) kw n" "i < kw"
  show "\<not> bit (lane_user cc_if (tw = 512) uw f first) n \<and> \<not> bit (tail_user cc_if (tw = 512) i) n"
    using a(2,3) by (cases rule: widths_cases [OF a(1)]) (auto simp: cc_if_def user_bits)
qed (simp_all add: cc_get cc_hdr_def USPcieFrame_def, simp_all add: cc_if_def)

lemma cq_get:
  assumes a: "widths_ok cq_if tw kw uw" "user_of cq_if tw kw uw f first l u"
  shows "get_user cq_if (tw = 512) uw first u g =
    (let g = (if first then g\<lparr>fr_first_be := fr_first_be f AND 0xf, fr_last_be := fr_last_be f AND 0xf\<rparr> else g)
     in if fr_discontinue f then g\<lparr>fr_discontinue := True\<rparr> else g)"
proof -
  have d: "u AND push_bit (if tw = 512 then 96 else 41) 1 \<noteq> 0 \<longleftrightarrow> fr_discontinue f"
    by (cases rule: widths_cases [OF a(1)]; rule user_flag [OF a(2)]) (auto simp: cq_if_def user_bits)
  have be: "drop_bit 0 u AND (2 ^ 4 - 1) = fr_first_be f AND (2 ^ 4 - 1)"
    "drop_bit (if tw = 512 then 8 else 4) u AND (2 ^ 4 - 1) = fr_last_be f AND (2 ^ 4 - 1)" if "first"
    by (cases rule: widths_cases [OF a(1)]; rule user_field [OF a(2)]; use that in \<open>auto simp: cq_if_def user_bits\<close>)+
  show ?thesis
    unfolding cq_if_def us_iface.select_convs d using be by (cases first) (simp_all add: Let_def)
qed

interpretation cq: us_stream cq_if cq_hdr
proof
  fix tw kw uw n i f first
  assume a: "widths_ok cq_if tw kw uw" "in_lanes cq_if (tw = 512) kw n" "i < kw"
  show "\<not> bit (lane_user cq_if (tw = 512) uw f first) n \<and> \<not> bit (tail_user cq_if (tw = 512) i) n"
    using a(2,3) by (cases rule: widths_cases [OF a(1)]) (auto simp: cq_if_def user_bits)
next
  fix tw kw uw b
  assume a: "widths_ok cq_if tw kw uw" "be_base cq_if (tw = 512) = Some b"
  show "b + 4 * kw \<le> par_base cq_if (tw = 512)"
    using a(2) by (cases rule: widths_cases [OF a(1)]) (auto simp: cq_if_def)
qed (simp_all add: cq_get cq_hdr_def Let_def USPcieFrame_def)

lemma rc_get:
  assumes a: "widths_ok rc_if tw kw uw" "user_of rc_if tw kw uw f first l u"
  shows "get_user rc_if (tw = 512) uw first u g = (if fr_discontinue f then g\<lparr>fr_discontinue := True\<rparr> else g)"
proof -
  have "u AND push_bit (if tw = 512 then 96 else 42) 1 \<noteq> 0 \<longleftrightarrow> fr_discontinue f"
    by (cases rule: widths_cases [OF a(1)]; rule user_flag [OF a(2)]) (auto simp: rc_if_def user_bits dest: bit_small)
  then show ?thesis unfolding rc_if_def us_iface.select_convs by (simp only: refl)
qed

interpretation rc: us_stream rc_if rc_hdr
proof
  fix tw kw uw n i f first
  assume a: "widths_ok rc_if tw kw uw" "in_lanes rc_if (tw = 512) kw n" "i < kw"
  show "\<not> bit (lane_user rc_if (tw = 512) uw f first) n \<and> \<not> bit (tail_user rc_if (tw = 512) i) n"
    using a(2,3) by (cases rule: widths_cases [OF a(1)]) (auto simp: rc_if_def user_bits dest: bit_small)
next
  fix tw kw uw b
  assume a: "widths_ok rc_if tw kw uw" "be_base rc_if (tw = 512) = Some b"
  show "b + 4 * kw \<le> par_base rc_if (tw = 512)"
    using a(2) by (cases rule: widths_cases [OF a(1)]) (auto simp: rc_if_def)
qed (simp_all add: rc_get rc_hdr_def USPcieFrame_def)

lemma seq_num_parts: "(x AND 0xf) OR push_bit 4 (drop_bit 4 x AND 0x3) = x AND (0x3f::int)"
proof (rule bit_eqI)
  fix n
  show "bit ((x AND 0xf) OR push_bit 4 (drop_bit 4 x AND 0x3)) n = bit (x AND 0x3f) n"
    by (cases "n < 4") (auto simp: bit_masks)
qed

lemma rq_get:
  assumes a: "widths_ok rq_if tw kw uw" "user_of rq_if tw kw uw f first l u"
  shows "get_user rq_if (tw = 512) uw first u g =
    (let g = (if first then g\<lparr>fr_first_be := fr_first_be f AND 0xf, fr_last_be := fr_last_be f AND 0xf\<rparr> else g);
         g = (if fr_discontinue f then g\<lparr>fr_discontinue := True\<rparr> else g)
     in g\<lparr>fr_seq_num := (if tw = 512 \<or> uw = 62 then fr_seq_num f AND 0x3f else fr_seq_num f AND 0xf)\<rparr>)"
proof -
  have d: "u AND push_bit (if tw = 512 then 36 else 11) 1 \<noteq> 0 \<longleftrightarrow> fr_discontinue f"
    by (cases rule: widths_cases [OF a(1)]; rule user_flag [OF a(2)]) (auto simp: rq_if_def user_bits)
  have be: "drop_bit 0 u AND (2 ^ 4 - 1) = fr_first_be f AND (2 ^ 4 - 1)"
    "drop_bit (if tw = 512 then 8 else 4) u AND (2 ^ 4 - 1) = fr_last_be f AND (2 ^ 4 - 1)" if "first"
    by (cases rule: widths_cases [OF a(1)]; rule user_field [OF a(2)]; use that in \<open>auto simp: rq_if_def user_bits\<close>)+
  have sq: "tw = 512 \<Longrightarrow> drop_bit 61 u AND (2 ^ 6 - 1) = fr_seq_num f AND (2 ^ 6 - 1)"
    "tw \<noteq> 512 \<Longrightarrow> drop_bit 24 u AND (2 ^ 4 - 1) = fr_seq_num f AND (2 ^ 4 - 1)"
    "tw \<noteq> 512 \<Longrightarrow> uw = 62 \<Longrightarrow> drop_bit 60 u AND (2 ^ 2 - 1) = drop_bit 4 (fr_seq_num f) AND (2 ^ 2 - 1)"
    by (cases rule: widths_cases [OF a(1)]; rule user_field [OF a(2)]; auto simp: rq_if_def user_bits)+
  show ?thesis
    unfolding rq_if_def us_iface.select_convs d using be sq by (cases first) (simp_all add: Let_def seq_num_parts)
qed

interpretation rq: us_stream rq_if rq_hdr
proof
  fix tw kw uw n i f first
  assume a: "widths_ok rq_if tw kw uw" "in_lanes rq_if (tw = 512) kw n" "i < kw"
  show "\<not> bit (lane_user rq_if (tw = 512) uw f first) n \<and> \<not> bit (tail_user rq_if (tw = 512) i) n"
    using a(2,3) by (cases rule: widths_cases [OF a(1)]) (auto simp: rq_if_def user_bits)
qed (simp_all add: rq_get rq_hdr_def Let_def USPcieFrame_def, simp_all add: rq_if_def)

section \<open>Properties\<close>

definition us_links :: "(us_iface \<times> (nat \<Rightarrow> nat \<Rightarrow> us_frame \<Rightarrow> us_frame)) list" where
  "us_links = [(cq_if, cq_hdr), (cc_if, cc_hdr), (rq_if, rq_hdr), (rc_if, rc_hdr)]"

lemma us_links_stream: "(I, hdr) \<in> set us_links \<Longrightarrow> us_stream I hdr"
  using cq.us_stream_axioms cc.us_stream_axioms rq.us_stream_axioms rc.us_stream_axioms by (auto simp: us_links_def)

text \<open>
  C14. On each of the four streaming interfaces, for every width that the interface allows, and whatever pauses the two ends
  make: the sink delivers the frames in the order in which they were sent, none twice and none changed, and no assertion
  of the sink and no pop of the source ever fails. The sink's frame is the sent one with the fields that the interface carries.
\<close>

theorem us_link_order:
  assumes "(I, hdr) \<in> set us_links" "widths_ok I tw kw uw" "us_run I tw kw uw sent got st"
    "\<forall>f\<in>set sent. frame_fits I (tw = 512) f"
  shows "(\<exists>rest. map (received I hdr tw uw) sent = (got @ snk_queue (snd st)) @ rest) \<and>
    (\<exists>st'. link_step I tw kw uw sp kp st = Inr st')"
  using us_links_stream [OF assms(1)] assms(2-4) by (rule us_stream.run_order)

definition us_frame_sample :: us_frame where
  "us_frame_sample = update_parity (USPcieFrame\<lparr>fr_data := [1, 2, 0xdeadbeef], fr_byte_en := [0, 15, 3], fr_first_be := 15\<rparr>)"

definition us_link_sample :: "us_source \<times> us_sink" where
  "us_link_sample = (src_send us_frame_sample UsSource, UsSink)"

lemma us_link_sample_run:
  "(cq_if, cq_hdr) \<in> set us_links" "widths_ok cq_if 64 2 85" "us_run cq_if 64 2 85 [us_frame_sample] [] us_link_sample"
  "\<forall>f\<in>set [us_frame_sample]. frame_fits cq_if ((64::nat) = 512) f"
  using us_run.send [OF us_run.start, of cq_if 64 2 85 us_frame_sample]
  by (simp_all add: us_links_def widths_ok_def cq_if_def us_link_sample_def frame_fits_def us_frame_sample_def update_parity_def
      dword_parity_def Let_def USPcieFrame_def)

theorem us_link_order_witness:
  "(\<exists>rest. map (received cq_if cq_hdr 64 85) [us_frame_sample] = ([] @ snk_queue (snd us_link_sample)) @ rest) \<and>
   (\<exists>st'. link_step cq_if 64 2 85 True True us_link_sample = Inr st')"
  by (rule us_link_order [OF us_link_sample_run])

text \<open>
  C16. Every frame arrives: from every state that a streaming interface can reach, finitely many clock edges without pauses
  bring the remaining frames to the sink.
\<close>

theorem us_link_delivers:
  assumes "(I, hdr) \<in> set us_links" "widths_ok I tw kw uw" "us_run I tw kw uw sent got st"
    "\<forall>f\<in>set sent. frame_fits I (tw = 512) f"
  shows "\<exists>m st'. link_edges I tw kw uw m st = Inr st' \<and> got @ snk_queue (snd st') = map (received I hdr tw uw) sent"
  using us_links_stream [OF assms(1)] assms(2-4) by (rule us_stream.run_delivers)

theorem us_link_delivers_witness:
  "\<exists>m st'. link_edges cq_if 64 2 85 m us_link_sample = Inr st' \<and>
     [] @ snk_queue (snd st') = map (received cq_if cq_hdr 64 85) [us_frame_sample]"
  by (rule us_link_delivers [OF us_link_sample_run])

end
