(* ===== verification/Pcie_UsDevice.thy ===== *)
theory Pcie_UsDevice
  imports Pcie_UsStream Pcie_Device
begin

unbundle bit_operations_syntax

text \<open>
  The devices with a PCIe hard block: \<open>UltrascalePCIe\<close> of \<open>lib/pcie/tb/pcie_us.py\<close> and \<open>UltrascalePlusPCIe\<close> of
  \<open>lib/pcie/tb/pcie_usp.py\<close> with their functions. Packets from the link are answered, dropped, or queued for the user
  logic (\<open>us_upstream_recv\<close>); at every clock edge the queued packets are packed and handed to the streaming interfaces,
  under flow control for non-posted requests, and the frames from the user logic become packets on the link (\<open>us_edge\<close>).

  A device answers at most one packet at a time, so what it sends is returned as a list. The processing of one clock edge is
  taken as atomic.
\<close>

section \<open>Functions\<close>

text \<open>
  The constructors of the capabilities run in the order of the base classes: \<open>MSIXCapability\<close> registers first,
  then \<open>MSICapability\<close>, \<open>PCIECapability\<close> and \<open>PMCapability\<close>. Registering again with an offset moves a capability.
\<close>

definition us_endpoint :: "endpoint res" where
  "us_endpoint =
     bindE (register_capability MSIX_CAP_ID MSIX_CAP_LEN MSIX_method 0 func_init) (\<lambda>f.
     bindE (register_capability MSI_CAP_ID MSI_CAP_LEN MSI_method 0 f) (\<lambda>f.
     bindE (register_capability PCIE_CAP_ID PCIE_CAP_LEN PCIE_method 0 f) (\<lambda>f.
     bindE (register_capability PM_CAP_ID PM_CAP_LEN PM_method 0 f) (\<lambda>f.
       Inr (func.extend
         (set_device_type 0 (f\<lparr>header_type := 0, bar := replicate 6 0, bar_mask := replicate 6 0\<rparr>))
         (endpoint.fields 0 0 0))))))"

definition move_capability :: "int \<Rightarrow> int \<Rightarrow> 'a func_scheme \<Rightarrow> 'a func_scheme res" where
  "move_capability i off f =
     bindE (register i (Some 0) 0 None None off (capabilities f)) (\<lambda>l.
       Inr (f\<lparr>capabilities := l, cap_ptr := (case caps l of [] \<Rightarrow> 0 | c # _ \<Rightarrow> cap_offset c * 4)\<rparr>))"

definition us_msi_capable :: "'a func_scheme \<Rightarrow> 'a func_scheme" where
  "us_msi_capable f = f\<lparr>msi := (msi f)\<lparr>msi_64bit_address_capable := 1, msi_per_vector_mask_capable := 0\<rparr>\<rparr>"

definition UltrascalePCIeFunction :: "endpoint res" where
  "UltrascalePCIeFunction =
     bindE us_endpoint (\<lambda>f.
     bindE (move_capability PM_CAP_ID 0x20 (us_msi_capable f)) (\<lambda>f.
     bindE (move_capability MSI_CAP_ID 0x24 f) (\<lambda>f.
     bindE (move_capability MSIX_CAP_ID 0x2c f) (move_capability PCIE_CAP_ID 0x30))))"

definition UltrascalePlusPCIeFunction :: "endpoint res" where
  "UltrascalePlusPCIeFunction =
     bindE us_endpoint (\<lambda>f.
     bindE (move_capability PM_CAP_ID 0x10 (us_msi_capable f)) (\<lambda>f.
     bindE (move_capability MSI_CAP_ID 0x12 f) (\<lambda>f.
     bindE (move_capability MSIX_CAP_ID 0x18 f) (move_capability PCIE_CAP_ID 0x1c))))"

section \<open>State\<close>

record 'a us_dev =
  us_device :: "'a device"
  cq_queue :: "tlp_us list"
  cq_np_queue :: "tlp_us list"
  cq_np_req_count :: int
  rc_queue :: "tlp_us list"
  config_space_enable :: bool
  enable_parity :: bool
  rq_seq_num :: "int list"
  cq_source :: us_source
  cc_sink :: us_sink
  rq_sink :: us_sink
  rc_source :: us_source

definition us_dev_init :: "'a device \<Rightarrow> 'a us_dev" where
  "us_dev_init d = \<lparr>us_device = d, cq_queue = [], cq_np_queue = [], cq_np_req_count = 0, rc_queue = [],
     config_space_enable = False, enable_parity = False, rq_seq_num = [], cq_source = UsSource, cc_sink = UsSink,
     rq_sink = UsSink, rc_source = UsSource\<rparr>"

definition UltrascalePCIe :: "\<lparr>cardbus_cis :: int, subsystem_vendor_id :: int, subsystem_id :: int\<rparr> us_dev res" where
  "UltrascalePCIe = bindE (make_function UltrascalePCIeFunction Device) (\<lambda>d. Inr (us_dev_init d))"

definition UltrascalePlusPCIe :: "\<lparr>cardbus_cis :: int, subsystem_vendor_id :: int, subsystem_id :: int\<rparr> us_dev res" where
  "UltrascalePlusPCIe = bindE (make_function UltrascalePlusPCIeFunction Device) (\<lambda>d. Inr (us_dev_init d))"

section \<open>Packets from the link\<close>

definition dev_id :: "'a device \<Rightarrow> int \<Rightarrow> pcie_id" where
  "dev_id d fn = PcieId (dev_bus_num d) (dev_device_num d) fn"

definition on_device :: "('a device \<Rightarrow> ('a device \<times> tlp list) res) \<Rightarrow> 'a us_dev \<Rightarrow> ('a us_dev \<times> tlp list) res" where
  "on_device g d = bindE (g (us_device d)) (\<lambda>(b, out). Inr (d\<lparr>us_device := b\<rparr>, out))"

text \<open>The first function that has exactly one base address register at the address.\<close>

fun find_bar :: "int \<Rightarrow> bool \<Rightarrow> 'a func_scheme list \<Rightarrow> ('a func_scheme \<times> nat) option res" where
  "find_bar addr io [] = Inr None"
| "find_bar addr io (f # fs) =
     bindE (match_bar f addr io) (\<lambda>ms. case ms of [(b, off)] \<Rightarrow> Inr (Some (f, b)) | _ \<Rightarrow> find_bar addr io fs)"

text \<open>The aperture, from the first function of the device; \<open>log2\<close> is \<open>int(math.log2(x))\<close>.\<close>

definition io_aperture :: "(int \<Rightarrow> int) \<Rightarrow> nat \<Rightarrow> 'a func_scheme list \<Rightarrow> int res" where
  "io_aperture log2 b fs =
     bindE (nth_res fs 0) (\<lambda>f. bindE (nth_res (bar_mask f) b) (\<lambda>m. Inr (log2 ((NOT m AND 0xffffffff) + 1))))"

definition mem_aperture :: "(int \<Rightarrow> int) \<Rightarrow> nat \<Rightarrow> 'a func_scheme list \<Rightarrow> int res" where
  "mem_aperture log2 b fs =
     bindE (nth_res fs 0) (\<lambda>f. bindE (nth_res (bar f) b) (\<lambda>v.
       if v AND 4 \<noteq> 0
       then bindE (nth_res (bar_mask f) b) (\<lambda>m. bindE (nth_res (bar_mask f) (b + 1)) (\<lambda>m2.
              Inr (log2 ((NOT (m OR push_bit 32 m2) AND 0xffffffffffffffff) + 1))))
       else io_aperture log2 b fs))"

definition queue_request :: "tlp \<Rightarrow> 'a func_scheme \<Rightarrow> nat \<Rightarrow> int \<Rightarrow> 'a us_dev \<Rightarrow> 'a us_dev" where
  "queue_request t f b ap d =
     d\<lparr>cq_queue := cq_queue d @ [TLP_us\<lparr>us_tlp := (TLP_copy t)\<lparr>tlp_completer_id := dev_id (us_device d) (function_num f)\<rparr>,
         us_bar_id := int b, us_bar_aperture := ap\<rparr>]\<rparr>"

definition us_recv_config ::
  "(rx_handler \<Rightarrow> tlp \<Rightarrow> 'a func_scheme \<Rightarrow> ('a func_scheme \<times> tlp list) res) \<Rightarrow> tlp \<Rightarrow>
   'a us_dev \<Rightarrow> ('a us_dev \<times> tlp list) res" where
  "us_recv_config run t d =
     (let b = us_device d
      in if \<not> config_space_enable d then on_device (\<lambda>b. dev_send_all b [set_crs_completion t (dev_id b 0) TLP]) d
         else if pid_device (tlp_dest_id t) = dev_device_num b then
           let bus = pid_bus (tlp_dest_id t);
               b = b\<lparr>dev_bus_num := bus, dev_functions := map (\<lambda>f. f\<lparr>bus_num := bus\<rparr>) (dev_functions b)\<rparr>
           in on_device (dev_to_function (\<lambda>f. Inr (function_num f = pid_function (tlp_dest_id t))) (upstream_recv run t) (dev_ur t))
                (d\<lparr>us_device := b\<rparr>)
         else on_device (dev_ur t) d)"

text \<open>
  A completion is queued for the requester completion interface. The code stores the bad-status code in the attribute
  \<open>error\<close>, not in \<open>error_code\<close>, which the descriptor of the interface is made from.
\<close>

definition us_recv_completion :: "tlp \<Rightarrow> 'a us_dev \<Rightarrow> 'a us_dev" where
  "us_recv_completion t d =
     (let b = us_device d
      in if pid_bus (tlp_requester_id t) = dev_bus_num b \<and> pid_device (tlp_requester_id t) = dev_device_num b \<and>
            pid_function (tlp_requester_id t) \<in> set (map function_num (dev_functions b))
         then let u = TLP_us\<lparr>us_tlp := TLP_copy t, us_error_code := RC_ERROR_NORMAL_TERMINATION\<rparr>;
                  u' = (if tlp_status t \<noteq> CPL_STATUS_SC then u\<lparr>us_error := Some RC_ERROR_BAD_STATUS\<rparr> else u)
              in d\<lparr>rc_queue := rc_queue d @ [u']\<rparr>
         else d)"

definition us_upstream_recv ::
  "(int \<Rightarrow> int) \<Rightarrow> (rx_handler \<Rightarrow> tlp \<Rightarrow> 'a func_scheme \<Rightarrow> ('a func_scheme \<times> tlp list) res) \<Rightarrow> tlp \<Rightarrow>
   'a us_dev \<Rightarrow> ('a us_dev \<times> tlp list) res" where
  "us_upstream_recv log2 run t d =
     (let fs = dev_functions (us_device d)
      in if fmt_type t \<in> {TLP_CFG_READ_0, TLP_CFG_WRITE_0} then us_recv_config run t d
         else if is_cpl t then Inr (us_recv_completion t d, [])
         else if is_io t then
           bindE (find_bar (tlp_address t) True fs) (\<lambda>r.
             case r of Some (f, b) \<Rightarrow> bindE (io_aperture log2 b fs) (\<lambda>ap. Inr (queue_request t f b ap d, []))
             | None \<Rightarrow> on_device (dev_ur t) d)
         else if fmt_type t \<in> {TLP_MEM_READ, TLP_MEM_READ_64, TLP_MEM_WRITE, TLP_MEM_WRITE_64} then
           bindE (find_bar (tlp_address t) False fs) (\<lambda>r.
             case r of Some (f, b) \<Rightarrow> bindE (mem_aperture log2 b fs) (\<lambda>ap. Inr (queue_request t f b ap d, []))
             | None \<Rightarrow> if fmt_type t \<in> {TLP_MEM_READ, TLP_MEM_READ_64} then on_device (dev_ur t) d else Inr (d, []))
         else Inl (PyException ''TODO''))"

text \<open>The class of the UltraScale+ block has the same method, word for word.\<close>

definition usp_upstream_recv where "usp_upstream_recv = us_upstream_recv"

section \<open>A clock edge\<close>

text \<open>Completer requests: the credit for non-posted requests, the requests that waited for credit, the new ones.\<close>

definition np_credit :: "bool \<Rightarrow> bool \<Rightarrow> int \<Rightarrow> int" where
  "np_credit sys_reset np_req c = (if \<not> sys_reset then 0 else if np_req then if c < 32 then c + 1 else c else c)"

fun send_np :: "tlp_us list \<Rightarrow> int \<Rightarrow> us_source \<Rightarrow> (tlp_us list \<times> int \<times> us_source) res" where
  "send_np [] c s = Inr ([], c, s)"
| "send_np (u # us) c s =
     (if c > 0 then bindE (pack_us_cq u) (\<lambda>f. send_np us (c - 1) (src_send f s)) else Inr (u # us, c, s))"

definition non_posted :: "tlp \<Rightarrow> bool" where
  "non_posted t \<longleftrightarrow> fmt_type t \<in> {TLP_IO_READ, TLP_IO_WRITE, TLP_MEM_READ, TLP_MEM_READ_64}"

fun send_new :: "tlp_us list \<Rightarrow> tlp_us list \<Rightarrow> int \<Rightarrow> us_source \<Rightarrow> (tlp_us list \<times> int \<times> us_source) res" where
  "send_new [] np c s = Inr (np, c, s)"
| "send_new (u # us) np c s =
     (if non_posted (us_tlp u) then
        if c > 0 then bindE (pack_us_cq u) (\<lambda>f. send_new us np (c - 1) (src_send f s))
        else send_new us (np @ [u]) c s
      else bindE (pack_us_cq u) (\<lambda>f. send_new us np c (src_send f s)))"

definition cq_edge :: "bool \<Rightarrow> bool \<Rightarrow> 'a us_dev \<Rightarrow> 'a us_dev res" where
  "cq_edge sys_reset np_req d =
     bindE (send_np (cq_np_queue d) (np_credit sys_reset np_req (cq_np_req_count d)) (cq_source d)) (\<lambda>(np, c, s).
     bindE (send_new (cq_queue d) np c s) (\<lambda>(np, c, s).
       Inr (d\<lparr>cq_queue := [], cq_np_queue := np, cq_np_req_count := c, cq_source := s\<rparr>)))"

text \<open>Completer completions and requester requests that the user logic has sent.\<close>

fun cc_loop :: "bool \<Rightarrow> 'a device \<Rightarrow> us_frame list \<Rightarrow> tlp list res" where
  "cc_loop parity b [] = Inr []"
| "cc_loop parity b (f # fs) =
     bindE (unpack_us_cc f parity TLP_us) (\<lambda>u.
       let t = us_tlp u;
           t = (if us_completer_id_enable u then t else t\<lparr>tlp_completer_id := dev_id b (pid_function (tlp_completer_id t))\<rparr>)
       in if us_discontinue u then cc_loop parity b fs
          else bindE (dev_upstream_send (TLP_copy t)) (\<lambda>_. bindE (cc_loop parity b fs) (\<lambda>out. Inr (TLP_copy t # out))))"

definition cc_edge :: "'a us_dev \<Rightarrow> ('a us_dev \<times> tlp list) res" where
  "cc_edge d = bindE (cc_loop (enable_parity d) (us_device d) (snk_queue (cc_sink d))) (\<lambda>out.
     Inr (d\<lparr>cc_sink := (cc_sink d)\<lparr>snk_queue := []\<rparr>\<rparr>, out))"

fun rq_loop :: "bool \<Rightarrow> 'a device \<Rightarrow> us_frame list \<Rightarrow> (int list \<times> tlp list) res" where
  "rq_loop parity b [] = Inr ([], [])"
| "rq_loop parity b (f # fs) =
     bindE (unpack_us_rq f parity TLP_us) (\<lambda>u.
       let t = us_tlp u;
           t = (if us_requester_id_enable u then t else t\<lparr>tlp_requester_id := dev_id b (pid_function (tlp_requester_id t))\<rparr>)
       in if us_discontinue u then rq_loop parity b fs
          else bindE (nth_res (dev_functions b) (nat (pid_function (tlp_requester_id t)))) (\<lambda>g.
            if bus_master_enable g
            then bindE (dev_upstream_send (TLP_copy t)) (\<lambda>_. bindE (rq_loop parity b fs) (\<lambda>(sq, out).
                   Inr (us_seq_num u # sq, TLP_copy t # out)))
            else rq_loop parity b fs))"

definition rq_edge :: "'a us_dev \<Rightarrow> ('a us_dev \<times> tlp list) res" where
  "rq_edge d = bindE (rq_loop (enable_parity d) (us_device d) (snk_queue (rq_sink d))) (\<lambda>(sq, out).
     Inr (d\<lparr>rq_sink := (rq_sink d)\<lparr>snk_queue := []\<rparr>, rq_seq_num := rq_seq_num d @ sq\<rparr>, out))"

text \<open>The sequence number that is reported; the UltraScale+ block reports up to two.\<close>

definition seq_edge :: "'a us_dev \<Rightarrow> int option \<times> 'a us_dev" where
  "seq_edge d = (case rq_seq_num d of x # xs \<Rightarrow> (Some x, d\<lparr>rq_seq_num := xs\<rparr>) | [] \<Rightarrow> (None, d))"

definition usp_seq_edge :: "'a us_dev \<Rightarrow> (int option \<times> int option) \<times> 'a us_dev" where
  "usp_seq_edge d = (case seq_edge d of (x, d) \<Rightarrow> case seq_edge d of (y, d) \<Rightarrow> ((x, y), d))"

fun rc_loop :: "tlp_us list \<Rightarrow> us_source \<Rightarrow> us_source res" where
  "rc_loop [] s = Inr s"
| "rc_loop (u # us) s = bindE (pack_us_rc u) (\<lambda>f. rc_loop us (src_send f s))"

definition rc_edge :: "'a us_dev \<Rightarrow> 'a us_dev res" where
  "rc_edge d = bindE (rc_loop (rc_queue d) (rc_source d)) (\<lambda>s. Inr (d\<lparr>rc_queue := [], rc_source := s\<rparr>))"

definition us_edge :: "bool \<Rightarrow> bool \<Rightarrow> bool \<Rightarrow> 'a us_dev \<Rightarrow> ('a us_dev \<times> int option \<times> tlp list) res" where
  "us_edge sys_reset np_req cfg_enable d =
     bindE (cq_edge sys_reset np_req d) (\<lambda>d.
     bindE (cc_edge d) (\<lambda>(d, out1).
     bindE (rq_edge d) (\<lambda>(d, out2).
     let (sq, d) = seq_edge d
     in bindE (rc_edge d) (\<lambda>d.
          Inr (d\<lparr>config_space_enable := sys_reset \<and> cfg_enable\<rparr>, sq, out1 @ out2)))))"

definition usp_edge :: "bool \<Rightarrow> bool \<Rightarrow> bool \<Rightarrow> 'a us_dev \<Rightarrow> ('a us_dev \<times> (int option \<times> int option) \<times> tlp list) res" where
  "usp_edge sys_reset np_req cfg_enable d =
     bindE (cq_edge sys_reset np_req d) (\<lambda>d.
     bindE (cc_edge d) (\<lambda>(d, out1).
     bindE (rq_edge d) (\<lambda>(d, out2).
     let (sq, d) = usp_seq_edge d
     in bindE (rc_edge d) (\<lambda>d.
          Inr (d\<lparr>config_space_enable := sys_reset \<and> cfg_enable\<rparr>, sq, out1 @ out2)))))"

section \<open>Configuration management and status\<close>

text \<open>
  Register accesses through the configuration management port; \<open>rd\<close> and \<open>wr\<close> are the register methods of the
  functions, and bit 18 of the address selects internal registers, which are not there.
\<close>

definition cfg_mgmt_read :: "('f \<Rightarrow> int \<Rightarrow> int option res) \<Rightarrow> int \<Rightarrow> 'f list \<Rightarrow> int option res" where
  "cfg_mgmt_read rd addr fs =
     (if addr AND push_bit 18 1 \<noteq> 0 then Inr None
      else bindE (nth_res fs (nat (drop_bit 10 addr AND 0x7f))) (\<lambda>f. rd f (addr AND 0x3ff)))"

definition cfg_mgmt_write :: "(int \<Rightarrow> int \<Rightarrow> int \<Rightarrow> 'f \<Rightarrow> 'f res) \<Rightarrow> int \<Rightarrow> int \<Rightarrow> int \<Rightarrow> 'f list \<Rightarrow> 'f list res" where
  "cfg_mgmt_write wr addr data be fs =
     (if addr AND push_bit 18 1 \<noteq> 0 then Inr fs
      else let i = nat (drop_bit 10 addr AND 0x7f)
           in bindE (nth_res fs i) (\<lambda>f. bindE (wr (addr AND 0x3ff) data be f) (\<lambda>f'. Inr (fs[i := f']))))"

definition us_function_status :: "'a func_scheme list \<Rightarrow> int res" where
  "us_function_status fs =
     bindE (nth_res fs 0) (\<lambda>f.
       let s = (if bus_master_enable f then 0x07 else 0) OR (if interrupt_disable f then 0x08 else 0)
       in if length fs > 1 then
            bindE (nth_res fs 1) (\<lambda>g.
              Inr (s OR (if bus_master_enable g then 0x70 else 0) OR (if interrupt_disable g then 0x80 else 0)))
          else Inr s)"

definition us_rcb_status :: "'a func_scheme list \<Rightarrow> int res" where
  "us_rcb_status fs =
     bindE (nth_res fs 0) (\<lambda>f.
       let r = read_completion_boundary (link_ctl (pcie f))
       in Inr ((if r then 1 else 0) OR (if length fs > 1 \<and> r then 2 else 0)))"

fun usp_rcb_status :: "nat \<Rightarrow> 'a func_scheme list \<Rightarrow> int" where
  "usp_rcb_status k [] = 0"
| "usp_rcb_status k (f # fs) =
     (if read_completion_boundary (link_ctl (pcie f)) then push_bit k 1 else 0) OR usp_rcb_status (Suc k) fs"

fun usp_function_status :: "nat \<Rightarrow> 'a func_scheme list \<Rightarrow> int" where
  "usp_function_status k [] = 0"
| "usp_function_status k (f # fs) =
     (if bus_master_enable f then push_bit (k * 4) 0x07 else 0) OR
     (if interrupt_disable f then push_bit (k * 4) 0x08 else 0) OR usp_function_status (Suc k) fs"

definition us_msi_enable :: "'a func_scheme list \<Rightarrow> int res" where
  "us_msi_enable fs =
     bindE (nth_res fs 0) (\<lambda>f.
       if length fs > 1 then bindE (nth_res fs 1) (\<lambda>g.
         Inr ((if msi_enable (msi f) then 1 else 0) OR (if msi_enable (msi g) then 2 else 0)))
       else Inr (if msi_enable (msi f) then 1 else 0))"

definition us_msi_mmenable :: "'a func_scheme list \<Rightarrow> int res" where
  "us_msi_mmenable fs =
     bindE (nth_res fs 0) (\<lambda>f.
       let v = msi_multiple_message_enable (msi f) AND 0x7
       in if length fs > 1 then bindE (nth_res fs 1) (\<lambda>g.
            Inr (v OR push_bit 3 (msi_multiple_message_enable (msi g) AND 0x7)))
          else Inr v)"

text \<open>The vector that a one-hot request selects, if the function exists.\<close>

definition msi_vector :: "int \<Rightarrow> int \<Rightarrow> 'f list \<Rightarrow> nat option" where
  "msi_vector n fn fs =
     (case filter (\<lambda>i. drop_bit i n AND 1 \<noteq> 0) [0..<32] of
        [i] \<Rightarrow> if fn < int (length fs) then Some i else None
      | _ \<Rightarrow> None)"

section \<open>Flow control of completer requests\<close>

lemma mapE_append: "mapE f (xs @ ys) = bindE (mapE f xs) (\<lambda>a. bindE (mapE f ys) (\<lambda>b. Inr (a @ b)))"
  by (induction xs) (simp_all add: bindE_assoc bindE_def split: sum.split)

text \<open>\<open>ps\<close> are the requests that a loop passes to the stream.\<close>

definition passes :: "tlp_us list \<Rightarrow> us_source \<Rightarrow> us_source \<Rightarrow> bool" where
  "passes ps s s' \<longleftrightarrow> (\<exists>fs. mapE pack_us_cq ps = Inr fs \<and> src_queue s' = src_queue s @ fs)"

lemma passes_Cons: "pack_us_cq u = Inr f \<Longrightarrow> passes ps (src_send f s) s' \<Longrightarrow> passes (u # ps) s s'"
  by (auto simp: passes_def src_send_def)

lemma passes_Nil [simp]: "passes [] s s"
  by (simp add: passes_def)

lemma passes_append: "passes ps s s' \<Longrightarrow> passes qs s' s'' \<Longrightarrow> passes (ps @ qs) s s''"
  by (auto simp: passes_def mapE_append)

lemma send_np_spec:
  "send_np us c s = Inr (np, c', s') \<Longrightarrow> 0 \<le> c \<Longrightarrow>
   \<exists>ps. passes ps s s' \<and> us = ps @ np \<and> c' = c - int (length ps) \<and> 0 \<le> c' \<and> (np \<noteq> [] \<longrightarrow> c' = 0)"
proof (induction us c s rule: send_np.induct)
  case (2 u us c s)
  show ?case
  proof (cases "c > 0")
    case True
    then obtain f where f: "pack_us_cq u = Inr f" "send_np us (c - 1) (src_send f s) = Inr (np, c', s')" using 2 by auto
    from 2(1) [OF True f] True obtain ps where "passes ps (src_send f s) s'" "us = ps @ np" "c' = c - 1 - int (length ps)"
      "0 \<le> c'" "np \<noteq> [] \<longrightarrow> c' = 0" by force
    then show ?thesis using passes_Cons [OF f(1)] by (intro exI [of _ "u # ps"]) simp
  next
    case False
    then show ?thesis using 2 by (intro exI [of _ "[]"]) simp
  qed
qed simp

definition new_spec :: "tlp_us list \<Rightarrow> tlp_us list \<Rightarrow> int \<Rightarrow> us_source \<Rightarrow> tlp_us list \<Rightarrow> int \<Rightarrow> us_source \<Rightarrow> tlp_us list \<Rightarrow> bool" where
  "new_spec us np c s np' c' s' ps \<longleftrightarrow> passes ps s s' \<and>
     np @ filter (non_posted \<circ> us_tlp) us = filter (non_posted \<circ> us_tlp) ps @ np' \<and>
     filter (Not \<circ> non_posted \<circ> us_tlp) us = filter (Not \<circ> non_posted \<circ> us_tlp) ps \<and>
     c' = c - int (length (filter (non_posted \<circ> us_tlp) ps)) \<and> 0 \<le> c' \<and> (np' \<noteq> [] \<longrightarrow> c' = 0)"

lemma send_new_spec:
  "send_new us np c s = Inr (np', c', s') \<Longrightarrow> 0 \<le> c \<Longrightarrow> (np \<noteq> [] \<longrightarrow> c = 0) \<Longrightarrow> \<exists>ps. new_spec us np c s np' c' s' ps"
proof (induction us np c s rule: send_new.induct)
  case (1 np c s)
  then show ?case by (intro exI [of _ "[]"]) (simp add: new_spec_def)
next
  case (2 u us np c s)
  consider (wait) "non_posted (us_tlp u)" "\<not> c > 0" | (np) "non_posted (us_tlp u)" "c > 0" | (p) "\<not> non_posted (us_tlp u)" by blast
  then show ?case
  proof cases
    case wait
    then have "\<exists>ps. new_spec us (np @ [u]) c s np' c' s' ps" using 2 by simp
    then show ?thesis using wait by (auto simp: new_spec_def)
  next
    case np
    then obtain f where f: "pack_us_cq u = Inr f" "send_new us np (c - 1) (src_send f s) = Inr (np', c', s')" using 2 by auto
    have "\<exists>ps. new_spec us np (c - 1) (src_send f s) np' c' s' ps" using 2(1) [OF np f] np 2(5,6) by simp
    then obtain ps where "new_spec us np (c - 1) (src_send f s) np' c' s' ps" ..
    then have "new_spec (u # us) np c s np' c' s' (u # ps)" using np 2(6) passes_Cons [OF f(1)] by (auto simp: new_spec_def)
    then show ?thesis ..
  next
    case p
    then obtain f where f: "pack_us_cq u = Inr f" "send_new us np c (src_send f s) = Inr (np', c', s')" using 2 by auto
    have "\<exists>ps. new_spec us np c (src_send f s) np' c' s' ps" using 2(3) [OF p f] 2(5,6) by simp
    then obtain ps where "new_spec us np c (src_send f s) np' c' s' ps" ..
    then have "new_spec (u # us) np c s np' c' s' (u # ps)" using p passes_Cons [OF f(1)] by (auto simp: new_spec_def)
    then show ?thesis ..
  qed
qed

definition np_inv :: "'a us_dev \<Rightarrow> bool" where
  "np_inv d \<longleftrightarrow> cq_np_req_count d \<in> {0..32} \<and> (\<forall>u\<in>set (cq_np_queue d). non_posted (us_tlp u))"

text \<open>
  C15. The flow control of completer requests: one clock edge passes requests to the stream so that, of the requests waiting
  and new, the non-posted ones keep their order and so do the posted ones, none is lost or repeated, a non-posted request only
  waits when there is no credit left, every one that is passed uses up one credit, and the credit stays between 0 and 32.
\<close>

theorem us_np_order:
  assumes "np_inv d" "cq_edge sys_reset np_req d = Inr d'"
  shows "\<exists>ps. passes ps (cq_source d) (cq_source d') \<and>
    cq_np_queue d @ filter (non_posted \<circ> us_tlp) (cq_queue d) = filter (non_posted \<circ> us_tlp) ps @ cq_np_queue d' \<and>
    filter (Not \<circ> non_posted \<circ> us_tlp) (cq_queue d) = filter (Not \<circ> non_posted \<circ> us_tlp) ps \<and> cq_queue d' = [] \<and>
    cq_np_req_count d' = np_credit sys_reset np_req (cq_np_req_count d) - int (length (filter (non_posted \<circ> us_tlp) ps)) \<and>
    (cq_np_queue d' \<noteq> [] \<longrightarrow> cq_np_req_count d' = 0) \<and> np_inv d'"
proof -
  let ?c = "np_credit sys_reset np_req (cq_np_req_count d)"
  have c: "0 \<le> ?c" "?c \<le> 32" using assms(1) by (auto simp: np_credit_def np_inv_def)
  obtain np1 c1 s1 np2 c2 s2 where e: "send_np (cq_np_queue d) ?c (cq_source d) = Inr (np1, c1, s1)"
    "send_new (cq_queue d) np1 c1 s1 = Inr (np2, c2, s2)"
    "d' = d\<lparr>cq_queue := [], cq_np_queue := np2, cq_np_req_count := c2, cq_source := s2\<rparr>"
    using assms(2) by (auto simp: cq_edge_def split: prod.splits)
  obtain ps where p: "passes ps (cq_source d) s1" "cq_np_queue d = ps @ np1"
    "c1 = ?c - int (length ps)" "0 \<le> c1" "np1 \<noteq> [] \<longrightarrow> c1 = 0" using send_np_spec [OF e(1) c(1)] by blast
  obtain qs where q: "new_spec (cq_queue d) np1 c1 s1 np2 c2 s2 qs" using send_new_spec [OF e(2) p(4,5)] by blast
  have ps: "filter (non_posted \<circ> us_tlp) ps = ps" "filter (Not \<circ> non_posted \<circ> us_tlp) ps = []"
    using assms(1) p(2) by (auto simp: np_inv_def filter_id_conv filter_empty_conv)
  have "set np2 \<subseteq> set (np1 @ filter (non_posted \<circ> us_tlp) (cq_queue d))" using q by (auto simp: new_spec_def)
  then have "np_inv d'" using e(3) p q c assms(1) by (auto simp: np_inv_def new_spec_def)
  then show ?thesis
    using p q e(3) ps passes_append [OF p(1)] by (intro exI [of _ "ps @ qs"]) (auto simp: new_spec_def)
qed

definition us_dev_sample :: "unit us_dev" where
  "us_dev_sample = (us_dev_init Device)\<lparr>cq_queue := [us_sample, us_sample\<lparr>us_tlp := (us_tlp us_sample)\<lparr>tlp_fmt := 1\<rparr>\<rparr>]\<rparr>"

theorem us_np_order_witness:
  "\<exists>d' ps. cq_edge True False us_dev_sample = Inr d' \<and> passes ps (cq_source us_dev_sample) (cq_source d') \<and>
    length (filter (non_posted \<circ> us_tlp) ps) = 0 \<and> cq_np_req_count d' = 0"
proof -
  have i: "np_inv us_dev_sample" by (simp add: np_inv_def us_dev_sample_def us_dev_init_def)
  have "\<exists>d'. cq_edge True False us_dev_sample = Inr d'"
    by (simp add: cq_edge_def us_dev_sample_def us_dev_init_def np_credit_def non_posted_def us_sample_def TLP_us_def
        pack_us_cq_def tlp_kind_defs Let_def)
  then obtain d' where d: "cq_edge True False us_dev_sample = Inr d'" ..
  show ?thesis
    using us_np_order [OF i d] d by (auto simp: np_inv_def np_credit_def us_dev_sample_def us_dev_init_def)
qed

section \<open>From the link to the user logic\<close>

text \<open>A request fits the completer request interface.\<close>

definition us_cq_ok :: "tlp_us \<Rightarrow> bool" where
  "us_cq_ok u \<longleftrightarrow> us_req_wf (us_tlp u) \<and> us_bar_id u \<in> {0..<8} \<and> us_bar_aperture u \<in> {0..<64} \<and>
     pid_function (tlp_completer_id (us_tlp u)) \<in> {0..<256} \<and> tlp_first_be (us_tlp u) \<in> {0..<16} \<and>
     tlp_last_be (us_tlp u) \<in> {0..<16} \<and> (\<forall>x\<in>set (tlp_data (us_tlp u)). 0 \<le> x \<and> x < 2 ^ 32)"

lemma bits_bound: "(\<And>i. bit (x::int) i \<Longrightarrow> i < n) \<Longrightarrow> 0 \<le> x \<and> x < 2 ^ n"
proof -
  assume "\<And>i. bit x i \<Longrightarrow> i < n"
  then have "take_bit n x = x" by (intro bit_eqI) (auto simp: bit_take_bit_iff)
  then show ?thesis by (simp add: take_bit_int_eq_self_iff)
qed

lemma cq_words_bound:
  assumes "0 \<le> r" "r < 4"
  shows "\<forall>x\<in>set (address_words t). 0 \<le> x \<and> x < 2 ^ 32" "0 \<le> request_word t r \<and> request_word t r < 2 ^ 32"
    "0 \<le> cq_word3 u \<and> cq_word3 u < 2 ^ 32" "0 \<le> dword_parity d XOR 15 \<and> dword_parity d XOR 15 < 2 ^ 4"
proof -
  have r: "bit r i \<Longrightarrow> i < 4" for i using bit_high_zero [of r 4 i] assms by (cases "i < 4") auto
  show "\<forall>x\<in>set (address_words t). 0 \<le> x \<and> x < 2 ^ 32"
  proof -
    have "0 \<le> (tlp_at t AND 3 OR tlp_address t AND 0xfffffffc) \<and> (tlp_at t AND 3 OR tlp_address t AND 0xfffffffc) < 2 ^ 32"
      by (rule bits_bound) (auto simp: bit_masks bit_dword_mask simp del: and_low_masks push_bit_and)
    moreover have "0 \<le> drop_bit 32 (tlp_address t AND 0xffffffff00000000) \<and> drop_bit 32 (tlp_address t AND 0xffffffff00000000) < 2 ^ 32"
      by (rule bits_bound) (auto simp: bit_masks bit_upper_mask simp del: and_low_masks push_bit_and)
    ultimately show ?thesis unfolding address_words_def by simp
  qed
  show "0 \<le> request_word t r \<and> request_word t r < 2 ^ 32"
    by (rule bits_bound) (auto simp: request_word_def bit_masks dest: r bit_id_int simp del: and_low_masks push_bit_and)
  show "0 \<le> cq_word3 u \<and> cq_word3 u < 2 ^ 32"
    by (rule bits_bound) (auto simp: cq_word3_def Let_def bit_masks simp del: and_low_masks push_bit_and)
  show "0 \<le> dword_parity d XOR 15 \<and> dword_parity d XOR 15 < 2 ^ 4"
    by (rule bits_bound) (auto simp: bit_xor_iff bit_dword_parity bit_15)
qed

lemma payload_byte_en_length [simp]: "length (payload_byte_en a b ds) = length ds"
  by (cases ds rule: rev_cases; cases ds) (auto simp: payload_byte_en_def)

lemma payload_byte_en_range: "set (payload_byte_en a b ds) \<subseteq> {a, b, 15}"
  by (auto simp: payload_byte_en_def split: if_splits)

lemma pack_us_cq_frame:
  assumes "us_cq_ok u"
  obtains f where "pack_us_cq u = Inr f" "frame_fits cq_if (tw = 512) f" "received cq_if cq_hdr tw uw f = f"
    "unpack_us_cq f True TLP_us = Inr (cq_part u)"
proof -
  let ?t = "us_tlp u"
  have wf: "us_req_wf ?t" using assms by (simp add: us_cq_ok_def)
  obtain r ft where r: "req_type_of (fmt_type ?t) = r" "0 \<le> r" "r < 4" using req_type_wf [OF wf] by metis
  define f where "f = update_parity (USPcieFrame\<lparr>
       fr_data := address_words ?t @ [request_word ?t r, cq_word3 u] @ tlp_data ?t,
       fr_first_be := tlp_first_be ?t, fr_last_be := tlp_last_be ?t, fr_discontinue := us_discontinue u,
       fr_byte_en := replicate 4 0 @ payload_byte_en (tlp_first_be ?t) (tlp_last_be ?t) (tlp_data ?t)\<rparr>)"
  have pk: "pack_us_cq u = Inr f"
    using wf by (simp only: pack_us_cq_def us_req_wf_def Let_def f_def r option.sel if_True)
  have be: "tlp_first_be ?t \<in> {0..<16}" "tlp_last_be ?t \<in> {0..<16}" "\<forall>x\<in>set (tlp_data ?t). 0 \<le> x \<and> x < 2 ^ 32"
    using assms by (simp_all add: us_cq_ok_def)
  have sel: "fr_data f = address_words ?t @ [request_word ?t r, cq_word3 u] @ tlp_data ?t"
    "fr_parity f = map (\<lambda>d. dword_parity d XOR 0xf) (fr_data f)"
    "fr_byte_en f = replicate 4 0 @ payload_byte_en (tlp_first_be ?t) (tlp_last_be ?t) (tlp_data ?t)"
    by (simp_all add: f_def update_parity_def)
  have "\<forall>x\<in>set (fr_data f). 0 \<le> x \<and> x < 2 ^ 32"
    unfolding sel(1) using be(3) cq_words_bound(1-3) [OF r(2,3)] by (simp add: ball_Un)
  moreover have "\<forall>x\<in>set (fr_parity f). 0 \<le> x \<and> x < 2 ^ 4" unfolding sel(2) using cq_words_bound(4) [OF r(2,3)] by simp
  moreover have "\<forall>x\<in>set (fr_byte_en f). 0 \<le> x \<and> x < 2 ^ 4"
    unfolding sel(3) using be payload_byte_en_range [of "tlp_first_be ?t" "tlp_last_be ?t" "tlp_data ?t"] by auto
  moreover have "length (fr_byte_en f) = length (fr_data f)" by (simp add: sel(1,3) address_words_def)
  ultimately have "frame_fits cq_if (tw = 512) f" by (simp add: frame_fits_def sel(1,2))
  moreover have "received cq_if cq_hdr tw uw f = f"
    using be and_mask_int [of "tlp_first_be ?t" 4] and_mask_int [of "tlp_last_be ?t" 4]
    by (simp add: received_def cq_hdr_def payload_be_def cq_if_def f_def update_parity_def USPcieFrame_def)
  moreover have "unpack_us_cq f True TLP_us = Inr (cq_part u)"
    using us_cq_pack [of u] assms by (simp add: pk us_cq_ok_def)
  ultimately show thesis using that pk by blast
qed

lemma pack_us_cq_frames:
  assumes "\<forall>u\<in>set us. us_cq_ok u"
  shows "\<exists>fs. mapE pack_us_cq us = Inr fs \<and> (\<forall>f\<in>set fs. frame_fits cq_if (tw = 512) f) \<and>
    map (received cq_if cq_hdr tw uw) fs = fs \<and> mapE (\<lambda>f. unpack_us_cq f True TLP_us) fs = Inr (map cq_part us)"
  using assms
proof (induction us)
  case (Cons u us)
  then obtain fs where "mapE pack_us_cq us = Inr fs" "\<forall>f\<in>set fs. frame_fits cq_if (tw = 512) f"
    "map (received cq_if cq_hdr tw uw) fs = fs" "mapE (\<lambda>f. unpack_us_cq f True TLP_us) fs = Inr (map cq_part us)" by auto
  moreover obtain f where "pack_us_cq u = Inr f" "frame_fits cq_if (tw = 512) f" "received cq_if cq_hdr tw uw f = f"
    "unpack_us_cq f True TLP_us = Inr (cq_part u)"
    using pack_us_cq_frame Cons.prems by (metis list.set_intros(1))
  ultimately show ?case by (intro exI [of _ "f # fs"]) simp
qed simp

text \<open>
  C13. Requests reach the user logic: when requests that fit are packed and sent over the completer request interface, whatever
  has happened on it so far, finitely many clock edges without pauses bring the sink to hold frames that unpack, with byte
  enables and parity checked, to exactly these requests in this order.
\<close>

theorem us_requests_delivered:
  assumes "\<forall>u\<in>set us. us_cq_ok u" "mapE pack_us_cq us = Inr fs" "widths_ok cq_if tw kw uw" "us_run cq_if tw kw uw fs got st"
  shows "\<exists>m st'. link_edges cq_if tw kw uw m st = Inr st' \<and>
    mapE (\<lambda>f. unpack_us_cq f True TLP_us) (got @ snk_queue (snd st')) = Inr (map cq_part us)"
  using cq.run_delivers [OF assms(3,4)] pack_us_cq_frames [OF assms(1), of tw uw] assms(2) by auto

theorem us_requests_delivered_witness:
  "\<exists>fs m st'. mapE pack_us_cq [us_sample] = Inr fs \<and> link_edges cq_if 256 8 88 m (fold src_send fs UsSource, UsSink) = Inr st' \<and>
    mapE (\<lambda>f. unpack_us_cq f True TLP_us) ([] @ snk_queue (snd st')) = Inr (map cq_part [us_sample])"
proof -
  have ok: "\<forall>u\<in>set [us_sample]. us_cq_ok u"
    by (simp add: us_cq_ok_def us_sample_def TLP_us_def us_req_wf_def id_wf_def tlp_kind_defs)
  then obtain f where f: "mapE pack_us_cq [us_sample] = Inr [f]" using pack_us_cq_frame [of us_sample 64 85] by auto
  have "us_run cq_if 256 8 88 [f] [] (src_send f UsSource, UsSink)"
    using us_run.send [OF us_run.start] by fastforce
  moreover have "widths_ok cq_if 256 8 88" by (simp add: widths_ok_def cq_if_def)
  ultimately show ?thesis using us_requests_delivered [OF ok f] f by fastforce
qed

section \<open>The queues are well typed\<close>

text \<open>The queues hold packets of the kinds that their interface carries.\<close>

definition us_typed :: "'a us_dev \<Rightarrow> bool" where
  "us_typed d \<longleftrightarrow>
     (\<forall>u\<in>set (cq_queue d) \<union> set (cq_np_queue d). is_io (us_tlp u) \<or>
        fmt_type (us_tlp u) \<in> {TLP_MEM_READ, TLP_MEM_READ_64, TLP_MEM_WRITE, TLP_MEM_WRITE_64}) \<and>
     (\<forall>u\<in>set (rc_queue d). is_cpl (us_tlp u))"

lemma pack_us_cq_total:
  "is_io (us_tlp u) \<or> fmt_type (us_tlp u) \<in> {TLP_MEM_READ, TLP_MEM_READ_64, TLP_MEM_WRITE, TLP_MEM_WRITE_64} \<Longrightarrow>
   \<exists>f. pack_us_cq u = Inr f"
  unfolding pack_us_cq_def Let_def by simp

lemma send_np_total:
  "\<forall>u\<in>set us. \<exists>f. pack_us_cq u = Inr f \<Longrightarrow> \<exists>np c' s'. send_np us c s = Inr (np, c', s') \<and> set np \<subseteq> set us"
proof (induction us arbitrary: c s)
  case (Cons u us)
  then obtain f where f: "pack_us_cq u = Inr f" by auto
  show ?case using Cons.IH [of "c - 1" "src_send f s"] Cons.prems f by (fastforce simp: subset_insertI2)
qed simp

lemma send_new_total:
  "\<forall>u\<in>set us. \<exists>f. pack_us_cq u = Inr f \<Longrightarrow> \<exists>np' c' s'. send_new us np c s = Inr (np', c', s') \<and> set np' \<subseteq> set np \<union> set us"
proof (induction us arbitrary: np c s)
  case (Cons u us)
  then obtain f where f: "pack_us_cq u = Inr f" by auto
  show ?case
    using Cons.IH [of np "c - 1" "src_send f s"] Cons.IH [of "np @ [u]" c s] Cons.IH [of np c "src_send f s"] Cons.prems f
    by (fastforce simp: subset_insertI2)
qed simp

lemma rc_loop_total: "\<forall>u\<in>set us. is_cpl (us_tlp u) \<Longrightarrow> \<exists>s'. rc_loop us s = Inr s'"
  by (induction us arbitrary: s) (simp_all add: pack_us_rc_def Let_def)

lemma fmt_type_completer [simp]: "fmt_type (t\<lparr>tlp_completer_id := i\<rparr>) = fmt_type t" "fmt_type (t\<lparr>tlp_th := v\<rparr>) = fmt_type t"
  "is_io (t\<lparr>tlp_completer_id := i\<rparr>) = is_io t" "is_io (t\<lparr>tlp_th := v\<rparr>) = is_io t" "is_cpl (t\<lparr>tlp_th := v\<rparr>) = is_cpl t"
  by (simp_all add: tlp_kind_defs)

lemma on_device_typed: "on_device g d = Inr (d', out) \<Longrightarrow> us_typed d' = us_typed d"
  by (auto simp: on_device_def us_typed_def)

lemma recv_completion_typed: "us_typed d \<Longrightarrow> is_cpl t \<Longrightarrow> us_typed (us_recv_completion t d)"
  unfolding us_recv_completion_def Let_def by (simp add: us_typed_def TLP_copy_def TLP_us_def)

lemma recv_typed:
  assumes t: "us_typed d" and r: "us_upstream_recv log2 run t d = Inr (d', out)"
  shows "us_typed d'"
proof -
  consider "fmt_type t \<in> {TLP_CFG_READ_0, TLP_CFG_WRITE_0}" | "fmt_type t \<notin> {TLP_CFG_READ_0, TLP_CFG_WRITE_0}" "is_cpl t"
    | "fmt_type t \<notin> {TLP_CFG_READ_0, TLP_CFG_WRITE_0}" "\<not> is_cpl t" by blast
  then show ?thesis
  proof cases
    case 1
    have "us_typed (d\<lparr>us_device := b\<rparr>)" for b using t by (simp add: us_typed_def)
    then show ?thesis
      using r 1 t by (auto simp: us_upstream_recv_def us_recv_config_def Let_def split: if_splits dest!: on_device_typed)
  next
    case 2
    then show ?thesis using r recv_completion_typed [OF t] by (auto simp: us_upstream_recv_def Let_def)
  next
    case 3
    have q: "us_typed (queue_request t f b ap d)"
      if "is_io t \<or> fmt_type t \<in> {TLP_MEM_READ, TLP_MEM_READ_64, TLP_MEM_WRITE, TLP_MEM_WRITE_64}" for f :: "'a func_scheme" and b ap
      using t that by (auto simp: us_typed_def queue_request_def TLP_copy_def TLP_us_def)
    then show ?thesis
      using r 3 t by (auto simp: us_upstream_recv_def Let_def split: if_splits option.splits dest!: on_device_typed)
  qed
qed

text \<open>
  C17. The device never meets a packet that an interface cannot carry: its queues start out with packets of the right kinds,
  every packet from the link keeps them so, and in such a state the processing of completer requests and of requester
  completions at a clock edge never raises an exception and keeps the queues well typed.
\<close>

theorem us_queues_typed:
  assumes "us_typed d"
  shows "(us_upstream_recv log2 run t d = Inr (d1, out) \<longrightarrow> us_typed d1) \<and>
    (\<exists>d2. cq_edge sys_reset np_req d = Inr d2 \<and> us_typed d2) \<and> (\<exists>d3. rc_edge d = Inr d3 \<and> us_typed d3)"
proof (intro conjI impI)
  assume "us_upstream_recv log2 run t d = Inr (d1, out)"
  then show "us_typed d1" using recv_typed [OF assms] by blast
next
  have p: "\<forall>u\<in>set (cq_queue d) \<union> set (cq_np_queue d). \<exists>f. pack_us_cq u = Inr f"
    using assms pack_us_cq_total by (simp add: us_typed_def)
  obtain np c s where "send_np (cq_np_queue d) (np_credit sys_reset np_req (cq_np_req_count d)) (cq_source d) = Inr (np, c, s)"
    "set np \<subseteq> set (cq_np_queue d)" using send_np_total p by blast
  moreover obtain np' c' s' where "send_new (cq_queue d) np c s = Inr (np', c', s')" "set np' \<subseteq> set np \<union> set (cq_queue d)"
    using send_new_total p by (metis UnI1)
  ultimately show "\<exists>d2. cq_edge sys_reset np_req d = Inr d2 \<and> us_typed d2"
    using assms by (fastforce simp: cq_edge_def us_typed_def)
next
  show "\<exists>d3. rc_edge d = Inr d3 \<and> us_typed d3"
    using assms rc_loop_total [of "rc_queue d" "rc_source d"] by (auto simp: rc_edge_def us_typed_def)
qed

theorem us_queues_typed_witness:
  "us_typed us_dev_sample \<and> (\<exists>d2. cq_edge True True us_dev_sample = Inr d2 \<and> us_typed d2)"
proof -
  have "us_typed us_dev_sample"
    by (simp add: us_typed_def us_dev_sample_def us_dev_init_def us_sample_def TLP_us_def tlp_kind_defs)
  then show ?thesis using us_queues_typed by blast
qed

section \<open>Capabilities and error codes\<close>

definition cap_layout :: "endpoint res \<Rightarrow> (int \<times> int \<times> int option) list res" where
  "cap_layout r = bindE r (\<lambda>f. Inr ((0, cap_ptr f, None) # map (\<lambda>c. (cap_id c, cap_offset c * 4, next_cap c)) (caps (capabilities f))))"

text \<open>
  The constructors of the functions of the two hard blocks succeed and lay the four capabilities out at the configured
  offsets, linked in this order: power management, MSI, MSI-X, PCI Express.
\<close>

theorem us_function_caps:
  "cap_layout UltrascalePCIeFunction = Inr [(0, 0x80, None), (PM_CAP_ID, 0x80, Some 0x90), (MSI_CAP_ID, 0x90, Some 0xb0),
     (MSIX_CAP_ID, 0xb0, Some 0xc0), (PCIE_CAP_ID, 0xc0, Some 0)] \<and>
   cap_layout UltrascalePlusPCIeFunction = Inr [(0, 0x40, None), (PM_CAP_ID, 0x40, Some 0x48), (MSI_CAP_ID, 0x48, Some 0x60),
     (MSIX_CAP_ID, 0x60, Some 0x70), (PCIE_CAP_ID, 0x70, Some 0)]"
  by code_simp

text \<open>
  A completion with an error status is presented to the user logic as a normal termination: the status goes to the attribute
  \<open>error\<close>, and the error field (bits 12 to 15) of the requester completion descriptor made from the queued packet is 0.
\<close>

lemma rc_no_error:
  assumes "us_error_code u = RC_ERROR_NORMAL_TERMINATION"
  shows "drop_bit 12 (cpl_word0 u ((tlp_lower_address t AND 0xfff) OR push_bit 12 (us_error_code u AND 0xf))) AND 0xf = 0"
proof (rule bit_eqI)
  fix i
  have "bit (0xf::int) i \<longleftrightarrow> i < 4" using bit_field [of 0 4 i] by simp
  moreover have "\<not> bit (0xfff::int) (12 + i)" by (simp only: field_bits)
  moreover have "bit (0x20000000::int) (12 + i) \<Longrightarrow> 4 \<le> i" using bit_field [of 29 1 "12 + i"] by (simp add: push_bit_eq_mult)
  ultimately show "bit (drop_bit 12 (cpl_word0 u ((tlp_lower_address t AND 0xfff) OR push_bit 12 (us_error_code u AND 0xf))) AND 0xf) i
      \<longleftrightarrow> bit (0::int) i"
    using assms by (auto simp: cpl_word0_def bit_and_iff bit_or_iff bit_drop_bit_eq bit_push_bit_iff_int simp del: and_low_masks)
qed

theorem us_bad_status_lost:
  assumes "is_cpl t" "tlp_status t \<noteq> CPL_STATUS_SC" "tlp_requester_id t = dev_id (us_device d) fn"
    "fn \<in> set (map function_num (dev_functions (us_device d)))"
  shows "\<exists>d' u f. us_upstream_recv log2 run t d = Inr (d', []) \<and> rc_queue d' = rc_queue d @ [u] \<and>
    us_error u = Some RC_ERROR_BAD_STATUS \<and> pack_us_rc u = Inr f \<and> drop_bit 12 (fr_data f ! 0) AND 0xf = RC_ERROR_NORMAL_TERMINATION"
proof -
  let ?u = "TLP_us\<lparr>us_tlp := TLP_copy t, us_error_code := RC_ERROR_NORMAL_TERMINATION, us_error := Some RC_ERROR_BAD_STATUS\<rparr>"
  have "fmt_type t \<notin> {TLP_CFG_READ_0, TLP_CFG_WRITE_0}" using assms(1) by (auto simp: tlp_kind_defs)
  then have "us_upstream_recv log2 run t d = Inr (d\<lparr>rc_queue := rc_queue d @ [?u]\<rparr>, [])"
    using assms by (simp add: us_upstream_recv_def us_recv_completion_def dev_id_def PcieId_def)
  moreover have "is_cpl (TLP_copy t)" using assms(1) by (simp add: TLP_copy_def tlp_kind_defs)
  then obtain f where f: "pack_us_rc ?u = Inr f"
      "fr_data f ! 0 = cpl_word0 ?u ((tlp_lower_address (TLP_copy t) AND 0xfff) OR push_bit 12 (us_error_code ?u AND 0xf))"
    by (simp add: pack_us_rc_def update_parity_def Let_def)
  moreover have "drop_bit 12 (fr_data f ! 0) AND 0xf = 0" unfolding f(2) by (rule rc_no_error) simp
  ultimately show ?thesis by (intro exI [of _ "d\<lparr>rc_queue := rc_queue d @ [?u]\<rparr>"] exI [of _ ?u] exI [of _ f]) simp
qed

text \<open>The read completion boundary that the block reports for its second function is that of the first.\<close>

theorem us_rcb_status_second:
  "us_rcb_status (f # g # fs) = Inr (if read_completion_boundary (link_ctl (pcie f)) then 3 else 0)"
  by (simp add: us_rcb_status_def nth_res_def Let_def)

end
