(* ===== verification/Mqnic_Ring.thy ===== *)
theory Mqnic_Ring
  imports Pcie_RootComplex
begin

unbundle bit_operations_syntax

text \<open>
  The rings and packet buffers of the driver model \<open>common/tb/mqnic.py\<close>: the classes \<open>EqRing\<close>, \<open>CqRing\<close>, \<open>TxRing\<close> and
  \<open>RxRing\<close>, and \<open>alloc_pkt\<close> and \<open>free_pkt\<close> of the class \<open>Driver\<close>.

  A ring is a record; its methods take the ring and return the changed one, in the state monad over the host
  or, where packet buffers move, over the pool of packet buffers and the host. The root complex that the driver
  talks to is the parameter \<open>host\<close>.
\<close>

section \<open>The host\<close>

text \<open>What the driver uses of the root complex of the PCIe library. A buffer that \<open>alloc_region\<close> returns is
  named by its DMA address. \<open>h_buf_read b off n\<close> and \<open>h_buf_write b off bs\<close> are the accesses of \<open>struct.unpack_from\<close>,
  \<open>struct.pack_into\<close> and slice assignment to such a buffer.\<close>

record 'e host =
  h_alloc_region :: "int \<Rightarrow> ('e, int) stm"
  h_mem_read_dword :: "int \<Rightarrow> ('e, int) stm"
  h_mem_write_dword :: "int \<Rightarrow> int \<Rightarrow> ('e, unit) stm"
  h_mem_read :: "int \<Rightarrow> int \<Rightarrow> ('e, unit) stm"
  h_msi_register_callback :: "pcie_id \<Rightarrow> int \<Rightarrow> ('e, unit) stm"
  h_buf_read :: "int \<Rightarrow> nat \<Rightarrow> nat \<Rightarrow> ('e, byte list) stm"
  h_buf_write :: "int \<Rightarrow> nat \<Rightarrow> byte list \<Rightarrow> ('e, unit) stm"

definition write_regs :: "'e host \<Rightarrow> int \<Rightarrow> (int \<times> int) list \<Rightarrow> ('e, unit) stm" where
  "write_regs h base ws = foldS (\<lambda>(r, v) _. h_mem_write_dword h (base + r) v) ws ()"

definition unpack_H :: "nat \<Rightarrow> byte list \<Rightarrow> int" where
  "unpack_H k bs = le_int (slice k (k + 2) bs)"

section \<open>Registers\<close>

abbreviation (input) "MQNIC_QUEUE_BASE_ADDR_REG \<equiv> 0x00 :: int"
abbreviation (input) "MQNIC_QUEUE_ACTIVE_LOG_SIZE_REG \<equiv> 0x08 :: int"
abbreviation (input) "MQNIC_QUEUE_CPL_QUEUE_INDEX_REG \<equiv> 0x0c :: int"
abbreviation (input) "MQNIC_QUEUE_HEAD_PTR_REG \<equiv> 0x10 :: int"
abbreviation (input) "MQNIC_QUEUE_TAIL_PTR_REG \<equiv> 0x18 :: int"
abbreviation (input) "MQNIC_QUEUE_ACTIVE_MASK \<equiv> 0x80000000 :: int"
abbreviation (input) "MQNIC_CPL_QUEUE_INTERRUPT_INDEX_REG \<equiv> 0x0c :: int"
abbreviation (input) "MQNIC_CPL_QUEUE_CPU_MSG_REG \<equiv> 0x1c :: int"
abbreviation (input) "MQNIC_CPL_QUEUE_ARM_MASK \<equiv> 0x80000000 :: int"
abbreviation (input) "MQNIC_DESC_SIZE \<equiv> 16 :: nat"
abbreviation (input) "MQNIC_CPL_SIZE \<equiv> 32 :: nat"
abbreviation (input) "MQNIC_EVENT_SIZE \<equiv> 32 :: nat"
abbreviation (input) "QUEUE_SIZE \<equiv> 32 :: nat"

text \<open>All pointer registers have 16 bits; the driver keeps the pointers as unbounded counters.\<close>

definition hw_ptr_mask :: int where
  "hw_ptr_mask = 0xffff"

definition advance_ptr :: "int \<Rightarrow> int \<Rightarrow> int" where
  "advance_ptr ptr val = ptr + ((val - ptr) AND hw_ptr_mask)"

section \<open>Packet buffers\<close>

record pool =
  allocated_packets :: "int list"
  free_packets :: "int list"

type_synonym 'e drv = "pool \<times> 'e"

definition on_env :: "('e, 'a) stm \<Rightarrow> ('e drv, 'a) stm" where
  "on_env m = (\<lambda>(p, e). bindE (m e) (\<lambda>(x, e'). Inr (x, (p, e'))))"

definition pkt_buf_size :: nat where
  "pkt_buf_size = 16384"

definition alloc_pkt :: "'e host \<Rightarrow> ('e drv, int) stm" where
  "alloc_pkt h = (\<lambda>(p, e).
     case free_packets p of
       x # xs \<Rightarrow> Inr (x, (p\<lparr>free_packets := xs\<rparr>, e))
     | [] \<Rightarrow> bindE (h_alloc_region h (int pkt_buf_size) e) (\<lambda>(x, e').
         Inr (x, (p\<lparr>allocated_packets := allocated_packets p @ [x]\<rparr>, e'))))"

definition free_pkt :: "int option \<Rightarrow> ('e drv, unit) stm" where
  "free_pkt pkt = (\<lambda>(p, e).
     case pkt of
       None \<Rightarrow> Inl AssertionError
     | Some x \<Rightarrow> if x \<in> set (allocated_packets p) then Inr ((), (p\<lparr>free_packets := free_packets p @ [x]\<rparr>, e))
                 else Inl AssertionError)"

section \<open>Event and completion rings\<close>

text \<open>\<open>EqRing\<close> and \<open>CqRing\<close>. A size is a positive number. \<open>cq_buf\<close> is the buffer that \<open>init\<close> allocates.\<close>

record cring =
  cq_log_size :: nat
  cq_size :: int
  cq_size_mask :: int
  cq_stride :: nat
  cq_index :: nat
  cq_interrupt_index :: int
  cq_ring_index :: nat
  cq_head_ptr :: int
  cq_tail_ptr :: int
  cq_hw_addr :: int
  cq_buf :: "int option"

definition EqRing :: "nat \<Rightarrow> nat \<Rightarrow> nat \<Rightarrow> int \<Rightarrow> cring" where
  "EqRing sz stride index hw_addr =
     (let l = bit_length sz - 1
      in \<lparr>cq_log_size = l, cq_size = 2 ^ l, cq_size_mask = 2 ^ l - 1, cq_stride = stride, cq_index = index,
          cq_interrupt_index = 0, cq_ring_index = 0, cq_head_ptr = 0, cq_tail_ptr = 0, cq_hw_addr = hw_addr,
          cq_buf = None\<rparr>)"

definition eq_init :: "'e host \<Rightarrow> cring \<Rightarrow> ('e, cring) stm" where
  "eq_init h q =
     bindS (h_alloc_region h (cq_size q * int (cq_stride q))) (\<lambda>buf.
     bindS (write_regs h (cq_hw_addr q)
       [(MQNIC_QUEUE_ACTIVE_LOG_SIZE_REG, 0), (MQNIC_QUEUE_BASE_ADDR_REG, buf AND 0xffffffff),
        (MQNIC_QUEUE_BASE_ADDR_REG + 4, drop_bit 32 buf), (MQNIC_CPL_QUEUE_INTERRUPT_INDEX_REG, 0),
        (MQNIC_QUEUE_HEAD_PTR_REG, cq_head_ptr q AND hw_ptr_mask),
        (MQNIC_QUEUE_TAIL_PTR_REG, cq_tail_ptr q AND hw_ptr_mask),
        (MQNIC_QUEUE_ACTIVE_LOG_SIZE_REG, int (cq_log_size q))]) (\<lambda>_. retS (q\<lparr>cq_buf := Some buf\<rparr>)))"

definition eq_activate :: "'e host \<Rightarrow> int \<Rightarrow> cring \<Rightarrow> ('e, cring) stm" where
  "eq_activate h int_index q =
     bindS (write_regs h (cq_hw_addr q)
       [(MQNIC_QUEUE_ACTIVE_LOG_SIZE_REG, 0), (MQNIC_CPL_QUEUE_INTERRUPT_INDEX_REG, int_index),
        (MQNIC_QUEUE_HEAD_PTR_REG, cq_head_ptr q AND hw_ptr_mask),
        (MQNIC_QUEUE_TAIL_PTR_REG, cq_tail_ptr q AND hw_ptr_mask),
        (MQNIC_QUEUE_ACTIVE_LOG_SIZE_REG, int (cq_log_size q) OR MQNIC_QUEUE_ACTIVE_MASK)])
       (\<lambda>_. retS (q\<lparr>cq_interrupt_index := int_index\<rparr>))"

definition eq_deactivate :: "'e host \<Rightarrow> cring \<Rightarrow> ('e, unit) stm" where
  "eq_deactivate h q = write_regs h (cq_hw_addr q)
     [(MQNIC_QUEUE_ACTIVE_LOG_SIZE_REG, int (cq_log_size q)), (MQNIC_CPL_QUEUE_INTERRUPT_INDEX_REG, cq_interrupt_index q)]"

definition eq_empty :: "cring \<Rightarrow> bool" where
  "eq_empty q \<longleftrightarrow> cq_head_ptr q = cq_tail_ptr q"

definition eq_full :: "cring \<Rightarrow> bool" where
  "eq_full q \<longleftrightarrow> cq_head_ptr q - cq_tail_ptr q \<ge> cq_size q"

definition eq_read_head_ptr :: "'e host \<Rightarrow> cring \<Rightarrow> ('e, cring) stm" where
  "eq_read_head_ptr h q =
     bindS (h_mem_read_dword h (cq_hw_addr q + MQNIC_QUEUE_HEAD_PTR_REG)) (\<lambda>val.
       retS (q\<lparr>cq_head_ptr := advance_ptr (cq_head_ptr q) val\<rparr>))"

definition eq_write_tail_ptr :: "'e host \<Rightarrow> cring \<Rightarrow> ('e, unit) stm" where
  "eq_write_tail_ptr h q =
     h_mem_write_dword h (cq_hw_addr q + MQNIC_QUEUE_TAIL_PTR_REG) (cq_tail_ptr q AND hw_ptr_mask)"

definition eq_arm :: "'e host \<Rightarrow> cring \<Rightarrow> ('e, unit) stm" where
  "eq_arm h q = h_mem_write_dword h (cq_hw_addr q + MQNIC_CPL_QUEUE_INTERRUPT_INDEX_REG)
     (cq_interrupt_index q OR MQNIC_CPL_QUEUE_ARM_MASK)"

text \<open>A completion ring has the registers of an event ring at the same offsets and one more, for messages to
  the scheduler of the host's threads.\<close>

definition CqRing :: "nat \<Rightarrow> nat \<Rightarrow> nat \<Rightarrow> int \<Rightarrow> cring" where
  "CqRing = EqRing"

definition cq_init :: "'e host \<Rightarrow> cring \<Rightarrow> ('e, cring) stm" where
  "cq_init = eq_init"

definition cq_activate :: "'e host \<Rightarrow> int \<Rightarrow> cring \<Rightarrow> ('e, cring) stm" where
  "cq_activate h int_index q =
     bindS (eq_activate h int_index q) (\<lambda>q.
     bindS (write_regs h (cq_hw_addr q)
       [(MQNIC_CPL_QUEUE_CPU_MSG_REG, 17), (MQNIC_CPL_QUEUE_CPU_MSG_REG, 3), (MQNIC_CPL_QUEUE_CPU_MSG_REG, 19)])
       (\<lambda>_. retS q))"

definition cq_deactivate :: "'e host \<Rightarrow> cring \<Rightarrow> ('e, unit) stm" where
  "cq_deactivate = eq_deactivate"

definition cq_read_head_ptr :: "'e host \<Rightarrow> cring \<Rightarrow> ('e, cring) stm" where
  "cq_read_head_ptr = eq_read_head_ptr"

definition task_feedback :: "'e host \<Rightarrow> int \<Rightarrow> cring \<Rightarrow> ('e, unit) stm" where
  "task_feedback h num q = h_mem_write_dword h (cq_hw_addr q + MQNIC_CPL_QUEUE_CPU_MSG_REG)
     ((push_bit 16 num AND 0xffffffff) OR (push_bit 4 1 AND 0xffffffff) OR 5)"

definition cq_write_tail_ptr :: "'e host \<Rightarrow> cring \<Rightarrow> ('e, unit) stm" where
  "cq_write_tail_ptr = eq_write_tail_ptr"

definition cq_arm :: "'e host \<Rightarrow> cring \<Rightarrow> ('e, unit) stm" where
  "cq_arm = eq_arm"

text \<open>The entry of the ring at a pointer; before \<open>init\<close> there is no buffer.\<close>

definition ring_entry :: "'e host \<Rightarrow> cring \<Rightarrow> int \<Rightarrow> nat \<Rightarrow> ('e, byte list) stm" where
  "ring_entry h q ptr n =
     (case cq_buf q of None \<Rightarrow> errS AttributeError
      | Some buf \<Rightarrow> h_buf_read h buf (nat (ptr AND cq_size_mask q) * cq_stride q) n)"

section \<open>Transmit and receive rings\<close>

text \<open>\<open>TxRing\<close> and \<open>RxRing\<close>; \<open>dr_info\<close> is \<open>tx_info\<close> or \<open>rx_info\<close>, the packet buffer of each entry.\<close>

record dring =
  dr_log_queue_size :: nat
  dr_log_desc_block_size :: nat
  dr_desc_block_size :: nat
  dr_size :: int
  dr_size_mask :: int
  dr_full_size :: int
  dr_stride :: nat
  dr_index :: nat
  dr_cpl_index :: int
  dr_head_ptr :: int
  dr_tail_ptr :: int
  dr_clean_tail_ptr :: int
  dr_packets :: nat
  dr_bytes :: nat
  dr_hw_addr :: int
  dr_info :: "int option list"
  dr_buf :: "int option"

definition TxRing :: "nat \<Rightarrow> nat \<Rightarrow> nat \<Rightarrow> int \<Rightarrow> dring" where
  "TxRing sz stride index hw_addr =
     (let l = bit_length sz - 1; b = bit_length (stride div MQNIC_DESC_SIZE) - 1
      in \<lparr>dr_log_queue_size = l, dr_log_desc_block_size = b, dr_desc_block_size = 2 ^ b, dr_size = 2 ^ l,
          dr_size_mask = 2 ^ l - 1, dr_full_size = drop_bit 1 (2 ^ l), dr_stride = stride, dr_index = index,
          dr_cpl_index = 0, dr_head_ptr = 0, dr_tail_ptr = 0, dr_clean_tail_ptr = 0, dr_packets = 0, dr_bytes = 0,
          dr_hw_addr = hw_addr, dr_info = [], dr_buf = None\<rparr>)"

definition tx_ring_init :: "'e host \<Rightarrow> dring \<Rightarrow> ('e, dring) stm" where
  "tx_ring_init h r =
     bindS (h_alloc_region h (dr_size r * int (dr_stride r))) (\<lambda>buf.
     bindS (write_regs h (dr_hw_addr r)
       [(MQNIC_QUEUE_ACTIVE_LOG_SIZE_REG, 0), (MQNIC_QUEUE_BASE_ADDR_REG, buf AND 0xffffffff),
        (MQNIC_QUEUE_BASE_ADDR_REG + 4, drop_bit 32 buf), (MQNIC_QUEUE_CPL_QUEUE_INDEX_REG, 0),
        (MQNIC_QUEUE_HEAD_PTR_REG, dr_head_ptr r AND hw_ptr_mask),
        (MQNIC_QUEUE_TAIL_PTR_REG, dr_tail_ptr r AND hw_ptr_mask),
        (MQNIC_QUEUE_ACTIVE_LOG_SIZE_REG, int (dr_log_queue_size r) OR push_bit 8 (int (dr_log_desc_block_size r)))])
       (\<lambda>_. retS (r\<lparr>dr_info := replicate (nat (dr_size r)) None, dr_buf := Some buf\<rparr>)))"

definition tx_activate :: "'e host \<Rightarrow> int \<Rightarrow> dring \<Rightarrow> ('e, dring) stm" where
  "tx_activate h cpl_index r =
     bindS (write_regs h (dr_hw_addr r)
       [(MQNIC_QUEUE_ACTIVE_LOG_SIZE_REG, 0), (MQNIC_QUEUE_CPL_QUEUE_INDEX_REG, cpl_index),
        (MQNIC_QUEUE_HEAD_PTR_REG, dr_head_ptr r AND hw_ptr_mask),
        (MQNIC_QUEUE_TAIL_PTR_REG, dr_tail_ptr r AND hw_ptr_mask),
        (MQNIC_QUEUE_ACTIVE_LOG_SIZE_REG,
         int (dr_log_queue_size r) OR push_bit 8 (int (dr_log_desc_block_size r)) OR MQNIC_QUEUE_ACTIVE_MASK)])
       (\<lambda>_. retS (r\<lparr>dr_cpl_index := cpl_index\<rparr>))"

definition tx_deactivate :: "'e host \<Rightarrow> dring \<Rightarrow> ('e, unit) stm" where
  "tx_deactivate h r = write_regs h (dr_hw_addr r)
     [(MQNIC_QUEUE_ACTIVE_LOG_SIZE_REG, int (dr_log_queue_size r) OR push_bit 8 (int (dr_log_desc_block_size r)))]"

definition tx_empty :: "dring \<Rightarrow> bool" where
  "tx_empty r \<longleftrightarrow> dr_head_ptr r = dr_clean_tail_ptr r"

definition tx_full :: "dring \<Rightarrow> bool" where
  "tx_full r \<longleftrightarrow> dr_head_ptr r - dr_clean_tail_ptr r \<ge> dr_full_size r"

definition read_tail_ptr :: "'e host \<Rightarrow> dring \<Rightarrow> ('e, dring) stm" where
  "read_tail_ptr h r =
     bindS (h_mem_read_dword h (dr_hw_addr r + MQNIC_QUEUE_TAIL_PTR_REG)) (\<lambda>val.
       retS (r\<lparr>dr_tail_ptr := advance_ptr (dr_tail_ptr r) val\<rparr>))"

definition write_head_ptr :: "'e host \<Rightarrow> dring \<Rightarrow> ('e, unit) stm" where
  "write_head_ptr h r =
     h_mem_write_dword h (dr_hw_addr r + MQNIC_QUEUE_HEAD_PTR_REG) (dr_head_ptr r AND hw_ptr_mask)"

definition slot :: "dring \<Rightarrow> int \<Rightarrow> nat" where
  "slot r ptr = nat (ptr AND dr_size_mask r)"

definition free_desc :: "nat \<Rightarrow> dring \<Rightarrow> ('e drv, dring) stm" where
  "free_desc index r =
     bindS (liftS (nth_res (dr_info r) index)) (\<lambda>pkt.
     bindS (free_pkt pkt) (\<lambda>_. retS (r\<lparr>dr_info := (dr_info r)[index := None]\<rparr>)))"

text \<open>The loop of \<open>free_buf\<close> ends: every round empties an entry, and an empty entry fails the assertion of
  \<open>free_pkt\<close>.\<close>

definition used :: "int option list \<Rightarrow> nat" where
  "used xs = length (filter (\<lambda>x. x \<noteq> None) xs)"

lemma used_clear: "i < length xs \<Longrightarrow> xs ! i \<noteq> None \<Longrightarrow> used (xs[i := None]) < used xs"
proof -
  assume i: "i < length xs" "xs ! i \<noteq> None"
  have "xs[i := None] = take i xs @ None # drop (Suc i) xs" using i(1) by (rule upd_conv_take_nth_drop)
  moreover have "xs = take i xs @ xs ! i # drop (Suc i) xs" using i(1) by (rule id_take_nth_drop)
  ultimately have "used (xs[i := None]) = used (take i xs) + used (drop (Suc i) xs)"
    "used xs = used (take i xs @ xs ! i # drop (Suc i) xs)" by (simp_all add: used_def)
  then show ?thesis using i(2) by (simp add: used_def)
qed

lemma free_desc_ok:
  "free_desc i r s = Inr (r', s') \<longleftrightarrow>
     (\<exists>x p e. i < length (dr_info r) \<and> dr_info r ! i = Some x \<and> s = (p, e) \<and> x \<in> set (allocated_packets p) \<and>
        s' = (p\<lparr>free_packets := free_packets p @ [x]\<rparr>, e) \<and> r' = r\<lparr>dr_info := (dr_info r)[i := None]\<rparr>)"
  by (cases s) (auto simp: free_desc_def bindS_def liftS_def nth_res_def free_pkt_def split: option.splits if_splits)

function free_buf :: "dring \<Rightarrow> 'e drv \<Rightarrow> (dring \<times> 'e drv) res" where
  "free_buf r s =
     (if tx_empty r then Inr (r, s)
      else bindS (free_desc (slot r (dr_clean_tail_ptr r)) r)
             (\<lambda>r s. free_buf (r\<lparr>dr_clean_tail_ptr := dr_clean_tail_ptr r + 1\<rparr>) s) s)"
  by pat_completeness auto
termination
  by (relation "measure (\<lambda>(r, s). used (dr_info r))") (auto simp: free_desc_ok used_clear)

declare free_buf.simps [simp del]

subsection \<open>Receive buffers\<close>

text \<open>The statements of \<open>RxRing\<close> that differ from those of \<open>TxRing\<close>: every entry gets a whole packet buffer, in
  segments of at most 4096 bytes and a last one with the rest.\<close>

definition seg_addr :: "int \<Rightarrow> nat \<Rightarrow> nat \<Rightarrow> int" where
  "seg_addr ptr off seg = (if seg = 0 then 0 else ptr + int off)"

definition rx_desc :: "nat \<Rightarrow> int \<Rightarrow> byte list res" where
  "rx_desc seg addr = bindE (pack_L 0) (\<lambda>a. bindE (pack_L (int seg)) (\<lambda>b. bindE (pack_Q addr) (\<lambda>c. Inr (a @ b @ c))))"

definition seg_length :: "nat \<Rightarrow> nat \<Rightarrow> nat \<Rightarrow> nat \<Rightarrow> nat" where
  "seg_length blocks len off k = (if k < blocks - 1 then min (len - off) 4096 else len - off)"

definition put_desc :: "'e host \<Rightarrow> dring \<Rightarrow> nat \<Rightarrow> nat \<Rightarrow> byte list res \<Rightarrow> ('e, unit) stm" where
  "put_desc h r index k d =
     (case dr_buf r of None \<Rightarrow> errS AttributeError
      | Some buf \<Rightarrow> bindS (liftS d) (\<lambda>bs. h_buf_write h buf (index * dr_stride r + k * MQNIC_DESC_SIZE) bs))"

definition put_index :: "nat \<Rightarrow> int \<Rightarrow> dring \<Rightarrow> dring res" where
  "put_index index pkt r =
     (if index < length (dr_info r) then Inr (r\<lparr>dr_info := (dr_info r)[index := Some pkt]\<rparr>) else Inl IndexError)"

definition prepare_desc :: "'e host \<Rightarrow> nat \<Rightarrow> dring \<Rightarrow> ('e drv, dring) stm" where
  "prepare_desc h index r =
     bindS (alloc_pkt h) (\<lambda>pkt.
     bindS (liftS (put_index index pkt r)) (\<lambda>r.
     bindS (on_env (foldS (\<lambda>k off.
       let seg = seg_length (dr_desc_block_size r) pkt_buf_size off k
       in bindS (put_desc h r index k (rx_desc seg (seg_addr pkt off seg))) (\<lambda>_. retS (off + seg)))
       [0..<dr_desc_block_size r] 0)) (\<lambda>_. retS r)))"

definition refill_buffers :: "'e host \<Rightarrow> dring \<Rightarrow> ('e drv, dring) stm" where
  "refill_buffers h r =
     (let missing = dr_size r - (dr_head_ptr r - dr_clean_tail_ptr r)
      in if missing < 8 then retS r
         else bindS (foldS (\<lambda>_ r. bindS (prepare_desc h (slot r (dr_head_ptr r)) r) (\<lambda>r.
                retS (r\<lparr>dr_head_ptr := dr_head_ptr r + 1\<rparr>))) [0..<nat missing] r) (\<lambda>r.
              bindS (on_env (write_head_ptr h r)) (\<lambda>_. retS r)))"

definition RxRing :: "nat \<Rightarrow> nat \<Rightarrow> nat \<Rightarrow> int \<Rightarrow> dring" where
  "RxRing = TxRing"

definition rx_ring_init :: "'e host \<Rightarrow> dring \<Rightarrow> ('e, dring) stm" where
  "rx_ring_init = tx_ring_init"

definition rx_activate :: "'e host \<Rightarrow> int \<Rightarrow> dring \<Rightarrow> ('e drv, dring) stm" where
  "rx_activate h cpl_index r = bindS (on_env (tx_activate h cpl_index r)) (refill_buffers h)"

end
