(* ===== verification/Mqnic_Interface.thy ===== *)
theory Mqnic_Interface
  imports Mqnic_Ring "HOL-Library.While_Combinator"
begin

unbundle bit_operations_syntax

text \<open>
  The classes \<open>Port\<close>, \<open>Interface\<close> and \<open>Driver\<close> of \<open>common/tb/mqnic.py\<close>: initialisation, opening and closing, the
  processing of completions, events and interrupts, transmission and reception.

  The methods of \<open>Interface\<close> take the interface and return the changed one; queues are named by their
  position. A coroutine runs to its end: what another coroutine or the device does in between is seen through
  the host, whose state changes with every access.
\<close>

section \<open>State\<close>

text \<open>A packet handed to the application. \<open>Packet\<close> has no other fields that the driver sets.\<close>

record packet =
  pk_data :: "byte list"
  pk_timestamp_s :: int
  pk_timestamp_ns :: int
  pk_rx_checksum :: int

record nic_port =
  np_index :: nat
  np_hw_addr :: int
  np_port_id :: int
  np_features :: int
  np_mtu :: int
  np_sched_count :: int
  np_sched_offset :: int
  np_sched_stride :: int
  np_sched_type :: int
  np_schedulers :: "(nat \<times> int) list"

text \<open>The registers that \<open>Interface.init\<close> reads.\<close>

record if_csr =
  if_id :: int
  if_features :: int
  event_queue_count :: int
  event_queue_offset :: int
  tx_queue_count :: int
  tx_queue_offset :: int
  tx_cpl_queue_count :: int
  tx_cpl_queue_offset :: int
  rx_queue_count :: int
  rx_queue_offset :: int
  rx_cpl_queue_count :: int
  rx_cpl_queue_offset :: int
  port_count :: int
  port_offset :: int
  port_stride :: int

text \<open>An interface after \<open>init\<close>; nothing else is called before it.\<close>

record nic_if =
  if_index :: nat
  if_hw_addr :: int
  if_csrs :: if_csr
  if_port_up :: bool
  event_queues :: "cring list"
  tx_queues :: "dring list"
  tx_cpl_queues :: "cring list"
  rx_queues :: "dring list"
  nic_rx_cpl_queues :: "cring list"
  if_ports :: "nic_port list"
  interrupt_running :: bool
  interrupt_pending :: nat
  pkt_rx_queue :: "packet list"

section \<open>Ports and the initialisation of an interface\<close>

definition port_set_mtu :: "'e host \<Rightarrow> int \<Rightarrow> nic_port \<Rightarrow> ('e, unit) stm" where
  "port_set_mtu h mtu p = write_regs h (np_hw_addr p)
     [(0x80, 0), (0x84, 0), (0x88, 4 - 1), (0x8c, 0), (0x90, 0xc0a80165), (0x94, 1), (0x98, 16),
      (0x100, mtu), (0x200, mtu)]"

definition port_init :: "'e host \<Rightarrow> nat \<Rightarrow> int \<Rightarrow> ('e, nic_port) stm" where
  "port_init h index a =
     bindS (h_mem_read_dword h (a + 0x00)) (\<lambda>port_id.
     bindS (h_mem_read_dword h (a + 0x04)) (\<lambda>features.
     bindS (h_mem_read_dword h (a + 0x08)) (\<lambda>mtu.
     bindS (h_mem_read_dword h (a + 0x10)) (\<lambda>sched_count.
     bindS (h_mem_read_dword h (a + 0x14)) (\<lambda>sched_offset.
     bindS (h_mem_read_dword h (a + 0x18)) (\<lambda>sched_stride.
     bindS (h_mem_read_dword h (a + 0x1c)) (\<lambda>sched_type.
     let p = \<lparr>np_index = index, np_hw_addr = a, np_port_id = port_id, np_features = features, np_mtu = mtu,
              np_sched_count = sched_count, np_sched_offset = sched_offset, np_sched_stride = sched_stride,
              np_sched_type = sched_type,
              np_schedulers = map (\<lambda>k. (k, a + sched_offset + int k * sched_stride)) [0..<nat sched_count]\<rparr>
     in bindS (port_set_mtu h (min mtu 9214) p) (\<lambda>_. retS p))))))))"

definition read_if_csr :: "'e host \<Rightarrow> int \<Rightarrow> ('e, if_csr) stm" where
  "read_if_csr h a =
     bindS (h_mem_read_dword h (a + 0x00)) (\<lambda>v_id.
     bindS (h_mem_read_dword h (a + 0x04)) (\<lambda>v_features.
     bindS (h_mem_read_dword h (a + 0x10)) (\<lambda>eqc. bindS (h_mem_read_dword h (a + 0x14)) (\<lambda>eqo.
     bindS (h_mem_read_dword h (a + 0x20)) (\<lambda>txc. bindS (h_mem_read_dword h (a + 0x24)) (\<lambda>txo.
     bindS (h_mem_read_dword h (a + 0x28)) (\<lambda>txcc. bindS (h_mem_read_dword h (a + 0x2c)) (\<lambda>txco.
     bindS (h_mem_read_dword h (a + 0x30)) (\<lambda>rxc. bindS (h_mem_read_dword h (a + 0x34)) (\<lambda>rxo.
     bindS (h_mem_read_dword h (a + 0x38)) (\<lambda>rxcc. bindS (h_mem_read_dword h (a + 0x3c)) (\<lambda>rxco.
     bindS (h_mem_read_dword h (a + 0x40)) (\<lambda>pc. bindS (h_mem_read_dword h (a + 0x44)) (\<lambda>po.
     bindS (h_mem_read_dword h (a + 0x48)) (\<lambda>ps.
       retS \<lparr>if_id = v_id, if_features = v_features, event_queue_count = min eqc 1, event_queue_offset = eqo,
             tx_queue_count = min txc 4, tx_queue_offset = txo, tx_cpl_queue_count = min txcc 4,
             tx_cpl_queue_offset = txco, rx_queue_count = min rxc 4, rx_queue_offset = rxo,
             rx_cpl_queue_count = min rxcc 4, rx_cpl_queue_offset = rxco, port_count = pc, port_offset = po,
             port_stride = ps\<rparr>)))))))))))))))"

text \<open>The addresses of the queues of one kind.\<close>

definition queue_addrs :: "int \<Rightarrow> int \<Rightarrow> int \<Rightarrow> int \<Rightarrow> (nat \<times> int) list" where
  "queue_addrs base offset stride count = map (\<lambda>k. (k, base + offset + int k * stride)) [0..<nat count]"

definition interface_init :: "'e host \<Rightarrow> pcie_id \<Rightarrow> nat \<Rightarrow> int \<Rightarrow> int \<Rightarrow> ('e, nic_if) stm" where
  "interface_init h dev index hw csr_offset =
     bindS (h_msi_register_callback h dev (int index)) (\<lambda>_.
     bindS (read_if_csr h (hw + csr_offset)) (\<lambda>c.
     bindS (mapS (\<lambda>(k, a). eq_init h (EqRing 1024 MQNIC_EVENT_SIZE index a))
       (queue_addrs hw (event_queue_offset c) 0x40 (event_queue_count c))) (\<lambda>eqs.
     bindS (mapS (\<lambda>(k, a). tx_ring_init h (TxRing 1024 (MQNIC_DESC_SIZE * 4) k a))
       (queue_addrs hw (tx_queue_offset c) 0x40 (tx_queue_count c))) (\<lambda>txs.
     bindS (mapS (\<lambda>(k, a). cq_init h (CqRing 1024 MQNIC_CPL_SIZE k a))
       (queue_addrs hw (tx_cpl_queue_offset c) 0x40 (tx_cpl_queue_count c))) (\<lambda>txcs.
     bindS (mapS (\<lambda>(k, a). rx_ring_init h (RxRing QUEUE_SIZE (MQNIC_DESC_SIZE * 4) k a))
       (queue_addrs hw (rx_queue_offset c) 0x40 (rx_queue_count c))) (\<lambda>rxs.
     bindS (mapS (\<lambda>(k, a). cq_init h (CqRing QUEUE_SIZE MQNIC_CPL_SIZE k a))
       (queue_addrs hw (rx_cpl_queue_offset c) 0x40 (rx_cpl_queue_count c))) (\<lambda>rxcs.
     bindS (mapS (\<lambda>(k, a). port_init h k a)
       (queue_addrs hw (port_offset c) (port_stride c) (port_count c))) (\<lambda>ports.
     bindS (h_mem_read h hw 4) (\<lambda>_.
       retS \<lparr>if_index = index, if_hw_addr = hw, if_csrs = c, if_port_up = False, event_queues = eqs, tx_queues = txs,
             tx_cpl_queues = txcs, rx_queues = rxs, nic_rx_cpl_queues = rxcs, if_ports = ports,
             interrupt_running = False, interrupt_pending = 0, pkt_rx_queue = []\<rparr>)))))))))"

definition if_set_mtu :: "'e host \<Rightarrow> int \<Rightarrow> nic_if \<Rightarrow> ('e, unit) stm" where
  "if_set_mtu h mtu i = foldS (\<lambda>p _. port_set_mtu h mtu p) (if_ports i) ()"

section \<open>Opening and closing\<close>

definition open_eq :: "'e host \<Rightarrow> nat \<Rightarrow> cring \<Rightarrow> ('e, cring) stm" where
  "open_eq h index q = bindS (eq_activate h (int index) q) (\<lambda>q. bindS (eq_arm h q) (\<lambda>_. retS q))"

definition open_cq :: "'e host \<Rightarrow> int \<Rightarrow> cring \<Rightarrow> ('e, cring) stm" where
  "open_cq h count q =
     (if count = 0 then errS ZeroDivisionError
      else bindS (cq_activate h (int (cq_index q) mod count) q) (\<lambda>q.
           let q = q\<lparr>cq_ring_index := cq_index q\<rparr> in bindS (cq_arm h q) (\<lambda>_. retS q)))"

definition if_open :: "'e host \<Rightarrow> nic_if \<Rightarrow> ('e drv, nic_if) stm" where
  "if_open h i =
     bindS (on_env (mapS (open_eq h (if_index i)) (event_queues i))) (\<lambda>eqs.
     bindS (on_env (mapS (open_cq h (event_queue_count (if_csrs i))) (nic_rx_cpl_queues i))) (\<lambda>rxcs.
     bindS (mapS (\<lambda>r. rx_activate h (int (dr_index r)) r) (rx_queues i)) (\<lambda>rxs.
     bindS (on_env (mapS (open_cq h (event_queue_count (if_csrs i))) (tx_cpl_queues i))) (\<lambda>txcs.
     bindS (on_env (mapS (\<lambda>r. tx_activate h (int (dr_index r)) r) (tx_queues i))) (\<lambda>txs.
     bindS (on_env (h_mem_read h (if_hw_addr i) 4)) (\<lambda>_.
       retS (i\<lparr>event_queues := eqs, nic_rx_cpl_queues := rxcs, rx_queues := rxs, tx_cpl_queues := txcs,
               tx_queues := txs, if_port_up := True\<rparr>)))))))"

text \<open>The value that a call returns to \<open>await\<close>: a coroutine, which is then run, or \<open>None\<close>, which cannot be awaited.
  \<open>free_buf\<close> is a plain method without a \<open>return\<close>: its body runs when it is called, and the call gives \<open>None\<close>.\<close>

datatype ('s, 'a) awaited = Coroutine "('s, 'a) stm" | Py_None

definition py_await :: "('s, 'a) awaited \<Rightarrow> ('s, 'a) stm" where
  "py_await v = (case v of Coroutine m \<Rightarrow> m | Py_None \<Rightarrow> errS TypeError)"

definition call_free_buf :: "dring \<Rightarrow> ('e drv, dring \<times> ('e drv, unit) awaited) stm" where
  "call_free_buf r = bindS (free_buf r) (\<lambda>r'. retS (r', Py_None))"

definition await_free_buf :: "dring \<Rightarrow> ('e drv, dring) stm" where
  "await_free_buf r = bindS (call_free_buf r) (\<lambda>(r', v). bindS (py_await v) (\<lambda>_. retS r'))"

lemma await_free_buf_fails: "\<exists>e. await_free_buf r s = Inl e"
  by (cases "free_buf r s") (auto simp: await_free_buf_def call_free_buf_def py_await_def bindS_def)

definition if_close :: "'e host \<Rightarrow> nic_if \<Rightarrow> ('e drv, nic_if) stm" where
  "if_close h i =
     bindS (on_env (foldS (\<lambda>r _. tx_deactivate h r) (tx_queues i) ())) (\<lambda>_.
     bindS (on_env (foldS (\<lambda>q _. cq_deactivate h q) (tx_cpl_queues i) ())) (\<lambda>_.
     bindS (on_env (foldS (\<lambda>r _. tx_deactivate h r) (rx_queues i) ())) (\<lambda>_.
     bindS (on_env (foldS (\<lambda>q _. cq_deactivate h q) (nic_rx_cpl_queues i) ())) (\<lambda>_.
     bindS (on_env (foldS (\<lambda>q _. eq_deactivate h q) (event_queues i) ())) (\<lambda>_.
     bindS (on_env (h_mem_read h (if_hw_addr i) 4)) (\<lambda>_.
     bindS (mapS await_free_buf (tx_queues i)) (\<lambda>txs.
     bindS (mapS await_free_buf (rx_queues i)) (\<lambda>rxs.
       retS (i\<lparr>if_port_up := False, tx_queues := txs, rx_queues := rxs\<rparr>)))))))))"

section \<open>Completions\<close>

text \<open>\<open>for_ptr a b\<close>: the loops that move a pointer from \<open>a\<close> up to \<open>b\<close>. A pointer that is already beyond \<open>b\<close> never
  meets it; such a loop ends, if at all, with an error of its body.\<close>

definition for_ptr :: "int \<Rightarrow> int \<Rightarrow> (int \<Rightarrow> 'b \<Rightarrow> ('s, 'b) stm) \<Rightarrow> 'b \<Rightarrow> ('s, 'b) stm" where
  "for_ptr a b body x = (if a \<le> b then foldS body [a..b - 1] x else errS Unfinished)"

text \<open>The clean-up of a ring: the pointer moves over empty entries, at most to the tail pointer.\<close>

definition clean_ring :: "dring \<Rightarrow> dring res" where
  "clean_ring r =
     (case while_option (\<lambda>p. p \<noteq> dr_tail_ptr r \<and> dr_info r ! slot r p = None) (\<lambda>p. p + 1) (dr_clean_tail_ptr r) of
        None \<Rightarrow> Inl Unfinished
      | Some p \<Rightarrow> Inr (r\<lparr>dr_clean_tail_ptr := p\<rparr>))"

definition tx_cpl :: "'e host \<Rightarrow> cring \<Rightarrow> int \<Rightarrow> dring \<Rightarrow> ('e drv, dring) stm" where
  "tx_cpl h cq ptr ring =
     bindS (on_env (ring_entry h cq ptr 16)) (\<lambda>cpl. free_desc (nat (unpack_H 2 cpl mod 1024)) ring)"

definition process_tx_cq :: "'e host \<Rightarrow> nat \<Rightarrow> nic_if \<Rightarrow> ('e drv, nic_if) stm" where
  "process_tx_cq h k i =
     bindS (liftS (nth_res (tx_cpl_queues i) k)) (\<lambda>cq.
     bindS (liftS (nth_res (tx_queues i) (cq_ring_index cq))) (\<lambda>ring.
     if \<not> if_port_up i then retS i
     else bindS (on_env (cq_read_head_ptr h cq)) (\<lambda>cq.
          bindS (for_ptr (cq_tail_ptr cq) (cq_head_ptr cq) (tx_cpl h cq) ring) (\<lambda>ring.
          let cq = cq\<lparr>cq_tail_ptr := cq_head_ptr cq\<rparr>
          in bindS (on_env (cq_write_tail_ptr h cq)) (\<lambda>_.
             bindS (on_env (read_tail_ptr h ring)) (\<lambda>ring.
             bindS (liftS (clean_ring ring)) (\<lambda>ring.
               retS (i\<lparr>tx_cpl_queues := (tx_cpl_queues i)[k := cq],
                       tx_queues := (tx_queues i)[cq_ring_index cq := ring]\<rparr>))))))))"

text \<open>One receive completion is handled per call (\<open>max_count\<close> is 1).\<close>

definition rx_cpl :: "'e host \<Rightarrow> cring \<Rightarrow> dring \<Rightarrow> ('e drv, packet \<times> dring) stm" where
  "rx_cpl h cq ring =
     bindS (on_env (ring_entry h cq (cq_tail_ptr cq) 16)) (\<lambda>cpl.
     let index = nat (unpack_H 2 cpl mod int QUEUE_SIZE)
     in bindS (liftS (nth_res (dr_info ring) index)) (\<lambda>pkt.
        case pkt of
          None \<Rightarrow> errS TypeError
        | Some buf \<Rightarrow>
            bindS (on_env (h_buf_read h buf 0 pkt_buf_size)) (\<lambda>mem.
            bindS (free_desc index ring) (\<lambda>ring.
              retS (\<lparr>pk_data = take (nat (unpack_H 4 cpl)) mem, pk_timestamp_s = unpack_H 12 cpl,
                     pk_timestamp_ns = le_int (slice 8 12 cpl), pk_rx_checksum = unpack_H 14 cpl\<rparr>, ring)))))"

definition process_rx_cq :: "'e host \<Rightarrow> nat \<Rightarrow> nic_if \<Rightarrow> ('e drv, nic_if) stm" where
  "process_rx_cq h k i =
     bindS (liftS (nth_res (nic_rx_cpl_queues i) k)) (\<lambda>cq.
     bindS (liftS (nth_res (rx_queues i) (cq_ring_index cq))) (\<lambda>ring.
     if \<not> if_port_up i then retS i
     else bindS (on_env (cq_read_head_ptr h cq)) (\<lambda>cq.
          bindS (if cq_head_ptr cq \<noteq> cq_tail_ptr cq
                 then bindS (rx_cpl h cq ring) (\<lambda>(skb, ring). retS ([skb], ring)) else retS ([], ring)) (\<lambda>(skbs, ring).
          let cq = cq\<lparr>cq_tail_ptr := cq_tail_ptr cq + int (length skbs)\<rparr>
          in bindS (on_env (cq_write_tail_ptr h cq)) (\<lambda>_.
             bindS (on_env (task_feedback h (int (length skbs)) cq)) (\<lambda>_.
             bindS (on_env (read_tail_ptr h ring)) (\<lambda>ring.
             bindS (liftS (clean_ring ring)) (\<lambda>ring.
             bindS (refill_buffers h ring) (\<lambda>ring.
               retS (i\<lparr>nic_rx_cpl_queues := (nic_rx_cpl_queues i)[k := cq],
                       rx_queues := (rx_queues i)[cq_ring_index cq := ring],
                       pkt_rx_queue := pkt_rx_queue i @ skbs\<rparr>))))))))))"

section \<open>Events and interrupts\<close>

definition process_event :: "'e host \<Rightarrow> cring \<Rightarrow> int \<Rightarrow> nic_if \<Rightarrow> ('e drv, nic_if) stm" where
  "process_event h q ptr i =
     bindS (on_env (ring_entry h q ptr 4)) (\<lambda>ev.
     let typ = unpack_H 0 ev; k = nat (unpack_H 2 ev)
     in if typ = 0 then
          bindS (process_tx_cq h k i) (\<lambda>i.
          bindS (liftS (nth_res (tx_cpl_queues i) k)) (\<lambda>cq. bindS (on_env (cq_arm h cq)) (\<lambda>_. retS i)))
        else if typ = 1 then
          bindS (process_rx_cq h k i) (\<lambda>i.
          bindS (liftS (nth_res (nic_rx_cpl_queues i) k)) (\<lambda>cq. bindS (on_env (cq_arm h cq)) (\<lambda>_. retS i)))
        else retS i)"

definition eq_process :: "'e host \<Rightarrow> nat \<Rightarrow> nic_if \<Rightarrow> ('e drv, nic_if) stm" where
  "eq_process h k i =
     (if \<not> if_port_up i then retS i
      else bindS (liftS (nth_res (event_queues i) k)) (\<lambda>q.
           bindS (on_env (eq_read_head_ptr h q)) (\<lambda>q.
           bindS (for_ptr (cq_tail_ptr q) (cq_head_ptr q) (process_event h q) i) (\<lambda>i.
           let q = q\<lparr>cq_tail_ptr := cq_head_ptr q\<rparr>
           in bindS (on_env (eq_write_tail_ptr h q)) (\<lambda>_.
                retS (i\<lparr>event_queues := (event_queues i)[k := q]\<rparr>))))))"

definition service_eq :: "'e host \<Rightarrow> nat \<Rightarrow> nic_if \<Rightarrow> ('e drv, nic_if) stm" where
  "service_eq h k i =
     bindS (eq_process h k i) (\<lambda>i.
     bindS (liftS (nth_res (event_queues i) k)) (\<lambda>q. bindS (on_env (eq_arm h q)) (\<lambda>_. retS i)))"

definition interrupt_round :: "'e host \<Rightarrow> nic_if \<Rightarrow> ('e drv, nic_if) stm" where
  "interrupt_round h i =
     bindS (foldS (service_eq h) [0..<length (event_queues i)] (i\<lparr>interrupt_running := True\<rparr>)) (\<lambda>i.
       retS (i\<lparr>interrupt_running := False\<rparr>))"

text \<open>A call that finds \<open>interrupt_running\<close> set only counts itself; the running call makes one more round for
  every one counted.\<close>

primrec interrupt_rounds :: "nat \<Rightarrow> 'e host \<Rightarrow> nic_if \<Rightarrow> ('e drv, nic_if) stm" where
  "interrupt_rounds 0 h i = interrupt_round h i"
| "interrupt_rounds (Suc n) h i =
     bindS (interrupt_round h i) (\<lambda>i. interrupt_rounds n h (i\<lparr>interrupt_pending := n\<rparr>))"

definition interrupt :: "'e host \<Rightarrow> nic_if \<Rightarrow> ('e drv, nic_if) stm" where
  "interrupt h i =
     (if interrupt_running i then retS (i\<lparr>interrupt_pending := interrupt_pending i + 1\<rparr>)
      else interrupt_rounds (interrupt_pending i) h i)"

section \<open>Transmission and reception\<close>

definition csum_command :: "(int \<times> int) option \<Rightarrow> int" where
  "csum_command csum = (case csum of None \<Rightarrow> 0 | Some (start, offset) \<Rightarrow> 0x8000 OR push_bit 8 offset OR start)"

definition tx_first_desc :: "int \<Rightarrow> nat \<Rightarrow> int \<Rightarrow> byte list res" where
  "tx_first_desc csum seg addr =
     bindE (pack_H 0) (\<lambda>a. bindE (pack_H csum) (\<lambda>b. bindE (pack_L (int seg)) (\<lambda>c. bindE (pack_Q addr) (\<lambda>d.
       Inr (a @ b @ c @ d)))))"

definition tx_desc :: "nat \<Rightarrow> int \<Rightarrow> byte list res" where
  "tx_desc seg addr = bindE (pack_L (int seg)) (\<lambda>b. bindE (pack_Q addr) (\<lambda>c. Inr (replicate 4 0 @ b @ c)))"

definition put_tx_descs :: "'e host \<Rightarrow> dring \<Rightarrow> nat \<Rightarrow> int \<Rightarrow> int \<Rightarrow> nat \<Rightarrow> ('e, unit) stm" where
  "put_tx_descs h r index ptr csum len =
     (let seg = (if dr_desc_block_size r > 1 then min len 42 else len)
      in bindS (put_desc h r index 0 (tx_first_desc csum seg (seg_addr ptr 0 seg))) (\<lambda>_.
         bindS (foldS (\<lambda>k off.
           let seg = seg_length (dr_desc_block_size r) len off k
           in bindS (put_desc h r index k (tx_desc seg (seg_addr ptr off seg))) (\<lambda>_. retS (off + seg)))
           [1..<dr_desc_block_size r] seg) (\<lambda>_. retS ())))"

text \<open>\<open>tx_fill\<close> is \<open>start_xmit\<close> up to the update of the head pointer, which hands the entry to the device.\<close>

definition tx_fill :: "'e host \<Rightarrow> byte list \<Rightarrow> (int \<times> int) option \<Rightarrow> dring \<Rightarrow> ('e drv, dring) stm" where
  "tx_fill h data csum r =
     (let index = slot r (dr_head_ptr r)
      in bindS (alloc_pkt h) (\<lambda>pkt.
         bindS (liftS (put_index index pkt
           (r\<lparr>dr_packets := dr_packets r + 1, dr_bytes := dr_bytes r + length data\<rparr>))) (\<lambda>r.
         bindS (on_env (h_buf_write h pkt 10 data)) (\<lambda>_.
         bindS (on_env (put_tx_descs h r index (pkt + 10) (csum_command csum) (length data))) (\<lambda>_. retS r)))))"

definition start_xmit :: "'e host \<Rightarrow> byte list \<Rightarrow> nat \<Rightarrow> (int \<times> int) option \<Rightarrow> nic_if \<Rightarrow> ('e drv, nic_if) stm" where
  "start_xmit h data tx_ring csum i =
     (if \<not> if_port_up i then retS i
      else bindS (liftS (nth_res (tx_queues i) tx_ring)) (\<lambda>r.
           bindS (tx_fill h (take 16384 data) csum r) (\<lambda>r.
           let r = r\<lparr>dr_head_ptr := dr_head_ptr r + 1\<rparr>
           in bindS (on_env (write_head_ptr h r)) (\<lambda>_. retS (i\<lparr>tx_queues := (tx_queues i)[tx_ring := r]\<rparr>)))))"

definition recv_nowait :: "nic_if \<Rightarrow> packet option \<times> nic_if" where
  "recv_nowait i =
     (case pkt_rx_queue i of [] \<Rightarrow> (None, i) | p # ps \<Rightarrow> (Some p, i\<lparr>pkt_rx_queue := ps\<rparr>))"

section \<open>The driver\<close>

text \<open>The addresses and sizes of the base address registers come from the tree of the root complex.\<close>

record nic_driver =
  nd_initialized :: bool
  nd_dev_id :: pcie_id
  nd_hw_addr :: int
  nd_app_hw_addr :: int
  nd_ram_hw_addr :: int
  nd_ids :: "int list"
  nd_if_stride :: int
  nd_if_csr_offset :: int
  nd_interfaces :: "nic_if list"

definition init_dev ::
  "'e host \<Rightarrow> (pcie_id \<Rightarrow> (int list \<times> int list) option) \<Rightarrow> pcie_id \<Rightarrow> bool \<Rightarrow> ('e, nic_driver) stm" where
  "init_dev h find_child_dev dev initialized =
     (if initialized then errS AssertionError
      else case find_child_dev dev of
        None \<Rightarrow> errS AttributeError
      | Some (bar_addr, bar_size) \<Rightarrow>
          bindS (liftS (nth_res bar_addr 0)) (\<lambda>hw. bindS (liftS (nth_res bar_size 0)) (\<lambda>_.
          bindS (liftS (nth_res bar_addr 2)) (\<lambda>app. bindS (liftS (nth_res bar_size 2)) (\<lambda>_.
          bindS (liftS (nth_res bar_addr 4)) (\<lambda>ram. bindS (liftS (nth_res bar_size 4)) (\<lambda>_.
          bindS (mapS (\<lambda>r. h_mem_read_dword h (hw + r)) [0x00, 0x04, 0x08, 0x0c, 0x10, 0x14]) (\<lambda>ids.
          bindS (h_mem_read_dword h (hw + 0x20)) (\<lambda>if_count.
          bindS (h_mem_read_dword h (hw + 0x24)) (\<lambda>if_stride.
          bindS (h_mem_read_dword h (hw + 0x2c)) (\<lambda>csr_offset.
          bindS (mapS (\<lambda>k. interface_init h dev k (hw + int k * if_stride) csr_offset) [0..<nat if_count]) (\<lambda>ifs.
            retS \<lparr>nd_initialized = True, nd_dev_id = dev, nd_hw_addr = hw, nd_app_hw_addr = app, nd_ram_hw_addr = ram,
                  nd_ids = ids, nd_if_stride = if_stride, nd_if_csr_offset = csr_offset, nd_interfaces = ifs\<rparr>))))))))))))"

section \<open>Properties\<close>

subsection \<open>Pointers\<close>

text \<open>C11. The 16-bit pointer registers are enough. As long as the device's pointer is less than \<open>2 ^ 16\<close> entries
  ahead, adding the wrapped difference to the driver's unbounded counter gives the device's pointer exactly; the
  counter never goes back and never gains \<open>2 ^ 16\<close> or more.\<close>

theorem advance_ptr_exact:
  assumes "ptr \<le> hw" "hw < ptr + 65536" "val mod 65536 = hw mod 65536"
  shows "advance_ptr ptr val = hw \<and> advance_ptr ptr (hw AND hw_ptr_mask) = hw \<and>
    ptr \<le> advance_ptr ptr x \<and> advance_ptr ptr x < ptr + 65536 \<and> advance_ptr ptr x mod 65536 = x mod 65536"
proof -
  have def: "advance_ptr ptr y = ptr + (y - ptr) mod 65536" for y
    by (simp add: advance_ptr_def hw_ptr_mask_def)
  have step: "advance_ptr ptr y = hw" if "y mod 65536 = hw mod 65536" for y
  proof -
    have "(y - ptr) mod 65536 = (hw - ptr) mod 65536" by (rule mod_diff_cong [OF that refl])
    also have "\<dots> = hw - ptr" by (rule mod_pos_pos_trivial) (use assms(1,2) in linarith)+
    finally show ?thesis by (simp only: def)
  qed
  have "(hw AND hw_ptr_mask) mod 65536 = hw mod 65536" by (simp add: hw_ptr_mask_def)
  then have "advance_ptr ptr (hw AND hw_ptr_mask) = hw" by (rule step)
  moreover have "0 \<le> (x - ptr) mod 65536" "(x - ptr) mod 65536 < 65536" by (rule pos_mod_sign pos_mod_bound, simp)+
  moreover have "advance_ptr ptr x mod 65536 = x mod 65536" unfolding def by (simp only: mod_add_right_eq) simp
  ultimately show ?thesis using step [OF assms(3)] def [of x] by linarith
qed

theorem advance_ptr_exact_witness: "advance_ptr 131060 3 = 131075 \<and> advance_ptr 131060 (131075 AND hw_ptr_mask) = 131075"
  using advance_ptr_exact [of 131060 131075 3 0] by simp

lemma clean_loop:
  fixes a b :: int
  assumes "a \<le> b"
  shows "\<exists>c. while_option (\<lambda>p. p \<noteq> b \<and> E p) (\<lambda>p. p + 1) a = Some c \<and> a \<le> c \<and> c \<le> b \<and>
    (\<forall>p. a \<le> p \<and> p < c \<longrightarrow> E p) \<and> (c = b \<or> \<not> E c)"
  using assms
proof (induction "nat (b - a)" arbitrary: a)
  case 0
  then have "while_option (\<lambda>p. p \<noteq> b \<and> E p) (\<lambda>p. p + 1) a = Some a" by (subst while_option_unfold) simp
  then show ?case using 0 by auto
next
  case (Suc n)
  then have ab: "a \<noteq> b" by auto
  show ?case
  proof (cases "E a")
    case True
    then have "while_option (\<lambda>p. p \<noteq> b \<and> E p) (\<lambda>p. p + 1) a = while_option (\<lambda>p. p \<noteq> b \<and> E p) (\<lambda>p. p + 1) (a + 1)"
      using ab by (subst while_option_unfold) simp
    moreover have "n = nat (b - (a + 1))" "a + 1 \<le> b" using Suc.hyps(2) by linarith+
    moreover from Suc.hyps(1) [OF this] obtain c where c: "while_option (\<lambda>p. p \<noteq> b \<and> E p) (\<lambda>p. p + 1) (a + 1) = Some c" "a + 1 \<le> c" "c \<le> b"
      "\<forall>p. a + 1 \<le> p \<and> p < c \<longrightarrow> E p" "c = b \<or> \<not> E c"
      by blast
    moreover have "\<forall>p. a \<le> p \<and> p < c \<longrightarrow> E p"
    proof (intro allI impI)
      fix p assume "a \<le> p \<and> p < c"
      then show "E p" using c(4) True by (cases "p = a") simp_all
    qed
    ultimately show ?thesis using zle_add1_eq_le [of a c] by (intro exI [of _ c]) simp
  next
    case False
    then have "while_option (\<lambda>p. p \<noteq> b \<and> E p) (\<lambda>p. p + 1) a = Some a" by (subst while_option_unfold) simp
    then show ?thesis using False Suc.prems by auto
  qed
qed

text \<open>C25. Cleaning up a ring ends and moves the clean-up pointer over the longest run of empty entries below the
  tail pointer: all entries passed are empty, and the pointer stops at the tail or at an entry in use.\<close>

theorem clean_ring_correct:
  assumes "dr_clean_tail_ptr r \<le> dr_tail_ptr r"
  shows "\<exists>c. clean_ring r = Inr (r\<lparr>dr_clean_tail_ptr := c\<rparr>) \<and> dr_clean_tail_ptr r \<le> c \<and> c \<le> dr_tail_ptr r \<and>
    (\<forall>p. dr_clean_tail_ptr r \<le> p \<and> p < c \<longrightarrow> dr_info r ! slot r p = None) \<and>
    (c = dr_tail_ptr r \<or> dr_info r ! slot r c \<noteq> None)"
proof -
  from clean_loop [OF assms, of "\<lambda>p. dr_info r ! slot r p = None"] obtain c where
    c: "while_option (\<lambda>p. p \<noteq> dr_tail_ptr r \<and> dr_info r ! slot r p = None) (\<lambda>p. p + 1) (dr_clean_tail_ptr r) = Some c"
      "dr_clean_tail_ptr r \<le> c \<and> c \<le> dr_tail_ptr r \<and>
       (\<forall>p. dr_clean_tail_ptr r \<le> p \<and> p < c \<longrightarrow> dr_info r ! slot r p = None) \<and>
       (c = dr_tail_ptr r \<or> dr_info r ! slot r c \<noteq> None)" by blast
  have "clean_ring r = Inr (r\<lparr>dr_clean_tail_ptr := c\<rparr>)" unfolding clean_ring_def c(1) by simp
  then show ?thesis using c(2) by blast
qed

theorem clean_ring_correct_witness:
  "\<exists>c. clean_ring ((TxRing 4 64 0 0)\<lparr>dr_info := [None, None, Some 1, None], dr_tail_ptr := 4\<rparr>) =
     Inr ((TxRing 4 64 0 0)\<lparr>dr_info := [None, None, Some 1, None], dr_tail_ptr := 4, dr_clean_tail_ptr := c\<rparr>) \<and> 0 \<le> c \<and> c \<le> 4"
  using clean_ring_correct [of "(TxRing 4 64 0 0)\<lparr>dr_info := [None, None, Some 1, None], dr_tail_ptr := 4\<rparr>"]
  by (auto simp: TxRing_def Let_def)

subsection \<open>Interrupts that arrive while one is served\<close>

text \<open>The method \<open>interrupt\<close> gives control away while it serves the event queues, and may be called again then. A
  call that finds it running only counts itself; when the running one has finished a round, it starts another
  one for every call counted, without giving control away in between.\<close>

record irq =
  irq_running :: bool
  irq_pending :: nat
  irq_rounds :: nat

datatype irq_event = Arrive | Round_done

fun irq_step :: "irq_event \<Rightarrow> irq \<Rightarrow> irq" where
  "irq_step Arrive s =
     (if irq_running s then s\<lparr>irq_pending := irq_pending s + 1\<rparr>
      else s\<lparr>irq_running := True, irq_rounds := irq_rounds s + 1\<rparr>)"
| "irq_step Round_done s =
     (if irq_pending s > 0
      then s\<lparr>irq_pending := irq_pending s - 1, irq_running := True, irq_rounds := irq_rounds s + 1\<rparr>
      else s\<lparr>irq_running := False\<rparr>)"

inductive irq_reach :: "irq_event list \<Rightarrow> irq \<Rightarrow> bool" where
  irq_init: "irq_reach [] \<lparr>irq_running = False, irq_pending = 0, irq_rounds = 0\<rparr>"
| irq_arrive: "irq_reach es s \<Longrightarrow> irq_reach (Arrive # es) (irq_step Arrive s)"
| irq_done: "irq_reach es s \<Longrightarrow> irq_running s \<Longrightarrow> irq_reach (Round_done # es) (irq_step Round_done s)"

text \<open>C12. No interrupt is lost: at every moment the rounds started and the calls still counted are together as many
  as the interrupts that arrived, and when no round is running none is left over.\<close>

theorem irq_none_lost:
  assumes "irq_reach es s"
  shows "irq_rounds s + irq_pending s = length (filter (\<lambda>e. e = Arrive) es) \<and>
    (irq_running s \<or> irq_pending s = 0 \<and> irq_rounds s = length (filter (\<lambda>e. e = Arrive) es))"
  using assms by (induction rule: irq_reach.induct) auto

theorem irq_none_lost_witness:
  "\<exists>s. irq_reach [Round_done, Arrive, Arrive] s \<and> irq_running s \<and> irq_rounds s + irq_pending s = 2"
proof -
  let ?s = "irq_step Round_done (irq_step Arrive (irq_step Arrive \<lparr>irq_running = False, irq_pending = 0, irq_rounds = 0\<rparr>))"
  have r: "irq_reach [Round_done, Arrive, Arrive] ?s" by (rule irq_done, rule irq_arrive, rule irq_arrive, rule irq_init) simp
  have "irq_running ?s" by simp
  moreover have "irq_rounds ?s + irq_pending ?s = 2" using irq_none_lost [OF r] by simp
  ultimately show ?thesis using r by blast
qed

subsection \<open>Closing\<close>

text \<open>An interface that has a queue cannot be closed: \<open>close\<close> awaits \<open>free_buf\<close>, which is not a coroutine.\<close>

lemma close_fails:
  assumes "tx_queues i \<noteq> [] \<or> rx_queues i \<noteq> []"
  shows "\<not> is_ok (if_close h i s)"
proof -
  have "\<not> is_ok (mapS await_free_buf rs s)" if "rs \<noteq> []" for rs and s :: "'a drv"
    using that await_free_buf_fails [of "hd rs" s] by (cases rs) (auto simp: mapS_def bindS_def is_ok_iff)
  then show ?thesis using assms by (auto simp: if_close_def is_ok_iff bindS_eq_Inr)
qed

end
