(* ===== verification/Mqnic_Owner.thy ===== *)
theory Mqnic_Owner
  imports Mqnic_Interface "HOL-Library.Multiset"
begin

unbundle bit_operations_syntax

text \<open>
  Who owns a packet buffer of the driver: the free list or one entry of one ring. The locale \<open>nic_host\<close> states what the
  driver expects of the host; in it, every method of the interface is shown to move buffers only between the
  rings and the free list.
\<close>


section \<open>The packets of a ring\<close>

definition pkts :: "int option list \<Rightarrow> int multiset" where
  "pkts xs = mset (map the (filter (\<lambda>x. x \<noteq> None) xs))"

lemma pkts_simps [simp]:
  "pkts [] = {#}" "pkts (None # xs) = pkts xs" "pkts (Some y # xs) = add_mset y (pkts xs)"
  "pkts (xs @ ys) = pkts xs + pkts ys" "pkts (replicate n None) = {#}"
  by (simp_all add: pkts_def)

lemma pkts_nth:
  assumes "i < length xs"
  shows "pkts xs = pkts (take i xs) + pkts (drop (Suc i) xs) + (case xs ! i of None \<Rightarrow> {#} | Some x \<Rightarrow> {#x#})"
proof -
  have "pkts xs = pkts (take i xs @ xs ! i # drop (Suc i) xs)" using id_take_nth_drop [OF assms] by simp
  then show ?thesis by (cases "xs ! i") simp_all
qed

lemma pkts_update:
  assumes "i < length xs"
  shows "pkts (xs[i := v]) = pkts (take i xs) + pkts (drop (Suc i) xs) + (case v of None \<Rightarrow> {#} | Some x \<Rightarrow> {#x#})"
  using upd_conv_take_nth_drop [OF assms, of v] by (cases v) simp_all

lemma pkts_clear: "i < length xs \<Longrightarrow> xs ! i = Some x \<Longrightarrow> pkts xs = add_mset x (pkts (xs[i := None]))"
  using pkts_nth [of i xs] pkts_update [of i xs None] by simp

lemma pkts_store: "i < length xs \<Longrightarrow> pkts (xs[i := Some x]) \<subseteq># add_mset x (pkts xs)"
  using pkts_nth [of i xs] pkts_update [of i xs "Some x"] by simp

definition rings_pkts :: "dring list \<Rightarrow> int multiset" where
  "rings_pkts rs = sum_list (map (\<lambda>r. pkts (dr_info r)) rs)"

lemma rings_pkts_nth:
  assumes "k < length rs"
  shows "rings_pkts rs = pkts (dr_info (rs ! k)) + (rings_pkts (take k rs) + rings_pkts (drop (Suc k) rs))"
proof -
  have "rings_pkts rs = rings_pkts (take k rs @ rs ! k # drop (Suc k) rs)" using id_take_nth_drop [OF assms] by simp
  then show ?thesis by (simp add: rings_pkts_def add.left_commute)
qed

lemma rings_pkts_update:
  assumes "k < length rs"
  shows "rings_pkts (rs[k := r]) = pkts (dr_info r) + (rings_pkts (take k rs) + rings_pkts (drop (Suc k) rs))"
  using upd_conv_take_nth_drop [OF assms, of r] by (simp add: rings_pkts_def add.left_commute)

definition if_pkts :: "nic_if \<Rightarrow> int multiset" where
  "if_pkts i = rings_pkts (tx_queues i) + rings_pkts (rx_queues i)"

text \<open>The calls that a program makes to an open interface, and interrupts.\<close>

datatype nic_op = Open | Close | Xmit "byte list" nat "(int \<times> int) option" | Interrupt | Recv

fun run_op :: "'e host \<Rightarrow> nic_op \<Rightarrow> nic_if \<Rightarrow> ('e drv, nic_if) stm" where
  "run_op h Open i = if_open h i"
| "run_op h Close i = if_close h i"
| "run_op h (Xmit data k csum) i = start_xmit h data k csum i"
| "run_op h Interrupt i = interrupt h i"
| "run_op h Recv i = retS (snd (recv_nowait i))"

section \<open>The contract of the host\<close>

text \<open>\<open>alloc_region\<close> returns an address that is not in use; no access takes an address back. The sizes of
  all buffers of the driver are even.\<close>

locale nic_host =
  fixes h :: "'e host" and env_ok :: "'e \<Rightarrow> bool" and owned :: "'e \<Rightarrow> int set"
  assumes alloc_fresh: "env_ok e \<Longrightarrow> even n \<Longrightarrow> 0 < n \<Longrightarrow> h_alloc_region h n e = Inr (a, e') \<Longrightarrow>
      env_ok e' \<and> a \<notin> owned e \<and> insert a (owned e) \<subseteq> owned e'"
    and read_dword_keeps: "env_ok e \<Longrightarrow> h_mem_read_dword h a e = Inr (v, e') \<Longrightarrow> env_ok e' \<and> owned e \<subseteq> owned e'"
    and write_dword_keeps: "env_ok e \<Longrightarrow> h_mem_write_dword h a w e = Inr (u, e') \<Longrightarrow> env_ok e' \<and> owned e \<subseteq> owned e'"
    and mem_read_keeps: "env_ok e \<Longrightarrow> h_mem_read h a n e = Inr (u, e') \<Longrightarrow> env_ok e' \<and> owned e \<subseteq> owned e'"
    and buf_read_keeps: "env_ok e \<Longrightarrow> h_buf_read h b k m e = Inr (bs, e') \<Longrightarrow> env_ok e' \<and> owned e \<subseteq> owned e'"
    and buf_write_keeps: "env_ok e \<Longrightarrow> h_buf_write h b k bs e = Inr (u, e') \<Longrightarrow> env_ok e' \<and> owned e \<subseteq> owned e'"
begin

definition keeps_env :: "('e, 'a) stm \<Rightarrow> bool" where
  "keeps_env m \<longleftrightarrow> (\<forall>e x e'. env_ok e \<longrightarrow> m e = Inr (x, e') \<longrightarrow> env_ok e' \<and> owned e \<subseteq> owned e')"

lemma keeps_env_access [simp]:
  "keeps_env (h_mem_read_dword h a)" "keeps_env (h_mem_write_dword h a w)" "keeps_env (h_mem_read h a n)"
  "keeps_env (h_buf_read h b k m)" "keeps_env (h_buf_write h b k bs)" "keeps_env (retS x)" "keeps_env (errS er)"
  "keeps_env (liftS r)" "keeps_env (\<lambda>s. Inr (x, s))"
  unfolding keeps_env_def
  subgoal using read_dword_keeps by blast
  subgoal using write_dword_keeps by blast
  subgoal using mem_read_keeps by blast
  subgoal using buf_read_keeps by blast
  subgoal using buf_write_keeps by blast
  by (simp_all add: liftS_def)

lemma keeps_env_bind: "keeps_env m \<Longrightarrow> (\<And>x. keeps_env (f x)) \<Longrightarrow> keeps_env (bindS m f)"
  unfolding keeps_env_def bindS_eq_Inr by (blast intro: subset_trans)

lemma keeps_env_fold: "(\<And>x a. keeps_env (f x a)) \<Longrightarrow> keeps_env (foldS f xs a)"
proof (induction xs arbitrary: a)
  case (Cons x xs)
  then show ?case unfolding foldS.simps by (blast intro: keeps_env_bind)
qed simp

lemma keeps_env_map: "(\<And>x. keeps_env (f x)) \<Longrightarrow> keeps_env (mapS f xs)"
  unfolding mapS_def by (intro keeps_env_fold keeps_env_bind) simp_all

lemma keeps_env_regs [simp]: "keeps_env (write_regs h base ws)"
  unfolding write_regs_def by (rule keeps_env_fold) (simp split: prod.splits)

lemmas keeps_env_intros = keeps_env_bind keeps_env_fold keeps_env_map

lemma keeps_env_rings [simp]:
  "keeps_env (eq_activate h n q)" "keeps_env (cq_activate h n q)" "keeps_env (eq_read_head_ptr h q)"
  "keeps_env (cq_read_head_ptr h q)" "keeps_env (eq_write_tail_ptr h q)" "keeps_env (cq_write_tail_ptr h q)"
  "keeps_env (eq_arm h q)" "keeps_env (cq_arm h q)" "keeps_env (task_feedback h n q)" "keeps_env (ring_entry h q p m)"
  "keeps_env (tx_activate h n r)" "keeps_env (read_tail_ptr h r)" "keeps_env (write_head_ptr h r)"
  "keeps_env (put_desc h r j k d)" "keeps_env (put_tx_descs h r j ptr csum m)"
  unfolding eq_activate_def cq_activate_def eq_read_head_ptr_def cq_read_head_ptr_def eq_write_tail_ptr_def
    cq_write_tail_ptr_def eq_arm_def cq_arm_def task_feedback_def ring_entry_def tx_activate_def read_tail_ptr_def
    write_head_ptr_def put_desc_def put_tx_descs_def Let_def
  by (auto intro!: keeps_env_intros split: option.splits)

lemma keeps_env_open [simp]: "keeps_env (open_eq h k q)" "keeps_env (open_cq h c q)"
  unfolding open_eq_def open_cq_def Let_def by (auto intro!: keeps_env_intros)

text \<open>\<open>own G\<close>: the allocated buffers have distinct addresses, and the free ones together with those of \<open>G\<close> are
  among them, each at most once.\<close>

definition own :: "int multiset \<Rightarrow> 'e drv \<Rightarrow> bool" where
  "own G s \<longleftrightarrow> (case s of (p, e) \<Rightarrow> env_ok e \<and> distinct (allocated_packets p) \<and>
     set (allocated_packets p) \<subseteq> owned e \<and> mset (free_packets p) + G \<subseteq># mset (allocated_packets p))"

lemma own_mono: "own G s \<Longrightarrow> G' \<subseteq># G \<Longrightarrow> own G' s"
  unfolding own_def by (auto intro: subset_mset.order_trans [OF subset_mset.add_left_mono])

lemma own_env: "keeps_env m \<Longrightarrow> valid (own G) (on_env m) (\<lambda>_. own G)"
  by (fastforce simp: valid_def on_env_def own_def keeps_env_def)

lemma own_alloc: "valid (own G) (alloc_pkt h) (\<lambda>x. own (add_mset x G))"
proof (rule validI)
  fix s x t assume s: "own G s" "alloc_pkt h s = Inr (x, t)"
  obtain p e where pe: "s = (p, e)" by (cases s)
  show "own (add_mset x G) t"
  proof (cases "free_packets p")
    case (Cons y ys)
    then show ?thesis using s pe by (auto simp: alloc_pkt_def own_def)
  next
    case Nil
    then obtain e' where e': "h_alloc_region h (int pkt_buf_size) e = Inr (x, e')"
      and t: "t = (p\<lparr>allocated_packets := allocated_packets p @ [x]\<rparr>, e')"
      using s(2) pe by (auto simp: alloc_pkt_def)
    have "env_ok e' \<and> x \<notin> owned e \<and> insert x (owned e) \<subseteq> owned e'"
      using alloc_fresh [OF _ _ _ e'] s(1) pe by (simp add: own_def pkt_buf_size_def)
    then show ?thesis using s(1) pe t Nil by (auto simp: own_def)
  qed
qed

lemma own_free_desc: "valid (own (pkts (dr_info r) + G)) (free_desc j r) (\<lambda>r'. own (pkts (dr_info r') + G))"
  by (rule validI) (auto simp: free_desc_ok own_def pkts_clear)

lemma own_put_index:
  "valid (own (add_mset x (pkts (dr_info r) + G))) (liftS (put_index j x r)) (\<lambda>r'. own (pkts (dr_info r') + G))"
proof (rule valid_lift)
  fix r' s assume "put_index j x r = Inr r'" and s: "own (add_mset x (pkts (dr_info r) + G)) s"
  then have "pkts (dr_info r') \<subseteq># add_mset x (pkts (dr_info r))"
    by (auto simp: put_index_def pkts_store split: if_splits)
  then have "pkts (dr_info r') + G \<subseteq># add_mset x (pkts (dr_info r) + G)"
    by (metis add_mset_add_single subset_mset.add_right_mono union_mset_add_mset_left)
  then show "own (pkts (dr_info r') + G) s" by (rule own_mono [OF s])
qed

lemma own_env_post:
  assumes "keeps_env m" "\<And>e x e'. m e = Inr (x, e') \<Longrightarrow> R x"
  shows "valid (own G) (on_env m) (\<lambda>x s. own G s \<and> R x)"
proof (rule validI)
  fix s x t assume a: "own G s" "on_env m s = Inr (x, t)"
  then have "R x" using assms(2) by (cases s) (auto simp: on_env_def)
  then show "own G t \<and> R x" using validD [OF own_env [OF assms(1)] a] by simp
qed

definition keeps_ring :: "dring \<Rightarrow> ('e drv, dring) stm \<Rightarrow> bool" where
  "keeps_ring r m \<longleftrightarrow> (\<forall>G. valid (own (pkts (dr_info r) + G)) m (\<lambda>r'. own (pkts (dr_info r') + G)))"

lemma keeps_ringD: "keeps_ring r m \<Longrightarrow> valid (own (pkts (dr_info r) + G)) m (\<lambda>r'. own (pkts (dr_info r') + G))"
  by (simp add: keeps_ring_def)

lemma keeps_ring_bind: "keeps_ring r m \<Longrightarrow> (\<And>r. keeps_ring r (f r)) \<Longrightarrow> keeps_ring r (bindS m f)"
  unfolding keeps_ring_def by (blast intro: valid_bind)

lemma keeps_ring_env: "keeps_env m \<Longrightarrow> (\<And>x. keeps_ring r (f x)) \<Longrightarrow> keeps_ring r (bindS (on_env m) f)"
  unfolding keeps_ring_def by (blast intro: valid_bind own_env)

lemma keeps_ring_env_post:
  assumes "keeps_env m" "\<And>e r' e'. m e = Inr (r', e') \<Longrightarrow> dr_info r' = dr_info r" "\<And>r. keeps_ring r (f r)"
  shows "keeps_ring r (bindS (on_env m) f)"
  unfolding keeps_ring_def
proof (intro allI valid_bind [OF own_env_post [OF assms(1,2)]])
  fix G r'
  show "valid (\<lambda>s. own (pkts (dr_info r) + G) s \<and> dr_info r' = dr_info r) (f r') (\<lambda>r'. own (pkts (dr_info r') + G))"
    using keeps_ringD [OF assms(3), of r' G] by (auto simp: valid_def)
qed

lemma keeps_ring_ret: "dr_info r' = dr_info r \<Longrightarrow> keeps_ring r (retS r')"
  unfolding keeps_ring_def by (auto intro: valid_ret)

lemma keeps_ring_lift: "(\<And>r'. x = Inr r' \<Longrightarrow> dr_info r' = dr_info r) \<Longrightarrow> keeps_ring r (liftS x)"
  unfolding keeps_ring_def by (auto intro!: valid_lift)

lemma keeps_ring_info: "keeps_ring r m \<Longrightarrow> dr_info r = dr_info r' \<Longrightarrow> keeps_ring r' m"
  by (simp add: keeps_ring_def)

lemma keeps_ring_fold: "(\<And>x r. keeps_ring r (f x r)) \<Longrightarrow> keeps_ring r (foldS f xs r)"
  unfolding keeps_ring_def
  by (intro allI valid_fold [where I = "\<lambda>r. own (pkts (dr_info r) + G)" for G]) simp

lemma keeps_ring_free_desc: "keeps_ring r (free_desc j r)"
  unfolding keeps_ring_def by (blast intro: own_free_desc)

text \<open>A new packet buffer goes into a ring.\<close>

lemma keeps_ring_store:
  assumes "\<And>x r. keeps_ring r (f x r)"
  shows "keeps_ring r (bindS (alloc_pkt h) (\<lambda>x. bindS (liftS (put_index j x r)) (f x)))"
  unfolding keeps_ring_def
proof (intro allI valid_bind [OF own_alloc] valid_bind [OF own_put_index])
  fix G x r'
  show "valid (own (pkts (dr_info r') + G)) (f x r') (\<lambda>r'. own (pkts (dr_info r') + G))"
    by (rule keeps_ringD [OF assms])
qed

lemma keeps_ring_prepare: "keeps_ring r (prepare_desc h j r)"
  unfolding prepare_desc_def Let_def
  by (rule keeps_ring_store) (auto intro!: keeps_ring_env keeps_ring_ret keeps_env_intros)

lemma keeps_ring_refill: "keeps_ring r (refill_buffers h r)"
  unfolding refill_buffers_def Let_def
  by (auto intro!: keeps_ring_bind keeps_ring_fold keeps_ring_prepare keeps_ring_env keeps_ring_ret)

lemma clean_ring_info: "clean_ring r = Inr r' \<Longrightarrow> dr_info r' = dr_info r"
  by (auto simp: clean_ring_def split: option.splits)

lemma read_tail_info: "read_tail_ptr h r e = Inr (r', e') \<Longrightarrow> dr_info r' = dr_info r"
  by (auto simp: read_tail_ptr_def bindS_eq_Inr)

lemma keeps_ring_tx_cpl: "keeps_ring r (tx_cpl h cq ptr r)"
  unfolding tx_cpl_def by (intro keeps_ring_env keeps_ring_free_desc) simp

lemma keeps_ring_for: "(\<And>x r. keeps_ring r (f x r)) \<Longrightarrow> keeps_ring r (for_ptr a b f r)"
  unfolding for_ptr_def by (simp add: keeps_ring_fold) (simp add: keeps_ring_def valid_err)

text \<open>A method of the interface moves packet buffers only between the rings and the free list.\<close>

definition keeps_if :: "nic_if \<Rightarrow> ('e drv, nic_if) stm \<Rightarrow> bool" where
  "keeps_if i m \<longleftrightarrow> (\<forall>F. valid (own (if_pkts i + F)) m (\<lambda>i'. own (if_pkts i' + F)))"

lemma keeps_ifD: "keeps_if i m \<Longrightarrow> valid (own (if_pkts i + F)) m (\<lambda>i'. own (if_pkts i' + F))"
  by (simp add: keeps_if_def)

lemma keeps_if_bind: "keeps_if i m \<Longrightarrow> (\<And>i. keeps_if i (f i)) \<Longrightarrow> keeps_if i (bindS m f)"
  unfolding keeps_if_def by (blast intro: valid_bind)

lemma keeps_if_env: "keeps_env m \<Longrightarrow> (\<And>x. keeps_if i (f x)) \<Longrightarrow> keeps_if i (bindS (on_env m) f)"
  unfolding keeps_if_def by (blast intro: valid_bind own_env)

lemma keeps_if_lift: "(\<And>x. r = Inr x \<Longrightarrow> keeps_if i (f x)) \<Longrightarrow> keeps_if i (bindS (liftS r) f)"
  by (cases r) (auto simp: keeps_if_def valid_def bindS_def liftS_def)

lemma keeps_if_ret: "if_pkts i' = if_pkts i \<Longrightarrow> keeps_if i (retS i')"
  unfolding keeps_if_def by (auto intro: valid_ret)

lemma keeps_if_fold: "(\<And>x i. keeps_if i (f x i)) \<Longrightarrow> keeps_if i (foldS f xs i)"
  unfolding keeps_if_def
  by (intro allI valid_fold [where I = "\<lambda>i. own (if_pkts i + F)" for F]) simp

lemma keeps_if_for: "(\<And>x i. keeps_if i (f x i)) \<Longrightarrow> keeps_if i (for_ptr a b f i)"
  unfolding for_ptr_def by (simp add: keeps_if_fold) (simp add: keeps_if_def valid_err)

text \<open>\<open>at_ring G r m\<close>: \<open>m\<close> works on ring \<open>r\<close> of an interface whose other rings hold \<open>G\<close>.\<close>

definition at_ring :: "int multiset \<Rightarrow> dring \<Rightarrow> ('e drv, nic_if) stm \<Rightarrow> bool" where
  "at_ring G r m \<longleftrightarrow> (\<forall>F. valid (own (pkts (dr_info r) + (G + F))) m (\<lambda>i'. own (if_pkts i' + F)))"

lemma at_ring_bind: "keeps_ring r m \<Longrightarrow> (\<And>r. at_ring G r (f r)) \<Longrightarrow> at_ring G r (bindS m f)"
  unfolding at_ring_def keeps_ring_def by (blast intro: valid_bind)

lemma at_ring_env: "keeps_env m \<Longrightarrow> (\<And>x. at_ring G r (f x)) \<Longrightarrow> at_ring G r (bindS (on_env m) f)"
  unfolding at_ring_def by (blast intro: valid_bind own_env)

lemma at_ring_ret: "if_pkts i' = pkts (dr_info r) + G \<Longrightarrow> at_ring G r (retS i')"
  unfolding at_ring_def by (auto intro!: valid_ret simp: add.assoc)

lemma keeps_if_at: "if_pkts i = pkts (dr_info r) + G \<Longrightarrow> at_ring G r m \<Longrightarrow> keeps_if i m"
  by (simp add: at_ring_def keeps_if_def add.assoc)

lemma keeps_ring_read_tail: "keeps_ring r (on_env (read_tail_ptr h r))"
  unfolding keeps_ring_def
proof
  fix G
  have "valid (own (pkts (dr_info r) + G)) (on_env (read_tail_ptr h r))
          (\<lambda>r' s. own (pkts (dr_info r) + G) s \<and> dr_info r' = dr_info r)"
    by (rule own_env_post) (simp_all add: read_tail_info)
  then show "valid (own (pkts (dr_info r) + G)) (on_env (read_tail_ptr h r)) (\<lambda>r'. own (pkts (dr_info r') + G))"
    by (rule valid_weaken) auto
qed

definition tx_rest :: "nat \<Rightarrow> nic_if \<Rightarrow> int multiset" where
  "tx_rest k i = rings_pkts (take k (tx_queues i)) + rings_pkts (drop (Suc k) (tx_queues i)) + rings_pkts (rx_queues i)"

definition rx_rest :: "nat \<Rightarrow> nic_if \<Rightarrow> int multiset" where
  "rx_rest k i = rings_pkts (take k (rx_queues i)) + rings_pkts (drop (Suc k) (rx_queues i)) + rings_pkts (tx_queues i)"

lemma if_pkts_tx:
  assumes "nth_res (tx_queues i) k = Inr r"
  shows "if_pkts i = pkts (dr_info r) + tx_rest k i"
    "tx_queues i' = (tx_queues i)[k := r'] \<Longrightarrow> rx_queues i' = rx_queues i \<Longrightarrow> if_pkts i' = pkts (dr_info r') + tx_rest k i"
proof -
  have k: "k < length (tx_queues i)" "tx_queues i ! k = r" using assms by (auto simp: nth_res_def split: if_splits)
  show "if_pkts i = pkts (dr_info r) + tx_rest k i"
    using rings_pkts_nth [OF k(1)] k(2) by (simp add: if_pkts_def tx_rest_def add.assoc)
  show "if_pkts i' = pkts (dr_info r') + tx_rest k i"
    if "tx_queues i' = (tx_queues i)[k := r']" "rx_queues i' = rx_queues i"
    using rings_pkts_update [OF k(1)] that by (simp add: if_pkts_def tx_rest_def add.assoc)
qed

lemma if_pkts_rx:
  assumes "nth_res (rx_queues i) k = Inr r"
  shows "if_pkts i = pkts (dr_info r) + rx_rest k i"
    "rx_queues i' = (rx_queues i)[k := r'] \<Longrightarrow> tx_queues i' = tx_queues i \<Longrightarrow> if_pkts i' = pkts (dr_info r') + rx_rest k i"
proof -
  have k: "k < length (rx_queues i)" "rx_queues i ! k = r" using assms by (auto simp: nth_res_def split: if_splits)
  show "if_pkts i = pkts (dr_info r) + rx_rest k i"
    using rings_pkts_nth [OF k(1)] k(2) by (simp add: if_pkts_def rx_rest_def ac_simps)
  show "if_pkts i' = pkts (dr_info r') + rx_rest k i"
    if "rx_queues i' = (rx_queues i)[k := r']" "tx_queues i' = tx_queues i"
    using rings_pkts_update [OF k(1)] that by (simp add: if_pkts_def rx_rest_def ac_simps)
qed

text \<open>The ring that a method reads is the one it writes back: the head pointer of a completion queue is read
  without changing its ring.\<close>

lemma read_head_ring: "cq_read_head_ptr h q e = Inr (q', e') \<Longrightarrow> cq_ring_index q' = cq_ring_index q"
  by (auto simp: cq_read_head_ptr_def eq_read_head_ptr_def bindS_eq_Inr)

lemma keeps_if_env_post:
  assumes "keeps_env m" "\<And>e x e'. m e = Inr (x, e') \<Longrightarrow> R x" "\<And>x. R x \<Longrightarrow> keeps_if i (f x)"
  shows "keeps_if i (bindS (on_env m) f)"
  unfolding keeps_if_def
proof (intro allI valid_bind [OF own_env_post [OF assms(1,2)]])
  fix F x
  show "valid (\<lambda>s. own (if_pkts i + F) s \<and> R x) (f x) (\<lambda>i'. own (if_pkts i' + F))"
    using keeps_ifD [OF assms(3), of x F] by (auto simp: valid_def)
qed

lemma keeps_if_read_head:
  "(\<And>q'. cq_ring_index q' = cq_ring_index q \<Longrightarrow> keeps_if i (f q')) \<Longrightarrow>
   keeps_if i (bindS (on_env (cq_read_head_ptr h q)) f)"
  by (rule keeps_if_env_post [where R = "\<lambda>q'. cq_ring_index q' = cq_ring_index q"]) (simp_all add: read_head_ring)

lemma keeps_if_tx_cq: "keeps_if i (process_tx_cq h k i)"
proof -
  have "keeps_if i (bindS (for_ptr (cq_tail_ptr q) (cq_head_ptr q) (tx_cpl h q) r) (\<lambda>ring.
          bindS (on_env (cq_write_tail_ptr h (q\<lparr>cq_tail_ptr := cq_head_ptr q\<rparr>))) (\<lambda>_.
          bindS (on_env (read_tail_ptr h ring)) (\<lambda>ring. bindS (liftS (clean_ring ring)) (\<lambda>ring.
            retS (i\<lparr>tx_cpl_queues := (tx_cpl_queues i)[k := q\<lparr>cq_tail_ptr := cq_head_ptr q\<rparr>],
                    tx_queues := (tx_queues i)[n := ring]\<rparr>))))))"
    if r: "nth_res (tx_queues i) n = Inr r" for n q r
    by (rule keeps_if_at [OF if_pkts_tx(1) [OF r]])
       (intro at_ring_bind at_ring_env keeps_ring_for keeps_ring_tx_cpl keeps_ring_read_tail keeps_ring_lift
          at_ring_ret if_pkts_tx(2) [OF r] clean_ring_info; simp)
  then show ?thesis
    unfolding process_tx_cq_def Let_def
    by (auto intro!: keeps_if_lift keeps_if_ret keeps_if_read_head)
qed

text \<open>The same for an operation that returns something with the ring.\<close>

definition keeps_snd :: "dring \<Rightarrow> ('e drv, 'a \<times> dring) stm \<Rightarrow> bool" where
  "keeps_snd r m \<longleftrightarrow> (\<forall>G. valid (own (pkts (dr_info r) + G)) m (\<lambda>xr. own (pkts (dr_info (snd xr)) + G)))"

lemma at_ring_snd: "keeps_snd r m \<Longrightarrow> (\<And>x r. at_ring G r (f (x, r))) \<Longrightarrow> at_ring G r (bindS m f)"
  unfolding at_ring_def keeps_snd_def by (auto intro!: valid_bind [where m = m])

lemma keeps_snd_map: "keeps_snd r m \<Longrightarrow> keeps_snd r (bindS m (\<lambda>(x, r). retS (g x, r)))"
  unfolding keeps_snd_def by (auto intro!: valid_bind [where m = m] valid_ret split: prod.splits)

lemma keeps_snd_ret: "keeps_snd r (retS (x, r))"
  unfolding keeps_snd_def by (auto intro: valid_ret)

lemma keeps_snd_rx_cpl: "keeps_snd r (rx_cpl h q r)"
  unfolding keeps_snd_def
proof
  fix G
  have free: "valid (own (pkts (dr_info r) + G)) (bindS (free_desc j r) (\<lambda>r. retS (x, r)))
      (\<lambda>xr. own (pkts (dr_info (snd xr)) + G))" for j x
    by (rule valid_bind [OF own_free_desc]) (auto intro: valid_ret)
  show "valid (own (pkts (dr_info r) + G)) (rx_cpl h q r) (\<lambda>xr. own (pkts (dr_info (snd xr)) + G))"
    unfolding rx_cpl_def Let_def
    by (rule valid_bind [OF own_env], simp, rule valid_bind [OF valid_lift], assumption)
       (auto intro!: valid_bind [OF own_env] free valid_err split: option.splits)
qed

lemma keeps_if_rx_cq: "keeps_if i (process_rx_cq h k i)"
proof -
  let ?m = "\<lambda>q r. if cq_head_ptr q \<noteq> cq_tail_ptr q then bindS (rx_cpl h q r) (\<lambda>(skb, ring). retS ([skb], ring))
                  else retS ([], r)"
  have m: "keeps_snd r (?m q r)" for q r
    using keeps_snd_map [OF keeps_snd_rx_cpl, of r q "\<lambda>x. [x]"] keeps_snd_ret by (auto simp del: stm_simps)
  have "keeps_if i (bindS (?m q r) (\<lambda>(skbs, ring).
          bindS (on_env (cq_write_tail_ptr h (q\<lparr>cq_tail_ptr := cq_tail_ptr q + int (length skbs)\<rparr>))) (\<lambda>_.
          bindS (on_env (task_feedback h (int (length skbs)) (q\<lparr>cq_tail_ptr := cq_tail_ptr q + int (length skbs)\<rparr>))) (\<lambda>_.
          bindS (on_env (read_tail_ptr h ring)) (\<lambda>ring. bindS (liftS (clean_ring ring)) (\<lambda>ring.
          bindS (refill_buffers h ring) (\<lambda>ring.
            retS (i\<lparr>nic_rx_cpl_queues := (nic_rx_cpl_queues i)[k := q\<lparr>cq_tail_ptr := cq_tail_ptr q + int (length skbs)\<rparr>],
                    rx_queues := (rx_queues i)[n := ring], pkt_rx_queue := pkt_rx_queue i @ skbs\<rparr>))))))))"
    if r: "nth_res (rx_queues i) n = Inr r" for n q r
    by (rule keeps_if_at [OF if_pkts_rx(1) [OF r]], rule at_ring_snd [OF m], unfold prod.case)
       (intro at_ring_bind at_ring_env keeps_ring_read_tail keeps_ring_lift keeps_ring_refill
          at_ring_ret if_pkts_rx(2) [OF r] clean_ring_info; simp)
  then show ?thesis
    unfolding process_rx_cq_def Let_def
    by (auto intro!: keeps_if_lift keeps_if_ret keeps_if_read_head simp del: stm_simps)
qed

text \<open>Events, interrupts, transmission.\<close>

lemma keeps_if_event: "keeps_if i (process_event h q ptr i)"
  unfolding process_event_def Let_def
  by (auto intro!: keeps_if_env keeps_if_bind keeps_if_tx_cq keeps_if_rx_cq keeps_if_lift keeps_if_ret)

lemma keeps_if_eq_process: "keeps_if i (eq_process h k i)"
  unfolding eq_process_def Let_def
  by (auto intro!: keeps_if_env keeps_if_bind keeps_if_for keeps_if_event keeps_if_lift keeps_if_ret simp: if_pkts_def)

lemma keeps_if_service: "keeps_if i (service_eq h k i)"
  unfolding service_eq_def
  by (auto intro!: keeps_if_env keeps_if_bind keeps_if_eq_process keeps_if_lift keeps_if_ret)

lemma keeps_if_same: "keeps_if i' m \<Longrightarrow> if_pkts i' = if_pkts i \<Longrightarrow> keeps_if i m"
  by (simp add: keeps_if_def)

lemma keeps_if_round: "keeps_if i (interrupt_round h i)"
  unfolding interrupt_round_def
  by (auto intro!: keeps_if_bind keeps_if_ret keeps_if_same [OF keeps_if_fold] keeps_if_service simp: if_pkts_def)

lemma keeps_if_rounds: "keeps_if i (interrupt_rounds n h i)"
proof (induction n arbitrary: i)
  case (Suc n)
  show ?case unfolding interrupt_rounds.simps
    by (rule keeps_if_bind [OF keeps_if_round], rule keeps_if_same [OF Suc]) (simp add: if_pkts_def)
qed (simp add: keeps_if_round)

lemma keeps_if_interrupt: "keeps_if i (interrupt h i)"
  unfolding interrupt_def by (auto intro!: keeps_if_rounds keeps_if_ret simp: if_pkts_def)

lemma keeps_ring_fill: "keeps_ring r (tx_fill h data csum r)"
  unfolding tx_fill_def Let_def
  by (rule keeps_ring_info [OF keeps_ring_store]) (auto intro!: keeps_ring_env keeps_ring_ret)

lemma keeps_if_xmit: "keeps_if i (start_xmit h data k csum i)"
proof -
  have "keeps_if i (bindS (tx_fill h (take 16384 data) csum r) (\<lambda>r.
          bindS (on_env (write_head_ptr h (r\<lparr>dr_head_ptr := dr_head_ptr r + 1\<rparr>))) (\<lambda>_.
            retS (i\<lparr>tx_queues := (tx_queues i)[k := r\<lparr>dr_head_ptr := dr_head_ptr r + 1\<rparr>]\<rparr>))))"
    if r: "nth_res (tx_queues i) k = Inr r" for r
    by (rule keeps_if_at [OF if_pkts_tx(1) [OF r]])
       (intro at_ring_bind at_ring_env keeps_ring_fill at_ring_ret; simp add: if_pkts_tx(2) [OF r])
  then show ?thesis unfolding start_xmit_def Let_def by (auto intro!: keeps_if_lift keeps_if_ret)
qed

lemma valid_pre: "(R \<Longrightarrow> valid P m Q) \<Longrightarrow> valid (\<lambda>s. P s \<and> R) m Q"
  by (auto simp: valid_def)

lemma own_map_rings:
  assumes "\<And>r. keeps_ring r (f r)"
  shows "valid (own (rings_pkts rs + G)) (mapS f rs) (\<lambda>rs'. own (rings_pkts rs' + G))"
proof -
  have "valid (own (rings_pkts ys + (rings_pkts rs + G))) (foldS (\<lambda>x ys. bindS (f x) (\<lambda>y. retS (ys @ [y]))) rs ys)
          (\<lambda>rs'. own (rings_pkts rs' + G))" for ys
  proof (induction rs arbitrary: ys)
    case Nil
    show ?case unfolding foldS.simps by (rule valid_ret) (simp add: rings_pkts_def)
  next
    case (Cons r rs)
    have "valid (own (pkts (dr_info r) + (rings_pkts ys + (rings_pkts rs + G)))) (bindS (f r) (\<lambda>y. retS (ys @ [y])))
       (\<lambda>ys. own (rings_pkts ys + (rings_pkts rs + G)))"
      by (rule valid_bind [OF keeps_ringD [OF assms]], rule valid_ret) (simp add: rings_pkts_def ac_simps)
    then show ?case unfolding foldS.simps
      by (intro valid_bind [OF _ Cons.IH]) (simp add: rings_pkts_def ac_simps)
  qed
  from this [of "[]"] show ?thesis by (simp add: mapS_def rings_pkts_def)
qed

lemma keeps_ring_rx_activate: "keeps_ring r (rx_activate h n r)"
  unfolding rx_activate_def
  by (rule keeps_ring_env_post) (simp, auto simp: keeps_ring_refill tx_activate_def bindS_eq_Inr)

lemma activate_info: "mapS (\<lambda>r. tx_activate h (g r) r) rs e = Inr (rs', e') \<Longrightarrow> rings_pkts rs' = rings_pkts rs"
proof -
  have "foldS (\<lambda>r ys. bindS (tx_activate h (g r) r) (\<lambda>y. retS (ys @ [y]))) rs ys e = Inr (rs', e') \<Longrightarrow>
     rings_pkts rs' = rings_pkts ys + rings_pkts rs" for ys
    by (induction rs arbitrary: ys e)
       (force simp: bindS_eq_Inr tx_activate_def rings_pkts_def add.assoc)+
  from this [of "[]"] show "mapS (\<lambda>r. tx_activate h (g r) r) rs e = Inr (rs', e') \<Longrightarrow> rings_pkts rs' = rings_pkts rs"
    by (simp add: mapS_def rings_pkts_def)
qed

lemma keeps_if_open: "keeps_if i (if_open h i)"
  unfolding if_open_def
proof (intro keeps_if_env keeps_env_map keeps_env_open)
  fix eqs rxcs
  let ?rest = "\<lambda>rxs. bindS (on_env (mapS (open_cq h (event_queue_count (if_csrs i))) (tx_cpl_queues i))) (\<lambda>txcs.
     bindS (on_env (mapS (\<lambda>r. tx_activate h (int (dr_index r)) r) (tx_queues i))) (\<lambda>txs.
     bindS (on_env (h_mem_read h (if_hw_addr i) 4)) (\<lambda>_.
       retS (i\<lparr>event_queues := eqs, nic_rx_cpl_queues := rxcs, rx_queues := rxs, tx_cpl_queues := txcs,
               tx_queues := txs, if_port_up := True\<rparr>))))"
  have "valid (own (rings_pkts rxs + (rings_pkts (tx_queues i) + F))) (?rest rxs) (\<lambda>i'. own (if_pkts i' + F))" for rxs F
  proof (rule valid_bind [OF own_env [OF keeps_env_map [OF keeps_env_open(2)]]])
    fix txcs
    show "valid (own (rings_pkts rxs + (rings_pkts (tx_queues i) + F)))
      (bindS (on_env (mapS (\<lambda>r. tx_activate h (int (dr_index r)) r) (tx_queues i))) (\<lambda>txs.
       bindS (on_env (h_mem_read h (if_hw_addr i) 4)) (\<lambda>_.
         retS (i\<lparr>event_queues := eqs, nic_rx_cpl_queues := rxcs, rx_queues := rxs, tx_cpl_queues := txcs,
                 tx_queues := txs, if_port_up := True\<rparr>)))) (\<lambda>i'. own (if_pkts i' + F))"
      by (rule valid_bind [OF own_env_post [where R = "\<lambda>rs. rings_pkts rs = rings_pkts (tx_queues i)"]])
         (auto simp: activate_info if_pkts_def add_ac
            intro!: keeps_env_map valid_pre valid_bind [OF own_env] valid_ret)
  qed
  then have "valid (own (rings_pkts (rx_queues i) + (rings_pkts (tx_queues i) + F)))
      (bindS (mapS (\<lambda>r. rx_activate h (int (dr_index r)) r) (rx_queues i)) ?rest) (\<lambda>i'. own (if_pkts i' + F))" for F
    by (intro valid_bind [OF own_map_rings]) (simp_all add: keeps_ring_rx_activate)
  then show "keeps_if i (bindS (mapS (\<lambda>r. rx_activate h (int (dr_index r)) r) (rx_queues i)) ?rest)"
    by (simp add: keeps_if_def if_pkts_def ac_simps)
qed

lemma mapS_err:
  assumes "\<And>x s. \<exists>e. f x s = Inl e" "mapS f xs s = Inr (ys, t)"
  shows "xs = [] \<and> ys = [] \<and> t = s"
proof (cases xs)
  case (Cons x zs)
  then show ?thesis using assms(2) assms(1) [of x s] by (auto simp: mapS_def bindS_eq_Inr)
qed (use assms(2) in \<open>simp add: mapS_def\<close>)

lemma keeps_if_close: "keeps_if i (if_close h i)"
proof -
  have "keeps_if i (bindS (mapS await_free_buf (tx_queues i)) (\<lambda>txs. bindS (mapS await_free_buf (rx_queues i)) (\<lambda>rxs.
       retS (i\<lparr>if_port_up := False, tx_queues := txs, rx_queues := rxs\<rparr>))))"
    unfolding keeps_if_def
    by (auto intro!: validI dest!: mapS_err [OF await_free_buf_fails] simp: bindS_eq_Inr if_pkts_def)
  then show ?thesis unfolding if_close_def
    by (intro keeps_if_env keeps_env_fold)
       (simp_all add: tx_deactivate_def cq_deactivate_def eq_deactivate_def)
qed

lemma keeps_if_op: "keeps_if i (run_op h op i)"
  by (cases op) (simp_all add: keeps_if_open keeps_if_close keeps_if_xmit keeps_if_interrupt keeps_if_ret
    if_pkts_def recv_nowait_def del: stm_simps split: list.splits)

lemma ops_own:
  assumes "own (if_pkts i + F) s" "foldS (run_op h) ops i s = Inr (i', s')"
  shows "own (if_pkts i' + F) s'"
  using validD [OF keeps_ifD [OF keeps_if_fold [OF keeps_if_op]] assms] .

end

end
