(* ===== verification/Mqnic_Gather.thy ===== *)
theory Mqnic_Gather
  imports Mqnic_Interface
begin

unbundle bit_operations_syntax

text \<open>
  What a device finds when it follows the descriptors of a transmit entry. The locale \<open>nic_memory\<close> states how buffers are
  read and written; in it, \<open>tx_fill\<close> is shown to leave descriptors that name exactly the bytes of the packet.
\<close>


section \<open>The device's view of a transmit entry\<close>

text \<open>What a device does with a block of descriptors: it reads, for each, the length and the address, and
  concatenates the memory that they name. \<open>pmem\<close> is the packet buffer, at address \<open>base\<close>.\<close>

function gather :: "byte list \<Rightarrow> int \<Rightarrow> byte list \<Rightarrow> byte list" where
  "gather pmem base ds =
     (if length ds < 16 then []
      else let n = nat (le_int (slice 4 8 ds)); a = nat (le_int (slice 8 16 ds) - base)
           in slice a (a + n) pmem @ gather pmem base (drop 16 ds))"
  by pat_completeness auto
termination
  by (relation "measure (\<lambda>(pmem, base, ds). length ds)") auto

declare gather.simps [simp del]

lemma gather_Nil [simp]: "gather pmem base [] = []"
  by (simp add: gather.simps)

lemma gather_desc:
  assumes "length u = 4" "0 \<le> addr" "addr < 2 ^ 64" "n < 2 ^ 32"
  shows "gather pmem base (u @ le_bytes 4 (int n) @ le_bytes 8 addr @ ds) =
    slice (nat (addr - base)) (nat (addr - base) + n) pmem @ gather pmem base ds"
proof -
  let ?ds = "u @ le_bytes 4 (int n) @ le_bytes 8 addr @ ds"
  have "slice 4 8 ?ds = le_bytes 4 (int n)" "slice 8 16 ?ds = le_bytes 8 addr" "drop 16 ?ds = ds" "\<not> length ?ds < 16"
    using assms(1) by (simp_all add: slice_def)
  moreover have "le_int (le_bytes 4 (int n)) = int n" "le_int (le_bytes 8 addr) = addr"
    using assms(2-4) by (intro le_int_le_bytes; simp)+
  ultimately show ?thesis by (subst gather.simps) (simp add: Let_def)
qed

section \<open>The descriptors of an entry\<close>

text \<open>The segments of the descriptors after the first: offset and length.\<close>

primrec segs :: "nat \<Rightarrow> nat \<Rightarrow> nat \<Rightarrow> nat list \<Rightarrow> (nat \<times> nat) list" where
  "segs blocks len off [] = []"
| "segs blocks len off (k # ks) =
     (off, seg_length blocks len off k) # segs blocks len (off + seg_length blocks len off k) ks"

definition desc_bytes :: "int \<Rightarrow> nat \<times> nat \<Rightarrow> byte list" where
  "desc_bytes ptr os = replicate 4 0 @ le_bytes 4 (int (snd os)) @ le_bytes 8 (seg_addr ptr (fst os) (snd os))"

lemma length_desc_bytes [simp]: "length (desc_bytes ptr os) = 16"
  by (simp add: desc_bytes_def)

lemma seg_length_le: "seg_length blocks len off k \<le> len - off"
  by (simp add: seg_length_def)

text \<open>The segments lie one after the other, and the last one reaches the end.\<close>

lemma segs_cover:
  assumes "off \<le> length data" "ks \<noteq> []" "last ks \<ge> blocks - 1"
  shows "concat (map (\<lambda>(j, n). slice j (j + n) data) (segs blocks (length data) off ks)) = drop off data"
  using assms
proof (induction ks arbitrary: off)
  case (Cons k ks)
  let ?n = "seg_length blocks (length data) off k"
  have le: "off + ?n \<le> length data" using seg_length_le [of blocks "length data" off k] Cons.prems(1) by simp
  show ?case
  proof (cases "ks = []")
    case True
    then show ?thesis using Cons.prems by (simp add: seg_length_def slice_def)
  next
    case False
    then have "concat (map (\<lambda>(j, n). slice j (j + n) data) (segs blocks (length data) (off + ?n) ks)) = drop (off + ?n) data"
      using Cons.IH [OF le] Cons.prems by simp
    moreover have "slice off (off + ?n) data @ drop (off + ?n) data = drop off data"
      by (simp add: slice_def) (metis append_take_drop_id drop_drop add.commute)
    ultimately show ?thesis by simp
  qed
qed simp

lemma segs_bounds: "off \<le> len \<Longrightarrow> (j, n) \<in> set (segs blocks len off ks) \<Longrightarrow> j + n \<le> len"
proof (induction ks arbitrary: off)
  case (Cons k ks)
  have "off + seg_length blocks len off k \<le> len" using seg_length_le [of blocks len off k] Cons.prems(1) by simp
  then show ?case using Cons by auto
qed simp

text \<open>What the device gathers from the descriptors, when the packet lies at \<open>ptr\<close> in the buffer.\<close>

lemma gather_segs:
  assumes "\<forall>(j, n) \<in> set os. j + n \<le> length data" "base \<le> ptr" "0 \<le> base" "ptr + int (length data) < 2 ^ 64"
    "length data < 2 ^ 32" "slice (nat (ptr - base)) (nat (ptr - base) + length data) pmem = data"
    "nat (ptr - base) + length data \<le> length pmem"
  shows "gather pmem base (concat (map (desc_bytes ptr) os)) = concat (map (\<lambda>(j, n). slice j (j + n) data) os)"
  using assms(1)
proof (induction os)
  case (Cons x os)
  obtain off n where x: "x = (off, n)" by (cases x)
  have n: "off + n \<le> length data" using Cons.prems x by simp
  let ?a = "seg_addr ptr off n"
  have a: "0 \<le> ?a" "?a < 2 ^ 64" using assms n by (auto simp: seg_addr_def)
  have "slice (nat (?a - base)) (nat (?a - base) + n) pmem = slice off (off + n) data"
  proof (cases "n = 0")
    case False
    then have "nat (?a - base) = nat (ptr - base) + off" using assms(2) by (simp add: seg_addr_def nat_add_distrib)
    then have "slice (nat (?a - base)) (nat (?a - base) + n) pmem
        = slice off (off + n) (slice (nat (ptr - base)) (nat (ptr - base) + length data) pmem)"
      using n by (simp add: slice_slice add.assoc)
    then show ?thesis using assms(6) by simp
  qed simp
  moreover have "gather pmem base (desc_bytes ptr x @ concat (map (desc_bytes ptr) os)) =
      slice (nat (?a - base)) (nat (?a - base) + n) pmem @ gather pmem base (concat (map (desc_bytes ptr) os))"
    using gather_desc [of "replicate 4 0" ?a n pmem base "concat (map (desc_bytes ptr) os)"] a n assms(5)
    by (simp add: desc_bytes_def x)
  ultimately show ?case using Cons by (simp add: x)
qed simp

section \<open>The memory of the host\<close>

locale nic_memory =
  fixes h :: "'e host" and mem :: "int \<Rightarrow> 'e \<Rightarrow> byte list option" and set_mem :: "int \<Rightarrow> byte list \<Rightarrow> 'e \<Rightarrow> 'e"
  assumes buf_write: "mem b e = Some m \<Longrightarrow> k + length bs \<le> length m \<Longrightarrow>
      h_buf_write h b k bs e = Inr ((), set_mem b (splice k (k + length bs) bs m) e)"
    and mem_set: "mem b e = Some m \<Longrightarrow> mem b (set_mem b m' e) = Some m'"
    and mem_other: "b \<noteq> c \<Longrightarrow> mem c (set_mem b m' e) = mem c e"
    and set_set: "set_mem b m (set_mem b m' e) = set_mem b m e"
begin

lemma put_desc_ok:
  assumes "dr_buf r = Some buf" "mem buf e = Some m" "index * dr_stride r + k * 16 + length bs \<le> length m"
  shows "put_desc h r index k (Inr bs) e
    = Inr ((), set_mem buf (splice (index * dr_stride r + k * 16) (index * dr_stride r + k * 16 + length bs) bs m) e)"
  using assms buf_write [of buf e m] by (simp add: put_desc_def bindS_def liftS_def)

text \<open>The descriptors written so far are \<open>ds\<close>; the loop appends one after the other.\<close>

lemma put_segs:
  assumes "dr_buf r = Some buf" "mem buf e = Some m" "length ds = k * 16" "b = index * dr_stride r"
    "b + (k + l) * 16 \<le> length m" "0 \<le> ptr" "ptr + int len < 2 ^ 64" "len < 2 ^ 32" "off \<le> len"
  shows "\<exists>off'. foldS (\<lambda>k off. let seg = seg_length blocks len off k
       in bindS (put_desc h r index k (tx_desc seg (seg_addr ptr off seg))) (\<lambda>_. retS (off + seg))) [k..<k + l] off
       (set_mem buf (splice b (b + k * 16) ds m) e)
     = Inr (off', set_mem buf (splice b (b + (k + l) * 16)
         (ds @ concat (map (desc_bytes ptr) (segs blocks len off [k..<k + l]))) m) e)"
  using assms(3,5,9)
proof (induction l arbitrary: k ds off)
  case (Suc l)
  let ?n = "seg_length blocks len off k"
  let ?d = "desc_bytes ptr (off, ?n)"
  have n: "off + ?n \<le> len" using seg_length_le [of blocks len off k] Suc.prems(3) by simp
  have d: "tx_desc ?n (seg_addr ptr off ?n) = Inr ?d"
    using assms(6-8) n by (auto simp: tx_desc_def pack_L_def pack_Q_def desc_bytes_def seg_addr_def)
  let ?e = "set_mem buf (splice b (b + k * 16) ds m) e"
  have lm: "length (splice b (b + k * 16) ds m) = length m"
    using Suc.prems(1,2) by (intro length_splice) auto
  have "put_desc h r index k (Inr ?d) ?e
      = Inr ((), set_mem buf (splice (b + k * 16) (b + k * 16 + 16) ?d (splice b (b + k * 16) ds m)) ?e)"
    using put_desc_ok [of r buf ?e "splice b (b + k * 16) ds m" index k ?d] assms(1,2,4) Suc.prems(2) lm
    by (simp add: mem_set)
  also have "splice (b + k * 16) (b + k * 16 + 16) ?d (splice b (b + k * 16) ds m) = splice b (b + Suc k * 16) (ds @ ?d) m"
    using splice_splice [of b ds m ?d] Suc.prems(1,2) by (simp add: add_ac)
  finally have put: "put_desc h r index k (Inr ?d) ?e = Inr ((), set_mem buf (splice b (b + Suc k * 16) (ds @ ?d) m) e)"
    by (simp add: set_set)
  have "\<exists>off'. foldS (\<lambda>k off. let seg = seg_length blocks len off k
       in bindS (put_desc h r index k (tx_desc seg (seg_addr ptr off seg))) (\<lambda>_. retS (off + seg))) [Suc k..<Suc k + l] (off + ?n)
       (set_mem buf (splice b (b + Suc k * 16) (ds @ ?d) m) e)
     = Inr (off', set_mem buf (splice b (b + (Suc k + l) * 16)
         ((ds @ ?d) @ concat (map (desc_bytes ptr) (segs blocks len (off + ?n) [Suc k..<Suc k + l]))) m) e)"
    by (rule Suc.IH) (use Suc.prems n in auto)
  moreover have "[k..<k + Suc l] = k # [Suc k..<Suc k + l]" by (simp add: upt_conv_Cons)
  ultimately show ?case by (simp add: bindS_def Let_def d put del: upt_Suc)
qed simp

definition first_desc :: "int \<Rightarrow> int \<Rightarrow> nat \<Rightarrow> byte list" where
  "first_desc ptr csum n = (le_bytes 2 0 @ le_bytes 2 csum) @ le_bytes 4 (int n) @ le_bytes 8 (seg_addr ptr 0 n)"

definition first_seg :: "nat \<Rightarrow> nat \<Rightarrow> nat" where
  "first_seg blocks len = (if blocks > 1 then min len 42 else len)"

definition all_descs :: "nat \<Rightarrow> int \<Rightarrow> int \<Rightarrow> nat \<Rightarrow> byte list" where
  "all_descs blocks ptr csum len = first_desc ptr csum (first_seg blocks len) @
     concat (map (desc_bytes ptr) (segs blocks len (first_seg blocks len) [1..<blocks]))"

lemma put_tx_descs_ok:
  assumes "dr_buf r = Some buf" "mem buf e = Some m" "b = index * dr_stride r" "blocks = dr_desc_block_size r" "0 < blocks"
    "b + blocks * 16 \<le> length m" "0 \<le> ptr" "ptr + int len < 2 ^ 64" "len < 2 ^ 32" "0 \<le> csum" "csum < 65536"
  shows "put_tx_descs h r index ptr csum len e =
    Inr ((), set_mem buf (splice b (b + blocks * 16) (all_descs blocks ptr csum len) m) e)"
proof -
  let ?n = "first_seg blocks len"
  have n: "?n \<le> len" by (simp add: first_seg_def)
  have d: "tx_first_desc csum ?n (seg_addr ptr 0 ?n) = Inr (first_desc ptr csum ?n)"
    using assms(7-11) n by (auto simp: tx_first_desc_def pack_H_def pack_L_def pack_Q_def first_desc_def seg_addr_def)
  have ld: "length (first_desc ptr csum ?n) = 16" by (simp add: first_desc_def)
  have put: "put_desc h r index 0 (Inr (first_desc ptr csum ?n)) e = Inr ((), set_mem buf (splice b (b + 1 * 16) (first_desc ptr csum ?n) m) e)"
    using put_desc_ok [OF assms(1,2), of index 0 "first_desc ptr csum ?n"] assms(3,5,6) ld by simp
  have seg: "(if dr_desc_block_size r > 1 then min len 42 else len) = ?n" by (simp add: first_seg_def assms(4))
  have b: "1 + (blocks - 1) = blocks" using assms(5) by simp
  obtain off' where "foldS (\<lambda>k off. let seg = seg_length blocks len off k
       in bindS (put_desc h r index k (tx_desc seg (seg_addr ptr off seg))) (\<lambda>_. retS (off + seg))) [1..<blocks] ?n
       (set_mem buf (splice b (b + 1 * 16) (first_desc ptr csum ?n) m) e)
     = Inr (off', set_mem buf (splice b (b + blocks * 16) (all_descs blocks ptr csum len) m) e)"
    using put_segs [OF assms(1,2) _ assms(3), of "first_desc ptr csum ?n" 1 "blocks - 1" ptr len ?n blocks] ld assms(6-9) n
    unfolding b all_descs_def by auto
  then show ?thesis using put unfolding put_tx_descs_def Let_def seg d
    by (simp add: bindS_def assms(4) Let_def)
qed

lemma gather_all_descs:
  assumes "0 < blocks" "base \<le> ptr" "0 \<le> base" "ptr + int (length data) < 2 ^ 64" "length data < 2 ^ 32"
    "slice (nat (ptr - base)) (nat (ptr - base) + length data) pmem = data" "nat (ptr - base) + length data \<le> length pmem"
  shows "gather pmem base (all_descs blocks ptr csum (length data)) = data"
proof -
  let ?n = "first_seg blocks (length data)" and ?p = "nat (ptr - base)"
  have n: "?n \<le> length data" by (simp add: first_seg_def)
  have "gather pmem base (concat (map (desc_bytes ptr) (segs blocks (length data) ?n [1..<blocks])))
      = concat (map (\<lambda>(j, n). slice j (j + n) data) (segs blocks (length data) ?n [1..<blocks]))"
    using segs_bounds [OF n] assms by (intro gather_segs) auto
  also have "\<dots> = drop ?n data"
  proof (cases "blocks > 1")
    case True
    then show ?thesis using n by (intro segs_cover) auto
  qed (use assms(1) in \<open>simp add: first_seg_def\<close>)
  finally have rest: "gather pmem base (concat (map (desc_bytes ptr) (segs blocks (length data) ?n [1..<blocks]))) = drop ?n data" .
  have a: "0 \<le> seg_addr ptr 0 ?n" "seg_addr ptr 0 ?n < 2 ^ 64" using assms by (auto simp: seg_addr_def)
  have "slice (nat (seg_addr ptr 0 ?n - base)) (nat (seg_addr ptr 0 ?n - base) + ?n) pmem = take ?n data"
  proof (cases "?n = 0")
    case False
    have "slice ?p (?p + ?n) pmem = slice 0 ?n (slice ?p (?p + length data) pmem)" using n by (simp add: slice_slice)
    then have "slice ?p (?p + ?n) pmem = take ?n data" unfolding assms(6) by (simp add: slice_def)
    then show ?thesis using False by (simp add: seg_addr_def)
  qed simp
  then show ?thesis
    using gather_desc [of "le_bytes 2 0 @ le_bytes 2 csum" "seg_addr ptr 0 ?n" ?n pmem base] a n assms(5) rest
    by (simp add: all_descs_def first_desc_def)
qed

lemma length_all_descs: "0 < blocks \<Longrightarrow> length (all_descs blocks ptr csum len) = blocks * 16"
proof -
  have "length (segs blocks len off ks) = length ks" for off ks by (induction ks arbitrary: off) simp_all
  then show "0 < blocks \<Longrightarrow> length (all_descs blocks ptr csum len) = blocks * 16"
    by (simp add: all_descs_def first_desc_def length_concat o_def sum_list_triv)
qed

text \<open>The packet goes into its buffer, ten bytes from the start, and its descriptors into the ring.\<close>

lemma tx_fill_ok:
  assumes al: "alloc_pkt h s = Inr (pkt, (p, e))"
    and mems: "dr_buf r = Some buf" "mem buf e = Some rm" "mem pkt e = Some pmem" "pkt \<noteq> buf"
    and idx: "slot r (dr_head_ptr r) < length (dr_info r)" "0 < dr_desc_block_size r"
      "slot r (dr_head_ptr r) * dr_stride r + dr_desc_block_size r * 16 \<le> length rm"
    and size: "length data + 10 \<le> length pmem" "0 \<le> pkt" "pkt + int (length pmem) < 2 ^ 64" "length pmem < 2 ^ 32"
    and csum: "0 \<le> csum_command csum" "csum_command csum < 65536"
    and b: "b = slot r (dr_head_ptr r) * dr_stride r"
  shows "tx_fill h data csum r s =
    Inr (r\<lparr>dr_packets := dr_packets r + 1, dr_bytes := dr_bytes r + length data,
           dr_info := (dr_info r)[slot r (dr_head_ptr r) := Some pkt]\<rparr>,
      (p, set_mem buf (splice b (b + dr_desc_block_size r * 16)
             (all_descs (dr_desc_block_size r) (pkt + 10) (csum_command csum) (length data)) rm)
           (set_mem pkt (splice 10 (10 + length data) data pmem) e)))"
proof -
  let ?i = "slot r (dr_head_ptr r)" and ?B = "dr_desc_block_size r"
  let ?r = "r\<lparr>dr_packets := dr_packets r + 1, dr_bytes := dr_bytes r + length data, dr_info := (dr_info r)[?i := Some pkt]\<rparr>"
  let ?e1 = "set_mem pkt (splice 10 (10 + length data) data pmem) e"
  have w: "h_buf_write h pkt 10 data e = Inr ((), ?e1)"
    using buf_write [OF mems(3), of 10 data] size(1) by simp
  have "put_tx_descs h ?r ?i (pkt + 10) (csum_command csum) (length data) ?e1 =
      Inr ((), set_mem buf (splice b (b + ?B * 16) (all_descs ?B (pkt + 10) (csum_command csum) (length data)) rm) ?e1)"
    using mems idx size csum b by (intro put_tx_descs_ok) (auto simp: mem_other)
  then show ?thesis
    using idx(1) by (simp add: tx_fill_def Let_def bindS_def al put_index_def liftS_def on_env_def w)
qed

lemma tx_fill_gathers:
  assumes "alloc_pkt h s = Inr (pkt, (p, e))"
    "dr_buf r = Some buf" "mem buf e = Some rm" "mem pkt e = Some pmem" "pkt \<noteq> buf"
    "slot r (dr_head_ptr r) < length (dr_info r)" "0 < dr_desc_block_size r"
    "slot r (dr_head_ptr r) * dr_stride r + dr_desc_block_size r * 16 \<le> length rm"
    "length data + 10 \<le> length pmem" "0 \<le> pkt" "pkt + int (length pmem) < 2 ^ 64" "length pmem < 2 ^ 32"
    "0 \<le> csum_command csum" "csum_command csum < 65536"
  shows "\<exists>r' e' rm' pmem'. tx_fill h data csum r s = Inr (r', (p, e')) \<and>
    dr_info r' = (dr_info r)[slot r (dr_head_ptr r) := Some pkt] \<and> dr_head_ptr r' = dr_head_ptr r \<and>
    mem buf e' = Some rm' \<and> mem pkt e' = Some pmem' \<and>
    gather pmem' pkt (slice (slot r (dr_head_ptr r) * dr_stride r)
      (slot r (dr_head_ptr r) * dr_stride r + dr_desc_block_size r * 16) rm') = data"
proof -
  let ?b = "slot r (dr_head_ptr r) * dr_stride r" and ?B = "dr_desc_block_size r"
  let ?pm = "splice 10 (10 + length data) data pmem"
  let ?ds = "all_descs ?B (pkt + 10) (csum_command csum) (length data)"
  let ?e1 = "set_mem pkt ?pm e"
  have lpm: "length ?pm = length pmem" using assms(9) by (intro length_splice) auto
  have "mem buf (set_mem buf (splice ?b (?b + ?B * 16) ?ds rm) ?e1) = Some (splice ?b (?b + ?B * 16) ?ds rm)"
    using assms(3-5) by (intro mem_set [of buf ?e1 rm]) (simp add: mem_other)
  moreover have "mem pkt (set_mem buf (splice ?b (?b + ?B * 16) ?ds rm) ?e1) = Some ?pm"
    using assms(4,5) by (simp add: mem_other mem_set)
  moreover have "slice ?b (?b + ?B * 16) (splice ?b (?b + ?B * 16) ?ds rm) = ?ds"
    using assms(7,8) by (intro slice_splice_same) (auto simp: length_all_descs)
  moreover have "gather ?pm pkt ?ds = data"
  proof (rule gather_all_descs)
    show "slice (nat (pkt + 10 - pkt)) (nat (pkt + 10 - pkt) + length data) ?pm = data"
      using assms(9) by (simp add: slice_splice_same)
  qed (use assms(7-12) lpm in auto)
  ultimately show ?thesis using tx_fill_ok [OF assms refl] by auto
qed

end

end
