(* ===== verification/Mqnic_Host.thy ===== *)
theory Mqnic_Host
  imports Mqnic_Owner Mqnic_Gather Pcie_Enumerate
begin

unbundle bit_operations_syntax

text \<open>
  The driver of \<open>common/tb/mqnic.py\<close> on top of the root complex of \<open>lib/pcie/tb/pcie.py\<close>: the root complex meets the
  contracts \<open>nic_host\<close> and \<open>nic_memory\<close>, so the results on the driver hold for the two together.
\<close>


section \<open>The root complex as host\<close>

text \<open>The root complex of \<open>Pcie_RootComplex\<close> behind the interface that the driver uses. A buffer is the memory of
  the region that starts at its address; accesses outside of it raise \<open>struct.error\<close>.\<close>

definition region_mem :: "int \<Rightarrow> root_complex \<Rightarrow> byte list option" where
  "region_mem b rc =
     (case find (\<lambda>rg. rg_addr rg = b) (rc_regions rc) of
        None \<Rightarrow> None
      | Some rg \<Rightarrow> (case rg_store rg of Store_mem m \<Rightarrow> Some m | _ \<Rightarrow> None))"

definition set_region_mem :: "int \<Rightarrow> byte list \<Rightarrow> root_complex \<Rightarrow> root_complex" where
  "set_region_mem b m rc =
     rc\<lparr>rc_regions := map (\<lambda>rg. if rg_addr rg = b then rg\<lparr>rg_store := Store_mem m\<rparr> else rg) (rc_regions rc)\<rparr>"

definition rc_host :: "(int \<Rightarrow> nat) \<Rightarrow> 'e net \<Rightarrow> (root_complex \<times> 'e) host" where
  "rc_host clog2 net = \<lparr>
     h_alloc_region = (\<lambda>n (rc, e). bindE (alloc_region clog2 n None rc) (\<lambda>(a, rc'). Inr (a, (rc', e)))),
     h_mem_read_dword = rc_mem_read_dword net 0 0,
     h_mem_write_dword = rc_mem_write_dword net 0 0,
     h_mem_read = (\<lambda>a n. bindS (rc_mem_read net 0 0 a n) (\<lambda>_. retS ())),
     h_msi_register_callback = (\<lambda>dev n. modS (\<lambda>(rc, e). (msi_register_callback dev (nat n) n rc, e))),
     h_buf_read = (\<lambda>b off n (rc, e). case region_mem b rc of None \<Rightarrow> Inl TypeError
       | Some m \<Rightarrow> if off + n \<le> length m then Inr (slice off (off + n) m, (rc, e)) else Inl StructError),
     h_buf_write = (\<lambda>b off bs (rc, e). case region_mem b rc of None \<Rightarrow> Inl TypeError
       | Some m \<Rightarrow> if off + length bs \<le> length m
                    then Inr ((), (set_region_mem b (splice off (off + length bs) bs m) rc, e)) else Inl StructError)\<rparr>"

definition extent :: "rc_region \<Rightarrow> int \<times> int" where
  "extent rg = (rg_addr rg, rg_size rg)"

definition same_alloc :: "root_complex \<times> 'e \<Rightarrow> root_complex \<times> 'e \<Rightarrow> bool" where
  "same_alloc s t \<longleftrightarrow> rc_region_limit (fst t) = rc_region_limit (fst s) \<and>
     map extent (rc_regions (fst t)) = map extent (rc_regions (fst s))"

lemma same_alloc_refl [simp]: "rc_regions rc' = rc_regions rc \<Longrightarrow> rc_region_limit rc' = rc_region_limit rc \<Longrightarrow> same_alloc (rc, e) (rc', e')"
  by (simp add: same_alloc_def)

lemma transp_same_alloc: "transp same_alloc"
  by (auto simp: transp_def same_alloc_def)

lemma same_alloc_on_req: "on_req g s = Inr (x, t) \<Longrightarrow> same_alloc s t"
  by (cases s) (auto simp: on_req_def)

lemma put_store_same_alloc:
  "map extent (put_store a st rgs) = map extent rgs"
  by (induction rgs) (auto simp: extent_def)

lemma msi_write_same_alloc: "msi_region_write a bs rc = Inr rc' \<Longrightarrow> same_alloc (rc, e) (rc', e')"
  by (cases "unpack_L bs"; cases "rc_msi_signals rc (projr (unpack_L bs))"; cases "rc_msi_callbacks rc (projr (unpack_L bs))")
     (auto simp: msi_region_write_def)

lemma write_region_same_alloc:
  "rc_write_region a bs rc = Inr rc' \<Longrightarrow> same_alloc (rc, e) (rc', e')"
  by (auto simp: rc_write_region_def same_alloc_def [of "(rc, e)" "(rc\<lparr>rc_regions := x\<rparr>, e')" for x] put_store_same_alloc
      msi_write_same_alloc Let_def split: option.splits rc_store.splits)

lemma same_alloc_mem:
  "keeps same_alloc (rc_mem_read net at tc a n)" "keeps same_alloc (rc_mem_write net at tc a bs)"
  by (auto simp: keeps_def rc_mem_read_def rc_mem_write_def same_alloc_on_req write_region_same_alloc
      split: if_splits)

lemma keeps_same_lift: "keeps same_alloc (liftS r)" "keeps same_alloc (retS x)"
  by (auto simp: keeps_def liftS_def same_alloc_def split: sum.splits)

lemmas same_alloc_rules = keeps_bindS [OF transp_same_alloc] same_alloc_mem keeps_same_lift

lemma same_alloc_dword:
  "keeps same_alloc (rc_mem_read_dword net at tc a)" "keeps same_alloc (rc_mem_write_dword net at tc a w)"
  unfolding rc_mem_read_dword_def rc_mem_read_dwords_def rc_mem_read_words_def first_of_def rc_mem_write_dword_def
    rc_mem_write_dwords_def rc_mem_write_words_def write_words_def
  by (intro same_alloc_rules)+

definition rc_env_ok :: "root_complex \<times> 'e \<Rightarrow> bool" where
  "rc_env_ok s \<longleftrightarrow> alloc_inv (fst s) \<and> (\<forall>rg \<in> set (rc_regions (fst s)). 0 < rg_size rg)"

definition rc_owned :: "root_complex \<times> 'e \<Rightarrow> int set" where
  "rc_owned s = rg_addr ` set (rc_regions (fst s))"

lemma alloc_inv_extent:
  "alloc_inv rc \<longleftrightarrow> sorted_wrt (\<lambda>x y. fst x + snd x \<le> fst y) (map extent (rc_regions rc)) \<and>
     (map extent (rc_regions rc) = [] \<and> rc_region_limit rc = 0 \<or>
      odd (rc_region_limit rc) \<and> (\<forall>x \<in> set (map extent (rc_regions rc)). fst x + snd x \<le> rc_region_limit rc + 1))"
  by (simp add: alloc_inv_def regions_disjoint_def sorted_wrt_map extent_def)

lemma rc_env_extent:
  "rc_env_ok s \<longleftrightarrow> alloc_inv (fst s) \<and> (\<forall>x \<in> set (map extent (rc_regions (fst s))). 0 < snd x)"
  "rc_owned s = fst ` set (map extent (rc_regions (fst s)))"
  by (simp_all add: rc_env_ok_def rc_owned_def extent_def image_image)

lemma same_alloc_env: "same_alloc s t \<Longrightarrow> rc_env_ok s \<Longrightarrow> rc_env_ok t \<and> rc_owned s \<subseteq> rc_owned t"
  unfolding rc_env_extent alloc_inv_extent same_alloc_def by simp

lemma keeps_same_alloc: "keeps same_alloc m \<Longrightarrow> rc_env_ok s \<Longrightarrow> m s = Inr (x, t) \<Longrightarrow> rc_env_ok t \<and> rc_owned s \<subseteq> rc_owned t"
  using same_alloc_env by (blast dest: keepsD)

lemma same_alloc_set_region [simp]: "same_alloc (rc, e) (set_region_mem b m rc, e')"
  by (simp add: same_alloc_def set_region_mem_def extent_def o_def if_distrib cong: if_cong)

text \<open>\<open>clog2 n\<close> stands for \<open>math.ceil(math.log(n, 2))\<close>, which is positive for every size above one.\<close>

lemma rc_nic_host:
  assumes "\<And>n. 2 \<le> n \<Longrightarrow> 1 \<le> clog2 n"
  shows "nic_host (rc_host clog2 net) rc_env_ok rc_owned"
proof
  fix s n a s'
  assume s: "rc_env_ok s" "even n" "(0::int) < n" "h_alloc_region (rc_host clog2 net) n s = Inr (a, s')"
  have n: "1 \<le> clog2 n" by (rule assms) (use s(2,3) in presburger)
  obtain addr rc' where r: "alloc_region clog2 n None (fst s) = Inr (addr, rc')" "alloc_inv rc'"
    "\<forall>rg \<in> set (rc_regions (fst s)). rg_addr rg + rg_size rg \<le> addr"
    "rc_regions rc' = rc_regions (fst s) @ [new_region addr n None]"
    using alloc_region_step [of "fst s" n clog2 None] s(1-3) n unfolding rc_env_ok_def by blast
  have "a = addr" "fst s' = rc'" using s(4) r(1) by (auto simp: rc_host_def split: prod.splits)
  then show "rc_env_ok s' \<and> a \<notin> rc_owned s \<and> insert a (rc_owned s) \<subseteq> rc_owned s'"
    using s(1,3) r(2-4) by (force simp: rc_env_ok_def rc_owned_def new_region_def)
qed (auto simp: rc_host_def bindS_eq_Inr split: option.splits if_splits prod.splits
      dest: keeps_same_alloc [OF same_alloc_dword(1)] keeps_same_alloc [OF same_alloc_dword(2)]
        keeps_same_alloc [OF same_alloc_mem(1)] same_alloc_env [OF same_alloc_set_region])

text \<open>The mathematical value of \<open>math.ceil(math.log(n, 2))\<close>.\<close>

definition ceil_log2 :: "int \<Rightarrow> nat" where
  "ceil_log2 n = bit_length (nat (n - 1))"

lemma ceil_log2_pos: "2 \<le> n \<Longrightarrow> 1 \<le> ceil_log2 n"
  by (simp add: ceil_log2_def bit_length.simps)

interpretation rc_nic: nic_host "rc_host ceil_log2 net" rc_env_ok rc_owned for net
  by (rule rc_nic_host) (rule ceil_log2_pos)

lemma distinct_submset:
  assumes "distinct ys" "mset xs \<subseteq># mset ys"
  shows "distinct xs"
  unfolding distinct_count_atmost_1
proof
  fix a
  have "count (mset ys) a \<le> 1" using assms(1) unfolding distinct_count_atmost_1 by simp
  then have "count (mset xs) a \<le> 1" using mset_subset_eq_count [OF assms(2), of a] by simp
  then show "count (mset xs) a = (if a \<in> set xs then 1 else 0)"
    using count_greater_zero_iff [of "mset xs" a] by (cases "count (mset xs) a") auto
qed

definition ring_packets :: "nic_if \<Rightarrow> int list" where
  "ring_packets i = concat (map (\<lambda>r. map the (filter (\<lambda>x. x \<noteq> None) (dr_info r))) (tx_queues i @ rx_queues i))"

lemma mset_ring_packets: "mset (ring_packets i) = if_pkts i"
proof -
  have "mset (concat (map (\<lambda>r. map the (filter (\<lambda>x. x \<noteq> None) (dr_info r))) rs)) = rings_pkts rs" for rs
    by (induction rs) (simp_all add: rings_pkts_def pkts_def)
  then show ?thesis by (simp add: ring_packets_def if_pkts_def)
qed

text \<open>C4. No packet buffer is ever in two places. Whatever sequence of calls is made to an interface - opening it,
  transmitting, handling interrupts with all the completions that they bring, receiving, closing - the buffers
  in the free list and in the entries of the rings are allocated ones and pairwise distinct, and the buffers
  allocated are distinct regions of host memory.\<close>

theorem packet_ownership:
  assumes "foldS (run_op (rc_host ceil_log2 net)) ops i (p, s) = Inr (i', (p', s'))"
    "rc_env_ok s" "distinct (allocated_packets p)" "set (allocated_packets p) \<subseteq> rc_owned s"
    "mset (free_packets p @ ring_packets i) \<subseteq># mset (allocated_packets p)"
  shows "distinct (free_packets p' @ ring_packets i') \<and>
    set (free_packets p' @ ring_packets i') \<subseteq> set (allocated_packets p') \<and>
    distinct (allocated_packets p') \<and> set (allocated_packets p') \<subseteq> rc_owned s'"
proof -
  have "rc_nic.own (if_pkts i + {#}) (p, s)"
    using assms(2-5) by (simp add: rc_nic.own_def mset_ring_packets)
  from rc_nic.ops_own [OF this assms(1)] have o: "distinct (allocated_packets p')"
    "set (allocated_packets p') \<subseteq> rc_owned s'" "mset (free_packets p' @ ring_packets i') \<subseteq># mset (allocated_packets p')"
    by (simp_all add: rc_nic.own_def mset_ring_packets)
  have "distinct (free_packets p' @ ring_packets i')" by (rule distinct_submset [OF o(1,3)])
  moreover have "set (free_packets p' @ ring_packets i') \<subseteq> set (allocated_packets p')"
    using set_mset_mono [OF o(3)] by simp
  ultimately show ?thesis using o by blast
qed

text \<open>An interface with one small transmit ring, whose descriptors are at address 0 and whose registers are
  replaced by the memory at address 256.\<close>

definition rc_two_regions :: root_complex where
  "rc_two_regions = projr (bindE (alloc_region ceil_log2 256 None (rc_init br_example)) (\<lambda>(_, rc).
     bindE (alloc_region ceil_log2 64 None rc) (\<lambda>(_, rc). Inr rc)))"

definition small_ring :: dring where
  "small_ring = (TxRing 4 64 0 256)\<lparr>dr_info := replicate 4 None, dr_buf := Some 0\<rparr>"

definition small_if :: nic_if where
  "small_if = \<lparr>if_index = 0, if_hw_addr = 256, if_csrs = \<lparr>if_id = 0, if_features = 0, event_queue_count = 0,
     event_queue_offset = 0, tx_queue_count = 1, tx_queue_offset = 0, tx_cpl_queue_count = 0, tx_cpl_queue_offset = 0,
     rx_queue_count = 0, rx_queue_offset = 0, rx_cpl_queue_count = 0, rx_cpl_queue_offset = 0, port_count = 0,
     port_offset = 0, port_stride = 0\<rparr>, if_port_up = True, event_queues = [], tx_queues = [small_ring],
     tx_cpl_queues = [], rx_queues = [], nic_rx_cpl_queues = [], if_ports = [], interrupt_running = False,
     interrupt_pending = 0, pkt_rx_queue = []\<rparr>"

definition empty_pool :: pool where
  "empty_pool = \<lparr>allocated_packets = [], free_packets = []\<rparr>"

lemma bit_length_values [simp]: "bit_length 4 = 3" "bit_length 64 = 7" "bit_length 255 = 8" "bit_length 63 = 6" "bit_length 16383 = 14"
  by (simp_all add: bit_length.simps)

lemma rc_two_regions_sel [simp]:
  "rc_regions rc_two_regions = [new_region 0 256 None, new_region 256 64 None]" "rc_region_limit rc_two_regions = 319"
  by (simp_all add: rc_two_regions_def alloc_region_def rc_init_def align_def ceil_log2_def Let_def)


text \<open>The root complex once the first packet buffer has been allocated.\<close>

definition rc_three_regions :: root_complex where
  "rc_three_regions = rc_two_regions\<lparr>rc_region_limit := 32767,
     rc_regions := [new_region 0 256 None, new_region 256 64 None, new_region 16384 16384 None]\<rparr>"

lemma small_alloc:
  "alloc_pkt (rc_host ceil_log2 net) (empty_pool, (rc_two_regions, e)) =
     Inr (16384, (\<lparr>allocated_packets = [16384], free_packets = []\<rparr>, (rc_three_regions, e)))"
  by (simp add: alloc_pkt_def empty_pool_def rc_host_def alloc_region_def align_def ceil_log2_def pkt_buf_size_def
      rc_three_regions_def Let_def)

lemma new_region_sel [simp]:
  "rg_addr (new_region a n st) = a" "rg_size (new_region a n st) = n"
  "rg_store (new_region a n None) = Store_mem (replicate (nat n) 0)"
  by (simp_all add: new_region_def)

section \<open>Transmission through the root complex\<close>

lemma region_mem_set: "region_mem b rc = Some m \<Longrightarrow> region_mem b (set_region_mem b m' rc) = Some m'"
proof -
  have "find (\<lambda>rg. rg_addr rg = b) rgs = Some rg \<Longrightarrow>
      find (\<lambda>rg. rg_addr rg = b) (map (\<lambda>rg. if rg_addr rg = b then rg\<lparr>rg_store := Store_mem m'\<rparr> else rg) rgs)
        = Some (rg\<lparr>rg_store := Store_mem m'\<rparr>)" for rgs rg
    by (induction rgs) (auto split: if_splits)
  then show "region_mem b rc = Some m \<Longrightarrow> region_mem b (set_region_mem b m' rc) = Some m'"
    by (auto simp: region_mem_def set_region_mem_def split: option.splits)
qed

lemma region_mem_other: "b \<noteq> c \<Longrightarrow> region_mem c (set_region_mem b m' rc) = region_mem c rc"
proof -
  assume "b \<noteq> c"
  then have "find (\<lambda>rg. rg_addr rg = c) (map (\<lambda>rg. if rg_addr rg = b then rg\<lparr>rg_store := Store_mem m'\<rparr> else rg) rgs)
        = find (\<lambda>rg. rg_addr rg = c) rgs" for rgs :: "rc_region list"
    by (induction rgs) auto
  then show ?thesis by (simp add: region_mem_def set_region_mem_def)
qed

lemma set_region_set: "set_region_mem b m (set_region_mem b m' rc) = set_region_mem b m rc"
  by (simp add: set_region_mem_def)

interpretation rc_mem: nic_memory "rc_host clog2 net" "\<lambda>b s. region_mem b (fst s)"
  "\<lambda>b m s. (set_region_mem b m (fst s), snd s)" for clog2 net
  by unfold_locales (auto simp: rc_host_def region_mem_set region_mem_other set_region_set split: prod.splits)

text \<open>C5. The device sees the packet. When \<open>start_xmit\<close> is about to hand an entry to the device, the descriptors of the
  entry name, one after the other, exactly the bytes of the packet in its buffer: a device that follows them
  gathers the packet, whatever its length and the number of descriptors in a block.\<close>

theorem xmit_gathered:
  assumes "alloc_pkt (rc_host clog2 net) s = Inr (pkt, (p, (rc, e)))"
    "dr_buf r = Some buf" "region_mem buf rc = Some rm" "region_mem pkt rc = Some pmem" "pkt \<noteq> buf"
    "slot r (dr_head_ptr r) < length (dr_info r)" "0 < dr_desc_block_size r"
    "slot r (dr_head_ptr r) * dr_stride r + dr_desc_block_size r * 16 \<le> length rm"
    "length data + 10 \<le> length pmem" "0 \<le> pkt" "pkt + int (length pmem) < 2 ^ 64" "length pmem < 2 ^ 32"
    "0 \<le> csum_command csum" "csum_command csum < 65536"
  shows "\<exists>r' rc' e' rm' pmem'. tx_fill (rc_host clog2 net) data csum r s = Inr (r', (p, (rc', e'))) \<and>
    dr_info r' = (dr_info r)[slot r (dr_head_ptr r) := Some pkt] \<and>
    region_mem buf rc' = Some rm' \<and> region_mem pkt rc' = Some pmem' \<and>
    gather pmem' pkt (slice (slot r (dr_head_ptr r) * dr_stride r)
      (slot r (dr_head_ptr r) * dr_stride r + dr_desc_block_size r * 16) rm') = data"
  using rc_mem.tx_fill_gathers [of clog2 net s pkt p "(rc, e)" r buf rm pmem data csum] assms by auto

lemma small_ring_sel [simp]:
  "dr_buf small_ring = Some 0" "dr_info small_ring = replicate 4 None" "dr_head_ptr small_ring = 0"
  "dr_desc_block_size small_ring = 4" "dr_stride small_ring = 64" "dr_hw_addr small_ring = 256" "slot small_ring 0 = 0"
  by (simp_all add: small_ring_def TxRing_def slot_def Let_def)

lemma three_regions_mem:
  "region_mem 0 rc_three_regions = Some (replicate 256 0)" "region_mem 16384 rc_three_regions = Some (replicate 16384 0)"
  by (simp_all add: region_mem_def rc_three_regions_def)

theorem xmit_gathered_witness:
  "\<exists>r' p' rc' rm' pmem'. tx_fill (rc_host ceil_log2 (\<lambda>e t. Inr ([], e))) (replicate 5000 7) None small_ring
       (empty_pool, (rc_two_regions, ())) = Inr (r', (p', (rc', ()))) \<and>
     region_mem 0 rc' = Some rm' \<and> region_mem 16384 rc' = Some pmem' \<and>
     gather pmem' 16384 (slice 0 64 rm') = replicate 5000 7"
  using xmit_gathered [OF small_alloc [of "\<lambda>e t. Inr ([], e)" "()"], of small_ring 0 "replicate 256 0" "replicate 16384 0"
    "replicate 5000 7" None] by (simp add: three_regions_mem csum_command_def) blast

lemma small_slots: "map the (filter (\<lambda>x. x \<noteq> None) ((replicate 4 None)[0 := Some x])) = [x]"
  by (simp add: numeral_eq_Suc)

lemma small_register: "\<exists>m. mmap_assign 16 (le_bytes 4 1) (replicate 64 0) = Inr m"
  by (simp add: mmap_assign_def py_slice_nat)

lemma small_xmit:
  "\<exists>i' p' s'. foldS (run_op (rc_host ceil_log2 net)) [Xmit [1, 2, 3] 0 None] small_if (empty_pool, (rc_two_regions, e)) =
     Inr (i', (p', s')) \<and> free_packets p' = [] \<and> ring_packets i' = [16384]"
proof -
  note fill = rc_mem.tx_fill_ok [OF small_alloc [of net e], of small_ring 0 "replicate 256 0" "replicate 16384 0" "[1, 2, 3]" None 0]
  show ?thesis
    apply (simp add: start_xmit_def small_if_def nth_res_def bindS_def liftS_def Let_def fill three_regions_mem csum_command_def on_env_def write_head_ptr_def)
    apply (simp add: rc_host_def rc_mem_write_dword_def rc_mem_write_dwords_def rc_mem_write_words_def write_words_def bindS_def liftS_def hw_ptr_mask_def
      rc_mem_write_def find_region_def in_region_def set_region_mem_def rc_three_regions_def word_size_ok_def words_to_bytes_def rc_write_region_def)
    using small_slots small_register by (auto simp: to_bytes_def ring_packets_def)
qed

theorem packet_ownership_witness:
  "\<exists>i' p' s'. foldS (run_op (rc_host ceil_log2 (\<lambda>e t. Inr ([], e)))) [Xmit [1, 2, 3] 0 None] small_if
       (empty_pool, (rc_two_regions, ())) = Inr (i', (p', s')) \<and> ring_packets i' = [16384] \<and>
     distinct (free_packets p' @ ring_packets i') \<and> {16384} \<subseteq> rc_owned s'"
proof -
  have ok: "rc_env_ok (rc_two_regions, ())" "ring_packets small_if = []" "free_packets empty_pool = []"
    "allocated_packets empty_pool = []"
    by (auto simp: rc_env_ok_def alloc_inv_def regions_disjoint_def ring_packets_def small_if_def empty_pool_def)
  obtain i' p' s' where r: "foldS (run_op (rc_host ceil_log2 (\<lambda>e t. Inr ([], e)))) [Xmit [1, 2, 3] 0 None] small_if
       (empty_pool, (rc_two_regions, ())) = Inr (i', (p', s'))" "ring_packets i' = [16384]"
    using small_xmit [of "\<lambda>e t. Inr ([], e)" "()"] by auto
  have "distinct (free_packets p' @ ring_packets i')" "{16384} \<subseteq> rc_owned s'"
    using packet_ownership [OF r(1)] ok r(2) by auto
  then show ?thesis using r by blast
qed

end
