(* ===== verification/Eth_Frames.thy ===== *)
theory Eth_Frames imports Prelude begin

text \<open>
  Frames of the network side: \<open>EthFrame\<close>, \<open>IPFrame\<close>, \<open>UDPFrame\<close> and \<open>ARPFrame\<close> of
  \<open>src/hardware/fpga/lib/eth/tb/\<close> (\<open>eth_ep.py\<close>, \<open>ip_ep.py\<close>, \<open>udp_ep.py\<close>, \<open>arp_ep.py\<close>).

  A frame is a record with the attributes of its class; the classes share the attributes of the layers below, so the records
  extend \<open>eth_hdr\<close> and \<open>ip_hdr\<close>. A payload is the data of an \<open>AXIStreamFrame\<close>, a list of bytes. A length or
  checksum that the constructor leaves at \<open>None\<close> is \<open>None\<close> here. A method that updates the object returns the new
  record; \<open>StructError\<close> is a value that does not fit its field or a string that is too short, \<open>TypeError\<close> arithmetic with
  \<open>None\<close>. \<open>zlib.crc32\<close> is a parameter.

  Building and parsing are inverse, with and without the frame check sequence, and the folded checksums are those of RFC 1071.
\<close>

unbundle bit_operations_syntax

section \<open>Network byte order\<close>

text \<open>The \<open>struct\<close> formats \<open>B\<close>, \<open>>H\<close>, \<open>>L\<close> and \<open>>Q\<close> are \<open>pack_be\<close> with 1, 2, 4 and 8 bytes.\<close>

definition be_bytes :: "nat \<Rightarrow> int \<Rightarrow> byte list" where
  "be_bytes n v = rev (le_bytes n v)"

definition be_int :: "byte list \<Rightarrow> int" where
  "be_int bs = le_int (rev bs)"

definition pack_be :: "nat \<Rightarrow> int \<Rightarrow> byte list res" where
  "pack_be n v = (if 0 \<le> v \<and> v < 256 ^ n then Inr (be_bytes n v) else Inl StructError)"

definition unpack_be :: "nat \<Rightarrow> byte list \<Rightarrow> int res" where
  "unpack_be n bs = (if length bs = n then Inr (be_int bs) else Inl StructError)"

text \<open>Several fields one after another.\<close>

fun packs :: "(nat \<times> int) list \<Rightarrow> byte list res" where
  "packs [] = Inr []"
| "packs ((n, v) # fs) = bindE (pack_be n v) (\<lambda>b. bindE (packs fs) (\<lambda>bs. Inr (b @ bs)))"

definition field :: "nat \<Rightarrow> nat \<Rightarrow> byte list \<Rightarrow> int res" where
  "field i n data = unpack_be n (slice i (i + n) data)"

text \<open>A MAC address is packed with \<open>>Q\<close> and loses its two leading bytes.\<close>

definition pack_mac :: "int \<Rightarrow> byte list res" where
  "pack_mac v = bindE (pack_be 8 v) (\<lambda>b. Inr (drop 2 b))"

definition unpack_mac :: "nat \<Rightarrow> byte list \<Rightarrow> int res" where
  "unpack_mac i data = unpack_be 8 ([0, 0] @ slice i (i + 6) data)"

definition known :: "int option \<Rightarrow> int res" where
  "known v = (case v of None \<Rightarrow> Inl TypeError | Some x \<Rightarrow> Inr x)"

section \<open>Ethernet\<close>

record eth_hdr =
  eth_dest_mac :: int
  eth_src_mac :: int
  eth_type :: int

record eth_frame = eth_hdr +
  eth_fcs :: "int option"
  eth_payload :: "byte list"

definition EthFrame :: "byte list \<Rightarrow> int \<Rightarrow> int \<Rightarrow> int \<Rightarrow> int option \<Rightarrow> eth_frame" where
  "EthFrame p dest src typ fcs = \<lparr>eth_dest_mac = dest, eth_src_mac = src, eth_type = typ, eth_fcs = fcs, eth_payload = p\<rparr>"

definition eth_build_axis :: "eth_frame \<Rightarrow> byte list res" where
  "eth_build_axis f =
     bindE (pack_mac (eth_dest_mac f)) (\<lambda>d. bindE (pack_mac (eth_src_mac f)) (\<lambda>s. bindE (pack_be 2 (eth_type f)) (\<lambda>t.
       Inr (d @ s @ t @ eth_payload f))))"

definition eth_parse_axis :: "byte list \<Rightarrow> eth_frame \<Rightarrow> eth_frame res" where
  "eth_parse_axis data f =
     bindE (unpack_mac 0 data) (\<lambda>d. bindE (unpack_mac 6 data) (\<lambda>s. bindE (field 12 2 data) (\<lambda>t.
       Inr (f\<lparr>eth_dest_mac := d, eth_src_mac := s, eth_type := t, eth_payload := drop 14 data\<rparr>))))"

text \<open>The frame check sequence; \<open>crc32\<close> is \<open>zlib.crc32\<close>.\<close>

definition calc_fcs :: "(byte list \<Rightarrow> int) \<Rightarrow> eth_frame \<Rightarrow> int res" where
  "calc_fcs crc32 f = bindE (eth_build_axis f) (\<lambda>data. Inr (crc32 data AND 0xffffffff))"

definition update_fcs :: "(byte list \<Rightarrow> int) \<Rightarrow> eth_frame \<Rightarrow> eth_frame res" where
  "update_fcs crc32 f = bindE (calc_fcs crc32 f) (\<lambda>v. Inr (f\<lparr>eth_fcs := Some v\<rparr>))"

definition build_axis_fcs :: "(byte list \<Rightarrow> int) \<Rightarrow> eth_frame \<Rightarrow> (byte list \<times> eth_frame) res" where
  "build_axis_fcs crc32 f =
     bindE (if eth_fcs f = None then update_fcs crc32 f else Inr f) (\<lambda>f.
     bindE (eth_build_axis f) (\<lambda>data. bindE (known (eth_fcs f)) (\<lambda>v. bindE (pack_L v) (\<lambda>b. Inr (data @ b, f)))))"

definition parse_axis_fcs :: "byte list \<Rightarrow> eth_frame \<Rightarrow> eth_frame res" where
  "parse_axis_fcs data f =
     bindE (eth_parse_axis data f) (\<lambda>f. let p = eth_payload f; n = length p - 4
       in bindE (unpack_L (drop n p)) (\<lambda>v. Inr (f\<lparr>eth_payload := take n p, eth_fcs := Some v\<rparr>)))"

section \<open>IP\<close>

record ip_hdr = eth_hdr +
  ip_version :: int
  ip_ihl :: int
  ip_dscp :: int
  ip_ecn :: int
  ip_length :: "int option"
  ip_identification :: int
  ip_flags :: int
  ip_fragment_offset :: int
  ip_ttl :: int
  ip_protocol :: int
  ip_header_checksum :: "int option"
  ip_source_ip :: int
  ip_dest_ip :: int

record ip_frame = ip_hdr +
  ip_payload :: "byte list"

definition IPFrame :: ip_frame where
  "IPFrame = \<lparr>eth_dest_mac = 0, eth_src_mac = 0, eth_type = 0, ip_version = 4, ip_ihl = 5, ip_dscp = 0, ip_ecn = 0, ip_length = None,
     ip_identification = 0, ip_flags = 2, ip_fragment_offset = 0, ip_ttl = 64, ip_protocol = 0x11, ip_header_checksum = None,
     ip_source_ip = 0xc0a80164, ip_dest_ip = 0xc0a80165, ip_payload = []\<rparr>"

definition fold16 :: "int \<Rightarrow> int" where
  "fold16 c = (c AND 0xffff) + drop_bit 16 c"

definition ip_word0 :: "'a ip_hdr_scheme \<Rightarrow> int" where
  "ip_word0 f = push_bit 12 (ip_version f) OR push_bit 8 (ip_ihl f) OR push_bit 2 (ip_dscp f) OR ip_ecn f"

definition calc_ip_checksum :: "'a ip_hdr_scheme \<Rightarrow> int res" where
  "calc_ip_checksum f =
     bindE (known (ip_length f)) (\<lambda>len.
       let c = ip_word0 f + len + ip_identification f + (push_bit 13 (ip_flags f) OR ip_fragment_offset f) +
             (push_bit 8 (ip_ttl f) OR ip_protocol f) + (ip_source_ip f AND 0xffff) + (drop_bit 16 (ip_source_ip f) AND 0xffff) +
             (ip_dest_ip f AND 0xffff) + (drop_bit 16 (ip_dest_ip f) AND 0xffff)
       in Inr (NOT (fold16 (fold16 c)) AND 0xffff))"

definition update_ip_checksum :: "'a ip_hdr_scheme \<Rightarrow> 'a ip_hdr_scheme res" where
  "update_ip_checksum f = bindE (calc_ip_checksum f) (\<lambda>c. Inr (f\<lparr>ip_header_checksum := Some c\<rparr>))"

definition verify_ip_checksum :: "'a ip_hdr_scheme \<Rightarrow> bool res" where
  "verify_ip_checksum f = bindE (calc_ip_checksum f) (\<lambda>c. Inr (ip_header_checksum f = Some c))"

definition ip_update_length :: "ip_frame \<Rightarrow> ip_frame" where
  "ip_update_length f = f\<lparr>ip_length := Some (int (length (ip_payload f)) + 20)\<rparr>"

definition ip_build :: "ip_frame \<Rightarrow> ip_frame res" where
  "ip_build f =
     (let f = (if ip_length f = None then ip_update_length f else f)
      in if ip_header_checksum f = None then update_ip_checksum f else Inr f)"

definition ip_build_eth :: "ip_frame \<Rightarrow> (eth_frame \<times> ip_frame) res" where
  "ip_build_eth f0 =
     bindE (ip_build f0) (\<lambda>f. bindE (known (ip_length f)) (\<lambda>len. bindE (known (ip_header_checksum f)) (\<lambda>ck.
     bindE (packs [(1, push_bit 4 (ip_version f) OR ip_ihl f), (1, push_bit 2 (ip_dscp f) OR ip_ecn f), (2, len), (2, ip_identification f),
                   (2, push_bit 13 (ip_flags f) OR ip_fragment_offset f), (1, ip_ttl f), (1, ip_protocol f), (2, ck),
                   (4, ip_source_ip f), (4, ip_dest_ip f)]) (\<lambda>hdr.
       Inr (EthFrame (hdr @ ip_payload f) (eth_dest_mac f) (eth_src_mac f) (eth_type f) None, f)))))"

definition ip_build_axis :: "ip_frame \<Rightarrow> byte list res" where
  "ip_build_axis f = bindE (ip_build_eth f) (\<lambda>(e, _). eth_build_axis e)"

definition ip_parse_eth :: "eth_frame \<Rightarrow> ip_frame \<Rightarrow> ip_frame res" where
  "ip_parse_eth e f =
     (let p = eth_payload e
      in bindE (field 0 1 p) (\<lambda>v. bindE (field 1 1 p) (\<lambda>w. bindE (field 2 2 p) (\<lambda>len. bindE (field 4 2 p) (\<lambda>ident.
         bindE (field 6 2 p) (\<lambda>fl. bindE (field 8 1 p) (\<lambda>ttl. bindE (field 9 1 p) (\<lambda>pr. bindE (field 10 2 p) (\<lambda>ck.
         bindE (field 12 4 p) (\<lambda>src. bindE (field 16 4 p) (\<lambda>dst.
           Inr (f\<lparr>eth_src_mac := eth_src_mac e, eth_dest_mac := eth_dest_mac e, eth_type := eth_type e,
             ip_version := drop_bit 4 v AND 0xf, ip_ihl := v AND 0xf, ip_dscp := drop_bit 2 w AND 0x3f, ip_ecn := w AND 0x3,
             ip_length := Some len, ip_identification := ident, ip_flags := drop_bit 13 fl AND 0x7, ip_fragment_offset := fl AND 0x1fff,
             ip_ttl := ttl, ip_protocol := pr, ip_header_checksum := Some ck, ip_source_ip := src, ip_dest_ip := dst,
             ip_payload := slice 20 (nat len) p\<rparr>))))))))))))"

definition ip_parse_axis :: "byte list \<Rightarrow> ip_frame \<Rightarrow> ip_frame res" where
  "ip_parse_axis data f = bindE (eth_parse_axis data (EthFrame [] 0 0 0 None)) (\<lambda>e. ip_parse_eth e f)"

section \<open>UDP\<close>

record udp_frame = ip_hdr +
  udp_source_port :: int
  udp_dest_port :: int
  udp_length :: "int option"
  udp_checksum :: "int option"
  udp_payload :: "byte list"

definition UDPFrame :: udp_frame where
  "UDPFrame = \<lparr>eth_dest_mac = 0, eth_src_mac = 0, eth_type = 0, ip_version = 4, ip_ihl = 5, ip_dscp = 0, ip_ecn = 0, ip_length = None,
     ip_identification = 0, ip_flags = 2, ip_fragment_offset = 0, ip_ttl = 64, ip_protocol = 0x11, ip_header_checksum = None,
     ip_source_ip = 0xc0a80164, ip_dest_ip = 0xc0a80165, udp_source_port = 1, udp_dest_port = 2, udp_length = None,
     udp_checksum = None, udp_payload = []\<rparr>"

definition update_udp_length :: "udp_frame \<Rightarrow> udp_frame" where
  "update_udp_length f = f\<lparr>udp_length := Some (int (length (udp_payload f)) + 8)\<rparr>"

definition update_ip_length :: "udp_frame \<Rightarrow> udp_frame res" where
  "update_ip_length f = bindE (known (udp_length f)) (\<lambda>n. Inr (f\<lparr>ip_length := Some (n + 20)\<rparr>))"

definition udp_update_length :: "udp_frame \<Rightarrow> udp_frame res" where
  "udp_update_length f = update_ip_length (update_udp_length f)"

definition calc_udp_pseudo_header_checksum :: "udp_frame \<Rightarrow> int res" where
  "calc_udp_pseudo_header_checksum f =
     bindE (known (udp_length f)) (\<lambda>len.
       Inr (fold16 (fold16 ((ip_source_ip f AND 0xffff) + (drop_bit 16 (ip_source_ip f) AND 0xffff) + (ip_dest_ip f AND 0xffff) +
         (drop_bit 16 (ip_dest_ip f) AND 0xffff) + ip_protocol f + len))))"

definition set_udp_pseudo_header_checksum :: "udp_frame \<Rightarrow> udp_frame res" where
  "set_udp_pseudo_header_checksum f =
     (let f = (if udp_length f = None then update_udp_length f else f)
      in bindE (calc_udp_pseudo_header_checksum f) (\<lambda>c. Inr (f\<lparr>udp_checksum := Some c\<rparr>)))"

text \<open>The sum of the payload, the first byte of each pair in the high half.\<close>

fun payload_sum :: "bool \<Rightarrow> byte list \<Rightarrow> int" where
  "payload_sum od [] = 0"
| "payload_sum od (d # ds) = (if od then uint d else push_bit 8 (uint d)) + payload_sum (\<not> od) ds"

definition calc_udp_checksum :: "udp_frame \<Rightarrow> int res" where
  "calc_udp_checksum f =
     bindE (calc_udp_pseudo_header_checksum f) (\<lambda>c. bindE (known (udp_length f)) (\<lambda>len.
       Inr (NOT (fold16 (fold16 (c + udp_source_port f + udp_dest_port f + len + payload_sum False (udp_payload f)))) AND 0xffff)))"

definition update_udp_checksum :: "udp_frame \<Rightarrow> udp_frame res" where
  "update_udp_checksum f =
     (let f = (if udp_length f = None then update_udp_length f else f)
      in bindE (calc_udp_checksum f) (\<lambda>c. Inr (f\<lparr>udp_checksum := Some c\<rparr>)))"

definition verify_udp_checksum :: "udp_frame \<Rightarrow> bool res" where
  "verify_udp_checksum f = bindE (calc_udp_checksum f) (\<lambda>c. Inr (udp_checksum f = Some c))"

definition update_checksum :: "udp_frame \<Rightarrow> udp_frame res" where
  "update_checksum f = bindE (update_udp_checksum f) update_ip_checksum"

definition verify_checksums :: "udp_frame \<Rightarrow> bool res" where
  "verify_checksums f = bindE (verify_ip_checksum f) (\<lambda>a. if a then verify_udp_checksum f else Inr False)"

definition udp_build :: "udp_frame \<Rightarrow> udp_frame res" where
  "udp_build f =
     (let f = (if udp_length f = None then update_udp_length f else f)
      in bindE (if udp_checksum f = None then update_udp_checksum f else Inr f) (\<lambda>f.
         bindE (if ip_length f = None then update_ip_length f else Inr f) (\<lambda>f.
           if ip_header_checksum f = None then update_ip_checksum f else Inr f)))"

definition udp_build_ip :: "udp_frame \<Rightarrow> (ip_frame \<times> udp_frame) res" where
  "udp_build_ip f0 =
     bindE (udp_build f0) (\<lambda>f. bindE (known (udp_length f)) (\<lambda>len. bindE (known (udp_checksum f)) (\<lambda>ck.
     bindE (packs [(2, udp_source_port f), (2, udp_dest_port f), (2, len), (2, ck)]) (\<lambda>hdr.
       Inr (ip_hdr.extend (ip_hdr.truncate f) \<lparr>ip_payload = hdr @ udp_payload f\<rparr>, f)))))"

definition udp_build_eth :: "udp_frame \<Rightarrow> (eth_frame \<times> udp_frame) res" where
  "udp_build_eth f = bindE (udp_build_ip f) (\<lambda>(i, f). bindE (ip_build_eth i) (\<lambda>(e, _). Inr (e, f)))"

definition udp_build_axis :: "udp_frame \<Rightarrow> (byte list \<times> udp_frame) res" where
  "udp_build_axis f = bindE (udp_build_eth f) (\<lambda>(e, f). bindE (eth_build_axis e) (\<lambda>data. Inr (data, f)))"

definition udp_parse_ip :: "ip_frame \<Rightarrow> udp_frame \<Rightarrow> udp_frame res" where
  "udp_parse_ip i f =
     (let p = ip_payload i
      in bindE (field 0 2 p) (\<lambda>sp. bindE (field 2 2 p) (\<lambda>dp. bindE (field 4 2 p) (\<lambda>len. bindE (field 6 2 p) (\<lambda>ck.
           Inr (ip_hdr.extend (ip_hdr.truncate i) \<lparr>udp_source_port = sp, udp_dest_port = dp, udp_length = Some len,
                  udp_checksum = Some ck, udp_payload = slice 8 (nat len) p\<rparr>))))))"

definition udp_parse_eth :: "eth_frame \<Rightarrow> udp_frame \<Rightarrow> udp_frame res" where
  "udp_parse_eth e f = bindE (ip_parse_eth e IPFrame) (\<lambda>i. udp_parse_ip i f)"

definition udp_parse_axis :: "byte list \<Rightarrow> udp_frame \<Rightarrow> udp_frame res" where
  "udp_parse_axis data f = bindE (eth_parse_axis data (EthFrame [] 0 0 0 None)) (\<lambda>e. udp_parse_eth e f)"

section \<open>ARP\<close>

record arp_frame = eth_hdr +
  arp_htype :: int
  arp_ptype :: int
  arp_hlen :: int
  arp_plen :: int
  arp_oper :: int
  arp_sha :: int
  arp_spa :: int
  arp_tha :: int
  arp_tpa :: int

definition ARPFrame :: arp_frame where
  "ARPFrame = \<lparr>eth_dest_mac = 0, eth_src_mac = 0, eth_type = 0, arp_htype = 1, arp_ptype = 0x0800, arp_hlen = 6, arp_plen = 4,
     arp_oper = 2, arp_sha = 0x5A5152535455, arp_spa = 0xc0a80164, arp_tha = 0xDAD1D2D3D4D5, arp_tpa = 0xc0a80164\<rparr>"

definition arp_build_eth :: "arp_frame \<Rightarrow> eth_frame res" where
  "arp_build_eth f =
     bindE (packs [(2, arp_htype f), (2, arp_ptype f), (1, arp_hlen f), (1, arp_plen f), (2, arp_oper f)]) (\<lambda>a.
     bindE (pack_mac (arp_sha f)) (\<lambda>sha. bindE (pack_be 4 (arp_spa f)) (\<lambda>spa.
     bindE (pack_mac (arp_tha f)) (\<lambda>tha. bindE (pack_be 4 (arp_tpa f)) (\<lambda>tpa.
       Inr (EthFrame (a @ sha @ spa @ tha @ tpa) (eth_dest_mac f) (eth_src_mac f) (eth_type f) None))))))"

definition arp_build_axis :: "arp_frame \<Rightarrow> byte list res" where
  "arp_build_axis f = bindE (arp_build_eth f) eth_build_axis"

definition arp_parse_eth :: "eth_frame \<Rightarrow> arp_frame \<Rightarrow> arp_frame res" where
  "arp_parse_eth e f =
     (let p = eth_payload e
      in bindE (field 0 2 p) (\<lambda>ht. bindE (field 2 2 p) (\<lambda>pt. bindE (field 4 1 p) (\<lambda>hl. bindE (field 5 1 p) (\<lambda>pl.
         bindE (field 6 2 p) (\<lambda>op. bindE (unpack_mac 8 p) (\<lambda>sha. bindE (field 14 4 p) (\<lambda>spa. bindE (unpack_mac 18 p) (\<lambda>tha.
         bindE (field 24 4 p) (\<lambda>tpa.
           Inr (f\<lparr>eth_src_mac := eth_src_mac e, eth_dest_mac := eth_dest_mac e, eth_type := eth_type e, arp_htype := ht,
             arp_ptype := pt, arp_hlen := hl, arp_plen := pl, arp_oper := op, arp_sha := sha, arp_spa := spa, arp_tha := tha,
             arp_tpa := tpa\<rparr>)))))))))))"

definition arp_parse_axis :: "byte list \<Rightarrow> arp_frame \<Rightarrow> arp_frame res" where
  "arp_parse_axis data f = bindE (eth_parse_axis data (EthFrame [] 0 0 0 None)) (\<lambda>e. arp_parse_eth e f)"


section \<open>Fields\<close>

text \<open>What was packed is what is read back, and the bit fields that share a byte or a word do not overlap.\<close>

named_theorems wire "the bytes of packed fields"

lemma length_be_bytes [wire]: "length (be_bytes n v) = n"
  by (simp add: be_bytes_def)

lemma be_int_be_bytes: "0 \<le> v \<Longrightarrow> v < 256 ^ n \<Longrightarrow> be_int (be_bytes n v) = v"
  by (simp add: be_int_def be_bytes_def le_int_le_bytes)

lemma unpack_be_bytes [wire]: "0 \<le> v \<Longrightarrow> v < 256 ^ n \<Longrightarrow> unpack_be n (be_bytes n v) = Inr v"
  by (simp add: unpack_be_def be_int_be_bytes length_be_bytes)

lemma pack_be_Inr [wire]: "0 \<le> v \<Longrightarrow> v < 256 ^ n \<Longrightarrow> pack_be n v = Inr (be_bytes n v)"
  by (simp add: pack_be_def)

lemma le_bytes_append: "le_bytes (m + n) v = le_bytes m v @ le_bytes n (v div 256 ^ m)"
  by (induction m arbitrary: v) (simp_all add: zdiv_zmult2_eq)

lemma be_bytes_mac: "0 \<le> v \<Longrightarrow> v < 2 ^ 48 \<Longrightarrow> be_bytes 8 v = [0, 0] @ be_bytes 6 v"
  using le_bytes_append [of 6 2 v] by (simp add: be_bytes_def numeral_2_eq_2)

lemma pack_mac_Inr [wire]: "0 \<le> v \<Longrightarrow> v < 2 ^ 48 \<Longrightarrow> pack_mac v = Inr (be_bytes 6 v)"
  by (simp add: pack_mac_def pack_be_def be_bytes_mac)

lemma unpack_mac_bytes [wire]: "0 \<le> v \<Longrightarrow> v < 2 ^ 48 \<Longrightarrow> unpack_be 8 (0 # 0 # be_bytes 6 v) = Inr v"
  using unpack_be_bytes [of v 8] by (simp add: be_bytes_mac)

lemma push_or: "0 \<le> b \<Longrightarrow> b < 2 ^ n \<Longrightarrow> push_bit n a OR b = a * 2 ^ n + (b :: int)"
  using or_push_bit_eq_add [of b n a] by (simp add: or.commute add.commute)

lemma bit_fields [wire]:
  "0 \<le> b \<Longrightarrow> b < 16 \<Longrightarrow> push_bit 4 a OR b = a * 16 + (b :: int)"
  "0 \<le> b \<Longrightarrow> b < 4 \<Longrightarrow> push_bit 2 a OR b = a * 4 + (b :: int)"
  "0 \<le> b \<Longrightarrow> b < 256 \<Longrightarrow> push_bit 8 a OR b = a * 256 + (b :: int)"
  "0 \<le> b \<Longrightarrow> b < 4096 \<Longrightarrow> push_bit 12 a OR b = a * 4096 + (b :: int)"
  "0 \<le> b \<Longrightarrow> b < 8192 \<Longrightarrow> push_bit 13 a OR b = a * 8192 + (b :: int)"
  using push_or [of b 4 a] push_or [of b 2 a] push_or [of b 8 a] push_or [of b 12 a] push_or [of b 13 a] by simp_all

lemma wire_masks [wire]:
  "(x :: int) AND 15 = x mod 16" "x AND 63 = x mod 64" "x AND 3 = x mod 4" "x AND 7 = x mod 8" "x AND 8191 = x mod 8192"
  "x AND 65535 = x mod 65536"
  using take_bit_eq_mask [of 4 x] take_bit_eq_mask [of 6 x] take_bit_eq_mask [of 2 x] take_bit_eq_mask [of 3 x]
    take_bit_eq_mask [of 13 x] take_bit_eq_mask [of 16 x] by (simp_all add: take_bit_eq_mod mask_eq_exp_minus_1)

section \<open>Round trips\<close>

definition eth_ok :: "'a eth_hdr_scheme \<Rightarrow> bool" where
  "eth_ok f \<longleftrightarrow> eth_dest_mac f \<in> {0..<2 ^ 48} \<and> eth_src_mac f \<in> {0..<2 ^ 48} \<and> eth_type f \<in> {0..<65536}"

definition ip_ok :: "'a ip_hdr_scheme \<Rightarrow> bool" where
  "ip_ok f \<longleftrightarrow> eth_ok f \<and> ip_version f \<in> {0..<16} \<and> ip_ihl f \<in> {0..<16} \<and> ip_dscp f \<in> {0..<64} \<and> ip_ecn f \<in> {0..<4} \<and>
     ip_identification f \<in> {0..<65536} \<and> ip_flags f \<in> {0..<8} \<and> ip_fragment_offset f \<in> {0..<8192} \<and> ip_ttl f \<in> {0..<256} \<and>
     ip_protocol f \<in> {0..<256} \<and> ip_source_ip f \<in> {0..<2 ^ 32} \<and> ip_dest_ip f \<in> {0..<2 ^ 32}"

definition udp_ok :: "udp_frame \<Rightarrow> bool" where
  "udp_ok f \<longleftrightarrow> ip_ok f \<and> udp_source_port f \<in> {0..<65536} \<and> udp_dest_port f \<in> {0..<65536}"

lemmas in_range = eth_ok_def ip_ok_def udp_ok_def

definition ip_header :: "int \<Rightarrow> int \<Rightarrow> 'a ip_hdr_scheme \<Rightarrow> byte list" where
  "ip_header len ck f =
     be_bytes 1 (ip_version f * 16 + ip_ihl f) @ be_bytes 1 (ip_dscp f * 4 + ip_ecn f) @ be_bytes 2 len @
     be_bytes 2 (ip_identification f) @ be_bytes 2 (ip_flags f * 8192 + ip_fragment_offset f) @ be_bytes 1 (ip_ttl f) @
     be_bytes 1 (ip_protocol f) @ be_bytes 2 ck @ be_bytes 4 (ip_source_ip f) @ be_bytes 4 (ip_dest_ip f)"

definition udp_header :: "int \<Rightarrow> int \<Rightarrow> udp_frame \<Rightarrow> byte list" where
  "udp_header len ck f = be_bytes 2 (udp_source_port f) @ be_bytes 2 (udp_dest_port f) @ be_bytes 2 len @ be_bytes 2 ck"

lemma length_headers [simp]: "length (ip_header len ck f) = 20" "length (udp_header len ck g) = 8"
  by (simp_all add: ip_header_def udp_header_def wire)

lemma eth_roundtrip:
  assumes "eth_ok f"
  shows "\<exists>data. eth_build_axis f = Inr data \<and>
           eth_parse_axis data g = Inr (g\<lparr>eth_dest_mac := eth_dest_mac f, eth_src_mac := eth_src_mac f, eth_type := eth_type f,
                                         eth_payload := eth_payload f\<rparr>)"
  using assms by (simp add: eth_build_axis_def eth_parse_axis_def eth_ok_def wire unpack_mac_def field_def slice_def)

lemma ip_packs:
  assumes "ip_ok f" "0 \<le> len" "len < 65536" "0 \<le> ck" "ck < 65536" "ip_length f = Some len" "ip_header_checksum f = Some ck"
  shows "ip_build_eth f = Inr (EthFrame (ip_header len ck f @ ip_payload f) (eth_dest_mac f) (eth_src_mac f) (eth_type f) None, f)"
  using assms by (simp add: ip_build_eth_def ip_build_def known_def in_range wire ip_header_def)

lemma ip_reads:
  assumes "ip_ok f" "0 \<le> len" "len < 65536" "0 \<le> ck" "ck < 65536" "len = int (length p) + 20"
  shows "ip_parse_eth (EthFrame (ip_header len ck f @ p) d s t fcs) g =
           Inr (ip_hdr.extend (ip_hdr.truncate f\<lparr>eth_dest_mac := d, eth_src_mac := s, eth_type := t, ip_length := Some len,
                  ip_header_checksum := Some ck\<rparr>) \<lparr>ip_payload = p\<rparr>)"
  using assms
  by (simp add: ip_parse_eth_def EthFrame_def in_range wire ip_header_def field_def slice_def ip_hdr.defs drop_bit_eq_div nat_add_distrib)

section \<open>Checksums\<close>

text \<open>The reference: the one's complement sum of the 16-bit words, an odd byte padded with zero.\<close>

definition ones_add :: "int \<Rightarrow> int \<Rightarrow> int" where
  "ones_add a b = (if a + b < 65536 then a + b else a + b - 65535)"

fun ones_sum :: "byte list \<Rightarrow> int" where
  "ones_sum [] = 0"
| "ones_sum [a] = 256 * uint a"
| "ones_sum (a # b # bs) = ones_add (256 * uint a + uint b) (ones_sum bs)"

definition pseudo_header :: "udp_frame \<Rightarrow> byte list" where
  "pseudo_header f =
     be_bytes 4 (ip_source_ip f) @ be_bytes 4 (ip_dest_ip f) @ [0] @ be_bytes 1 (ip_protocol f) @
     be_bytes 2 (the (udp_length f))"

lemma uint_byte: "0 \<le> uint (b :: byte)" "uint (b :: byte) \<le> 255"
  using uint_lt2p [of b] by simp_all

lemma ones_sum_spec:
  "0 \<le> ones_sum bs \<and> ones_sum bs \<le> 65535 \<and> (\<exists>k. payload_sum False bs = ones_sum bs + k * 65535) \<and>
   (0 < payload_sum False bs \<longrightarrow> 0 < ones_sum bs)"
proof (induction bs rule: ones_sum.induct)
  case (2 a)
  then show ?case
    using uint_byte [of a] by (auto simp: push_bit_eq_mult intro: exI [of _ 0])
next
  case (3 a b bs)
  then obtain k where k: "payload_sum False bs = ones_sum bs + k * 65535"
    by blast
  let ?c = "if 256 * uint a + uint b + ones_sum bs < 65536 then 0 else (1::int)"
  have sum: "payload_sum False (a # b # bs) = 256 * uint a + uint b + payload_sum False bs"
    by (simp add: push_bit_eq_mult)
  have "payload_sum False (a # b # bs) = ones_sum (a # b # bs) + (k + ?c) * 65535"
    unfolding sum k by (simp add: ones_add_def algebra_simps)
  moreover have "0 < payload_sum False (a # b # bs) \<longrightarrow> 0 < ones_sum (a # b # bs)"
    using 3 uint_byte [of a] uint_byte [of b] unfolding sum ones_sum.simps ones_add_def by (simp only: split: if_split) linarith
  moreover have "0 \<le> ones_sum (a # b # bs) \<and> ones_sum (a # b # bs) \<le> 65535"
    using 3 uint_byte [of a] uint_byte [of b] by (simp add: ones_add_def)
  ultimately show ?case
    by blast
qed auto

lemma ones_sum_ones: "0 < payload_sum False bs \<Longrightarrow> 65535 dvd payload_sum False bs \<Longrightarrow> ones_sum bs = 65535"
proof -
  assume pos: "0 < payload_sum False bs" and dvd: "65535 dvd payload_sum False bs"
  obtain k where "payload_sum False bs = ones_sum bs + k * 65535"
    using ones_sum_spec by blast
  with dvd have "65535 dvd ones_sum bs"
    by (simp add: dvd_add_left_iff)
  with ones_sum_spec [of bs] pos show ?thesis
    by (auto elim!: dvdE)
qed

text \<open>Two folds and the complement.\<close>

lemma fold16_arith: "fold16 c = c mod 65536 + c div 65536"
  by (simp add: fold16_def wire drop_bit_eq_div)

lemma fold16_dvd: "65535 dvd c - fold16 c"
proof -
  have "c - fold16 c = 65535 * (c div 65536)"
    using mult_div_mod_eq [of 65536 c] unfolding fold16_arith by linarith
  then show ?thesis
    by simp
qed

lemma fold16_twice:
  assumes "0 \<le> c" "c < 0x100000000"
  shows "0 \<le> fold16 (fold16 c) \<and> fold16 (fold16 c) < 65536"
proof -
  have "c div 65536 < 65536" "0 \<le> c div 65536" "c mod 65536 < 65536" "0 \<le> c mod 65536"
    using assms by (simp_all add: div_less_iff_less_mult pos_imp_zdiv_nonneg_iff)
  then have f: "0 \<le> fold16 c" "fold16 c < 131072"
    by (simp_all add: fold16_arith)
  show ?thesis
  proof (cases "fold16 c < 65536")
    case True
    with f show ?thesis
      using fold16_arith [of "fold16 c"] by simp
  next
    case False
    with f obtain y where y: "fold16 c = y + 65536" "0 \<le> y" "y < 65536"
      by (intro that [of "fold16 c - 65536"]) simp_all
    then have "y \<noteq> 65535"
      using \<open>c div 65536 < 65536\<close> \<open>c mod 65536 < 65536\<close> by (simp add: fold16_arith)
    with y show ?thesis
      using fold16_arith [of "y + 65536"] by simp
  qed
qed

lemma fold16_twice_dvd: "65535 dvd c - fold16 (fold16 c)"
  using dvd_add [OF fold16_dvd [of c] fold16_dvd [of "fold16 c"]] by simp

lemma complement16: "0 \<le> x \<Longrightarrow> x < 65536 \<Longrightarrow> NOT x AND 65535 = 65535 - (x :: int)"
proof -
  assume "0 \<le> x" "x < 65536"
  then have "(- x - 1) mod 65536 = 65535 - x"
    using mod_add_self2 [of "- x - 1" 65536] by simp
  then show ?thesis
    by (simp add: not_eq_complement wire)
qed

lemma checksum_spec:
  assumes "0 \<le> c" "c < 0x100000000"
  shows "\<exists>k\<ge>0. k < 65536 \<and> NOT (fold16 (fold16 c)) AND 65535 = k \<and> 65535 dvd c + k \<and> 0 < c + k"
proof (intro exI conjI)
  let ?k = "65535 - fold16 (fold16 c)"
  show "NOT (fold16 (fold16 c)) AND 65535 = ?k"
    using fold16_twice [OF assms] by (intro complement16) simp_all
  have "c + ?k = (c - fold16 (fold16 c)) + 65535"
    by simp
  then show "65535 dvd c + ?k"
    using fold16_twice_dvd [of c] by (metis dvd_add dvd_refl)
  show "0 < c + ?k"
    using fold16_twice [OF assms] assms by (cases "c = 0") (simp_all add: fold16_def)
qed (use fold16_twice [OF assms] in simp_all)

text \<open>Sums over packed fields.\<close>

lemma uint_of_int_byte: "uint (word_of_int v :: byte) = v mod 256"
  by (simp add: uint_word_of_int)

lemma be_bytes_1: "be_bytes (Suc 0) v = [word_of_int v]"
  by (simp add: be_bytes_def)

lemma payload_sum_be_2: "payload_sum False (be_bytes 2 v @ r) = v mod 65536 + payload_sum False r"
  using mod_mult2_eq' [of v 256 256]
  by (simp add: be_bytes_def numeral_2_eq_2 uint_of_int_byte push_bit_eq_mult)

lemma be_bytes_4: "be_bytes 4 v = be_bytes 2 (v div 65536) @ be_bytes 2 v"
  using le_bytes_append [of 2 2 v] by (simp add: be_bytes_def)

definition half_sum :: "int \<Rightarrow> int" where
  "half_sum x = x mod 65536 + x div 65536 mod 65536"

lemma half_sum_bounds: "0 \<le> half_sum x" "half_sum x < 131072"
  using pos_mod_bound [of 65536 x] pos_mod_bound [of 65536 "x div 65536"] by (simp_all add: half_sum_def)

lemma payload_sum_be [wire]:
  "0 \<le> v \<Longrightarrow> v < 65536 \<Longrightarrow> payload_sum False (be_bytes 2 v @ r) = v + payload_sum False r"
  "0 \<le> v \<Longrightarrow> v < 256 \<Longrightarrow> payload_sum False (be_bytes (Suc 0) v @ r) = v * 256 + payload_sum True r"
  "0 \<le> v \<Longrightarrow> v < 256 \<Longrightarrow> payload_sum True (be_bytes (Suc 0) v @ r) = v + payload_sum False r"
  "0 \<le> v \<Longrightarrow> v < 2 ^ 32 \<Longrightarrow> payload_sum False (be_bytes 4 v @ r) = half_sum v + payload_sum False r"
  by (simp_all add: half_sum_def payload_sum_be_2 be_bytes_4 be_bytes_1 uint_of_int_byte push_bit_eq_mult)

lemma payload_sum_bounds: "0 \<le> payload_sum od bs" "payload_sum od bs \<le> 65280 * int (length bs)"
proof -
  show "0 \<le> payload_sum od bs"
    using uint_byte by (induction bs arbitrary: od) (auto simp: push_bit_eq_mult)
  show "payload_sum od bs \<le> 65280 * int (length bs)"
  proof (induction bs arbitrary: od)
    case (Cons b bs)
    have "payload_sum od (b # bs) \<le> 65280 + payload_sum (\<not> od) bs"
      using uint_byte [of b] by (simp add: push_bit_eq_mult)
    with Cons [of "\<not> od"] show ?case
      by simp
  qed simp
qed

lemma ip_field_bounds:
  assumes "ip_ok f"
  shows "0 \<le> ip_version f * 16 + ip_ihl f" "ip_version f * 16 + ip_ihl f < 256"
    "0 \<le> ip_dscp f * 4 + ip_ecn f" "ip_dscp f * 4 + ip_ecn f < 256"
    "0 \<le> ip_flags f * 8192 + ip_fragment_offset f" "ip_flags f * 8192 + ip_fragment_offset f < 65536"
    "0 \<le> ip_identification f" "ip_identification f < 65536" "0 \<le> ip_ttl f" "ip_ttl f < 256" "0 \<le> ip_protocol f" "ip_protocol f < 256"
    "0 \<le> ip_source_ip f" "ip_source_ip f < 2 ^ 32" "0 \<le> ip_dest_ip f" "ip_dest_ip f < 2 ^ 32"
proof -
  have *: "ip_version f \<in> {0..<16}" "ip_ihl f \<in> {0..<16}" "ip_dscp f \<in> {0..<64}" "ip_ecn f \<in> {0..<4}" "ip_flags f \<in> {0..<8}"
      "ip_fragment_offset f \<in> {0..<8192}"
    using assms unfolding ip_ok_def by blast+
  show "0 \<le> ip_version f * 16 + ip_ihl f" "ip_version f * 16 + ip_ihl f < 256"
    using *(1,2) by simp_all
  show "0 \<le> ip_dscp f * 4 + ip_ecn f" "ip_dscp f * 4 + ip_ecn f < 256"
    using *(3,4) by simp_all
  show "0 \<le> ip_flags f * 8192 + ip_fragment_offset f" "ip_flags f * 8192 + ip_fragment_offset f < 65536"
    using *(5,6) by simp_all
qed (use assms in \<open>simp_all add: ip_ok_def\<close>)

lemma ip_words:
  assumes "ip_ok f"
  shows "ip_word0 f = ip_version f * 4096 + ip_ihl f * 256 + ip_dscp f * 4 + ip_ecn f"
    "push_bit 13 (ip_flags f) OR ip_fragment_offset f = ip_flags f * 8192 + ip_fragment_offset f"
proof -
  have *: "ip_ihl f \<in> {0..<16}" "ip_dscp f \<in> {0..<64}" "ip_ecn f \<in> {0..<4}" "ip_fragment_offset f \<in> {0..<8192}"
    using assms unfolding ip_ok_def by blast+
  show "ip_word0 f = ip_version f * 4096 + ip_ihl f * 256 + ip_dscp f * 4 + ip_ecn f"
    using *(1-3) by (simp add: ip_word0_def wire)
  show "push_bit 13 (ip_flags f) OR ip_fragment_offset f = ip_flags f * 8192 + ip_fragment_offset f"
    using *(4) by (simp add: wire)
qed

lemma seven_words:
  fixes a :: int
  assumes "0 \<le> a" "a < 65536" "0 \<le> b" "b < 65536" "0 \<le> c" "c < 65536" "0 \<le> d" "d < 65536" "0 \<le> e" "e < 65536"
    "0 \<le> s" "s < 131072" "0 \<le> t" "t < 131072"
  shows "0 \<le> a + b + c + d + e + s + t" "a + b + c + d + e + s + t < 0x100000000"
  using assms by linarith+

lemma ip_checksum_spec:
  assumes "ip_ok f" "0 \<le> len" "len < 65536" "ip_length f = Some len"
  shows "\<exists>k\<ge>0. k < 65536 \<and> calc_ip_checksum f = Inr k \<and> ones_sum (ip_header len k f) = 65535"
proof -
  define c where "c = ip_word0 f + len + ip_identification f + (push_bit 13 (ip_flags f) OR ip_fragment_offset f) +
             (push_bit 8 (ip_ttl f) OR ip_protocol f) + (ip_source_ip f AND 0xffff) + (drop_bit 16 (ip_source_ip f) AND 0xffff) +
             (ip_dest_ip f AND 0xffff) + (drop_bit 16 (ip_dest_ip f) AND 0xffff)"
  note fb = ip_field_bounds [OF assms(1)]
  have c: "c = (ip_version f * 4096 + ip_ihl f * 256 + ip_dscp f * 4 + ip_ecn f) + len + ip_identification f +
               (ip_flags f * 8192 + ip_fragment_offset f) + (ip_ttl f * 256 + ip_protocol f) +
               half_sum (ip_source_ip f) + half_sum (ip_dest_ip f)"
    unfolding c_def ip_words [OF assms(1)] bit_fields (3) [OF fb(11,12)] by (simp add: half_sum_def wire drop_bit_eq_div)
  have "0 \<le> c" "c < 0x100000000"
    using fb(1-12) assms(2,3) unfolding c by (intro seven_words half_sum_bounds; linarith)+
  from checksum_spec [OF this] obtain k where k: "0 \<le> k" "k < 65536" "NOT (fold16 (fold16 c)) AND 65535 = k" "65535 dvd c + k" "0 < c + k"
    by blast
  have "payload_sum False (ip_header len k f) = c + k"
    using fb assms(2,3) k(1,2) payload_sum_be (4) [of "ip_dest_ip f" "[]"] unfolding c ip_header_def by (simp add: wire)
  then have "ones_sum (ip_header len k f) = 65535"
    using k(4,5) by (intro ones_sum_ones) simp_all
  moreover have "calc_ip_checksum f = Inr k"
    unfolding calc_ip_checksum_def assms(4) known_def k(3) [symmetric] c_def by simp
  ultimately show ?thesis
    using k(1,2) by blast
qed

lemma udp_checksum_spec:
  assumes "udp_ok f" "int (length (udp_payload f)) \<le> 65507" "udp_length f = Some len" "len = int (length (udp_payload f)) + 8"
  shows "\<exists>k\<ge>0. k < 65536 \<and> calc_udp_checksum f = Inr k \<and> ones_sum (pseudo_header f @ udp_header len k f @ udp_payload f) = 65535"
proof -
  define c where "c = (ip_source_ip f AND 0xffff) + (drop_bit 16 (ip_source_ip f) AND 0xffff) + (ip_dest_ip f AND 0xffff) +
         (drop_bit 16 (ip_dest_ip f) AND 0xffff) + ip_protocol f + len"
  let ?rest = "udp_source_port f + udp_dest_port f + len + payload_sum False (udp_payload f)"
  have ok: "ip_ok f" "udp_source_port f \<in> {0..<65536}" "udp_dest_port f \<in> {0..<65536}" "0 \<le> len" "len < 65536"
    using assms by (auto simp: udp_ok_def)
  note fb = ip_field_bounds (11-16) [OF ok(1)]
  have c: "c = half_sum (ip_source_ip f) + half_sum (ip_dest_ip f) + ip_protocol f + len"
    by (simp add: c_def half_sum_def wire drop_bit_eq_div)
  have "0 \<le> c" "c < 0x100000000"
    using fb ok(4,5) half_sum_bounds [of "ip_source_ip f"] half_sum_bounds [of "ip_dest_ip f"] unfolding c by linarith+
  note c2 = fold16_twice [OF this]
  have "0 \<le> fold16 (fold16 c) + ?rest" "fold16 (fold16 c) + ?rest < 0x100000000"
    using c2 ok(2-5) assms(2) payload_sum_bounds [of False "udp_payload f"] by simp_all
  from checksum_spec [OF this] obtain k where k: "0 \<le> k" "k < 65536" "NOT (fold16 (fold16 (fold16 (fold16 c) + ?rest))) AND 65535 = k"
      "65535 dvd fold16 (fold16 c) + ?rest + k"
    by blast
  have "payload_sum False (pseudo_header f @ udp_header len k f @ udp_payload f) = c + ?rest + k"
    using fb ok(2-5) k(1,2) assms(3) unfolding c pseudo_header_def udp_header_def by (simp add: wire)
  moreover have "65535 dvd c + ?rest + k"
    using dvd_add [OF fold16_twice_dvd [of c] k(4)] by (simp add: algebra_simps)
  moreover have "0 < c + ?rest + k"
    using k(1) ok(2-5) assms(4) \<open>0 \<le> c\<close> payload_sum_bounds (1) [of False "udp_payload f"] by simp
  ultimately have "ones_sum (pseudo_header f @ udp_header len k f @ udp_payload f) = 65535"
    by (intro ones_sum_ones) simp_all
  moreover have "calc_udp_checksum f = Inr k"
    unfolding calc_udp_checksum_def calc_udp_pseudo_header_checksum_def assms(3) known_def k(3) [symmetric] c_def
    by (simp add: add.assoc)
  ultimately show ?thesis
    using k(1,2) by blast
qed

text \<open>A fresh frame: lengths and checksums are left to \<open>build\<close>.\<close>

definition fresh :: "udp_frame \<Rightarrow> bool" where
  "fresh f \<longleftrightarrow> udp_length f = None \<and> udp_checksum f = None \<and> ip_length f = None \<and> ip_header_checksum f = None"

definition filled :: "udp_frame \<Rightarrow> int \<Rightarrow> int \<Rightarrow> udp_frame" where
  "filled f uc ic = f\<lparr>udp_length := Some (int (length (udp_payload f)) + 8), udp_checksum := Some uc,
     ip_length := Some (int (length (udp_payload f)) + 28), ip_header_checksum := Some ic\<rparr>"

lemma filled_sel [simp]:
  "udp_length (filled f uc ic) = Some (int (length (udp_payload f)) + 8)" "udp_payload (filled f uc ic) = udp_payload f"
  "udp_checksum (filled f uc ic) = Some uc" "ip_header_checksum (filled f uc ic) = Some ic"
  "ip_length (filled f uc ic) = Some (int (length (udp_payload f)) + 28)"
  by (simp_all add: filled_def)

lemma udp_built:
  assumes "udp_ok f" "length (udp_payload f) \<le> 65507" "fresh f"
  shows "\<exists>uc\<ge>0. \<exists>ic\<ge>0. uc < 65536 \<and> ic < 65536 \<and> udp_build f = Inr (filled f uc ic) \<and>
           verify_checksums (filled f uc ic) = Inr True \<and>
           ones_sum (ip_header (int (length (udp_payload f)) + 28) ic (filled f uc ic)) = 65535 \<and>
           ones_sum (pseudo_header (filled f uc ic) @ udp_header (int (length (udp_payload f)) + 8) uc (filled f uc ic) @ udp_payload f) = 65535"
proof -
  let ?n = "int (length (udp_payload f))"
  let ?u = "f\<lparr>udp_length := Some (?n + 8)\<rparr>"
  have "udp_ok ?u"
    using assms by (simp add: in_range)
  with udp_checksum_spec [of ?u "?n + 8"] assms obtain uc where uc: "0 \<le> uc" "uc < 65536" "calc_udp_checksum ?u = Inr uc"
      "ones_sum (pseudo_header ?u @ udp_header (?n + 8) uc ?u @ udp_payload f) = 65535"
    by auto
  let ?i = "?u\<lparr>udp_checksum := Some uc, ip_length := Some (?n + 28)\<rparr>"
  have "ip_ok ?i"
    using assms by (simp add: in_range)
  with ip_checksum_spec [of ?i "?n + 28"] assms obtain ic where ic: "0 \<le> ic" "ic < 65536" "calc_ip_checksum ?i = Inr ic"
      "ones_sum (ip_header (?n + 28) ic ?i) = 65535"
    by auto
  have "udp_build f = Inr (filled f uc ic)"
    using assms uc(3) ic(3)
    by (simp add: udp_build_def fresh_def update_udp_length_def update_udp_checksum_def update_ip_length_def
        update_ip_checksum_def known_def filled_def Let_def add.commute)
  moreover have "calc_ip_checksum (filled f uc ic) = Inr ic" "calc_udp_checksum (filled f uc ic) = Inr uc"
    using uc(3) ic(3) by (simp_all add: calc_ip_checksum_def ip_word0_def calc_udp_checksum_def
        calc_udp_pseudo_header_checksum_def filled_def)
  then have "verify_checksums (filled f uc ic) = Inr True"
    by (simp add: verify_checksums_def verify_ip_checksum_def verify_udp_checksum_def)
  moreover have "ip_header (?n + 28) ic (filled f uc ic) = ip_header (?n + 28) ic ?i"
    "pseudo_header (filled f uc ic) = pseudo_header ?u" "udp_header (?n + 8) uc (filled f uc ic) = udp_header (?n + 8) uc ?u"
    by (simp_all add: ip_header_def pseudo_header_def udp_header_def filled_def)
  ultimately show ?thesis
    using uc ic by metis
qed

definition udp_bytes :: "udp_frame \<Rightarrow> int \<Rightarrow> int \<Rightarrow> byte list" where
  "udp_bytes f uc ic = (let n = int (length (udp_payload f)) in
     be_bytes 6 (eth_dest_mac f) @ be_bytes 6 (eth_src_mac f) @ be_bytes 2 (eth_type f) @ ip_header (n + 28) ic f @
     udp_header (n + 8) uc f @ udp_payload f)"

lemma udp_ok_filled: "udp_ok f \<Longrightarrow> udp_ok (filled f uc ic)"
  by (simp add: in_range filled_def)

definition udp_ip :: "udp_frame \<Rightarrow> int \<Rightarrow> int \<Rightarrow> ip_frame" where
  "udp_ip g len ck = ip_hdr.extend (ip_hdr.truncate g) \<lparr>ip_payload = udp_header len ck g @ udp_payload g\<rparr>"

lemma udp_ip_sel [simp]:
  "ip_ok (udp_ip g len ck) = ip_ok g" "ip_length (udp_ip g len ck) = ip_length g"
  "ip_header_checksum (udp_ip g len ck) = ip_header_checksum g" "ip_payload (udp_ip g len ck) = udp_header len ck g @ udp_payload g"
  "eth_dest_mac (udp_ip g len ck) = eth_dest_mac g" "eth_src_mac (udp_ip g len ck) = eth_src_mac g" "eth_type (udp_ip g len ck) = eth_type g"
  "ip_header l c (udp_ip g len ck) = ip_header l c g"
  by (simp_all add: udp_ip_def ip_hdr.defs in_range ip_header_def)

lemma udp_packs:
  assumes "udp_build f = Inr g" "udp_ok g" "udp_length g = Some len" "udp_checksum g = Some uc" "0 \<le> len" "len < 65536" "0 \<le> uc" "uc < 65536"
  shows "udp_build_ip f = Inr (udp_ip g len uc, g)"
  using assms by (simp add: udp_build_ip_def known_def in_range wire udp_ip_def udp_header_def)

lemma udp_reads:
  assumes "udp_ok g" "0 \<le> len" "len < 65536" "0 \<le> uc" "uc < 65536" "len = int (length (udp_payload g)) + 8"
  shows "udp_parse_ip (udp_ip g len uc) h = Inr (g\<lparr>udp_length := Some len, udp_checksum := Some uc\<rparr>)"
  using assms
  by (simp add: udp_parse_ip_def udp_ip_def in_range wire udp_header_def field_def slice_def ip_hdr.defs nat_add_distrib)

lemma udp_ip_reads:
  assumes "ip_ok g" "0 \<le> len" "len < 65536" "0 \<le> ic" "ic < 65536" "ip_length g = Some len" "ip_header_checksum g = Some ic"
    and "len = int (length (udp_payload g)) + 28"
  shows "ip_parse_eth (EthFrame (ip_header len ic g @ udp_header l uc g @ udp_payload g) (eth_dest_mac g) (eth_src_mac g) (eth_type g) None) h =
           Inr (udp_ip g l uc)"
  using ip_reads [of g len ic "udp_header l uc g @ udp_payload g"] assms by (simp add: udp_ip_def ip_hdr.defs)

lemma udp_axis:
  assumes "udp_ok f" "length (udp_payload f) \<le> 65507" "0 \<le> uc" "uc < 65536" "0 \<le> ic" "ic < 65536" "udp_build f = Inr (filled f uc ic)"
  shows "udp_build_axis f = Inr (udp_bytes (filled f uc ic) uc ic, filled f uc ic)"
    and "udp_parse_axis (udp_bytes (filled f uc ic) uc ic) h = Inr (filled f uc ic)"
proof -
  define g where "g = filled f uc ic"
  let ?n = "int (length (udp_payload g))"
  have g: "udp_ok g" "ip_ok g" "?n \<le> 65507" "udp_length g = Some (?n + 8)" "udp_checksum g = Some uc" "ip_length g = Some (?n + 28)"
      "ip_header_checksum g = Some ic" "udp_build f = Inr g"
    using assms udp_ok_filled [of f uc ic] by (simp_all add: g_def udp_ok_def)
  let ?i = "udp_ip g (?n + 8) uc"
  have i: "udp_build_ip f = Inr (?i, g)"
    using assms g by (intro udp_packs) simp_all
  let ?e = "EthFrame (ip_header (?n + 28) ic g @ udp_header (?n + 8) uc g @ udp_payload g) (eth_dest_mac g) (eth_src_mac g) (eth_type g) None"
  have e: "ip_build_eth ?i = Inr (?e, ?i)"
    using assms g ip_packs [of ?i "?n + 28" ic] by simp
  have "eth_ok ?e"
    using g by (simp add: in_range EthFrame_def)
  then have b: "eth_build_axis ?e = Inr (udp_bytes g uc ic)"
    by (simp add: eth_build_axis_def eth_ok_def wire udp_bytes_def EthFrame_def Let_def)
  show "udp_build_axis f = Inr (udp_bytes (filled f uc ic) uc ic, filled f uc ic)"
    by (simp add: udp_build_axis_def udp_build_eth_def i e b g_def [symmetric])
  have "eth_parse_axis (udp_bytes g uc ic) (EthFrame [] 0 0 0 None) = Inr ?e"
    using eth_roundtrip [OF \<open>eth_ok ?e\<close>, of "EthFrame [] 0 0 0 None"] b by (simp add: EthFrame_def)
  moreover have "ip_parse_eth ?e IPFrame = Inr ?i"
    using assms g by (intro udp_ip_reads) simp_all
  moreover have "udp_parse_ip ?i h = Inr g"
    using assms g udp_reads [of g "?n + 8" uc h] by simp
  ultimately show "udp_parse_axis (udp_bytes (filled f uc ic) uc ic) h = Inr (filled f uc ic)"
    by (simp add: udp_parse_axis_def udp_parse_eth_def g_def)
qed

text \<open>C20. A UDP frame in range whose lengths and checksums are left to \<open>build\<close> is built into a byte string, and parsing
  that byte string gives back the very frame, with the lengths and checksums filled in and both checksums verified.\<close>

theorem udp_axis_roundtrip:
  assumes "udp_ok f" "length (udp_payload f) \<le> 65507" "fresh f"
  shows "\<exists>data uc ic. udp_build_axis f = Inr (data, filled f uc ic) \<and> length data = length (udp_payload f) + 42 \<and>
           udp_parse_axis data h = Inr (filled f uc ic) \<and> verify_checksums (filled f uc ic) = Inr True"
proof -
  from udp_built [OF assms] obtain uc ic where b: "0 \<le> uc" "0 \<le> ic" "uc < 65536" "ic < 65536" "udp_build f = Inr (filled f uc ic)"
      "verify_checksums (filled f uc ic) = Inr True"
    by blast
  moreover have "length (udp_bytes (filled f uc ic) uc ic) = length (udp_payload f) + 42"
    by (simp add: udp_bytes_def wire Let_def)
  ultimately show ?thesis
    using udp_axis [OF assms(1,2) b(1,3,2,4,5)] by metis
qed

text \<open>C21. On the wire both checksums are those of RFC 1071: the one's complement sum of the IP header is all ones, and so is
  that of the pseudo header followed by the UDP datagram, whether or not the payload has an even number of bytes.\<close>

theorem udp_wire_checksums:
  assumes "udp_ok f" "length (udp_payload f) \<le> 65507" "fresh f"
  shows "\<exists>data g. udp_build_axis f = Inr (data, g) \<and> ones_sum (slice 14 34 data) = 0xffff \<and>
           ones_sum (pseudo_header g @ drop 34 data) = 0xffff"
proof -
  let ?n = "int (length (udp_payload f))"
  from udp_built [OF assms] obtain uc ic where b: "0 \<le> uc" "0 \<le> ic" "uc < 65536" "ic < 65536" "udp_build f = Inr (filled f uc ic)"
      "ones_sum (ip_header (?n + 28) ic (filled f uc ic)) = 65535"
      "ones_sum (pseudo_header (filled f uc ic) @ udp_header (?n + 8) uc (filled f uc ic) @ udp_payload f) = 65535"
    by blast
  moreover have "slice 14 34 (udp_bytes (filled f uc ic) uc ic) = ip_header (?n + 28) ic (filled f uc ic)"
    by (simp add: udp_bytes_def wire Let_def slice_def)
  moreover have "drop 34 (udp_bytes (filled f uc ic) uc ic) = udp_header (?n + 8) uc (filled f uc ic) @ udp_payload f"
    by (simp add: udp_bytes_def wire Let_def)
  ultimately show ?thesis
    using udp_axis (1) [OF assms(1,2) b(1,3,2,4,5)] by metis
qed

definition demo_frame :: udp_frame where
  "demo_frame = UDPFrame\<lparr>eth_dest_mac := 0xDAD1D2D3D4D5, eth_src_mac := 0x5A5152535455, eth_type := 0x0800, udp_payload := [1, 2, 3]\<rparr>"

lemma demo_frame_ok: "udp_ok demo_frame" "length (udp_payload demo_frame) \<le> 65507" "fresh demo_frame"
  by (simp_all add: demo_frame_def UDPFrame_def in_range fresh_def)

theorem udp_axis_roundtrip_witness:
  "udp_ok demo_frame \<and> fresh demo_frame \<and>
   (\<exists>data uc ic. udp_build_axis demo_frame = Inr (data, filled demo_frame uc ic) \<and> length data = 45 \<and>
      udp_parse_axis data UDPFrame = Inr (filled demo_frame uc ic) \<and> verify_checksums (filled demo_frame uc ic) = Inr True)"
  using udp_axis_roundtrip [OF demo_frame_ok, of UDPFrame] demo_frame_ok by (simp add: demo_frame_def)

theorem udp_wire_checksums_witness:
  "udp_ok demo_frame \<and> fresh demo_frame \<and>
   (\<exists>data g. udp_build_axis demo_frame = Inr (data, g) \<and> ones_sum (slice 14 34 data) = 0xffff \<and>
      ones_sum (pseudo_header g @ drop 34 data) = 0xffff)"
  using udp_wire_checksums [OF demo_frame_ok] demo_frame_ok by blast

text \<open>The same for ARP, whose fields have fixed places, and for the frame check sequence.\<close>

definition arp_ok :: "arp_frame \<Rightarrow> bool" where
  "arp_ok f \<longleftrightarrow> eth_ok f \<and> arp_htype f \<in> {0..<65536} \<and> arp_ptype f \<in> {0..<65536} \<and> arp_hlen f \<in> {0..<256} \<and>
     arp_plen f \<in> {0..<256} \<and> arp_oper f \<in> {0..<65536} \<and> arp_sha f \<in> {0..<2 ^ 48} \<and> arp_spa f \<in> {0..<2 ^ 32} \<and>
     arp_tha f \<in> {0..<2 ^ 48} \<and> arp_tpa f \<in> {0..<2 ^ 32}"

lemma arp_roundtrip_eth: "arp_ok f \<Longrightarrow> \<exists>e. arp_build_eth f = Inr e \<and> eth_ok e \<and> eth_fcs e = None \<and> arp_parse_eth e h = Inr f"
  by (simp add: arp_build_eth_def arp_parse_eth_def arp_ok_def eth_ok_def EthFrame_def wire field_def unpack_mac_def slice_def)

theorem arp_axis_roundtrip:
  assumes "arp_ok f"
  shows "\<exists>data. arp_build_axis f = Inr data \<and> arp_parse_axis data h = Inr f"
proof -
  from arp_roundtrip_eth [OF assms, of h] obtain e where e: "arp_build_eth f = Inr e" "eth_ok e" "eth_fcs e = None" "arp_parse_eth e h = Inr f"
    by blast
  then have "(EthFrame [] 0 0 0 None)\<lparr>eth_dest_mac := eth_dest_mac e, eth_src_mac := eth_src_mac e, eth_type := eth_type e,
      eth_payload := eth_payload e\<rparr> = e"
    by (cases e) (simp add: EthFrame_def)
  with e eth_roundtrip [OF e(2), of "EthFrame [] 0 0 0 None"] show ?thesis
    by (auto simp: arp_build_axis_def arp_parse_axis_def)
qed

theorem fcs_roundtrip:
  assumes "eth_ok f" "eth_fcs f = None"
  shows "\<exists>data v. calc_fcs crc32 f = Inr v \<and> build_axis_fcs crc32 f = Inr (data, f\<lparr>eth_fcs := Some v\<rparr>) \<and>
           parse_axis_fcs data g = Inr (f\<lparr>eth_fcs := Some v\<rparr>)"
proof -
  let ?h = "be_bytes 6 (eth_dest_mac f) @ be_bytes 6 (eth_src_mac f) @ be_bytes 2 (eth_type f)"
  have b: "eth_build_axis (f\<lparr>eth_fcs := x\<rparr>) = Inr (?h @ eth_payload f)" for x
    using assms(1) by (simp add: eth_build_axis_def eth_ok_def wire)
  let ?v = "crc32 (?h @ eth_payload f) AND 0xffffffff"
  have v: "0 \<le> ?v" "?v < 2 ^ 32"
    by (simp, rule le_less_trans [OF AND_upper2], simp_all)
  have c: "calc_fcs crc32 f = Inr ?v"
    using b [of "eth_fcs f"] by (simp add: calc_fcs_def)
  moreover have "build_axis_fcs crc32 f = Inr (?h @ eth_payload f @ le_bytes 4 ?v, f\<lparr>eth_fcs := Some ?v\<rparr>)"
    using v b assms(2) c by (simp add: build_axis_fcs_def update_fcs_def known_def pack_L_def)
  moreover have "parse_axis_fcs (?h @ eth_payload f @ le_bytes 4 ?v) g = Inr (f\<lparr>eth_fcs := Some ?v\<rparr>)"
    using v assms(1)
    by (simp add: parse_axis_fcs_def eth_parse_axis_def eth_ok_def unpack_mac_def field_def slice_def wire unpack_L_def le_int_le_bytes)
  ultimately show ?thesis
    by blast
qed

end
