(* ===== verification/Axi_Bus.thy ===== *)
theory Axi_Bus
  imports Pcie_Base
begin

unbundle bit_operations_syntax

text \<open>
  The AXI bus models of \<open>src/hardware/fpga/lib/axi/tb/axi.py\<close>: \<open>AXIMaster\<close>, which cuts reads and writes into bursts and beats, and
  \<open>AXIRam\<close>, the memory that serves them.

  A process of \<open>create_logic\<close> or \<open>create_port\<close> that runs through without waiting is a function on the record of its object; it
  takes the first command of its queue. Where a process waits for a beat or a response, the function returns \<open>Unfinished\<close>.
  The processes that drive the signals of a channel are \<open>chan_edge\<close>, one rising edge of the clock with the pause inputs of both
  sides; \<open>write_addr_transfer\<close> and its like say what arrives in the end. \<open>axi_write\<close> and \<open>axi_read\<close> are one command from end to
  end. The model has an interface for both directions, with signals that are wide enough and without user signals.

  Shown here: a channel is a queue, whatever the pauses.
\<close>

section \<open>Division in floating point\<close>

text \<open>\<open>int(a/b)\<close> of numbers that are not negative. The quotient is rounded to 53 significant bits, half to even, before it is
  cut. It is exact for \<open>a < 2 ^ 53\<close>: a quotient that is not a whole number differs from the next one by at least \<open>1 / b\<close>, which is
  more than half a unit in its last place.\<close>

definition round_div :: "int \<Rightarrow> int \<Rightarrow> int" where
  "round_div n d = (let q = n div d; r = n mod d in if 2 * r > d \<or> 2 * r = d \<and> odd q then q + 1 else q)"

definition int_quot :: "int \<Rightarrow> int \<Rightarrow> int" where
  "int_quot a b =
     (if a < 2 ^ 53 then a div b
      else let l = bit_length (nat a) - bit_length (nat b); s = (if a < b * 2 ^ l then l - 1 else l)
           in if s < 52 then round_div (a * 2 ^ (52 - s)) b div 2 ^ (52 - s) else round_div a (b * 2 ^ (s - 52)) * 2 ^ (s - 52))"

section \<open>Data\<close>

definition BURST_FIXED :: int where "BURST_FIXED = 0"
definition BURST_INCR :: int where "BURST_INCR = 1"
definition BURST_WRAP :: int where "BURST_WRAP = 2"

record axi_attr =
  axi_burst :: int
  axi_lock :: int
  axi_cache :: int
  axi_prot :: int
  axi_qos :: int
  axi_region :: int
  axi_user :: "int option"

text \<open>The default arguments of \<open>init_read\<close> and \<open>init_write\<close>.\<close>

definition axi_attr_default :: axi_attr where
  "axi_attr_default = \<lparr>axi_burst = 1, axi_lock = 0, axi_cache = 3, axi_prot = 2, axi_qos = 0, axi_region = 0, axi_user = None\<rparr>"

text \<open>An entry of an address queue, a write beat (data, strobes, last), a write response (id, response, user), a read beat (id,
  data, response, last, user) and a burst that a read waits for (id, number of beats).\<close>

record axi_addr =
  aa_addr :: int
  aa_id :: int
  aa_len :: int
  aa_size :: nat
  aa_attr :: axi_attr

type_synonym w_beat = "int \<times> int \<times> bool"
type_synonym b_resp = "int \<times> int \<times> int"
type_synonym r_beat = "int \<times> int \<times> int \<times> bool \<times> int"
type_synonym burst_list = "(int \<times> int) list"

text \<open>The width of the data bus in bytes and that of the identifiers, if there are any.\<close>

record axi_port =
  ax_bw :: nat
  ax_idw :: "nat option"

record axi_master =
  write_command_queue :: "(int \<times> byte list \<times> nat option \<times> axi_attr) list"
  write_resp_queue :: "(int \<times> int \<times> int \<times> int) list"
  read_command_queue :: "(int \<times> int \<times> nat option \<times> axi_attr) list"
  read_data_queue :: "(int \<times> byte list \<times> int \<times> int) list"
  cur_write_id :: int
  cur_read_id :: int
  int_write_addr_queue :: "axi_addr list"
  int_write_data_queue :: "w_beat list"
  int_write_resp_command_queue :: "(int \<times> int \<times> nat \<times> int) list"
  int_write_resp_queue :: "b_resp list"
  int_read_addr_queue :: "axi_addr list"
  int_read_resp_command_queue :: "(int \<times> int \<times> nat \<times> int \<times> int \<times> burst_list) list"
  int_read_resp_queue_list :: "int \<Rightarrow> r_beat list"
  in_flight_operations :: int
  max_burst_len :: int

definition AXIMaster :: axi_master where
  "AXIMaster = \<lparr>write_command_queue = [], write_resp_queue = [], read_command_queue = [], read_data_queue = [], cur_write_id = 0,
     cur_read_id = 0, int_write_addr_queue = [], int_write_data_queue = [], int_write_resp_command_queue = [], int_write_resp_queue = [],
     int_read_addr_queue = [], int_read_resp_command_queue = [], int_read_resp_queue_list = (\<lambda>_. []), in_flight_operations = 0,
     max_burst_len = 256\<rparr>"

section \<open>Master\<close>

definition init_read :: "int \<Rightarrow> int \<Rightarrow> nat option \<Rightarrow> axi_attr \<Rightarrow> axi_master \<Rightarrow> axi_master" where
  "init_read address len sz at m = m\<lparr>read_command_queue := read_command_queue m @ [(address, len, sz, at)]\<rparr>"

definition init_write :: "int \<Rightarrow> byte list \<Rightarrow> nat option \<Rightarrow> axi_attr \<Rightarrow> axi_master \<Rightarrow> axi_master" where
  "init_write address data sz at m = m\<lparr>write_command_queue := write_command_queue m @ [(address, data, sz, at)]\<rparr>"

definition axi_idle :: "axi_master \<Rightarrow> bool" where
  "axi_idle m \<longleftrightarrow> write_command_queue m = [] \<and> read_command_queue m = [] \<and> in_flight_operations m = 0"

definition read_data_ready :: "axi_master \<Rightarrow> bool" where
  "read_data_ready m \<longleftrightarrow> read_data_queue m \<noteq> []"

definition get_read_data :: "axi_master \<Rightarrow> (int \<times> byte list \<times> int \<times> int) option \<times> axi_master" where
  "get_read_data m = (case read_data_queue m of [] \<Rightarrow> (None, m) | x # xs \<Rightarrow> (Some x, m\<lparr>read_data_queue := xs\<rparr>))"

text \<open>\<open>create_logic\<close> only accepts these widths; \<open>int(math.log(bw, 2))\<close> is the exponent.\<close>

definition bw_ok :: "nat \<Rightarrow> bool" where
  "bw_ok bw \<longleftrightarrow> bw \<in> {1, 2, 4, 8, 16, 32, 64, 128}"

definition log_bw :: "nat \<Rightarrow> nat" where
  "log_bw bw = bit_length bw - 1"

definition burst_size :: "nat \<Rightarrow> nat option \<Rightarrow> (nat \<times> nat) res" where
  "burst_size bw sz =
     (case sz of None \<Rightarrow> Inr (log_bw bw, bw)
      | Some s \<Rightarrow> if 2 ^ s \<le> bw then Inr (s, 2 ^ s) else Inl AssertionError)"

text \<open>The number of beats of the next burst: at most \<open>max_burst_len\<close>, and not beyond a 4 KB boundary.\<close>

definition next_burst :: "int \<Rightarrow> int \<Rightarrow> int \<Rightarrow> int \<Rightarrow> int" where
  "next_burst max_len nb cur_addr left =
     int_quot (min (min left (min (max max_len 1) 256) * nb) (0x1000 - (cur_addr AND 0xfff)) + nb - 1) nb"

definition next_id :: "axi_port \<Rightarrow> int \<Rightarrow> int" where
  "next_id p i = (case ax_idw p of None \<Rightarrow> 0 | Some w \<Rightarrow> (i + 1) mod 2 ^ w)"

definition beats_of :: "int \<Rightarrow> int \<Rightarrow> int \<Rightarrow> int" where
  "beats_of addr len nb = int_quot (len + nb - 1 + addr mod nb) nb"

text \<open>Filling the lanes of a beat from the data, from \<open>offset\<close> on.\<close>

fun beat_val :: "byte list \<Rightarrow> int \<Rightarrow> nat list \<Rightarrow> nat \<Rightarrow> (int \<times> nat) res" where
  "beat_val data val [] offset = Inr (val, offset)"
| "beat_val data val (j # js) offset =
     bindE (nth_res data offset) (\<lambda>d. beat_val data (val OR push_bit (j * 8) (uint d)) js (Suc offset))"

text \<open>The strobes of one beat. The caller computes \<open>stop\<close> as a lane of the beat, at most \<open>bw\<close>: the shift is not negative.\<close>

definition beat_strb :: "nat \<Rightarrow> nat \<Rightarrow> nat \<Rightarrow> int" where
  "beat_strb bw start stop = (push_bit start (2 ^ bw - 1) AND (2 ^ bw - 1)) AND drop_bit (bw - stop) (2 ^ bw - 1)"

record axi_wloop =
  wl_addr :: int
  wl_offset :: nat
  wl_cycle :: nat
  wl_n :: int
  wl_transfers :: nat
  wl_burst :: int
  wl_master :: axi_master

definition write_cycle :: "axi_port \<Rightarrow> axi_attr \<Rightarrow> nat \<Rightarrow> nat \<Rightarrow> byte list \<Rightarrow> nat \<Rightarrow> nat \<Rightarrow> nat \<Rightarrow> nat \<Rightarrow> axi_wloop \<Rightarrow> axi_wloop res" where
  "write_cycle p at sz nb data start_offset end_offset cycles k l =
     (let start = (if k = 0 then start_offset else wl_cycle l);
          stop = (if k = cycles - 1 then end_offset else wl_cycle l + nb);
          strb = beat_strb (ax_bw p) start stop
      in bindE (beat_val data 0 [start..<stop] (wl_offset l)) (\<lambda>(val, offset).
         let m = wl_master l;
             l = (if wl_n l \<ge> wl_burst l
                  then let b = next_burst (max_burst_len m) (int nb) (wl_addr l) (int cycles - int k)
                       in l\<lparr>wl_transfers := wl_transfers l + 1, wl_n := 0, wl_burst := b,
                            wl_master := m\<lparr>cur_write_id := next_id p (cur_write_id m),
                              int_write_addr_queue := int_write_addr_queue m @ [\<lparr>aa_addr = wl_addr l, aa_id = cur_write_id m, aa_len = b - 1,
                                aa_size = sz, aa_attr = at\<rparr>]\<rparr>\<rparr>
                  else l);
             n = wl_n l + 1; m = wl_master l
         in Inr (l\<lparr>wl_n := n, wl_offset := offset, wl_addr := wl_addr l + int nb, wl_cycle := (wl_cycle l + nb) mod ax_bw p,
                   wl_master := m\<lparr>int_write_data_queue := int_write_data_queue m @ [(val, strb, n \<ge> wl_burst l)]\<rparr>\<rparr>)))"

definition axi_write_logic :: "axi_port \<Rightarrow> axi_master \<Rightarrow> axi_master res" where
  "axi_write_logic p m =
     (case write_command_queue m of [] \<Rightarrow> Inr m
      | (addr, data, sz, at) # cmds \<Rightarrow>
          let m = m\<lparr>write_command_queue := cmds, in_flight_operations := in_flight_operations m + 1\<rparr>; bw = int (ax_bw p)
          in bindE (burst_size (ax_bw p) sz) (\<lambda>(sz, nb).
             let aligned = int_quot addr (int nb) * int nb; word = int_quot addr bw * bw;
                 cycles = nat (beats_of addr (int (length data)) (int nb))
             in bindE (foldE (write_cycle p at sz nb data (nat (addr mod bw)) (nat ((addr + int (length data) - 1) mod bw + 1)) cycles)
                         [0..<cycles]
                         \<lparr>wl_addr = aligned, wl_offset = 0, wl_cycle = nat (aligned - word), wl_n = 0, wl_transfers = 0, wl_burst = 0,
                           wl_master = m\<rparr>) (\<lambda>l.
                let m = wl_master l
                in Inr (m\<lparr>int_write_resp_command_queue :=
                          int_write_resp_command_queue m @ [(addr, int (length data), wl_transfers l, axi_prot at)]\<rparr>))))"

text \<open>The responses to the bursts of a write; the last one that is not 0 counts. \<open>Unfinished\<close>: the process waits for a response.\<close>

fun take_resps :: "nat \<Rightarrow> int \<Rightarrow> b_resp list \<Rightarrow> (int \<times> b_resp list) res" where
  "take_resps 0 resp q = Inr (resp, q)"
| "take_resps (Suc k) resp [] = Inl Unfinished"
| "take_resps (Suc k) resp ((_, r, _) # q) = take_resps k (if r \<noteq> 0 then r else resp) q"

definition axi_write_resp_logic :: "axi_master \<Rightarrow> axi_master res" where
  "axi_write_resp_logic m =
     (case int_write_resp_command_queue m of [] \<Rightarrow> Inr m
      | (addr, len, transfers, prot) # cmds \<Rightarrow>
          bindE (take_resps transfers 0 (int_write_resp_queue m)) (\<lambda>(resp, q).
            Inr (m\<lparr>int_write_resp_command_queue := cmds, int_write_resp_queue := q,
                   write_resp_queue := write_resp_queue m @ [(addr, len, prot, resp)],
                   in_flight_operations := in_flight_operations m - 1\<rparr>)))"

record axi_rloop =
  rl_addr :: int
  rl_n :: int
  rl_burst :: int
  rl_list :: burst_list
  rl_master :: axi_master

definition read_cycle :: "axi_port \<Rightarrow> axi_attr \<Rightarrow> nat \<Rightarrow> nat \<Rightarrow> nat \<Rightarrow> nat \<Rightarrow> axi_rloop \<Rightarrow> axi_rloop" where
  "read_cycle p at sz nb cycles k l =
     (let l = l\<lparr>rl_n := rl_n l + 1\<rparr>; m = rl_master l;
          l = (if rl_n l \<ge> rl_burst l
               then let b = next_burst (max_burst_len m) (int nb) (rl_addr l) (int cycles - int k)
                    in l\<lparr>rl_n := 0, rl_burst := b, rl_list := rl_list l @ [(cur_read_id m, b)],
                         rl_master := m\<lparr>cur_read_id := next_id p (cur_read_id m),
                           int_read_addr_queue := int_read_addr_queue m @ [\<lparr>aa_addr = rl_addr l, aa_id = cur_read_id m, aa_len = b - 1,
                             aa_size = sz, aa_attr = at\<rparr>]\<rparr>\<rparr>
               else l)
      in l\<lparr>rl_addr := rl_addr l + int nb\<rparr>)"

definition axi_read_logic :: "axi_port \<Rightarrow> axi_master \<Rightarrow> axi_master res" where
  "axi_read_logic p m =
     (case read_command_queue m of [] \<Rightarrow> Inr m
      | (addr, len, sz, at) # cmds \<Rightarrow>
          let m = m\<lparr>read_command_queue := cmds, in_flight_operations := in_flight_operations m + 1\<rparr>
          in bindE (burst_size (ax_bw p) sz) (\<lambda>(sz, nb).
             let cycles = nat (beats_of addr len (int nb));
                 l = fold (read_cycle p at sz nb cycles) [0..<cycles]
                       \<lparr>rl_addr = int_quot addr (int nb) * int nb, rl_n = 0, rl_burst = 0, rl_list = [], rl_master = m\<rparr>;
                 m = rl_master l
             in Inr (m\<lparr>int_read_resp_command_queue :=
                       int_read_resp_command_queue m @ [(addr, len, sz, int cycles, axi_prot at, rl_list l)]\<rparr>)))"

record axi_rdata =
  rd_cycle :: nat
  rd_first :: bool
  rd_resp :: int
  rd_data :: "byte list"
  rd_queues :: "int \<Rightarrow> r_beat list"

definition lane_bytes :: "int \<Rightarrow> nat list \<Rightarrow> byte list" where
  "lane_bytes v js = map (\<lambda>j. word_of_int (drop_bit (j * 8) v AND 0xff)) js"

definition read_beat :: "nat \<Rightarrow> nat \<Rightarrow> nat \<Rightarrow> int \<Rightarrow> int \<Rightarrow> nat \<Rightarrow> axi_rdata \<Rightarrow> axi_rdata res" where
  "read_beat bw nb start_offset rid burst k d =
     (case rd_queues d rid of [] \<Rightarrow> Inl Unfinished
      | (_, v, r, lst, _) # q \<Rightarrow>
          let start = (if rd_first d then start_offset else rd_cycle d); stop = rd_cycle d + nb
          in bindE (assertE (lst = (int k = burst - 1))) (\<lambda>_.
             Inr (d\<lparr>rd_queues := (rd_queues d)(rid := q), rd_resp := (if r \<noteq> 0 then r else rd_resp d),
                    rd_data := rd_data d @ lane_bytes v [start..<stop], rd_cycle := (rd_cycle d + nb) mod bw, rd_first := False\<rparr>)))"

definition read_burst :: "nat \<Rightarrow> nat \<Rightarrow> nat \<Rightarrow> int \<times> int \<Rightarrow> axi_rdata \<Rightarrow> axi_rdata res" where
  "read_burst bw nb start_offset rb = foldE (read_beat bw nb start_offset (fst rb) (snd rb)) [0..<nat (snd rb)]"

definition axi_read_resp_logic :: "axi_port \<Rightarrow> axi_master \<Rightarrow> axi_master res" where
  "axi_read_resp_logic p m =
     (case int_read_resp_command_queue m of [] \<Rightarrow> Inr m
      | (addr, len, sz, cycles, prot, bl) # cmds \<Rightarrow>
          let bw = int (ax_bw p); nb = 2 ^ sz
          in bindE (assertE (sz \<le> log_bw (ax_bw p))) (\<lambda>_.
             bindE (foldE (read_burst (ax_bw p) nb (nat (addr mod bw))) bl
                      \<lparr>rd_cycle = nat (int_quot addr (int nb) * int nb - int_quot addr bw * bw), rd_first = True, rd_resp = 0, rd_data = [],
                        rd_queues = int_read_resp_queue_list m\<rparr>) (\<lambda>d.
               Inr (m\<lparr>int_read_resp_command_queue := cmds, int_read_resp_queue_list := rd_queues d,
                      read_data_queue := read_data_queue m @ [(addr, take (nat len) (rd_data d), prot, rd_resp d)],
                      in_flight_operations := in_flight_operations m - 1\<rparr>))))"

section \<open>Memory\<close>

record axi_ram =
  ram_size :: nat
  ram_mem :: "byte list"
  ram_write_addr_queue :: "axi_addr list"
  ram_write_data_queue :: "w_beat list"
  ram_write_resp_queue :: "(int \<times> int) list"
  ram_read_addr_queue :: "axi_addr list"
  ram_read_resp_queue :: "(int \<times> int \<times> int \<times> bool) list"

definition AXIRam :: "nat \<Rightarrow> axi_ram" where
  "AXIRam n = \<lparr>ram_size = n, ram_mem = replicate n 0, ram_write_addr_queue = [], ram_write_data_queue = [],
     ram_write_resp_queue = [], ram_read_addr_queue = [], ram_read_resp_queue = []\<rparr>"

definition read_mem :: "int \<Rightarrow> nat \<Rightarrow> axi_ram \<Rightarrow> byte list" where
  "read_mem address len r = (let i = nat (address mod int (ram_size r)) in slice i (i + len) (ram_mem r))"

definition write_mem :: "int \<Rightarrow> byte list \<Rightarrow> axi_ram \<Rightarrow> axi_ram res" where
  "write_mem address data r =
     (let i = nat (address mod int (ram_size r))
      in if i + length data \<le> ram_size r then Inr (r\<lparr>ram_mem := splice i (i + length data) data (ram_mem r)\<rparr>) else Inl ValueError)"

text \<open>The byte lanes of a beat, from position \<open>pos\<close> of the memory on; a lane without strobe is skipped.\<close>

fun write_lanes :: "int \<Rightarrow> int \<Rightarrow> nat \<Rightarrow> nat list \<Rightarrow> byte list \<Rightarrow> byte list res" where
  "write_lanes v strb pos [] mem = Inr mem"
| "write_lanes v strb pos (i # is) mem =
     (if pos < length mem
      then write_lanes v strb (Suc pos) is (if strb AND push_bit i 1 \<noteq> 0 then mem[pos := word_of_int (drop_bit (8 * i) v AND 0xff)] else mem)
      else Inl ValueError)"

definition next_addr :: "axi_addr \<Rightarrow> int \<Rightarrow> int" where
  "next_addr a cur =
     (let nb = 2 ^ aa_size a; ts = nb * (aa_len a + 1); lower = int_quot (aa_addr a) ts * ts; cur' = cur + nb
      in if axi_burst (aa_attr a) = BURST_FIXED then cur
         else if axi_burst (aa_attr a) = BURST_WRAP \<and> cur' = lower + ts then lower else cur')"

definition burst_start :: "nat \<Rightarrow> axi_addr \<Rightarrow> int res" where
  "burst_start bw a =
     (let nb = 2 ^ aa_size a; aligned = int_quot (aa_addr a) (int nb) * int nb
      in bindE (assertE (nb \<le> bw)) (\<lambda>_.
         bindE (assertE (axi_burst (aa_attr a) = BURST_INCR \<longrightarrow> int nb * (aa_len a + 1) \<le> 0x1000 - (aligned AND 0xfff))) (\<lambda>_.
         Inr aligned)))"

definition write_beat :: "nat \<Rightarrow> axi_addr \<Rightarrow> nat \<Rightarrow> int \<times> axi_ram \<Rightarrow> (int \<times> axi_ram) res" where
  "write_beat bw a n = (\<lambda>(cur, r).
     case ram_write_data_queue r of [] \<Rightarrow> Inl Unfinished
     | (v, strb, lst) # q \<Rightarrow>
         bindE (write_lanes v strb (nat ((int_quot cur (int bw) * int bw) mod int (ram_size r))) [0..<bw] (ram_mem r)) (\<lambda>mem.
         let r = r\<lparr>ram_write_data_queue := q, ram_mem := mem\<rparr>;
             r = (if int n = aa_len a then r\<lparr>ram_write_resp_queue := ram_write_resp_queue r @ [(aa_id a, 0)]\<rparr> else r)
         in if lst = (int n = aa_len a) then Inr (next_addr a cur, r) else Inl (PyException ''StopSimulation'')))"

definition ram_write_logic :: "nat \<Rightarrow> axi_ram \<Rightarrow> axi_ram res" where
  "ram_write_logic bw r =
     (case ram_write_addr_queue r of [] \<Rightarrow> Inr r
      | a # as \<Rightarrow> bindE (burst_start bw a) (\<lambda>aligned.
          bindE (foldE (write_beat bw a) [0..<nat (aa_len a + 1)] (aligned, r\<lparr>ram_write_addr_queue := as\<rparr>)) (\<lambda>(_, r). Inr r)))"

definition ram_read_beat :: "nat \<Rightarrow> axi_addr \<Rightarrow> nat \<Rightarrow> int \<times> axi_ram \<Rightarrow> (int \<times> axi_ram) res" where
  "ram_read_beat bw a n = (\<lambda>(cur, r).
     let i = nat ((int_quot cur (int bw) * int bw) mod int (ram_size r)); data = slice i (i + bw) (ram_mem r)
     in if length data < bw then Inl IndexError
        else Inr (next_addr a cur, r\<lparr>ram_read_resp_queue := ram_read_resp_queue r @ [(aa_id a, le_int data, 0, int n = aa_len a)]\<rparr>))"

definition ram_read_logic :: "nat \<Rightarrow> axi_ram \<Rightarrow> axi_ram res" where
  "ram_read_logic bw r =
     (case ram_read_addr_queue r of [] \<Rightarrow> Inr r
      | a # as \<Rightarrow> bindE (burst_start bw a) (\<lambda>aligned.
          bindE (foldE (ram_read_beat bw a) [0..<nat (aa_len a + 1)] (aligned, r\<lparr>ram_read_addr_queue := as\<rparr>)) (\<lambda>(_, r). Inr r)))"

section \<open>Channels\<close>

text \<open>One of the five channels: the queue of the sending process, the item it has put on the signals and whether it has raised
  \<open>valid\<close>, whether the receiving process has raised \<open>ready\<close>, and what it has received. At a rising edge \<open>psrc\<close> and \<open>psnk\<close> are
  the pause inputs of the two sides.\<close>

record 'a axi_chan =
  ch_queue :: "'a list"
  ch_out :: "'a option"
  ch_valid :: bool
  ch_ready :: bool
  ch_received :: "'a list"

definition chan_fires :: "bool \<Rightarrow> 'a axi_chan \<Rightarrow> bool" where
  "chan_fires psnk c \<longleftrightarrow> ch_valid c \<and> ch_ready c \<and> \<not> psnk"

definition chan_load :: "bool \<Rightarrow> 'a axi_chan \<Rightarrow> 'a axi_chan" where
  "chan_load psrc c = (case ch_queue c of [] \<Rightarrow> c\<lparr>ch_out := None, ch_valid := False\<rparr>
     | x # xs \<Rightarrow> c\<lparr>ch_queue := xs, ch_out := Some x, ch_valid := \<not> psrc\<rparr>)"

definition chan_send :: "bool \<Rightarrow> bool \<Rightarrow> 'a axi_chan \<Rightarrow> 'a axi_chan" where
  "chan_send psrc fires c =
     (case ch_out c of None \<Rightarrow> chan_load psrc c
      | Some x \<Rightarrow> if fires then chan_load psrc c else c\<lparr>ch_valid := ch_valid c \<or> \<not> psrc\<rparr>)"

definition chan_recv :: "bool \<Rightarrow> 'a option \<Rightarrow> 'a axi_chan \<Rightarrow> 'a axi_chan" where
  "chan_recv fires x c = c\<lparr>ch_ready := True, ch_received := ch_received c @ (if fires then case x of None \<Rightarrow> [] | Some y \<Rightarrow> [y] else [])\<rparr>"

definition chan_edge :: "bool \<Rightarrow> bool \<Rightarrow> 'a axi_chan \<Rightarrow> 'a axi_chan" where
  "chan_edge psrc psnk c = chan_recv (chan_fires psnk c) (ch_out c) (chan_send psrc (chan_fires psnk c) c)"

definition chan_init :: "'a list \<Rightarrow> 'a axi_chan" where
  "chan_init q = \<lparr>ch_queue = q, ch_out = None, ch_valid = False, ch_ready = False, ch_received = []\<rparr>"

text \<open>What goes over each channel in the end. Without identifiers the receiver takes 0. The sender of write addresses drives \<open>m_axi_awid\<close> without asking whether there are
  identifiers.\<close>

definition wire_id :: "axi_port \<Rightarrow> int \<Rightarrow> int" where
  "wire_id p i = (case ax_idw p of None \<Rightarrow> 0 | Some _ \<Rightarrow> i)"

definition wire_addr :: "axi_port \<Rightarrow> axi_addr \<Rightarrow> axi_addr" where
  "wire_addr p a = a\<lparr>aa_id := wire_id p (aa_id a)\<rparr>"

definition write_addr_transfer :: "axi_port \<Rightarrow> axi_master \<Rightarrow> axi_ram \<Rightarrow> (axi_master \<times> axi_ram) res" where
  "write_addr_transfer p m r =
     (if int_write_addr_queue m \<noteq> [] \<and> ax_idw p = None then Inl AttributeError
      else Inr (m\<lparr>int_write_addr_queue := []\<rparr>, r\<lparr>ram_write_addr_queue := ram_write_addr_queue r @ map (wire_addr p) (int_write_addr_queue m)\<rparr>))"

definition write_data_transfer :: "axi_master \<Rightarrow> axi_ram \<Rightarrow> axi_master \<times> axi_ram" where
  "write_data_transfer m r = (m\<lparr>int_write_data_queue := []\<rparr>, r\<lparr>ram_write_data_queue := ram_write_data_queue r @ int_write_data_queue m\<rparr>)"

definition write_resp_transfer :: "axi_port \<Rightarrow> axi_master \<Rightarrow> axi_ram \<Rightarrow> axi_master \<times> axi_ram" where
  "write_resp_transfer p m r =
     (m\<lparr>int_write_resp_queue := int_write_resp_queue m @ map (\<lambda>(i, b). (wire_id p i, b, 0)) (ram_write_resp_queue r)\<rparr>, r\<lparr>ram_write_resp_queue := []\<rparr>)"

definition read_addr_transfer :: "axi_port \<Rightarrow> axi_master \<Rightarrow> axi_ram \<Rightarrow> axi_master \<times> axi_ram" where
  "read_addr_transfer p m r =
     (m\<lparr>int_read_addr_queue := []\<rparr>, r\<lparr>ram_read_addr_queue := ram_read_addr_queue r @ map (wire_addr p) (int_read_addr_queue m)\<rparr>)"

definition put_read_beat :: "axi_port \<Rightarrow> int \<times> int \<times> int \<times> bool \<Rightarrow> (int \<Rightarrow> r_beat list) \<Rightarrow> int \<Rightarrow> r_beat list" where
  "put_read_beat p x q = (case x of (i, v, b, lst) \<Rightarrow> let rid = wire_id p i in q(rid := q rid @ [(rid, v, b, lst, 0)]))"

definition read_resp_transfer :: "axi_port \<Rightarrow> axi_master \<Rightarrow> axi_ram \<Rightarrow> axi_master \<times> axi_ram" where
  "read_resp_transfer p m r =
     (m\<lparr>int_read_resp_queue_list := fold (put_read_beat p) (ram_read_resp_queue r) (int_read_resp_queue_list m)\<rparr>, r\<lparr>ram_read_resp_queue := []\<rparr>)"

text \<open>One command from end to end.\<close>

fun iterE :: "nat \<Rightarrow> ('s \<Rightarrow> 's res) \<Rightarrow> 's \<Rightarrow> 's res" where
  "iterE 0 f s = Inr s"
| "iterE (Suc n) f s = bindE (f s) (iterE n f)"

definition axi_write :: "axi_port \<Rightarrow> axi_master \<times> axi_ram \<Rightarrow> (axi_master \<times> axi_ram) res" where
  "axi_write p = (\<lambda>(m, r).
     bindE (axi_write_logic p m) (\<lambda>m.
     bindE (write_addr_transfer p m r) (\<lambda>(m, r).
     let (m, r) = write_data_transfer m r
     in bindE (iterE (length (ram_write_addr_queue r)) (ram_write_logic (ax_bw p)) r) (\<lambda>r.
        let (m, r) = write_resp_transfer p m r
        in bindE (axi_write_resp_logic m) (\<lambda>m. Inr (m, r))))))"

definition axi_read :: "axi_port \<Rightarrow> axi_master \<times> axi_ram \<Rightarrow> (axi_master \<times> axi_ram) res" where
  "axi_read p = (\<lambda>(m, r).
     bindE (axi_read_logic p m) (\<lambda>m.
     let (m, r) = read_addr_transfer p m r
     in bindE (iterE (length (ram_read_addr_queue r)) (ram_read_logic (ax_bw p)) r) (\<lambda>r.
        let (m, r) = read_resp_transfer p m r
        in bindE (axi_read_resp_logic p m) (\<lambda>m. Inr (m, r)))))"


section \<open>Channels keep the order\<close>

definition chan_items :: "'a axi_chan \<Rightarrow> 'a list" where
  "chan_items c = ch_received c @ (case ch_out c of None \<Rightarrow> [] | Some x \<Rightarrow> [x]) @ ch_queue c"

definition chan_wf :: "'a axi_chan \<Rightarrow> bool" where
  "chan_wf c \<longleftrightarrow> (ch_valid c \<longrightarrow> ch_out c \<noteq> None)"

definition chan_run :: "(bool \<times> bool) list \<Rightarrow> 'a axi_chan \<Rightarrow> 'a axi_chan" where
  "chan_run ps c = fold (\<lambda>(a, b). chan_edge a b) ps c"

lemmas chan_defs = chan_edge_def chan_recv_def chan_send_def chan_load_def chan_fires_def

lemma chan_edge_items: "chan_wf c \<Longrightarrow> chan_wf (chan_edge a b c) \<and> chan_items (chan_edge a b c) = chan_items c"
  by (auto simp: chan_defs chan_wf_def chan_items_def split: option.splits list.splits)

lemma chan_run_items: "chan_wf c \<Longrightarrow> chan_wf (chan_run ps c) \<and> chan_items (chan_run ps c) = chan_items c"
  unfolding chan_run_def by (induction ps arbitrary: c) (auto simp: chan_edge_items)

lemma chan_run_append: "chan_run (ps @ qs) c = chan_run qs (chan_run ps c)"
  by (simp add: chan_run_def)

text \<open>After two edges without pauses the channel is full speed: every edge delivers an item.\<close>

definition chan_steady :: "'a axi_chan \<Rightarrow> bool" where
  "chan_steady c \<longleftrightarrow> ch_ready c \<and> (ch_valid c \<longleftrightarrow> ch_out c \<noteq> None) \<and> (ch_out c = None \<longrightarrow> ch_queue c = [])"

lemma chan_steady_2: "chan_wf c \<Longrightarrow> chan_steady (chan_edge False False (chan_edge False False c))"
  by (auto simp: chan_defs chan_wf_def chan_steady_def split: option.splits list.splits)

lemma chan_steady_edge:
  "chan_steady c \<Longrightarrow> chan_steady (chan_edge False False c) \<and>
     ch_received (chan_edge False False c) = ch_received c @ take 1 ((case ch_out c of None \<Rightarrow> [] | Some x \<Rightarrow> [x]) @ ch_queue c)"
  by (auto simp: chan_defs chan_steady_def split: option.splits list.splits)

lemma chan_steady_delivers:
  "chan_steady c \<Longrightarrow> length (chan_items c) - length (ch_received c) \<le> n \<Longrightarrow>
   ch_received (chan_run (replicate n (False, False)) c) = chan_items c"
proof (induction n arbitrary: c)
  case 0
  then show ?case
    by (auto simp: chan_run_def chan_items_def split: option.splits)
next
  case (Suc n)
  let ?c = "chan_edge False False c"
  have wf: "chan_wf c"
    using Suc.prems by (simp add: chan_steady_def chan_wf_def)
  have "length (chan_items ?c) - length (ch_received ?c) \<le> n"
    using Suc.prems chan_steady_edge [of c] chan_edge_items [OF wf, of False False]
    by (auto simp: chan_items_def chan_steady_def split: option.splits)
  then have "ch_received (chan_run (replicate n (False, False)) ?c) = chan_items ?c"
    using Suc chan_steady_edge by blast
  then show ?case
    using chan_edge_items [OF wf, of False False] by (simp add: chan_run_def)
qed

text \<open>C24. A channel between master and memory is a queue: whatever the pauses on both sides, what has been received is a prefix of
  what was sent, and once the pauses end all of it is received, one item per clock edge after the first two.\<close>

theorem axi_channel_delivers:
  "(\<exists>rest. ch_received (chan_run ps (chan_init xs)) @ rest = xs) \<and>
   ch_received (chan_run (ps @ replicate (length xs + 2) (False, False)) (chan_init xs)) = xs"
proof
  have wf: "chan_wf (chan_init xs)" "chan_items (chan_init xs) = xs"
    by (simp_all add: chan_init_def chan_wf_def chan_items_def)
  let ?c = "chan_run ps (chan_init xs)"
  have c: "chan_wf ?c" "chan_items ?c = xs"
    using chan_run_items [OF wf(1)] wf(2) by simp_all
  then show "\<exists>rest. ch_received ?c @ rest = xs"
    unfolding chan_items_def by blast
  let ?d = "chan_edge False False (chan_edge False False ?c)"
  have d: "chan_steady ?d" "chan_items ?d = xs"
    using c chan_steady_2 [OF c(1)] chan_edge_items by metis+
  have "chan_run (ps @ replicate (length xs + 2) (False, False)) (chan_init xs) = chan_run (replicate (length xs) (False, False)) ?d"
    by (simp add: chan_run_append) (simp add: chan_run_def)
  then show "ch_received (chan_run (ps @ replicate (length xs + 2) (False, False)) (chan_init xs)) = xs"
    using chan_steady_delivers [OF d(1), of "length xs"] d(2) by simp
qed

end
