(* ===== verification/Axi_Burst.thy ===== *)
theory Axi_Burst
  imports Axi_Bus
begin

unbundle bit_operations_syntax

text \<open>
  How the master of \<open>Axi_Bus\<close> cuts a command: the lanes of a beat carry the bytes of the data (\<open>write_lanes_beat\<close>), and the bursts
  cover all beats and are legal (\<open>write_bursts\<close>, \<open>read_bursts\<close>).
\<close>

section \<open>The lanes of a beat\<close>

lemma bit_high: "0 \<le> (x :: int) \<Longrightarrow> x < 2 ^ n \<Longrightarrow> bit x i \<Longrightarrow> i < n"
  by (metis bit_take_bit_iff take_bit_int_eq_self)

lemma bit_uint_byte: "bit (uint (b :: byte)) i \<longleftrightarrow> i < 8 \<and> bit b i"
  by (simp add: bit_uint_iff)

lemma upt_step: "j # js = [i..<i + length (j # js)] \<Longrightarrow> j = i \<and> js = [Suc i..<Suc i + length js]"
  by (simp add: upt_conv_Cons del: upt_Suc)

lemma beat_val_bits:
  "offset + length js \<le> length data \<Longrightarrow> js = [start..<start + length js] \<Longrightarrow>
   \<exists>v. beat_val data v0 js offset = Inr (v, offset + length js) \<and>
     (\<forall>n. bit v n \<longleftrightarrow> bit v0 n \<or> start \<le> n div 8 \<and> n div 8 < start + length js \<and> bit (data ! (offset + (n div 8 - start))) (n mod 8))"
proof (induction js arbitrary: v0 offset start)
  case (Cons j js)
  then have j: "j = start" and js: "js = [Suc start..<Suc start + length js]"
    using upt_step by metis+
  let ?v = "v0 OR push_bit (j * 8) (uint (data ! offset))"
  obtain v where v: "beat_val data ?v js (Suc offset) = Inr (v, Suc offset + length js)"
    "\<And>n. bit v n \<longleftrightarrow> bit ?v n \<or> Suc start \<le> n div 8 \<and> n div 8 < Suc start + length js \<and>
       bit (data ! (Suc offset + (n div 8 - Suc start))) (n mod 8)"
    using Cons.IH [of "Suc offset" "Suc start" ?v] Cons.prems js by auto
  have lane: "bit (push_bit (start * 8) (uint (data ! offset))) n \<longleftrightarrow> n div 8 = start \<and> bit (data ! offset) (n mod 8)" for n
  proof -
    have "start * 8 \<le> n \<and> n - start * 8 < 8 \<longleftrightarrow> n div 8 = start"
      by linarith
    moreover have "n div 8 = start \<Longrightarrow> n - start * 8 = n mod 8"
      by (simp add: minus_div_mult_eq_mod [symmetric])
    ultimately show ?thesis
      by (auto simp: bit_push_bit_iff_int bit_uint_byte)
  qed
  have "bit v n \<longleftrightarrow> bit v0 n \<or> start \<le> n div 8 \<and> n div 8 < start + length (j # js) \<and>
       bit (data ! (offset + (n div 8 - start))) (n mod 8)" for n
  proof (cases "n div 8 = start")
    case True
    then show ?thesis
      using v(2) [of n] lane [of n] j by (simp add: bit_or_iff)
  next
    case False
    then have "start \<le> n div 8 \<longleftrightarrow> Suc start \<le> n div 8" "Suc start \<le> n div 8 \<Longrightarrow> Suc offset + (n div 8 - Suc start) = offset + (n div 8 - start)"
      by auto
    then show ?thesis
      using v(2) [of n] lane [of n] j False by (auto simp: bit_or_iff)
  qed
  then show ?case
    using v(1) Cons.prems(1) by (auto simp: nth_res_def)
qed auto

lemma lane_byte:
  assumes "\<And>b. b < 8 \<Longrightarrow> bit v (i * 8 + b) \<longleftrightarrow> bit (x :: byte) b"
  shows "word_of_int (drop_bit (8 * i) v AND 0xff) = x"
proof (rule bit_word_eqI)
  fix b assume "b < LENGTH(8)"
  then have b: "b < 8"
    by simp
  have "drop_bit (8 * i) v AND 0xff = take_bit 8 (drop_bit (8 * i) v)"
    by (simp add: take_bit_eq_mod)
  then show "bit (word_of_int (drop_bit (8 * i) v AND 0xff) :: byte) b \<longleftrightarrow> bit x b"
    using b assms by (simp add: bit_word_of_int_iff bit_take_bit_iff bit_drop_bit_eq mult.commute)
qed

lemma bit_beat_strb: "stop \<le> bw \<Longrightarrow> bit (beat_strb bw start stop) i \<longleftrightarrow> start \<le> i \<and> i < stop"
  by (auto simp: beat_strb_def bit_and_iff bit_push_bit_iff_int bit_drop_bit_eq bit_mask_iff mask_eq_exp_minus_1 [symmetric])

lemma write_lanes_nth:
  "pos + length is \<le> length mem \<Longrightarrow> is = [i..<i + length is] \<Longrightarrow>
   \<exists>mem'. write_lanes v strb pos is mem = Inr mem' \<and> length mem' = length mem \<and>
     (\<forall>q < length mem. mem' ! q = (if pos \<le> q \<and> q < pos + length is \<and> bit strb (i + (q - pos))
        then word_of_int (drop_bit (8 * (i + (q - pos))) v AND 0xff) else mem ! q))"
proof (induction "is" arbitrary: pos i mem)
  case (Cons j js)
  then have j: "j = i" and js: "js = [Suc i..<Suc i + length js]"
    using upt_step by metis+
  let ?b = "word_of_int (drop_bit (8 * i) v AND 0xff) :: byte"
  let ?m = "if bit strb i then mem[pos := ?b] else mem"
  have len: "length ?m = length mem"
    by simp
  obtain mem' where m: "write_lanes v strb (Suc pos) js ?m = Inr mem'" "length mem' = length mem"
    "\<And>q. q < length mem \<Longrightarrow> mem' ! q = (if Suc pos \<le> q \<and> q < Suc pos + length js \<and> bit strb (Suc i + (q - Suc pos))
        then word_of_int (drop_bit (8 * (Suc i + (q - Suc pos))) v AND 0xff) else ?m ! q)"
    using Cons.IH [of "Suc pos" ?m "Suc i"] Cons.prems js unfolding len by auto
  have "mem' ! q = (if pos \<le> q \<and> q < pos + length (j # js) \<and> bit strb (i + (q - pos))
        then word_of_int (drop_bit (8 * (i + (q - pos))) v AND 0xff) else mem ! q)" if "q < length mem" for q
  proof (cases "q = pos")
    case True
    then show ?thesis
      using m(3) [OF that] that by simp
  next
    case False
    then have "pos \<le> q \<longleftrightarrow> Suc pos \<le> q" "Suc pos \<le> q \<Longrightarrow> Suc i + (q - Suc pos) = i + (q - pos)"
      by auto
    then show ?thesis
      using m(3) [OF that] False by auto
  qed
  then show ?case
    using m Cons.prems(1) j by (auto simp: and_push_bit_1 simp del: push_bit_of_1)
qed auto

text \<open>A beat of the master writes a piece of the data into a word of the memory.\<close>

lemma write_lanes_beat:
  assumes "start \<le> stop" "stop \<le> bw" "offset + (stop - start) \<le> length data" "W + bw \<le> length mem"
  shows "\<exists>v. beat_val data 0 [start..<stop] offset = Inr (v, offset + (stop - start)) \<and>
    write_lanes v (beat_strb bw start stop) W [0..<bw] mem =
      Inr (splice (W + start) (W + stop) (slice offset (offset + (stop - start)) data) mem)"
proof -
  obtain v where v: "beat_val data 0 [start..<stop] offset = Inr (v, offset + (stop - start))"
    "\<And>n. bit v n \<longleftrightarrow> start \<le> n div 8 \<and> n div 8 < stop \<and> bit (data ! (offset + (n div 8 - start))) (n mod 8)"
    using beat_val_bits [of offset "[start..<stop]" data start 0] assms by auto
  have byte: "word_of_int (drop_bit (8 * i) v AND 0xff) = data ! (offset + (i - start))" if "start \<le> i" "i < stop" for i
    by (rule lane_byte) (use v(2) that in auto)
  obtain mem' where m: "write_lanes v (beat_strb bw start stop) W [0..<bw] mem = Inr mem'" "length mem' = length mem"
    "\<And>q. q < length mem \<Longrightarrow> mem' ! q = (if W \<le> q \<and> q < W + bw \<and> bit (beat_strb bw start stop) (q - W)
        then word_of_int (drop_bit (8 * (q - W)) v AND 0xff) else mem ! q)"
    using write_lanes_nth [of W "[0..<bw]" mem 0 v "beat_strb bw start stop"] assms by auto
  have "mem' = splice (W + start) (W + stop) (slice offset (offset + (stop - start)) data) mem"
  proof (rule nth_equalityI)
    show "length mem' = length (splice (W + start) (W + stop) (slice offset (offset + (stop - start)) data) mem)"
      using m(2) assms by (simp add: length_splice)
    fix q assume "q < length mem'"
    then have q: "q < length mem"
      using m(2) by simp
    show "mem' ! q = splice (W + start) (W + stop) (slice offset (offset + (stop - start)) data) mem ! q"
      using q m(3) [OF q] assms byte [of "q - W"] by (auto simp: nth_splice nth_slice bit_beat_strb)
  qed
  with v(1) m(1) show ?thesis
    by blast
qed

lemma le_int_lane: "j < length bs \<Longrightarrow> word_of_int (drop_bit (j * 8) (le_int bs) AND 0xff) = bs ! j"
proof (induction bs arbitrary: j)
  case (Cons b bs)
  have le: "le_int (b # bs) mod 256 = uint b" "le_int (b # bs) div 256 = le_int bs"
    using uint_lt2p [of b] by simp_all
  show ?case
  proof (cases j)
    case 0
    then show ?thesis
      using le(1) by (simp del: le_int.simps)
  next
    case (Suc i)
    have "drop_bit (Suc i * 8) (le_int (b # bs)) = drop_bit (i * 8) (le_int bs)"
      using le(2) by (simp add: drop_bit_eq_div power_add zdiv_zmult2_eq del: le_int.simps)
    then show ?thesis
      using Suc Cons by (simp del: le_int.simps)
  qed
qed simp

lemma lane_bytes_le_int: "stop \<le> length bs \<Longrightarrow> lane_bytes (le_int bs) [start..<stop] = slice start stop bs"
proof (rule nth_equalityI)
  fix i assume "stop \<le> length bs" "i < length (lane_bytes (le_int bs) [start..<stop])"
  then show "lane_bytes (le_int bs) [start..<stop] ! i = slice start stop bs ! i"
    using le_int_lane [of "start + i" bs] by (simp add: lane_bytes_def nth_slice del: and_low_masks)
qed (simp add: lane_bytes_def)

section \<open>Bursts\<close>

text \<open>A list of burst lengths covers \<open>left\<close> beats from \<open>cur\<close> on, and every burst is legal: at most 256 beats, and within a block
  of 4 KB.\<close>

primrec bursts_ok :: "int \<Rightarrow> int \<Rightarrow> nat \<Rightarrow> nat list \<Rightarrow> bool" where
  "bursts_ok nb cur left [] \<longleftrightarrow> left = 0"
| "bursts_ok nb cur left (b # bs) \<longleftrightarrow> 1 \<le> b \<and> b \<le> 256 \<and> b \<le> left \<and> cur mod 4096 + int b * nb \<le> 4096 \<and>
     bursts_ok nb (cur + int b * nb) (left - b) bs"

primrec addrs_of :: "axi_port \<Rightarrow> axi_attr \<Rightarrow> nat \<Rightarrow> int \<Rightarrow> int \<Rightarrow> nat list \<Rightarrow> axi_addr list" where
  "addrs_of p at s i cur [] = []"
| "addrs_of p at s i cur (b # bs) = \<lparr>aa_addr = cur, aa_id = i, aa_len = int b - 1, aa_size = s, aa_attr = at\<rparr> #
     addrs_of p at s (next_id p i) (cur + int b * 2 ^ s) bs"

primrec beats_seq :: "(nat \<Rightarrow> int \<times> int) \<Rightarrow> nat \<Rightarrow> nat list \<Rightarrow> w_beat list" where
  "beats_seq f k [] = []"
| "beats_seq f k (b # bs) = map (\<lambda>i. (fst (f (k + i)), snd (f (k + i)), Suc i = b)) [0..<b] @ beats_seq f (k + b) bs"

lemma foldE_upt_Suc: "k \<le> j \<Longrightarrow> foldE f [k..<Suc j] s = bindE (foldE f [k..<j] s) (f j)"
  by (simp add: foldE_append) (simp add: bindE_def split: sum.split)

lemma int_quot_exact [simp]: "a < 2 ^ 53 \<Longrightarrow> int_quot a b = a div b"
  by (simp add: int_quot_def)

lemma next_burst_spec:
  assumes "1 \<le> left" "0 < nb" "nb dvd 4096" "nb dvd cur" "0 \<le> cur"
  shows "1 \<le> next_burst mx nb cur left" "next_burst mx nb cur left \<le> left" "next_burst mx nb cur left \<le> 256"
    "cur mod 4096 + next_burst mx nb cur left * nb \<le> 4096"
proof -
  define L where "L = min left (min (max mx 1) 256)"
  have L: "1 \<le> L" "L \<le> left" "L \<le> 256"
    using assms(1) by (auto simp: L_def)
  have "nb dvd 4096 - cur mod 4096"
    using assms(3,4) by (simp add: dvd_mod)
  then obtain q where q: "4096 - cur mod 4096 = nb * q"
    by (auto elim: dvdE)
  have "0 < nb * q" "nb * q \<le> 4096"
    unfolding q [symmetric] using pos_mod_bound [of 4096 cur] pos_mod_sign [of 4096 cur] by linarith+
  then have q1: "1 \<le> q"
    using assms(2) by (simp add: zero_less_mult_iff)
  have min: "min (L * nb) (nb * q) = min L q * nb"
    using assms(2) by (simp add: min_def mult.commute)
  have "min L q * nb + nb - 1 < 2 ^ 53"
    using \<open>nb * q \<le> 4096\<close> zdvd_imp_le [OF assms(3)] unfolding min [symmetric] by (simp add: min_def)
  moreover have "((nb - 1) + min L q * nb) div nb = min L q"
    using assms(2) div_mult_self1 [of nb "nb - 1" "min L q"] by simp
  then have "(min L q * nb + nb - 1) div nb = min L q"
    by (simp add: algebra_simps)
  ultimately have b: "next_burst mx nb cur left = min L q"
    by (simp add: next_burst_def L_def [symmetric] q min)
  show "1 \<le> next_burst mx nb cur left" "next_burst mx nb cur left \<le> left" "next_burst mx nb cur left \<le> 256"
    using b L q1 by auto
  have "min L q * nb \<le> nb * q"
    using assms(2) by (simp add: mult.commute min_def)
  then show "cur mod 4096 + next_burst mx nb cur left * nb \<le> 4096"
    unfolding b using q by linarith
qed

text \<open>The beats of a write and their lanes; \<open>f\<close> gives data and strobes of each, \<open>off\<close> and \<open>cyc\<close> the position in the data and in
  the word.\<close>

definition write_plan :: "axi_port \<Rightarrow> nat \<Rightarrow> byte list \<Rightarrow> nat \<Rightarrow> nat \<Rightarrow> nat \<Rightarrow> (nat \<Rightarrow> int \<times> int) \<Rightarrow> (nat \<Rightarrow> nat) \<Rightarrow> (nat \<Rightarrow> nat) \<Rightarrow> bool" where
  "write_plan p nb data so eo cycles f off cyc \<longleftrightarrow> (\<forall>k<cycles.
     beat_val data 0 [(if k = 0 then so else cyc k)..<(if k = cycles - 1 then eo else cyc k + nb)] (off k) = Inr (fst (f k), off (Suc k)) \<and>
     beat_strb (ax_bw p) (if k = 0 then so else cyc k) (if k = cycles - 1 then eo else cyc k + nb) = snd (f k) \<and>
     cyc (Suc k) = (cyc k + nb) mod ax_bw p)"

lemma write_planD:
  assumes "write_plan p nb data so eo cycles f off cyc" "k < cycles"
  shows "beat_val data 0 [(if k = 0 then so else cyc k)..<(if k = cycles - 1 then eo else cyc k + nb)] (off k) = Inr (fst (f k), off (Suc k))"
    "beat_strb (ax_bw p) (if k = 0 then so else cyc k) (if k = cycles - 1 then eo else cyc k + nb) = snd (f k)"
    "(cyc k + nb) mod ax_bw p = cyc (Suc k)"
proof -
  note plan = assms(1) [unfolded write_plan_def, rule_format, OF assms(2)]
  show "beat_val data 0 [(if k = 0 then so else cyc k)..<(if k = cycles - 1 then eo else cyc k + nb)] (off k) = Inr (fst (f k), off (Suc k))"
    by (rule plan [THEN conjunct1])
  show "beat_strb (ax_bw p) (if k = 0 then so else cyc k) (if k = cycles - 1 then eo else cyc k + nb) = snd (f k)"
    by (rule plan [THEN conjunct2, THEN conjunct1])
  show "(cyc k + nb) mod ax_bw p = cyc (Suc k)"
    by (rule plan [THEN conjunct2, THEN conjunct2, symmetric])
qed

lemma write_in_burst:
  assumes "write_plan p nb data so eo cycles f off cyc" "k < cycles" "wl_cycle l = cyc k" "wl_offset l = off k" "wl_n l < wl_burst l"
  shows "write_cycle p at s nb data so eo cycles k l =
    Inr (l\<lparr>wl_n := wl_n l + 1, wl_offset := off (Suc k), wl_addr := wl_addr l + int nb, wl_cycle := cyc (Suc k),
      wl_master := wl_master l\<lparr>int_write_data_queue := int_write_data_queue (wl_master l) @ [(fst (f k), snd (f k), wl_n l + 1 \<ge> wl_burst l)]\<rparr>\<rparr>)"
  unfolding write_cycle_def Let_def assms(3,4) write_planD [OF assms(1,2)] using assms(5) write_planD(3) [OF assms(1,2)] assms(3) by simp

lemma write_new_burst:
  assumes "write_plan p nb data so eo cycles f off cyc" "k < cycles" "wl_cycle l = cyc k" "wl_offset l = off k" "wl_n l \<ge> wl_burst l"
    and b: "b = next_burst (max_burst_len (wl_master l)) (int nb) (wl_addr l) (int cycles - int k)"
  shows "write_cycle p at s nb data so eo cycles k l =
    Inr (l\<lparr>wl_transfers := wl_transfers l + 1, wl_burst := b, wl_n := 1, wl_offset := off (Suc k),
      wl_addr := wl_addr l + int nb, wl_cycle := cyc (Suc k),
      wl_master := wl_master l\<lparr>cur_write_id := next_id p (cur_write_id (wl_master l)),
        int_write_addr_queue := int_write_addr_queue (wl_master l) @ [\<lparr>aa_addr = wl_addr l, aa_id = cur_write_id (wl_master l), aa_len = b - 1,
          aa_size = s, aa_attr = at\<rparr>],
        int_write_data_queue := int_write_data_queue (wl_master l) @ [(fst (f k), snd (f k), 1 \<ge> b)]\<rparr>\<rparr>)"
  unfolding write_cycle_def Let_def assms(3,4) write_planD [OF assms(1,2)] using assms(5) b write_planD(3) [OF assms(1,2)] assms(3) by simp

lemma write_rest_of_burst:
  assumes "write_plan p nb data so eo cycles f off cyc"
  shows "k + j \<le> cycles \<Longrightarrow> wl_cycle l = cyc k \<Longrightarrow> wl_offset l = off k \<Longrightarrow> wl_n l + int j \<le> wl_burst l \<Longrightarrow>
   foldE (write_cycle p at s nb data so eo cycles) [k..<k + j] l =
     Inr (l\<lparr>wl_n := wl_n l + int j, wl_offset := off (k + j), wl_addr := wl_addr l + int j * int nb,
       wl_cycle := cyc (k + j), wl_master := wl_master l\<lparr>int_write_data_queue := int_write_data_queue (wl_master l) @
         map (\<lambda>i. (fst (f (k + i)), snd (f (k + i)), wl_n l + int i + 1 \<ge> wl_burst l)) [0..<j]\<rparr>\<rparr>)"
proof (induction j)
  case (Suc j)
  let ?l = "l\<lparr>wl_n := wl_n l + int j, wl_offset := off (k + j), wl_addr := wl_addr l + int j * int nb,
       wl_cycle := cyc (k + j), wl_master := wl_master l\<lparr>int_write_data_queue := int_write_data_queue (wl_master l) @
         map (\<lambda>i. (fst (f (k + i)), snd (f (k + i)), wl_n l + int i + 1 \<ge> wl_burst l)) [0..<j]\<rparr>\<rparr>"
  have "foldE (write_cycle p at s nb data so eo cycles) [k..<k + Suc j] l = write_cycle p at s nb data so eo cycles (k + j) ?l"
    using Suc by (simp add: foldE_upt_Suc del: upt_Suc)
  also have "\<dots> = Inr (?l\<lparr>wl_n := wl_n ?l + 1, wl_offset := off (Suc (k + j)), wl_addr := wl_addr ?l + int nb, wl_cycle := cyc (Suc (k + j)),
      wl_master := wl_master ?l\<lparr>int_write_data_queue := int_write_data_queue (wl_master ?l) @
        [(fst (f (k + j)), snd (f (k + j)), wl_n ?l + 1 \<ge> wl_burst ?l)]\<rparr>\<rparr>)"
    using Suc.prems by (intro write_in_burst [OF assms]) simp_all
  finally show ?case
    by (simp add: algebra_simps)
qed simp

lemma write_one_burst:
  assumes plan: "write_plan p nb data so eo cycles f off cyc" and s: "nb = 2 ^ s" "nb dvd 4096"
    and l: "k < cycles" "wl_cycle l = cyc k" "wl_offset l = off k" "wl_n l \<ge> wl_burst l" "int nb dvd wl_addr l" "0 \<le> wl_addr l"
  shows "\<exists>b l'. 1 \<le> b \<and> b \<le> 256 \<and> k + b \<le> cycles \<and> wl_addr l mod 4096 + int b * int nb \<le> 4096 \<and>
     foldE (write_cycle p at s nb data so eo cycles) [k..<k + b] l = Inr l' \<and> wl_cycle l' = cyc (k + b) \<and> wl_offset l' = off (k + b) \<and>
     wl_n l' \<ge> wl_burst l' \<and> wl_addr l' = wl_addr l + int b * int nb \<and> wl_transfers l' = wl_transfers l + 1 \<and>
     wl_master l' = (wl_master l)\<lparr>cur_write_id := next_id p (cur_write_id (wl_master l)),
       int_write_addr_queue := int_write_addr_queue (wl_master l) @ [\<lparr>aa_addr = wl_addr l, aa_id = cur_write_id (wl_master l),
         aa_len = int b - 1, aa_size = s, aa_attr = at\<rparr>],
       int_write_data_queue := int_write_data_queue (wl_master l) @ map (\<lambda>i. (fst (f (k + i)), snd (f (k + i)), Suc i = b)) [0..<b]\<rparr>"
proof -
  define b where "b = nat (next_burst (max_burst_len (wl_master l)) (int nb) (wl_addr l) (int cycles - int k))"
  have nb: "0 < int nb" "int nb dvd 4096"
    using s int_dvd_int_iff [of nb 4096] by simp_all
  note spec = next_burst_spec [of "int cycles - int k" "int nb" "wl_addr l" "max_burst_len (wl_master l)"]
  have b: "next_burst (max_burst_len (wl_master l)) (int nb) (wl_addr l) (int cycles - int k) = int b"
    using spec(1) l nb by (simp add: b_def)
  then have b1: "1 \<le> b" "b \<le> 256" "k + b \<le> cycles" "wl_addr l mod 4096 + int b * int nb \<le> 4096"
    using spec l nb by simp_all
  let ?l = "l\<lparr>wl_transfers := wl_transfers l + 1, wl_burst := int b, wl_n := 1, wl_offset := off (Suc k),
      wl_addr := wl_addr l + int nb, wl_cycle := cyc (Suc k),
      wl_master := wl_master l\<lparr>cur_write_id := next_id p (cur_write_id (wl_master l)),
        int_write_addr_queue := int_write_addr_queue (wl_master l) @ [\<lparr>aa_addr = wl_addr l, aa_id = cur_write_id (wl_master l), aa_len = int b - 1,
          aa_size = s, aa_attr = at\<rparr>],
        int_write_data_queue := int_write_data_queue (wl_master l) @ [(fst (f k), snd (f k), 1 \<ge> int b)]\<rparr>\<rparr>"
  have one: "write_cycle p at s nb data so eo cycles k l = Inr ?l"
    by (rule write_new_burst [OF plan l(1-4) b [symmetric]])
  have up: "[k..<k + b] = k # [Suc k..<Suc k + (b - 1)]" "[0..<b] = 0 # map Suc [0..<b - 1]"
    using b1(1) by (simp_all add: upt_conv_Cons map_Suc_upt)
  note rest = write_rest_of_burst [OF plan, of "Suc k" "b - 1" ?l at s]
  have "foldE (write_cycle p at s nb data so eo cycles) [Suc k..<Suc k + (b - 1)] ?l =
     Inr (?l\<lparr>wl_n := int b, wl_offset := off (k + b), wl_addr := wl_addr l + int b * int nb, wl_cycle := cyc (k + b),
       wl_master := wl_master ?l\<lparr>int_write_data_queue := int_write_data_queue (wl_master ?l) @
         map (\<lambda>i. (fst (f (Suc k + i)), snd (f (Suc k + i)), 1 + int i + 1 \<ge> int b)) [0..<b - 1]\<rparr>\<rparr>)"
    using rest b1 by (simp add: of_nat_diff algebra_simps)
  then have "foldE (write_cycle p at s nb data so eo cycles) [k..<k + b] l =
     Inr (?l\<lparr>wl_n := int b, wl_offset := off (k + b), wl_addr := wl_addr l + int b * int nb, wl_cycle := cyc (k + b),
       wl_master := wl_master ?l\<lparr>int_write_data_queue := int_write_data_queue (wl_master ?l) @
         map (\<lambda>i. (fst (f (Suc k + i)), snd (f (Suc k + i)), 1 + int i + 1 \<ge> int b)) [0..<b - 1]\<rparr>\<rparr>)"
    unfolding up(1) by (simp only: foldE.simps one bindE_Inr)
  moreover have "[(fst (f k), snd (f k), 1 \<ge> int b)] @ map (\<lambda>i. (fst (f (Suc k + i)), snd (f (Suc k + i)), 1 + int i + 1 \<ge> int b)) [0..<b - 1] =
      map (\<lambda>i. (fst (f (k + i)), snd (f (k + i)), Suc i = b)) [0..<b]"
    unfolding up(2) using b1(1) by auto
  ultimately show ?thesis
    using b1 by (intro exI [of _ b]) simp
qed

lemma write_bursts:
  assumes plan: "write_plan p nb data so eo cycles f off cyc" and s: "nb = 2 ^ s" "nb dvd 4096"
  shows "k \<le> cycles \<Longrightarrow> wl_cycle l = cyc k \<Longrightarrow> wl_offset l = off k \<Longrightarrow> wl_n l \<ge> wl_burst l \<Longrightarrow> int nb dvd wl_addr l \<Longrightarrow> 0 \<le> wl_addr l \<Longrightarrow>
    \<exists>bs l' i. bursts_ok (int nb) (wl_addr l) (cycles - k) bs \<and> foldE (write_cycle p at s nb data so eo cycles) [k..<cycles] l = Inr l' \<and>
      wl_transfers l' = wl_transfers l + length bs \<and>
      wl_master l' = (wl_master l)\<lparr>cur_write_id := i,
        int_write_addr_queue := int_write_addr_queue (wl_master l) @ addrs_of p at s (cur_write_id (wl_master l)) (wl_addr l) bs,
        int_write_data_queue := int_write_data_queue (wl_master l) @ beats_seq f k bs\<rparr>"
proof (induction "cycles - k" arbitrary: k l rule: less_induct)
  case less
  show ?case
  proof (cases "k = cycles")
    case True
    then show ?thesis
      by (intro exI [of _ "[]"] exI [of _ l] exI [of _ "cur_write_id (wl_master l)"]) simp
  next
    case False
    then obtain b l1 where b: "1 \<le> b" "b \<le> 256" "k + b \<le> cycles" "wl_addr l mod 4096 + int b * int nb \<le> 4096"
      "foldE (write_cycle p at s nb data so eo cycles) [k..<k + b] l = Inr l1"
      and l1: "wl_cycle l1 = cyc (k + b)" "wl_offset l1 = off (k + b)"
      "wl_n l1 \<ge> wl_burst l1" "wl_addr l1 = wl_addr l + int b * int nb" "wl_transfers l1 = wl_transfers l + 1"
      "wl_master l1 = (wl_master l)\<lparr>cur_write_id := next_id p (cur_write_id (wl_master l)),
       int_write_addr_queue := int_write_addr_queue (wl_master l) @ [\<lparr>aa_addr = wl_addr l, aa_id = cur_write_id (wl_master l),
         aa_len = int b - 1, aa_size = s, aa_attr = at\<rparr>],
       int_write_data_queue := int_write_data_queue (wl_master l) @ map (\<lambda>i. (fst (f (k + i)), snd (f (k + i)), Suc i = b)) [0..<b]\<rparr>"
      using write_one_burst [OF plan s, of k l at] less.prems by auto
    have "cycles - (k + b) < cycles - k" "int nb dvd wl_addr l1" "0 \<le> wl_addr l1"
      using b less.prems l1(4) False by simp_all
    from less.hyps [OF this(1) b(3) l1(1-3) this(2,3)] obtain bs l' i where r: "bursts_ok (int nb) (wl_addr l1) (cycles - (k + b)) bs"
      "foldE (write_cycle p at s nb data so eo cycles) [k + b..<cycles] l1 = Inr l'" "wl_transfers l' = wl_transfers l1 + length bs"
      "wl_master l' = (wl_master l1)\<lparr>cur_write_id := i,
        int_write_addr_queue := int_write_addr_queue (wl_master l1) @ addrs_of p at s (cur_write_id (wl_master l1)) (wl_addr l1) bs,
        int_write_data_queue := int_write_data_queue (wl_master l1) @ beats_seq f (k + b) bs\<rparr>"
      by blast
    have "[k..<cycles] = [k..<k + b] @ [k + b..<cycles]"
      using upt_add_eq_append [of k "k + b" "cycles - (k + b)"] b(3) by simp
    then have "foldE (write_cycle p at s nb data so eo cycles) [k..<cycles] l = Inr l'"
      using b(5) r(2) by (simp add: foldE_append)
    moreover have "bursts_ok (int nb) (wl_addr l) (cycles - k) (b # bs)"
      using b(1-4) r(1) l1(4) by simp
    ultimately show ?thesis
      using r(3,4) l1(4-6) s(1) by (intro exI [of _ "b # bs"] exI [of _ l'] exI [of _ i]) simp
  qed
qed

text \<open>The same for reads, which only have addresses.\<close>

primrec ids_of :: "axi_port \<Rightarrow> int \<Rightarrow> nat list \<Rightarrow> burst_list" where
  "ids_of p i [] = []"
| "ids_of p i (b # bs) = (i, int b) # ids_of p (next_id p i) bs"

lemma read_rest_of_burst:
  "rl_n l + int j < rl_burst l \<Longrightarrow>
   fold (read_cycle p at s nb cycles) [k..<k + j] l = l\<lparr>rl_n := rl_n l + int j, rl_addr := rl_addr l + int j * int nb\<rparr>"
proof (induction j)
  case (Suc j)
  then show ?case
    by (simp add: read_cycle_def Let_def algebra_simps)
qed simp

lemma read_one_burst:
  assumes s: "nb = 2 ^ s" "nb dvd 4096"
    and l: "k < cycles" "rl_n l + 1 \<ge> rl_burst l" "int nb dvd rl_addr l" "0 \<le> rl_addr l"
  shows "\<exists>b l'. 1 \<le> b \<and> b \<le> 256 \<and> k + b \<le> cycles \<and> rl_addr l mod 4096 + int b * int nb \<le> 4096 \<and>
     fold (read_cycle p at s nb cycles) [k..<k + b] l = l' \<and> rl_n l' + 1 \<ge> rl_burst l' \<and> rl_addr l' = rl_addr l + int b * int nb \<and>
     rl_list l' = rl_list l @ [(cur_read_id (rl_master l), int b)] \<and>
     rl_master l' = (rl_master l)\<lparr>cur_read_id := next_id p (cur_read_id (rl_master l)),
       int_read_addr_queue := int_read_addr_queue (rl_master l) @ [\<lparr>aa_addr = rl_addr l, aa_id = cur_read_id (rl_master l),
         aa_len = int b - 1, aa_size = s, aa_attr = at\<rparr>]\<rparr>"
proof -
  define b where "b = nat (next_burst (max_burst_len (rl_master l)) (int nb) (rl_addr l) (int cycles - int k))"
  have nb: "0 < int nb" "int nb dvd 4096"
    using s int_dvd_int_iff [of nb 4096] by simp_all
  note spec = next_burst_spec [of "int cycles - int k" "int nb" "rl_addr l" "max_burst_len (rl_master l)"]
  have b: "next_burst (max_burst_len (rl_master l)) (int nb) (rl_addr l) (int cycles - int k) = int b"
    using spec(1) l nb by (simp add: b_def)
  then have b1: "1 \<le> b" "b \<le> 256" "k + b \<le> cycles" "rl_addr l mod 4096 + int b * int nb \<le> 4096"
    using spec l nb by simp_all
  have up: "[k..<k + b] = k # [Suc k..<Suc k + (b - 1)]"
    using b1(1) by (simp_all add: upt_conv_Cons)
  have one: "read_cycle p at s nb cycles k l = l\<lparr>rl_n := 0, rl_burst := int b, rl_addr := rl_addr l + int nb,
      rl_list := rl_list l @ [(cur_read_id (rl_master l), int b)],
      rl_master := (rl_master l)\<lparr>cur_read_id := next_id p (cur_read_id (rl_master l)),
       int_read_addr_queue := int_read_addr_queue (rl_master l) @ [\<lparr>aa_addr = rl_addr l, aa_id = cur_read_id (rl_master l),
         aa_len = int b - 1, aa_size = s, aa_attr = at\<rparr>]\<rparr>\<rparr>" (is "_ = ?l")
    using l(2) b by (simp add: read_cycle_def Let_def)
  have "fold (read_cycle p at s nb cycles) [k..<k + b] l = ?l\<lparr>rl_n := int b - 1, rl_addr := rl_addr l + int b * int nb\<rparr>"
    unfolding up using read_rest_of_burst [of ?l "b - 1" p at s nb cycles "Suc k"] b1(1) by (simp add: one of_nat_diff algebra_simps)
  then show ?thesis
    using b1 by (intro exI [of _ b]) simp
qed

lemma read_bursts:
  assumes s: "nb = 2 ^ s" "nb dvd 4096"
  shows "k \<le> cycles \<Longrightarrow> rl_n l + 1 \<ge> rl_burst l \<Longrightarrow> int nb dvd rl_addr l \<Longrightarrow> 0 \<le> rl_addr l \<Longrightarrow>
    \<exists>bs l' i. bursts_ok (int nb) (rl_addr l) (cycles - k) bs \<and> fold (read_cycle p at s nb cycles) [k..<cycles] l = l' \<and>
      rl_list l' = rl_list l @ ids_of p (cur_read_id (rl_master l)) bs \<and>
      rl_master l' = (rl_master l)\<lparr>cur_read_id := i,
        int_read_addr_queue := int_read_addr_queue (rl_master l) @ addrs_of p at s (cur_read_id (rl_master l)) (rl_addr l) bs\<rparr>"
proof (induction "cycles - k" arbitrary: k l rule: less_induct)
  case less
  show ?case
  proof (cases "k = cycles")
    case True
    then show ?thesis
      by (intro exI [of _ "[]"] exI [of _ l] exI [of _ "cur_read_id (rl_master l)"]) simp
  next
    case False
    then obtain b l1 where b: "1 \<le> b" "b \<le> 256" "k + b \<le> cycles" "rl_addr l mod 4096 + int b * int nb \<le> 4096"
      "fold (read_cycle p at s nb cycles) [k..<k + b] l = l1"
      and l1: "rl_n l1 + 1 \<ge> rl_burst l1" "rl_addr l1 = rl_addr l + int b * int nb"
      "rl_list l1 = rl_list l @ [(cur_read_id (rl_master l), int b)]"
      "rl_master l1 = (rl_master l)\<lparr>cur_read_id := next_id p (cur_read_id (rl_master l)),
       int_read_addr_queue := int_read_addr_queue (rl_master l) @ [\<lparr>aa_addr = rl_addr l, aa_id = cur_read_id (rl_master l),
         aa_len = int b - 1, aa_size = s, aa_attr = at\<rparr>]\<rparr>"
      using read_one_burst [OF s, of k cycles l p at] less.prems by auto
    have "cycles - (k + b) < cycles - k" "int nb dvd rl_addr l1" "0 \<le> rl_addr l1"
      using b less.prems l1(2) False by simp_all
    from less.hyps [OF this(1) b(3) l1(1) this(2,3)] obtain bs l' i where r: "bursts_ok (int nb) (rl_addr l1) (cycles - (k + b)) bs"
      "fold (read_cycle p at s nb cycles) [k + b..<cycles] l1 = l'" "rl_list l' = rl_list l1 @ ids_of p (cur_read_id (rl_master l1)) bs"
      "rl_master l' = (rl_master l1)\<lparr>cur_read_id := i,
        int_read_addr_queue := int_read_addr_queue (rl_master l1) @ addrs_of p at s (cur_read_id (rl_master l1)) (rl_addr l1) bs\<rparr>"
      by blast
    have "[k..<cycles] = [k..<k + b] @ [k + b..<cycles]"
      using upt_add_eq_append [of k "k + b" "cycles - (k + b)"] b(3) by simp
    then have "fold (read_cycle p at s nb cycles) [k..<cycles] l = l'"
      using b(5) r(2) by simp
    moreover have "bursts_ok (int nb) (rl_addr l) (cycles - k) (b # bs)"
      using b(1-4) r(1) l1(2) by simp
    ultimately show ?thesis
      using r(3,4) l1(2-4) s(1) by (intro exI [of _ "b # bs"] exI [of _ l'] exI [of _ i]) simp
  qed
qed

end
