(* ===== verification/Axi_Mem.thy ===== *)
theory Axi_Mem
  imports Axi_Burst
begin

unbundle bit_operations_syntax

text \<open>
  Master and memory together: the memory serves the bursts of the master (\<open>ram_writes\<close>, \<open>ram_reads\<close>), the beats of an access lie
  where they should (\<open>access_start\<close>, \<open>access_stop\<close>), and so a write followed by a read returns what was written.
\<close>

section \<open>The memory\<close>

lemma next_addr_incr: "axi_burst (aa_attr a) = BURST_INCR \<Longrightarrow> next_addr a cur = cur + 2 ^ aa_size a"
  by (simp add: next_addr_def BURST_INCR_def BURST_FIXED_def BURST_WRAP_def Let_def)

lemma burst_start_incr:
  assumes "2 ^ aa_size a \<le> bw" "2 ^ aa_size a dvd aa_addr a" "aa_addr a < 2 ^ 53" "aa_addr a mod 4096 + (aa_len a + 1) * 2 ^ aa_size a \<le> 4096"
  shows "burst_start bw a = Inr (aa_addr a)"
  using assms by (simp add: burst_start_def Let_def algebra_simps)

text \<open>\<open>M k\<close> is the content of the memory before the beat \<open>k\<close>.\<close>

definition lanes_ok :: "nat \<Rightarrow> nat \<Rightarrow> int \<Rightarrow> int \<Rightarrow> nat \<Rightarrow> nat \<Rightarrow> (nat \<Rightarrow> int \<times> int) \<Rightarrow> (nat \<Rightarrow> byte list) \<Rightarrow> bool" where
  "lanes_ok bw rs nb cur k left f M \<longleftrightarrow> (\<forall>i<left. write_lanes (fst (f (k + i))) (snd (f (k + i)))
     (nat ((int_quot (cur + int i * nb) (int bw) * int bw) mod int rs)) [0..<bw] (M (k + i)) = Inr (M (k + i + 1)))"

lemma ram_write_beats:
  assumes a: "axi_burst (aa_attr a) = BURST_INCR" "aa_len a = int b - 1" and ok: "lanes_ok bw (ram_size r) (2 ^ aa_size a) cur k b f M"
    and r: "ram_mem r = M k" "ram_write_data_queue r = map (\<lambda>i. (fst (f (k + i)), snd (f (k + i)), Suc i = b)) [0..<b] @ q"
  shows "j \<le> b \<Longrightarrow> 1 \<le> b \<Longrightarrow> foldE (write_beat bw a) [0..<j] (cur, r) = Inr (cur + int j * 2 ^ aa_size a,
    r\<lparr>ram_mem := M (k + j), ram_write_data_queue := map (\<lambda>i. (fst (f (k + i)), snd (f (k + i)), Suc i = b)) [j..<b] @ q,
      ram_write_resp_queue := ram_write_resp_queue r @ (if j = b then [(aa_id a, 0)] else [])\<rparr>)"
proof (induction j)
  case 0
  then show ?case
    using r by simp
next
  case (Suc j)
  let ?r = "r\<lparr>ram_mem := M (k + j), ram_write_data_queue := map (\<lambda>i. (fst (f (k + i)), snd (f (k + i)), Suc i = b)) [j..<b] @ q\<rparr>"
  have "foldE (write_beat bw a) [0..<j] (cur, r) = Inr (cur + int j * 2 ^ aa_size a, ?r)"
    using Suc by simp
  then have "foldE (write_beat bw a) [0..<Suc j] (cur, r) = write_beat bw a j (cur + int j * 2 ^ aa_size a, ?r)"
    by (simp add: foldE_upt_Suc del: upt_Suc)
  also have "[j..<b] = j # [Suc j..<b]"
    using Suc.prems by (simp add: upt_conv_Cons)
  also have "int j = aa_len a \<longleftrightarrow> Suc j = b"
    using a(2) by auto
  then have "write_beat bw a j (cur + int j * 2 ^ aa_size a,
        r\<lparr>ram_mem := M (k + j), ram_write_data_queue := map (\<lambda>i. (fst (f (k + i)), snd (f (k + i)), Suc i = b)) (j # [Suc j..<b]) @ q\<rparr>) =
      Inr (cur + int (Suc j) * 2 ^ aa_size a,
        r\<lparr>ram_mem := M (k + Suc j), ram_write_data_queue := map (\<lambda>i. (fst (f (k + i)), snd (f (k + i)), Suc i = b)) [Suc j..<b] @ q,
          ram_write_resp_queue := ram_write_resp_queue r @ (if Suc j = b then [(aa_id a, 0)] else [])\<rparr>)"
    using ok [unfolded lanes_ok_def, rule_format, of j] Suc.prems a(1)
    by (auto simp: write_beat_def Let_def next_addr_incr algebra_simps)
  finally show ?case .
qed

lemma lanes_ok_split:
  "lanes_ok bw rs nb cur k (b + left) f M \<Longrightarrow> lanes_ok bw rs nb cur k b f M \<and> lanes_ok bw rs nb (cur + int b * nb) (k + b) left f M"
proof
  assume ok: "lanes_ok bw rs nb cur k (b + left) f M"
  then show "lanes_ok bw rs nb cur k b f M"
    by (simp add: lanes_ok_def)
  show "lanes_ok bw rs nb (cur + int b * nb) (k + b) left f M"
    unfolding lanes_ok_def
  proof (intro allI impI)
    fix i assume "i < left"
    then show "write_lanes (fst (f (k + b + i))) (snd (f (k + b + i))) (nat ((int_quot (cur + int b * nb + int i * nb) (int bw) * int bw) mod int rs))
      [0..<bw] (M (k + b + i)) = Inr (M (k + b + i + 1))"
      using ok [unfolded lanes_ok_def, rule_format, of "b + i"] by (simp add: algebra_simps)
  qed
qed

lemma ram_writes:
  assumes at: "axi_burst at = BURST_INCR" "2 ^ s \<le> bw"
  shows "bursts_ok (2 ^ s) cur left bs \<Longrightarrow> 2 ^ s dvd cur \<Longrightarrow> cur + int left * 2 ^ s \<le> 2 ^ 53 \<Longrightarrow>
    lanes_ok bw (ram_size r) (2 ^ s) cur k left f M \<Longrightarrow> ram_mem r = M k \<Longrightarrow>
    ram_write_addr_queue r = addrs_of p at s i cur bs @ as \<Longrightarrow> ram_write_data_queue r = beats_seq f k bs @ q \<Longrightarrow>
    iterE (length bs) (ram_write_logic bw) r = Inr (r\<lparr>ram_mem := M (k + left), ram_write_addr_queue := as, ram_write_data_queue := q,
      ram_write_resp_queue := ram_write_resp_queue r @ map (\<lambda>a. (aa_id a, 0)) (addrs_of p at s i cur bs)\<rparr>)"
proof (induction bs arbitrary: cur left k i r)
  case (Cons b bs)
  let ?a = "\<lparr>aa_addr = cur, aa_id = i, aa_len = int b - 1, aa_size = s, aa_attr = at\<rparr>"
  let ?as = "addrs_of p at s (next_id p i) (cur + int b * 2 ^ s) bs @ as"
  have b: "1 \<le> b" "b \<le> left" "cur mod 4096 + int b * 2 ^ s \<le> 4096" "bursts_ok (2 ^ s) (cur + int b * 2 ^ s) (left - b) bs"
    using Cons.prems(1) by simp_all
  have "1 * 2 ^ s \<le> int left * (2 ^ s :: int)"
    using b by (intro mult_right_mono) simp_all
  then have "cur < 2 ^ 53"
    using Cons.prems(3) zero_less_power [of "2::int" s] by linarith
  then have start: "burst_start bw ?a = Inr cur"
    using burst_start_incr [of ?a bw] b(3) Cons.prems(2) at(2) by simp
  have ok: "lanes_ok bw (ram_size r) (2 ^ s) cur k b f M" "lanes_ok bw (ram_size r) (2 ^ s) (cur + int b * 2 ^ s) (k + b) (left - b) f M"
    using lanes_ok_split [of bw "ram_size r" "2 ^ s" cur k b "left - b" f M] Cons.prems(4) b(2) by simp_all
  let ?r = "r\<lparr>ram_write_addr_queue := ?as\<rparr>"
  let ?r' = "?r\<lparr>ram_mem := M (k + b), ram_write_data_queue := beats_seq f (k + b) bs @ q, ram_write_resp_queue := ram_write_resp_queue r @ [(i, 0)]\<rparr>"
  have "foldE (write_beat bw ?a) [0..<b] (cur, ?r) = Inr (cur + int b * 2 ^ s, ?r')"
    using ram_write_beats [of ?a b bw ?r cur k f M "beats_seq f (k + b) bs @ q" b] at(1) ok(1) Cons.prems(5,7) b(1) by simp
  then have "ram_write_logic bw r = Inr ?r'"
    using Cons.prems(6) start by (simp add: ram_write_logic_def)
  moreover have "iterE (length bs) (ram_write_logic bw) ?r' = Inr (?r'\<lparr>ram_mem := M (k + b + (left - b)), ram_write_addr_queue := as,
      ram_write_data_queue := q, ram_write_resp_queue := ram_write_resp_queue ?r' @
        map (\<lambda>a. (aa_id a, 0)) (addrs_of p at s (next_id p i) (cur + int b * 2 ^ s) bs)\<rparr>)"
    using b(2,4) Cons.prems(2,3) ok(2) by (intro Cons.IH) (simp_all add: algebra_simps of_nat_diff)
  ultimately show ?case
    using b(2) by simp
qed simp

text \<open>Reads: \<open>g k\<close> is the word of the beat \<open>k\<close>.\<close>

primrec rbeats_seq :: "axi_port \<Rightarrow> (nat \<Rightarrow> int) \<Rightarrow> int \<Rightarrow> nat \<Rightarrow> nat list \<Rightarrow> (int \<times> int \<times> int \<times> bool) list" where
  "rbeats_seq p g i k [] = []"
| "rbeats_seq p g i k (b # bs) = map (\<lambda>j. (i, g (k + j), 0, Suc j = b)) [0..<b] @ rbeats_seq p g (next_id p i) (k + b) bs"

definition words_ok :: "nat \<Rightarrow> nat \<Rightarrow> byte list \<Rightarrow> int \<Rightarrow> int \<Rightarrow> nat \<Rightarrow> nat \<Rightarrow> (nat \<Rightarrow> int) \<Rightarrow> bool" where
  "words_ok bw rs mem nb cur k left g \<longleftrightarrow> (\<forall>i<left. let w = nat ((int_quot (cur + int i * nb) (int bw) * int bw) mod int rs)
     in w + bw \<le> length mem \<and> g (k + i) = le_int (slice w (w + bw) mem))"

lemma words_ok_split:
  "words_ok bw rs mem nb cur k (b + left) g \<Longrightarrow> words_ok bw rs mem nb cur k b g \<and> words_ok bw rs mem nb (cur + int b * nb) (k + b) left g"
proof
  assume ok: "words_ok bw rs mem nb cur k (b + left) g"
  then show "words_ok bw rs mem nb cur k b g"
    by (simp add: words_ok_def)
  show "words_ok bw rs mem nb (cur + int b * nb) (k + b) left g"
    unfolding words_ok_def
  proof (intro allI impI)
    fix i assume "i < left"
    moreover have "cur + int b * nb + int i * nb = cur + int (b + i) * nb"
      by (simp add: algebra_simps)
    ultimately show "let w = nat ((int_quot (cur + int b * nb + int i * nb) (int bw) * int bw) mod int rs)
      in w + bw \<le> length mem \<and> g (k + b + i) = le_int (slice w (w + bw) mem)"
      using ok [unfolded words_ok_def, rule_format, of "b + i"] by (simp only: add.assoc nat_add_left_cancel_less)
  qed
qed

lemma ram_read_beats:
  assumes a: "axi_burst (aa_attr a) = BURST_INCR" "aa_len a = int b - 1"
    and ok: "words_ok bw (ram_size r) (ram_mem r) (2 ^ aa_size a) cur k b g"
  shows "j \<le> b \<Longrightarrow> foldE (ram_read_beat bw a) [0..<j] (cur, r) = Inr (cur + int j * 2 ^ aa_size a,
    r\<lparr>ram_read_resp_queue := ram_read_resp_queue r @ map (\<lambda>i. (aa_id a, g (k + i), 0, Suc i = b)) [0..<j]\<rparr>)"
proof (induction j)
  case (Suc j)
  have "int j = aa_len a \<longleftrightarrow> Suc j = b"
    using a(2) by auto
  moreover define w where "w = nat ((int_quot (cur + int j * 2 ^ aa_size a) (int bw) * int bw) mod int (ram_size r))"
  have "\<not> length (slice w (w + bw) (ram_mem r)) < bw" "le_int (slice w (w + bw) (ram_mem r)) = g (k + j)"
    using ok [unfolded words_ok_def Let_def, rule_format, of j, folded w_def] Suc.prems by auto
  ultimately have "ram_read_beat bw a j (cur + int j * 2 ^ aa_size a, r\<lparr>ram_read_resp_queue := xs\<rparr>) =
      Inr (cur + int j * 2 ^ aa_size a + 2 ^ aa_size a, r\<lparr>ram_read_resp_queue := xs @ [(aa_id a, g (k + j), 0, Suc j = b)]\<rparr>)" for xs
    unfolding ram_read_beat_def Let_def prod.case next_addr_incr [OF a(1)] by (simp add: w_def [symmetric])
  then show ?case
    using Suc by (simp add: foldE_upt_Suc del: upt_Suc) (simp add: algebra_simps)
qed simp

lemma ram_reads:
  assumes at: "axi_burst at = BURST_INCR" "2 ^ s \<le> bw"
  shows "bursts_ok (2 ^ s) cur left bs \<Longrightarrow> 2 ^ s dvd cur \<Longrightarrow> cur + int left * 2 ^ s \<le> 2 ^ 53 \<Longrightarrow>
    words_ok bw (ram_size r) (ram_mem r) (2 ^ s) cur k left g \<Longrightarrow> ram_read_addr_queue r = addrs_of p at s i cur bs @ as \<Longrightarrow>
    iterE (length bs) (ram_read_logic bw) r = Inr (r\<lparr>ram_read_addr_queue := as,
      ram_read_resp_queue := ram_read_resp_queue r @ rbeats_seq p g i k bs\<rparr>)"
proof (induction bs arbitrary: cur left k i r)
  case (Cons b bs)
  let ?a = "\<lparr>aa_addr = cur, aa_id = i, aa_len = int b - 1, aa_size = s, aa_attr = at\<rparr>"
  let ?as = "addrs_of p at s (next_id p i) (cur + int b * 2 ^ s) bs @ as"
  have b: "1 \<le> b" "b \<le> left" "cur mod 4096 + int b * 2 ^ s \<le> 4096" "bursts_ok (2 ^ s) (cur + int b * 2 ^ s) (left - b) bs"
    using Cons.prems(1) by simp_all
  have "1 * 2 ^ s \<le> int left * (2 ^ s :: int)"
    using b by (intro mult_right_mono) simp_all
  then have "cur < 2 ^ 53"
    using Cons.prems(3) zero_less_power [of "2::int" s] by linarith
  then have start: "burst_start bw ?a = Inr cur"
    using burst_start_incr [of ?a bw] b(3) Cons.prems(2) at(2) by simp
  have ok: "words_ok bw (ram_size r) (ram_mem r) (2 ^ s) cur k b g"
      "words_ok bw (ram_size r) (ram_mem r) (2 ^ s) (cur + int b * 2 ^ s) (k + b) (left - b) g"
    using words_ok_split [of bw "ram_size r" "ram_mem r" "2 ^ s" cur k b "left - b" g] Cons.prems(4) b(2) by simp_all
  let ?r = "r\<lparr>ram_read_addr_queue := ?as\<rparr>"
  let ?r' = "?r\<lparr>ram_read_resp_queue := ram_read_resp_queue r @ map (\<lambda>j. (i, g (k + j), 0, Suc j = b)) [0..<b]\<rparr>"
  have "foldE (ram_read_beat bw ?a) [0..<b] (cur, ?r) = Inr (cur + int b * 2 ^ s, ?r')"
    using ram_read_beats [of ?a b bw ?r cur k g b] at(1) ok(1) by simp
  then have "ram_read_logic bw r = Inr ?r'"
    using Cons.prems(5) start by (simp add: ram_read_logic_def)
  moreover have "iterE (length bs) (ram_read_logic bw) ?r' = Inr (?r'\<lparr>ram_read_addr_queue := as,
      ram_read_resp_queue := ram_read_resp_queue ?r' @ rbeats_seq p g (next_id p i) (k + b) bs\<rparr>)"
    using b(2,4) Cons.prems(2,3) ok(2) by (intro Cons.IH) (simp_all add: algebra_simps of_nat_diff)
  ultimately show ?case
    by simp
qed simp

section \<open>Collecting the data of a read\<close>

text \<open>The beats that wait in the queues of their identifiers are those that are still to come, in order.\<close>

definition queues_of :: "(int \<times> int \<times> int \<times> bool) list \<Rightarrow> int \<Rightarrow> r_beat list" where
  "queues_of xs i = map (\<lambda>(i, v, b, l). (i, v, b, l, 0)) (filter (\<lambda>x. fst x = i) xs)"

lemma put_read_beats: "\<forall>x\<in>set xs. wire_id p (fst x) = fst x \<Longrightarrow> fold (put_read_beat p) xs q = (\<lambda>i. q i @ queues_of xs i)"
  by (induction xs arbitrary: q) (auto simp: queues_of_def put_read_beat_def fun_eq_iff Let_def)

text \<open>An interface without identifiers uses the number 0 throughout.\<close>

lemma wire_ids:
  assumes "ax_idw p = None \<longrightarrow> i = 0"
  shows "wire_id p i = i" "ax_idw p = None \<longrightarrow> next_id p i = 0"
  using assms by (auto simp: wire_id_def next_id_def split: option.split)

lemma wire_addrs: "ax_idw p = None \<longrightarrow> i = 0 \<Longrightarrow> map (wire_addr p) (addrs_of p at s i cur bs) = addrs_of p at s i cur bs"
  by (induction bs arbitrary: i cur) (auto simp: wire_addr_def wire_ids)

lemma wire_beats: "ax_idw p = None \<longrightarrow> i = 0 \<Longrightarrow> \<forall>x\<in>set (rbeats_seq p g i k bs). wire_id p (fst x) = fst x"
proof (induction bs arbitrary: i k)
  case (Cons b bs)
  then show ?case
    using Cons.IH [OF wire_ids(2) [OF Cons.prems], of "k + b"] wire_ids(1) [OF Cons.prems] by auto
qed simp

lemma queues_of_burst:
  "queues_of (map (\<lambda>j. (i, g (k + j), 0, Suc j = b)) js @ xs) =
     (queues_of xs)(i := map (\<lambda>j. (i, g (k + j), 0, Suc j = b, 0)) js @ queues_of xs i)"
proof
  fix i'
  have "filter (\<lambda>x. fst x = i') (map (\<lambda>j. (i, g (k + j), 0, Suc j = b)) js) = (if i = i' then map (\<lambda>j. (i, g (k + j), 0, Suc j = b)) js else [])"
    by (induction js) auto
  then show "queues_of (map (\<lambda>j. (i, g (k + j), 0, Suc j = b)) js @ xs) i' =
      ((queues_of xs)(i := map (\<lambda>j. (i, g (k + j), 0, Suc j = b, 0)) js @ queues_of xs i)) i'"
    by (simp add: queues_of_def comp_def)
qed

text \<open>\<open>D k\<close> is what has been collected before the beat \<open>k\<close>.\<close>

definition data_plan :: "nat \<Rightarrow> nat \<Rightarrow> nat \<Rightarrow> nat \<Rightarrow> (nat \<Rightarrow> int) \<Rightarrow> (nat \<Rightarrow> nat) \<Rightarrow> (nat \<Rightarrow> byte list) \<Rightarrow> bool" where
  "data_plan bw nb so cycles g cyc D \<longleftrightarrow> (\<forall>k<cycles. cyc (Suc k) = (cyc k + nb) mod bw \<and>
     D (Suc k) = D k @ lane_bytes (g k) [(if k = 0 then so else cyc k)..<cyc k + nb])"

lemma read_beats:
  assumes plan: "data_plan bw nb so cycles g cyc D" and k: "k + b \<le> cycles"
    and d: "rd_cycle d = cyc k" "rd_first d = (k = 0)" "rd_data d = D k" "rd_queues d i = map (\<lambda>j. (i, g (k + j), 0, Suc j = b, 0)) [0..<b] @ q"
  shows "j \<le> b \<Longrightarrow> foldE (read_beat bw nb so i (int b)) [0..<j] d = Inr (d\<lparr>rd_cycle := cyc (k + j), rd_first := (k + j = 0), rd_data := D (k + j),
    rd_queues := (rd_queues d)(i := map (\<lambda>j. (i, g (k + j), 0, Suc j = b, 0)) [j..<b] @ q)\<rparr>)"
proof (induction j)
  case 0
  then show ?case
    using d by (simp add: fun_upd_idem)
next
  case (Suc j)
  let ?d = "d\<lparr>rd_cycle := cyc (k + j), rd_first := (k + j = 0), rd_data := D (k + j),
    rd_queues := (rd_queues d)(i := map (\<lambda>j. (i, g (k + j), 0, Suc j = b, 0)) [j..<b] @ q)\<rparr>"
  have "foldE (read_beat bw nb so i (int b)) [0..<j] d = Inr ?d"
    by (rule Suc.IH) (use Suc.prems in simp)
  then have "foldE (read_beat bw nb so i (int b)) [0..<Suc j] d = read_beat bw nb so i (int b) j ?d"
    by (simp only: foldE_upt_Suc [OF le0] bindE_Inr)
  also have "[j..<b] = j # [Suc j..<b]"
    using Suc.prems by (simp add: upt_conv_Cons)
  also have "int j = int b - 1 \<longleftrightarrow> Suc j = b"
    by auto
  then have "read_beat bw nb so i (int b) j (d\<lparr>rd_cycle := cyc (k + j), rd_first := (k + j = 0), rd_data := D (k + j),
      rd_queues := (rd_queues d)(i := map (\<lambda>j. (i, g (k + j), 0, Suc j = b, 0)) (j # [Suc j..<b]) @ q)\<rparr>) =
    Inr (d\<lparr>rd_cycle := cyc (k + Suc j), rd_first := (k + Suc j = 0), rd_data := D (k + Suc j),
      rd_queues := (rd_queues d)(i := map (\<lambda>j. (i, g (k + j), 0, Suc j = b, 0)) [Suc j..<b] @ q)\<rparr>)"
    using plan [unfolded data_plan_def, rule_format, of "k + j"] Suc.prems k
    by (simp add: read_beat_def Let_def)
  finally show ?case .
qed

lemma read_all_bursts:
  assumes plan: "data_plan bw nb so cycles g cyc D"
  shows "bursts_ok nb' cur (cycles - k) bs \<Longrightarrow> k \<le> cycles \<Longrightarrow> rd_cycle d = cyc k \<Longrightarrow> rd_first d = (k = 0) \<Longrightarrow> rd_data d = D k \<Longrightarrow>
    rd_queues d = queues_of (rbeats_seq p g i k bs) \<Longrightarrow>
    \<exists>d'. foldE (read_burst bw nb so) (ids_of p i bs) d = Inr d' \<and> rd_data d' = D cycles \<and> rd_resp d' = rd_resp d \<and> rd_queues d' = (\<lambda>_. [])"
proof (induction bs arbitrary: cur k i d)
  case Nil
  then show ?case
    by (simp add: queues_of_def fun_eq_iff)
next
  case (Cons b bs)
  have b: "1 \<le> b" "k + b \<le> cycles" "bursts_ok nb' (cur + int b * nb') (cycles - (k + b)) bs"
    using Cons.prems(1,2) by auto
  let ?q = "queues_of (rbeats_seq p g (next_id p i) (k + b) bs)"
  have q: "rd_queues d = ?q(i := map (\<lambda>j. (i, g (k + j), 0, Suc j = b, 0)) [0..<b] @ ?q i)"
    using Cons.prems(6) unfolding rbeats_seq.simps(2) queues_of_burst .
  let ?d = "d\<lparr>rd_cycle := cyc (k + b), rd_first := (k + b = 0), rd_data := D (k + b), rd_queues := ?q\<rparr>"
  have "read_burst bw nb so (i, int b) d = Inr ?d"
    using read_beats [OF plan b(2) Cons.prems(3-5), of i "?q i" b] q by (simp add: read_burst_def)
  moreover obtain d' where "foldE (read_burst bw nb so) (ids_of p (next_id p i) bs) ?d = Inr d'" "rd_data d' = D cycles"
      "rd_resp d' = rd_resp ?d" "rd_queues d' = (\<lambda>_. [])"
    using Cons.IH [OF b(3) b(2), of ?d "next_id p i"] by auto
  ultimately show ?case
    by simp
qed

section \<open>Where the beats of an access lie\<close>

text \<open>The beat \<open>k\<close> of an access to \<open>len\<close> bytes at \<open>a\<close> lies in the word at \<open>word_at\<close>, its lanes start at \<open>lane_at\<close>, and it
  is the first to touch the byte at \<open>pos_at\<close>.\<close>

definition beat_at :: "nat \<Rightarrow> nat \<Rightarrow> nat \<Rightarrow> nat" where
  "beat_at nb a k = a div nb * nb + k * nb"

definition word_at :: "nat \<Rightarrow> nat \<Rightarrow> nat \<Rightarrow> nat \<Rightarrow> nat" where
  "word_at bw nb a k = beat_at nb a k div bw * bw"

definition lane_at :: "nat \<Rightarrow> nat \<Rightarrow> nat \<Rightarrow> nat \<Rightarrow> nat" where
  "lane_at bw nb a k = beat_at nb a k mod bw"

definition pos_at :: "nat \<Rightarrow> nat \<Rightarrow> nat \<Rightarrow> nat \<Rightarrow> nat" where
  "pos_at nb a len k = (if k = 0 then a else min (a + len) (beat_at nb a k))"

definition access :: "nat \<Rightarrow> nat \<Rightarrow> nat \<Rightarrow> nat \<Rightarrow> nat \<Rightarrow> bool" where
  "access bw nb a len c \<longleftrightarrow> 0 < nb \<and> 0 < bw \<and> nb dvd bw \<and> 0 < len \<and> c = (len + nb - 1 + a mod nb) div nb"

lemma access_beats:
  assumes "access bw nb a len c"
  shows "0 < c" "a + len \<le> beat_at nb a c" "beat_at nb a (c - 1) < a + len" "beat_at nb a 0 \<le> a" "a < beat_at nb a 1"
proof -
  have nb: "0 < nb" "0 < len" and c: "c = (len + nb - 1 + a mod nb) div nb"
    using assms by (auto simp: access_def)
  have a: "a = a div nb * nb + a mod nb" "a mod nb < nb"
    using nb by simp_all
  have "nb \<le> len + nb - 1 + a mod nb"
    using nb by simp
  then show c0: "0 < c"
    using nb by (simp add: c div_greater_zero_iff)
  have cn: "c * nb \<le> len + nb - 1 + a mod nb" "len + nb - 1 + a mod nb < c * nb + nb"
    unfolding c using nb(1) div_mult_mod_eq [of "len + nb - 1 + a mod nb" nb] mod_less_divisor [OF nb(1), of "len + nb - 1 + a mod nb"] by linarith+
  then show "a + len \<le> beat_at nb a c"
    unfolding beat_at_def using a(1) nb by linarith
  have "(c - 1) * nb + nb = c * nb"
    using c0 by (cases c) simp_all
  then show "beat_at nb a (c - 1) < a + len"
    unfolding beat_at_def using cn(1) a nb by linarith
  show "beat_at nb a 0 \<le> a" "a < beat_at nb a 1"
    unfolding beat_at_def using a by linarith+
qed

lemma block_div:
  assumes "0 < nb" "nb dvd bw" "nb dvd x" "x \<le> y" "y < x + nb"
  shows "y div bw = x div (bw :: nat)"
proof -
  obtain m q where m: "bw = nb * m" "x = nb * q"
    using assms(2,3) unfolding dvd_def by blast
  have "y div nb = q"
    using assms(1,4,5) m(2) by (simp add: div_nat_eqI mult.commute)
  then show ?thesis
    using m assms(1) by (simp add: div_mult2_eq)
qed

lemma beat_at_dvd: "nb dvd beat_at nb a k"
  by (simp add: beat_at_def)

lemma beat_at_mono: "j \<le> k \<Longrightarrow> beat_at nb a j \<le> beat_at nb a k"
  by (simp add: beat_at_def)

lemma beat_at_Suc: "beat_at nb a (Suc k) = beat_at nb a k + nb"
  by (simp add: beat_at_def)

lemma word_lane: "word_at bw nb a k + lane_at bw nb a k = beat_at nb a k"
  by (simp add: word_at_def lane_at_def)

lemma lane_fits:
  assumes "0 < nb" "0 < bw" "nb dvd bw"
  shows "lane_at bw nb a k + nb \<le> bw" "lane_at bw nb a (Suc k) = (lane_at bw nb a k + nb) mod bw"
proof -
  have "nb dvd lane_at bw nb a k" "lane_at bw nb a k < bw"
    using assms by (simp_all add: lane_at_def beat_at_dvd dvd_mod)
  then obtain i m where "lane_at bw nb a k = nb * i" "bw = nb * m" "nb * i < nb * m"
    using assms(3) by (auto elim!: dvdE)
  then show "lane_at bw nb a k + nb \<le> bw"
    using mult_le_mono2 [of "Suc i" m nb] by simp
  show "lane_at bw nb a (Suc k) = (lane_at bw nb a k + nb) mod bw"
    by (simp add: lane_at_def beat_at_Suc mod_simps)
qed

lemma access_start:
  assumes "access bw nb a len c" "k < c"
  shows "word_at bw nb a k + (if k = 0 then a mod bw else lane_at bw nb a k) = pos_at nb a len k"
proof (cases "k = 0")
  case True
  have "a div bw = beat_at nb a 0 div bw"
    using access_beats(4,5) [OF assms(1)] assms(1) by (intro block_div [of nb]) (auto simp: access_def beat_at_dvd beat_at_Suc)
  then show ?thesis
    using True div_mult_mod_eq [of a bw] by (simp add: word_at_def pos_at_def)
next
  case False
  have "beat_at nb a k \<le> beat_at nb a (c - 1)"
    using assms(2) by (intro beat_at_mono) simp
  then show ?thesis
    using False access_beats(3) [OF assms(1)] by (simp add: word_lane pos_at_def)
qed

lemma access_stop:
  assumes "access bw nb a len c" "k < c"
  shows "word_at bw nb a k + (if k = c - 1 then (a + len - 1) mod bw + 1 else lane_at bw nb a k + nb) = pos_at nb a len (Suc k)"
proof (cases "k = c - 1")
  case True
  have b: "beat_at nb a k < a + len" "a + len \<le> beat_at nb a k + nb"
    using access_beats(1-3) [OF assms(1)] True by (simp_all add: beat_at_Suc [symmetric])
  then have "(a + len - 1) div bw = beat_at nb a k div bw"
    using assms(1) by (intro block_div [of nb]) (auto simp: access_def beat_at_dvd)
  then have "word_at bw nb a k + (a + len - 1) mod bw = a + len - 1"
    unfolding word_at_def by (metis div_mult_mod_eq)
  then show ?thesis
    using True b by (simp add: pos_at_def beat_at_Suc)
next
  case False
  have "beat_at nb a (Suc k) \<le> beat_at nb a (c - 1)"
    using assms(2) False by (intro beat_at_mono) simp
  then show ?thesis
    using False access_beats(3) [OF assms(1)] word_lane [of bw nb a k] by (simp add: pos_at_def beat_at_Suc)
qed

lemma word_fits:
  assumes "access bw nb a len c" "k < c" "a + len \<le> n" "bw dvd n"
  shows "word_at bw nb a k + bw \<le> n"
proof -
  have "beat_at nb a k \<le> beat_at nb a (c - 1)"
    using assms(2) by (intro beat_at_mono) simp
  then have "word_at bw nb a k < n"
    using access_beats(3) [OF assms(1)] assms(3) word_lane [of bw nb a k] by linarith
  moreover obtain q where "n = bw * q"
    using assms(4) by (auto elim: dvdE)
  ultimately have "beat_at nb a k div bw < q"
    by (simp add: word_at_def mult.commute)
  then show ?thesis
    using \<open>n = bw * q\<close> mult_le_mono2 [of "Suc (beat_at nb a k div bw)" q bw] by (simp add: word_at_def mult.commute)
qed

lemma pos_at_mono: "access bw nb a len c \<Longrightarrow> k < c \<Longrightarrow> a \<le> pos_at nb a len k \<and> pos_at nb a len k \<le> pos_at nb a len (Suc k) \<and> pos_at nb a len (Suc k) \<le> a + len"
  using access_beats(5) [of bw nb a len c] beat_at_mono [of 1 k nb a] beat_at_mono [of 1 "Suc k" nb a] by (auto simp: pos_at_def beat_at_Suc)

section \<open>From end to end\<close>

definition wbeat_of :: "nat \<Rightarrow> nat \<Rightarrow> nat \<Rightarrow> byte list \<Rightarrow> nat \<Rightarrow> nat \<Rightarrow> int \<times> int" where
  "wbeat_of bw nb a data c k =
     (let start = (if k = 0 then a mod bw else lane_at bw nb a k);
          stop = (if k = c - 1 then (a + length data - 1) mod bw + 1 else lane_at bw nb a k + nb)
      in (fst (projr (beat_val data 0 [start..<stop] (pos_at nb a (length data) k - a))), beat_strb bw start stop))"

definition mem_at :: "nat \<Rightarrow> nat \<Rightarrow> byte list \<Rightarrow> byte list \<Rightarrow> nat \<Rightarrow> byte list" where
  "mem_at nb a data mem k = splice a (pos_at nb a (length data) k) (take (pos_at nb a (length data) k - a) data) mem"

lemma wbeat_spec:
  assumes acc: "access bw nb a (length data) c" and k: "k < c" and mem: "a + length data \<le> length mem" "bw dvd length mem"
  shows "beat_val data 0 [(if k = 0 then a mod bw else lane_at bw nb a k)..<(if k = c - 1 then (a + length data - 1) mod bw + 1 else lane_at bw nb a k + nb)]
      (pos_at nb a (length data) k - a) = Inr (fst (wbeat_of bw nb a data c k), pos_at nb a (length data) (Suc k) - a)"
    "write_lanes (fst (wbeat_of bw nb a data c k)) (snd (wbeat_of bw nb a data c k)) (word_at bw nb a k) [0..<bw] (mem_at nb a data mem k) =
      Inr (mem_at nb a data mem (Suc k))"
proof -
  define start where "start = (if k = 0 then a mod bw else lane_at bw nb a k)"
  define stop where "stop = (if k = c - 1 then (a + length data - 1) mod bw + 1 else lane_at bw nb a k + nb)"
  let ?P = "pos_at nb a (length data) k" and ?Q = "pos_at nb a (length data) (Suc k)" and ?W = "word_at bw nb a k"
  have P: "?W + start = ?P" "?W + stop = ?Q"
    using access_start [OF acc k] access_stop [OF acc k] by (simp_all add: start_def stop_def)
  have mono: "a \<le> ?P" "?P \<le> ?Q" "?Q \<le> a + length data"
    using pos_at_mono [OF acc k] by simp_all
  have nb: "0 < nb" "0 < bw" "nb dvd bw"
    using acc by (simp_all add: access_def)
  have len: "length (mem_at nb a data mem k) = length mem"
    using mono mem(1) by (simp add: mem_at_def length_splice)
  have "stop \<le> bw"
    using lane_fits(1) [OF nb] nb(2) by (simp add: stop_def Suc_leI)
  moreover have "start \<le> stop" "?P - a + (stop - start) = ?Q - a" "?Q - a \<le> length data"
    using P mono by linarith+
  ultimately obtain v where v: "beat_val data 0 [start..<stop] (?P - a) = Inr (v, ?Q - a)"
    "write_lanes v (beat_strb bw start stop) ?W [0..<bw] (mem_at nb a data mem k) =
      Inr (splice ?P ?Q (slice (?P - a) (?Q - a) data) (mem_at nb a data mem k))"
    using write_lanes_beat [of start stop bw "?P - a" data ?W "mem_at nb a data mem k"] word_fits [OF acc k mem] P len by auto
  have f: "wbeat_of bw nb a data c k = (v, beat_strb bw start stop)"
    unfolding wbeat_of_def start_def [symmetric] stop_def [symmetric] Let_def v(1) by simp
  then show "beat_val data 0 [(if k = 0 then a mod bw else lane_at bw nb a k)..<(if k = c - 1 then (a + length data - 1) mod bw + 1 else lane_at bw nb a k + nb)]
      (?P - a) = Inr (fst (wbeat_of bw nb a data c k), ?Q - a)"
    unfolding start_def [symmetric] stop_def [symmetric] v(1) by simp
  have "take (?P - a) data @ slice (?P - a) (?Q - a) data = take (?Q - a) data"
    using slice_append_slice [of 0 "?P - a" "?Q - a" data] mono by (simp add: slice_def)
  then have "splice ?P ?Q (slice (?P - a) (?Q - a) data) (mem_at nb a data mem k) = mem_at nb a data mem (Suc k)"
    using splice_splice [of a "take (?P - a) data" mem "slice (?P - a) (?Q - a) data"] mono mem(1) by (simp add: mem_at_def)
  then show "write_lanes (fst (wbeat_of bw nb a data c k)) (snd (wbeat_of bw nb a data c k)) ?W [0..<bw] (mem_at nb a data mem k) =
      Inr (mem_at nb a data mem (Suc k))"
    using v(2) f by simp
qed

lemma write_plan_access:
  assumes "access (ax_bw p) nb a (length data) c" "a + length data \<le> n" "ax_bw p dvd n"
  shows "write_plan p nb data (a mod ax_bw p) ((a + length data - 1) mod ax_bw p + 1) c (wbeat_of (ax_bw p) nb a data c)
    (\<lambda>k. pos_at nb a (length data) k - a) (lane_at (ax_bw p) nb a)"
  unfolding write_plan_def
proof (intro allI impI conjI)
  fix k assume k: "k < c"
  show "beat_val data 0 [(if k = 0 then a mod ax_bw p else lane_at (ax_bw p) nb a k)..<(if k = c - 1 then (a + length data - 1) mod ax_bw p + 1
      else lane_at (ax_bw p) nb a k + nb)] (pos_at nb a (length data) k - a) =
    Inr (fst (wbeat_of (ax_bw p) nb a data c k), pos_at nb a (length data) (Suc k) - a)"
    using wbeat_spec(1) [OF assms(1) k, of "replicate n 0"] assms(2,3) by simp
  show "lane_at (ax_bw p) nb a (Suc k) = (lane_at (ax_bw p) nb a k + nb) mod ax_bw p"
    using assms(1) by (intro lane_fits) (auto simp: access_def)
qed (simp add: wbeat_of_def Let_def)

lemma word_of_quot:
  assumes "access bw nb a len c" "k < c" "a + len \<le> n" "bw dvd n" "int n \<le> 2 ^ 53"
  shows "nat ((int_quot (int (a div nb * nb) + int k * int nb) (int bw) * int bw) mod int n) = word_at bw nb a k"
proof -
  have "int (a div nb * nb) + int k * int nb = int (beat_at nb a k)"
    by (simp add: beat_at_def)
  moreover have "word_at bw nb a k < n"
    using word_fits [OF assms(1-4)] assms(1) by (simp add: access_def)
  moreover have "beat_at nb a k < n"
    using access_beats(3) [OF assms(1)] beat_at_mono [of k "c - 1" nb a] assms(2,3) by linarith
  then have "int (beat_at nb a k) < 2 ^ 53"
    using assms(5) by linarith
  ultimately show ?thesis
    by (simp add: word_at_def zdiv_int [symmetric] zmod_int [symmetric] flip: of_nat_mult)
qed

definition axi_quiet :: "axi_master \<Rightarrow> bool" where
  "axi_quiet m \<longleftrightarrow> write_command_queue m = [] \<and> read_command_queue m = [] \<and> int_write_addr_queue m = [] \<and> int_write_data_queue m = [] \<and>
     int_write_resp_command_queue m = [] \<and> int_write_resp_queue m = [] \<and> int_read_addr_queue m = [] \<and>
     int_read_resp_command_queue m = [] \<and> int_read_resp_queue_list m = (\<lambda>_. [])"

definition ram_quiet :: "axi_ram \<Rightarrow> bool" where
  "ram_quiet r \<longleftrightarrow> ram_write_addr_queue r = [] \<and> ram_write_data_queue r = [] \<and> ram_write_resp_queue r = [] \<and> ram_read_addr_queue r = [] \<and>
     ram_read_resp_queue r = [] \<and> length (ram_mem r) = ram_size r"

definition axi_fits :: "axi_port \<Rightarrow> nat option \<Rightarrow> int \<Rightarrow> nat \<Rightarrow> nat \<Rightarrow> bool" where
  "axi_fits p sz addr len n \<longleftrightarrow> bw_ok (ax_bw p) \<and> (case sz of None \<Rightarrow> True | Some s \<Rightarrow> 2 ^ s \<le> ax_bw p) \<and>
     0 \<le> addr \<and> 0 < len \<and> addr + int len \<le> int n \<and> ax_bw p dvd n \<and> n \<le> 2 ^ 52"

lemma bw_ok_cases: "bw_ok bw \<Longrightarrow> \<exists>e\<le>7. bw = 2 ^ e"
  unfolding bw_ok_def by (auto intro: exI [of _ 0] exI [of _ 1] exI [of _ 2] exI [of _ 3] exI [of _ 4] exI [of _ 5] exI [of _ 6] exI [of _ 7])

lemma bit_length_widths:
  "bit_length 1 = 1" "bit_length 2 = 2" "bit_length 4 = 3" "bit_length 8 = 4" "bit_length 16 = 5" "bit_length 32 = 6" "bit_length 64 = 7"
  "bit_length 128 = 8"
  by (simp_all add: bit_length.simps)

lemma log_bw_power: "bw_ok bw \<Longrightarrow> 2 ^ log_bw bw = bw"
  using bit_length_widths unfolding bw_ok_def log_bw_def by auto

lemma burst_size_spec:
  assumes "bw_ok bw" "case sz of None \<Rightarrow> True | Some s \<Rightarrow> 2 ^ s \<le> bw"
  shows "\<exists>s. burst_size bw sz = Inr (s, 2 ^ s) \<and> 2 ^ s dvd bw \<and> 2 ^ s dvd (4096 :: nat) \<and> 2 ^ s \<le> bw \<and> s \<le> log_bw bw"
proof -
  obtain e where e: "bw = 2 ^ e" "e \<le> 7" "log_bw bw = e"
    using bw_ok_cases [OF assms(1)] log_bw_power [OF assms(1)] power_inject_exp [of "2::nat"] by auto
  obtain s where s: "burst_size bw sz = Inr (s, 2 ^ s)" "s \<le> e"
    using assms(2) e by (cases sz) (auto simp: burst_size_def)
  moreover have "2 ^ s dvd (2 ^ 12 :: nat)"
    using s(2) e(2) by (intro le_imp_power_dvd) simp
  ultimately have "2 ^ s dvd bw" "2 ^ s dvd (4096 :: nat)" "2 ^ s \<le> bw"
    using e by (auto intro: le_imp_power_dvd power_increasing)
  then show ?thesis
    using s e by auto
qed

lemma fits_access:
  assumes "axi_fits p sz addr len n"
  shows "\<exists>s a. burst_size (ax_bw p) sz = Inr (s, 2 ^ s) \<and> 2 ^ s dvd (4096 :: nat) \<and> 2 ^ s \<le> ax_bw p \<and> s \<le> log_bw (ax_bw p) \<and> addr = int a \<and>
    access (ax_bw p) (2 ^ s) a len (nat (beats_of addr (int len) (2 ^ s))) \<and> a + len \<le> n \<and> ax_bw p dvd n \<and> n \<le> 2 ^ 52"
proof -
  have fits: "bw_ok (ax_bw p)" "case sz of None \<Rightarrow> True | Some s \<Rightarrow> 2 ^ s \<le> ax_bw p" "0 \<le> addr" "0 < len" "addr + int len \<le> int n"
      "ax_bw p dvd n" "n \<le> 2 ^ 52"
    using assms by (auto simp: axi_fits_def)
  obtain s where s: "burst_size (ax_bw p) sz = Inr (s, 2 ^ s)" "2 ^ s dvd ax_bw p" "2 ^ s dvd (4096 :: nat)" "2 ^ s \<le> ax_bw p" "s \<le> log_bw (ax_bw p)"
    using burst_size_spec [OF fits(1,2)] by auto
  obtain a where a: "addr = int a"
    using fits(3) nonneg_int_cases by blast
  have "(2 :: nat) ^ s \<le> 4096"
    using s(3) by (intro dvd_imp_le) simp_all
  then have "len + 2 ^ s - 1 + a mod 2 ^ s < 2 ^ 53"
    using fits(4,5,7) a less_le_trans [OF mod_less_divisor [of "2 ^ s" a], of 4096] by simp
  then have "int (len + 2 ^ s - 1 + a mod 2 ^ s) < 2 ^ 53"
    using of_nat_less_iff [of "len + 2 ^ s - 1 + a mod 2 ^ s" "2 ^ 53", where ?'a = int] by simp
  moreover have "int len + 2 ^ s - 1 + int a mod 2 ^ s = int (len + 2 ^ s - 1 + a mod 2 ^ s)"
    using fits(4) by (simp add: of_nat_diff zmod_int)
  ultimately have "beats_of addr (int len) (2 ^ s) = int ((len + 2 ^ s - 1 + a mod 2 ^ s) div 2 ^ s)"
    by (simp add: beats_of_def a zdiv_int del: of_nat_add)
  then have "access (ax_bw p) (2 ^ s) a len (nat (beats_of addr (int len) (2 ^ s)))"
    using s(2) fits(4) less_le_trans [OF zero_less_power [of "2::nat" s] s(4)] by (simp add: access_def)
  then show ?thesis
    using s a fits(5-7) by auto
qed

lemma take_okay: "take_resps (length xs) resp (map (\<lambda>a. (aa_id a, 0, 0)) xs @ q) = Inr (resp, q)"
  by (induction xs) simp_all

text \<open>The quotients that master and memory start from.\<close>

lemma access_lane:
  assumes acc: "access bw (2 ^ s) a len c" "a + len \<le> n" "bw dvd n" "n \<le> 2 ^ 52"
  shows "int_quot (int a) (2 ^ s) = int (a div 2 ^ s)"
    "nat (int (a div 2 ^ s) * 2 ^ s - int_quot (int a) (int bw) * int bw) = lane_at bw (2 ^ s) a 0" "nat (int a mod int bw) = a mod bw"
proof -
  let ?nb = "2 ^ s :: nat"
  have small: "int a < 2 ^ 53"
    using acc(2,4) of_nat_less_iff [of a "2 ^ 53", where ?'a = int] by simp
  then show "int_quot (int a) (2 ^ s) = int (a div 2 ^ s)"
    by (simp add: zdiv_int)
  have al: "int_quot (int a) (int bw) = int (a div bw)"
    using small by (simp add: zdiv_int)
  have "a div bw = a div ?nb * ?nb div bw"
    using acc(1) access_beats(4,5) [OF acc(1)] by (intro block_div [of ?nb]) (simp_all add: access_def beat_at_def)
  then have "a div ?nb * ?nb = a div bw * bw + lane_at bw ?nb a 0"
    using word_lane [of bw ?nb a 0] unfolding word_at_def beat_at_def by simp
  then have "nat (int (a div ?nb * ?nb) - int (a div bw * bw)) = lane_at bw ?nb a 0"
    by (metis add_diff_cancel_left' nat_int of_nat_add)
  then show "nat (int (a div 2 ^ s) * 2 ^ s - int_quot (int a) (int bw) * int bw) = lane_at bw (2 ^ s) a 0"
    by (simp add: al)
qed (simp only: zmod_int [symmetric] nat_int)

text \<open>What the master sends for a write.\<close>

lemma axi_write_logic_sends:
  assumes acc: "access (ax_bw p) (2 ^ s) a (length data) c" "a + length data \<le> n" "ax_bw p dvd n" "n \<le> 2 ^ 52"
    and s: "burst_size (ax_bw p) sz = Inr (s, 2 ^ s)" "2 ^ s dvd (4096 :: nat)" "c = nat (beats_of (int a) (int (length data)) (2 ^ s))"
    and m: "axi_quiet m"
  shows "\<exists>bs i. bursts_ok (2 ^ s) (int (a div 2 ^ s * 2 ^ s)) c bs \<and>
    axi_write_logic p (init_write (int a) data sz at m) = Inr (m\<lparr>in_flight_operations := in_flight_operations m + 1, cur_write_id := i,
      int_write_addr_queue := addrs_of p at s (cur_write_id m) (int (a div 2 ^ s * 2 ^ s)) bs,
      int_write_data_queue := beats_seq (wbeat_of (ax_bw p) (2 ^ s) a data c) 0 bs,
      int_write_resp_command_queue := [(int a, int (length data), length bs, axi_prot at)]\<rparr>)"
proof -
  let ?nb = "2 ^ s :: nat" and ?bw = "ax_bw p"
  let ?so = "a mod ?bw" and ?eo = "(a + length data - 1) mod ?bw + 1"
  let ?m = "m\<lparr>in_flight_operations := in_flight_operations m + 1\<rparr>"
  let ?l = "\<lparr>wl_addr = int (a div ?nb * ?nb), wl_offset = 0, wl_cycle = lane_at ?bw ?nb a 0, wl_n = 0, wl_transfers = 0, wl_burst = 0, wl_master = ?m\<rparr>"
  have bw: "0 < length data"
    using acc(1) by (simp add: access_def)
  have "int a + int (length data) - 1 = int (a + length data - 1)"
    using bw by (simp add: of_nat_diff Suc_leI)
  then have offs: "nat ((int a + int (length data) - 1) mod int ?bw + 1) = ?eo"
    using nat_int_add [of "(a + length data - 1) mod ?bw" 1] by (simp only: zmod_int [symmetric] nat_int of_nat_1)
  note plan = write_plan_access [OF acc(1-3)]
  obtain bs l' i where r: "bursts_ok (int ?nb) (int (a div ?nb * ?nb)) c bs"
      "foldE (write_cycle p at s ?nb data ?so ?eo c) [0..<c] ?l = Inr l'" "wl_transfers l' = length bs"
      "wl_master l' = ?m\<lparr>cur_write_id := i, int_write_addr_queue := addrs_of p at s (cur_write_id m) (int (a div ?nb * ?nb)) bs,
        int_write_data_queue := beats_seq (wbeat_of ?bw ?nb a data c) 0 bs\<rparr>"
    using write_bursts [OF plan refl s(2), of 0 ?l at] m by (auto simp: axi_quiet_def pos_at_def)
  have q0: "m\<lparr>write_command_queue := [], in_flight_operations := in_flight_operations m + 1\<rparr> = ?m"
    using m by (cases m) (simp add: axi_quiet_def)
  have "axi_write_logic p (init_write (int a) data sz at m) =
      bindE (foldE (write_cycle p at s ?nb data ?so ?eo c) [0..<c] ?l) (\<lambda>l. Inr ((wl_master l)\<lparr>int_write_resp_command_queue :=
        int_write_resp_command_queue (wl_master l) @ [(int a, int (length data), wl_transfers l, axi_prot at)]\<rparr>))"
    using m s(1,3) by (simp add: axi_write_logic_def init_write_def axi_quiet_def Let_def access_lane [OF acc] offs [simplified] q0)
  then show ?thesis
    using m r by (intro exI [of _ bs] exI [of _ i]) (simp add: axi_quiet_def)
qed

lemma access_end:
  assumes "access bw nb a len c" "a + len \<le> n" "bw dvd n"
  shows "beat_at nb a c \<le> n"
proof -
  have "nb dvd n"
    using assms by (auto simp: access_def)
  moreover have "beat_at nb a (c - 1) < n" "beat_at nb a c = beat_at nb a (c - 1) + nb"
    using access_beats(1,3) [OF assms(1)] assms(2) beat_at_Suc [of nb a "c - 1"] by simp_all
  moreover obtain q where "beat_at nb a (c - 1) = nb * q"
    using beat_at_dvd [of nb a "c - 1"] by (auto elim: dvdE)
  moreover obtain t where "n = nb * t"
    using calculation(1) by (auto elim: dvdE)
  ultimately show ?thesis
    using mult_le_mono2 [of "Suc q" t nb] by simp
qed

lemma length_addrs_of [simp]: "length (addrs_of p at s i cur bs) = length bs"
  by (induction bs arbitrary: i cur) simp_all

lemma small_quot: "a + len \<le> n \<Longrightarrow> n \<le> 2 ^ 52 \<Longrightarrow> int a < 2 ^ 53 \<and> int n \<le> 2 ^ 53"
  using of_nat_less_iff [of a "2 ^ 53", where ?'a = int] of_nat_le_iff [of n "2 ^ 53", where ?'a = int] by simp

lemma access_beyond:
  assumes "access bw nb a len c" "a + len \<le> n" "bw dvd n" "n \<le> 2 ^ 52"
  shows "int (a div nb * nb) + int c * int nb \<le> 2 ^ 53"
proof -
  have "int (a div nb * nb) + int c * int nb = int (beat_at nb a c)"
    by (simp add: beat_at_def)
  then show ?thesis
    using access_end [OF assms(1-3)] small_quot [OF assms(2,4)] by linarith
qed

lemma lanes_ok_access:
  assumes "access bw nb a (length data) c" "a + length data \<le> length mem" "bw dvd length mem" "length mem \<le> 2 ^ 52"
  shows "lanes_ok bw (length mem) (int nb) (int (a div nb * nb)) 0 c (wbeat_of bw nb a data c) (mem_at nb a data mem)"
    and "mem_at nb a data mem 0 = mem" "mem_at nb a data mem c = splice a (a + length data) data mem"
proof -
  show "lanes_ok bw (length mem) (int nb) (int (a div nb * nb)) 0 c (wbeat_of bw nb a data c) (mem_at nb a data mem)"
    unfolding lanes_ok_def
  proof (intro allI impI)
    fix k assume k: "k < c"
    show "write_lanes (fst (wbeat_of bw nb a data c (0 + k))) (snd (wbeat_of bw nb a data c (0 + k)))
        (nat ((int_quot (int (a div nb * nb) + int k * int nb) (int bw) * int bw) mod int (length mem))) [0..<bw] (mem_at nb a data mem (0 + k)) =
      Inr (mem_at nb a data mem (0 + k + 1))"
      using wbeat_spec(2) [OF assms(1) k assms(2,3)] word_of_quot [OF assms(1) k assms(2,3)] small_quot [OF assms(2,4)] by simp
  qed
  show "mem_at nb a data mem 0 = mem" "mem_at nb a data mem c = splice a (a + length data) data mem"
    using access_beats(1,2) [OF assms(1)] by (simp_all add: mem_at_def pos_at_def min_absorb1)
qed

text \<open>The way of a write through the channels and back.\<close>

lemma axi_write_steps:
  assumes sent: "axi_write_logic p m0 = Inr (m\<lparr>in_flight_operations := in_flight_operations m + 1, cur_write_id := i, int_write_addr_queue := as,
      int_write_data_queue := ws, int_write_resp_command_queue := [(addr, len, length as, prot)]\<rparr>)"
    and run: "iterE (length as) (ram_write_logic (ax_bw p)) (r\<lparr>ram_write_addr_queue := as, ram_write_data_queue := ws\<rparr>) =
      Inr (r\<lparr>ram_mem := mem, ram_write_resp_queue := map (\<lambda>a. (aa_id a, 0)) as\<rparr>)"
    and id: "ax_idw p \<noteq> None" and q: "axi_quiet m" "ram_quiet r"
  shows "axi_write p (m0, r) = Inr (m\<lparr>cur_write_id := i, write_resp_queue := write_resp_queue m @ [(addr, len, prot, 0)]\<rparr>, r\<lparr>ram_mem := mem\<rparr>)"
proof -
  let ?m = "m\<lparr>in_flight_operations := in_flight_operations m + 1, cur_write_id := i, int_write_addr_queue := [],
      int_write_data_queue := ws, int_write_resp_command_queue := [(addr, len, length as, prot)]\<rparr>"
  let ?m' = "?m\<lparr>int_write_data_queue := []\<rparr>" and ?r = "r\<lparr>ram_write_addr_queue := as, ram_write_data_queue := ws\<rparr>"
  let ?r' = "r\<lparr>ram_mem := mem, ram_write_resp_queue := map (\<lambda>a. (aa_id a, 0)) as\<rparr>"
  have wire: "wire_id p = (\<lambda>j. j)" "wire_addr p = (\<lambda>a. a)"
    using id by (auto simp: wire_id_def wire_addr_def fun_eq_iff)
  have x1: "write_addr_transfer p (?m\<lparr>int_write_addr_queue := as\<rparr>) r = Inr (?m, r\<lparr>ram_write_addr_queue := as\<rparr>)"
    using id q(2) by (simp add: write_addr_transfer_def ram_quiet_def wire map_idI)
  have x2: "write_data_transfer ?m (r\<lparr>ram_write_addr_queue := as\<rparr>) = (?m', ?r)"
    using q(2) by (simp add: write_data_transfer_def ram_quiet_def)
  have x3: "write_resp_transfer p ?m' ?r' = (?m'\<lparr>int_write_resp_queue := map (\<lambda>a. (aa_id a, 0, 0)) as\<rparr>, r\<lparr>ram_mem := mem\<rparr>)"
    using q by (simp add: write_resp_transfer_def axi_quiet_def ram_quiet_def comp_def wire)
  have x4: "axi_write_resp_logic (?m'\<lparr>int_write_resp_queue := map (\<lambda>a. (aa_id a, 0, 0)) as\<rparr>) =
      Inr (m\<lparr>cur_write_id := i, write_resp_queue := write_resp_queue m @ [(addr, len, prot, 0)]\<rparr>)"
    using q(1) take_okay [of as 0 "[]"] by (cases m) (simp add: axi_write_resp_logic_def axi_quiet_def)
  have sent': "axi_write_logic p m0 = Inr (?m\<lparr>int_write_addr_queue := as\<rparr>)"
    using sent by simp
  show ?thesis
    unfolding axi_write_def prod.case sent' bindE_Inr x1 x2 Let_def using run x3 x4 by simp
qed

lemma axi_write_correct:
  assumes fits: "axi_fits p sz addr (length data) (ram_size r)" and id: "ax_idw p \<noteq> None" and at: "axi_burst at = BURST_INCR"
    and q: "axi_quiet m" "ram_quiet r"
  shows "\<exists>i. axi_write p (init_write addr data sz at m, r) =
    Inr (m\<lparr>cur_write_id := i, write_resp_queue := write_resp_queue m @ [(addr, int (length data), axi_prot at, 0)]\<rparr>,
      r\<lparr>ram_mem := splice (nat addr) (nat addr + length data) data (ram_mem r)\<rparr>)"
proof -
  obtain s a where s: "burst_size (ax_bw p) sz = Inr (s, 2 ^ s)" "2 ^ s dvd (4096 :: nat)" "2 ^ s \<le> ax_bw p" and a: "addr = int a"
    and acc: "access (ax_bw p) (2 ^ s) a (length data) (nat (beats_of addr (int (length data)) (2 ^ s)))" "a + length data \<le> ram_size r"
      "ax_bw p dvd ram_size r" "ram_size r \<le> 2 ^ 52"
    using fits_access [OF fits] by blast
  define c where "c = nat (beats_of addr (int (length data)) (2 ^ s))"
  note acc = acc [folded c_def]
  let ?cur = "int (a div 2 ^ s * 2 ^ s)" and ?f = "wbeat_of (ax_bw p) (2 ^ s) a data c" and ?M = "mem_at (2 ^ s) a data (ram_mem r)"
  obtain bs i where b: "bursts_ok (2 ^ s) ?cur c bs"
    "axi_write_logic p (init_write addr data sz at m) = Inr (m\<lparr>in_flight_operations := in_flight_operations m + 1, cur_write_id := i,
      int_write_addr_queue := addrs_of p at s (cur_write_id m) ?cur bs, int_write_data_queue := beats_seq ?f 0 bs,
      int_write_resp_command_queue := [(addr, int (length data), length bs, axi_prot at)]\<rparr>)"
    using axi_write_logic_sends [OF acc s(1,2) _ q(1), of at] unfolding a c_def by blast
  have len: "length (ram_mem r) = ram_size r"
    using q(2) by (simp add: ram_quiet_def)
  note lanes = lanes_ok_access [of "ax_bw p" "2 ^ s" a data c "ram_mem r", unfolded len, OF acc]
  let ?as = "addrs_of p at s (cur_write_id m) ?cur bs"
  let ?r = "r\<lparr>ram_write_addr_queue := ?as, ram_write_data_queue := beats_seq ?f 0 bs\<rparr>"
  have "iterE (length bs) (ram_write_logic (ax_bw p)) ?r = Inr (?r\<lparr>ram_mem := ?M (0 + c), ram_write_addr_queue := [], ram_write_data_queue := [],
      ram_write_resp_queue := ram_write_resp_queue ?r @ map (\<lambda>a. (aa_id a, 0)) ?as\<rparr>)"
    using at s(3) b(1) access_beyond [OF acc] lanes(1,2) by (intro ram_writes [where k = 0]) simp_all
  then have "iterE (length ?as) (ram_write_logic (ax_bw p)) ?r = Inr (r\<lparr>ram_mem := splice a (a + length data) data (ram_mem r),
      ram_write_resp_queue := map (\<lambda>a. (aa_id a, 0)) ?as\<rparr>)"
    using lanes(3) q(2) by (simp add: ram_quiet_def)
  then have "axi_write p (init_write addr data sz at m, r) =
      Inr (m\<lparr>cur_write_id := i, write_resp_queue := write_resp_queue m @ [(addr, int (length data), axi_prot at, 0)]\<rparr>,
        r\<lparr>ram_mem := splice a (a + length data) data (ram_mem r)\<rparr>)"
    using b(2) id q by (intro axi_write_steps [where as = ?as and ws = "beats_seq ?f 0 bs"]) simp_all
  then show ?thesis
    unfolding a nat_int by blast
qed

lemma axi_read_logic_sends:
  assumes acc: "access (ax_bw p) (2 ^ s) a len c" "a + len \<le> n" "n \<le> 2 ^ 52"
    and s: "burst_size (ax_bw p) sz = Inr (s, 2 ^ s)" "2 ^ s dvd (4096 :: nat)" "c = nat (beats_of (int a) (int len) (2 ^ s))"
    and m: "axi_quiet m"
  shows "\<exists>bs i. bursts_ok (2 ^ s) (int (a div 2 ^ s * 2 ^ s)) c bs \<and>
    axi_read_logic p (init_read (int a) (int len) sz at m) = Inr (m\<lparr>in_flight_operations := in_flight_operations m + 1, cur_read_id := i,
      int_read_addr_queue := addrs_of p at s (cur_read_id m) (int (a div 2 ^ s * 2 ^ s)) bs,
      int_read_resp_command_queue := [(int a, int len, s, int c, axi_prot at, ids_of p (cur_read_id m) bs)]\<rparr>)"
proof -
  let ?nb = "2 ^ s :: nat" and ?m = "m\<lparr>in_flight_operations := in_flight_operations m + 1\<rparr>"
  let ?l = "\<lparr>rl_addr = int (a div ?nb * ?nb), rl_n = 0, rl_burst = 0, rl_list = [], rl_master = ?m\<rparr>"
  have al: "int_quot (int a) (2 ^ s) = int (a div ?nb)"
    using small_quot [OF acc(2,3)] by (simp add: zdiv_int)
  obtain bs l' i where r: "bursts_ok (int ?nb) (int (a div ?nb * ?nb)) c bs" "fold (read_cycle p at s ?nb c) [0..<c] ?l = l'"
      "rl_list l' = ids_of p (cur_read_id m) bs"
      "rl_master l' = ?m\<lparr>cur_read_id := i, int_read_addr_queue := addrs_of p at s (cur_read_id m) (int (a div ?nb * ?nb)) bs\<rparr>"
    using read_bursts [OF refl s(2), of 0 c ?l p at] m by (auto simp: axi_quiet_def)
  have q0: "m\<lparr>read_command_queue := [], in_flight_operations := in_flight_operations m + 1\<rparr> = ?m"
    using m by (cases m) (simp add: axi_quiet_def)
  have "axi_read_logic p (init_read (int a) (int len) sz at m) = Inr ((rl_master l')\<lparr>int_read_resp_command_queue :=
        int_read_resp_command_queue (rl_master l') @ [(int a, int len, s, int c, axi_prot at, rl_list l')]\<rparr>)"
    using m s(1,3) r(2) by (simp add: axi_read_logic_def init_read_def axi_quiet_def Let_def al q0)
  then show ?thesis
    using m r by (intro exI [of _ bs] exI [of _ i]) (simp add: axi_quiet_def)
qed

definition rword_of :: "nat \<Rightarrow> nat \<Rightarrow> nat \<Rightarrow> byte list \<Rightarrow> nat \<Rightarrow> int" where
  "rword_of bw nb a mem k = le_int (slice (word_at bw nb a k) (word_at bw nb a k + bw) mem)"

definition data_at :: "nat \<Rightarrow> nat \<Rightarrow> byte list \<Rightarrow> nat \<Rightarrow> byte list" where
  "data_at nb a mem k = slice a (if k = 0 then a else beat_at nb a k) mem"

lemma read_plan_access:
  assumes "access bw nb a len c" "a + len \<le> length mem" "bw dvd length mem" "length mem \<le> 2 ^ 52"
  shows "words_ok bw (length mem) mem (int nb) (int (a div nb * nb)) 0 c (rword_of bw nb a mem)"
    and "data_plan bw nb (a mod bw) c (rword_of bw nb a mem) (lane_at bw nb a) (data_at nb a mem)"
    and "take len (data_at nb a mem c) = slice a (a + len) mem"
proof -
  show "words_ok bw (length mem) mem (int nb) (int (a div nb * nb)) 0 c (rword_of bw nb a mem)"
    unfolding words_ok_def Let_def
    using word_of_quot [OF assms(1) _ assms(2,3)] word_fits [OF assms(1) _ assms(2,3)] small_quot [OF assms(2,4)] by (simp add: rword_of_def)
  have nb: "0 < nb" "0 < bw" "nb dvd bw"
    using assms(1) by (simp_all add: access_def)
  show "data_plan bw nb (a mod bw) c (rword_of bw nb a mem) (lane_at bw nb a) (data_at nb a mem)"
    unfolding data_plan_def
  proof (intro allI impI conjI)
    fix k assume k: "k < c"
    show "lane_at bw nb a (Suc k) = (lane_at bw nb a k + nb) mod bw"
      by (rule lane_fits(2) [OF nb])
    let ?st = "if k = 0 then a mod bw else lane_at bw nb a k" and ?W = "word_at bw nb a k" and ?P = "if k = 0 then a else beat_at nb a k"
    have P: "?W + ?st = ?P" "?W + (lane_at bw nb a k + nb) = beat_at nb a (Suc k)"
      using access_start [OF assms(1) k] word_lane [of bw nb a k] by (auto simp: pos_at_def beat_at_Suc)
    have "lane_bytes (rword_of bw nb a mem k) [?st..<lane_at bw nb a k + nb] = slice (?W + ?st) (?W + (lane_at bw nb a k + nb)) mem"
      using lane_fits(1) [OF nb, of a k] word_fits [OF assms(1) k assms(2,3)] by (simp add: rword_of_def lane_bytes_le_int slice_slice)
    moreover have "a \<le> ?P" "?P \<le> beat_at nb a (Suc k)"
      using access_beats(4,5) [OF assms(1)] beat_at_mono [of 1 k nb a] beat_at_mono [of 1 "Suc k" nb a] by (auto simp: beat_at_Suc)
    ultimately show "data_at nb a mem (Suc k) = data_at nb a mem k @ lane_bytes (rword_of bw nb a mem k) [?st..<lane_at bw nb a k + nb]"
      unfolding P data_at_def by (simp add: slice_append_slice)
  qed
  show "take len (data_at nb a mem c) = slice a (a + len) mem"
    using access_beats(1,2) [OF assms(1)] by (simp add: data_at_def slice_def)
qed

lemma axi_read_steps:
  assumes sent: "axi_read_logic p m0 = Inr (m\<lparr>in_flight_operations := in_flight_operations m + 1, cur_read_id := i, int_read_addr_queue := as,
      int_read_resp_command_queue := [(addr, len, s, c, prot, bl)]\<rparr>)"
    and run: "iterE (length as) (ram_read_logic (ax_bw p)) (r\<lparr>ram_read_addr_queue := as\<rparr>) = Inr (r\<lparr>ram_read_resp_queue := rs\<rparr>)"
    and got: "s \<le> log_bw (ax_bw p)"
      "foldE (read_burst (ax_bw p) (2 ^ s) (nat (addr mod int (ax_bw p)))) bl
         \<lparr>rd_cycle = nat (int_quot addr (int (2 ^ s)) * int (2 ^ s) - int_quot addr (int (ax_bw p)) * int (ax_bw p)), rd_first = True, rd_resp = 0,
           rd_data = [], rd_queues = queues_of rs\<rparr> = Inr d" "rd_resp d = 0" "rd_queues d = (\<lambda>_. [])"
    and q: "axi_quiet m" "ram_quiet r" and wire: "map (wire_addr p) as = as" "\<forall>x\<in>set rs. wire_id p (fst x) = fst x"
  shows "axi_read p (m0, r) = Inr (m\<lparr>cur_read_id := i, read_data_queue := read_data_queue m @ [(addr, take (nat len) (rd_data d), prot, 0)]\<rparr>, r)"
proof -
  let ?m = "m\<lparr>in_flight_operations := in_flight_operations m + 1, cur_read_id := i, int_read_addr_queue := [],
      int_read_resp_command_queue := [(addr, len, s, c, prot, bl)]\<rparr>"
  have x1: "read_addr_transfer p (?m\<lparr>int_read_addr_queue := as\<rparr>) r = (?m, r\<lparr>ram_read_addr_queue := as\<rparr>)"
    using q(2) wire by (simp add: read_addr_transfer_def ram_quiet_def)
  have x2: "read_resp_transfer p ?m (r\<lparr>ram_read_resp_queue := rs\<rparr>) = (?m\<lparr>int_read_resp_queue_list := queues_of rs\<rparr>, r)"
    using q by (cases r) (simp add: read_resp_transfer_def put_read_beats [OF wire(2)] axi_quiet_def ram_quiet_def)
  have x3: "axi_read_resp_logic p (?m\<lparr>int_read_resp_queue_list := queues_of rs\<rparr>) =
      Inr (m\<lparr>cur_read_id := i, read_data_queue := read_data_queue m @ [(addr, take (nat len) (rd_data d), prot, 0)]\<rparr>)"
    using q(1) got by (cases m) (simp add: axi_read_resp_logic_def axi_quiet_def Let_def assertE_def)
  have sent': "axi_read_logic p m0 = Inr (?m\<lparr>int_read_addr_queue := as\<rparr>)"
    using sent by simp
  show ?thesis
    unfolding axi_read_def prod.case sent' bindE_Inr x1 Let_def using run x2 x3 by simp
qed

lemma axi_read_correct:
  assumes fits: "axi_fits p sz addr len (ram_size r)" and at: "axi_burst at = BURST_INCR" and q: "axi_quiet m" "ram_quiet r"
    and id: "ax_idw p = None \<longrightarrow> cur_read_id m = 0"
  shows "\<exists>i. axi_read p (init_read addr (int len) sz at m, r) =
    Inr (m\<lparr>cur_read_id := i, read_data_queue := read_data_queue m @ [(addr, slice (nat addr) (nat addr + len) (ram_mem r), axi_prot at, 0)]\<rparr>, r)"
proof -
  obtain s a where s: "burst_size (ax_bw p) sz = Inr (s, 2 ^ s)" "2 ^ s dvd (4096 :: nat)" "2 ^ s \<le> ax_bw p" "s \<le> log_bw (ax_bw p)" and a: "addr = int a"
    and acc: "access (ax_bw p) (2 ^ s) a len (nat (beats_of addr (int len) (2 ^ s)))" "a + len \<le> ram_size r" "ax_bw p dvd ram_size r" "ram_size r \<le> 2 ^ 52"
    using fits_access [OF fits] by blast
  define c where "c = nat (beats_of addr (int len) (2 ^ s))"
  note acc = acc [folded c_def]
  let ?cur = "int (a div 2 ^ s * 2 ^ s)" and ?g = "rword_of (ax_bw p) (2 ^ s) a (ram_mem r)" and ?D = "data_at (2 ^ s) a (ram_mem r)"
  obtain bs i where b: "bursts_ok (2 ^ s) ?cur c bs"
    "axi_read_logic p (init_read addr (int len) sz at m) = Inr (m\<lparr>in_flight_operations := in_flight_operations m + 1, cur_read_id := i,
      int_read_addr_queue := addrs_of p at s (cur_read_id m) ?cur bs,
      int_read_resp_command_queue := [(addr, int len, s, int c, axi_prot at, ids_of p (cur_read_id m) bs)]\<rparr>)"
    using axi_read_logic_sends [OF acc(1,2,4) s(1,2) _ q(1), of at] unfolding a c_def by blast
  have len: "length (ram_mem r) = ram_size r"
    using q(2) by (simp add: ram_quiet_def)
  note plan = read_plan_access [of "ax_bw p" "2 ^ s" a len c "ram_mem r", unfolded len, OF acc]
  let ?as = "addrs_of p at s (cur_read_id m) ?cur bs" and ?rs = "rbeats_seq p ?g (cur_read_id m) 0 bs"
  have "iterE (length bs) (ram_read_logic (ax_bw p)) (r\<lparr>ram_read_addr_queue := ?as\<rparr>) =
      Inr (r\<lparr>ram_read_addr_queue := ?as, ram_read_addr_queue := [], ram_read_resp_queue := ram_read_resp_queue (r\<lparr>ram_read_addr_queue := ?as\<rparr>) @ ?rs\<rparr>)"
    using at s(3) b(1) access_beyond [OF acc] plan(1) by (intro ram_reads [where k = 0]) simp_all
  then have run: "iterE (length ?as) (ram_read_logic (ax_bw p)) (r\<lparr>ram_read_addr_queue := ?as\<rparr>) = Inr (r\<lparr>ram_read_resp_queue := ?rs\<rparr>)"
    using q(2) by (cases r) (simp add: ram_quiet_def)
  let ?d = "\<lparr>rd_cycle = lane_at (ax_bw p) (2 ^ s) a 0, rd_first = True, rd_resp = 0, rd_data = [], rd_queues = queues_of ?rs\<rparr>"
  obtain d where d: "foldE (read_burst (ax_bw p) (2 ^ s) (a mod ax_bw p)) (ids_of p (cur_read_id m) bs) ?d = Inr d" "rd_data d = ?D c"
      "rd_resp d = 0" "rd_queues d = (\<lambda>_. [])"
    using read_all_bursts [OF plan(2), of "2 ^ s" ?cur 0 bs ?d p "cur_read_id m"] b(1) by (auto simp: data_at_def)
  have "axi_read p (init_read addr (int len) sz at m, r) =
      Inr (m\<lparr>cur_read_id := i, read_data_queue := read_data_queue m @ [(addr, take (nat (int len)) (rd_data d), axi_prot at, 0)]\<rparr>, r)"
    by (rule axi_read_steps [OF b(2) run s(4) _ d(3,4) q wire_addrs [OF id] wire_beats [OF id]]) (use d(1) access_lane [OF acc] in \<open>simp add: a\<close>)
  then show ?thesis
    using plan(3) d(2) unfolding a nat_int by auto
qed

lemma quiet_updates:
  "axi_quiet m \<Longrightarrow> axi_quiet (m\<lparr>cur_write_id := i, write_resp_queue := x\<rparr>)"
  "ram_quiet r \<Longrightarrow> length mem = ram_size r \<Longrightarrow> ram_quiet (r\<lparr>ram_mem := mem\<rparr>)"
  by (simp_all add: axi_quiet_def ram_quiet_def)

text \<open>C22. A write of the master, cut into bursts and beats, reaches the memory as the bytes that were written and nothing else
  changes; it is answered once, without an error; and a read of the same bytes returns them. The beats of the write and those of
  the read may have any, and different, sizes.\<close>

theorem axi_write_read:
  assumes "axi_fits p sz addr (length data) (ram_size r)" "axi_fits p sz' addr (length data) (ram_size r)"
    and "ax_idw p \<noteq> None" "axi_burst at = BURST_INCR" "axi_burst at' = BURST_INCR" "axi_quiet m" "ram_quiet r"
  shows "\<exists>m1 r1 m2. axi_write p (init_write addr data sz at m, r) = Inr (m1, r1) \<and>
    ram_mem r1 = splice (nat addr) (nat addr + length data) data (ram_mem r) \<and>
    write_resp_queue m1 = write_resp_queue m @ [(addr, int (length data), axi_prot at, 0)] \<and>
    axi_read p (init_read addr (int (length data)) sz' at' m1, r1) = Inr (m2, r1) \<and>
    read_data_queue m2 = read_data_queue m @ [(addr, data, axi_prot at', 0)]"
proof -
  let ?mem = "splice (nat addr) (nat addr + length data) data (ram_mem r)"
  obtain i where w: "axi_write p (init_write addr data sz at m, r) =
    Inr (m\<lparr>cur_write_id := i, write_resp_queue := write_resp_queue m @ [(addr, int (length data), axi_prot at, 0)]\<rparr>, r\<lparr>ram_mem := ?mem\<rparr>)"
    (is "_ = Inr (?m, ?r)")
    using axi_write_correct [OF assms(1,3,4,6,7)] by blast
  have len: "nat addr + length data \<le> length (ram_mem r)"
    using assms(1,7) by (auto simp: axi_fits_def ram_quiet_def)
  then have "length ?mem = ram_size r"
    using assms(7) by (simp add: length_splice ram_quiet_def)
  then have "axi_quiet ?m" "ram_quiet ?r"
    using quiet_updates assms(6,7) by blast+
  then obtain j where "axi_read p (init_read addr (int (length data)) sz' at' ?m, ?r) =
      Inr (?m\<lparr>cur_read_id := j, read_data_queue := read_data_queue ?m @ [(addr, slice (nat addr) (nat addr + length data) (ram_mem ?r), axi_prot at', 0)]\<rparr>, ?r)"
    using axi_read_correct [of p sz' addr "length data" ?r at' ?m] assms(2,3,5) by auto
  moreover have "slice (nat addr) (nat addr + length data) ?mem = data"
    using len by (simp add: slice_splice_same)
  ultimately show ?thesis
    using w by simp
qed

lemma addrs_of_legal:
  "bursts_ok (2 ^ s) cur left bs \<Longrightarrow> a \<in> set (addrs_of p at s i cur bs) \<Longrightarrow>
   0 \<le> aa_len a \<and> aa_len a \<le> 255 \<and> aa_addr a mod 4096 + (aa_len a + 1) * 2 ^ aa_size a \<le> 4096"
  by (induction bs arbitrary: cur left i) auto

lemma beats_seq_length: "length (beats_seq f k bs) = sum_list bs"
  by (induction bs arbitrary: k) simp_all

lemma addrs_of_beats: "bursts_ok (2 ^ s) cur left bs \<Longrightarrow> (\<Sum>a\<leftarrow>addrs_of p at s i cur bs. aa_len a + 1) = int (sum_list bs)"
  by (induction bs arbitrary: cur left i) auto

text \<open>C23. Every burst that the master issues, for a write or a read, is a legal one: it has between 1 and 256 beats and does not cross
  a boundary of 4 KB. A write has as many data beats as its bursts announce.\<close>

theorem axi_bursts_legal:
  assumes "axi_fits p sz addr (length data) n" "axi_quiet m"
  shows "\<exists>m1 m2. axi_write_logic p (init_write addr data sz at m) = Inr m1 \<and> axi_read_logic p (init_read addr (int (length data)) sz at m) = Inr m2 \<and>
    (\<forall>a\<in>set (int_write_addr_queue m1) \<union> set (int_read_addr_queue m2).
       0 \<le> aa_len a \<and> aa_len a \<le> 255 \<and> aa_addr a mod 4096 + (aa_len a + 1) * 2 ^ aa_size a \<le> 4096) \<and>
    (\<Sum>a\<leftarrow>int_write_addr_queue m1. aa_len a + 1) = int (length (int_write_data_queue m1))"
proof -
  obtain s a where s: "burst_size (ax_bw p) sz = Inr (s, 2 ^ s)" "2 ^ s dvd (4096 :: nat)" and a: "addr = int a"
    and acc: "access (ax_bw p) (2 ^ s) a (length data) (nat (beats_of addr (int (length data)) (2 ^ s)))" "a + length data \<le> n" "ax_bw p dvd n" "n \<le> 2 ^ 52"
    using fits_access [OF assms(1)] by blast
  define c where "c = nat (beats_of addr (int (length data)) (2 ^ s))"
  note acc = acc [folded c_def]
  obtain bs i bs' i' where b: "bursts_ok (2 ^ s) (int (a div 2 ^ s * 2 ^ s)) c bs" "bursts_ok (2 ^ s) (int (a div 2 ^ s * 2 ^ s)) c bs'"
    and w: "axi_write_logic p (init_write addr data sz at m) = Inr (m\<lparr>in_flight_operations := in_flight_operations m + 1, cur_write_id := i,
      int_write_addr_queue := addrs_of p at s (cur_write_id m) (int (a div 2 ^ s * 2 ^ s)) bs,
      int_write_data_queue := beats_seq (wbeat_of (ax_bw p) (2 ^ s) a data c) 0 bs,
      int_write_resp_command_queue := [(addr, int (length data), length bs, axi_prot at)]\<rparr>)"
    and r: "axi_read_logic p (init_read addr (int (length data)) sz at m) = Inr (m\<lparr>in_flight_operations := in_flight_operations m + 1, cur_read_id := i',
      int_read_addr_queue := addrs_of p at s (cur_read_id m) (int (a div 2 ^ s * 2 ^ s)) bs',
      int_read_resp_command_queue := [(addr, int (length data), s, int c, axi_prot at, ids_of p (cur_read_id m) bs')]\<rparr>)"
    using axi_write_logic_sends [OF acc s _ assms(2), of at] axi_read_logic_sends [OF acc(1,2,4) s _ assms(2), of at] unfolding a c_def by blast
  show ?thesis
    unfolding w r using addrs_of_legal [OF b(1)] addrs_of_legal [OF b(2)] addrs_of_beats [OF b(1)] by (auto simp: beats_seq_length)
qed

text \<open>C38. On an interface without identifiers every write fails: the process that drives the write address channel assigns to
  \<open>m_axi_awid\<close>, which is \<open>None\<close>. Its read counterpart asks first, and reads work.\<close>

theorem axi_write_no_id_fails:
  assumes "axi_fits p sz addr (length data) (ram_size r)" "ax_idw p = None" "axi_burst at = BURST_INCR" "axi_quiet m" "ram_quiet r"
    and "cur_read_id m = 0"
  shows "axi_write p (init_write addr data sz at m, r) = Inl AttributeError \<and>
    (\<exists>m'. axi_read p (init_read addr (int (length data)) sz at m, r) = Inr (m', r))"
proof -
  obtain s a where s: "burst_size (ax_bw p) sz = Inr (s, 2 ^ s)" "2 ^ s dvd (4096 :: nat)" and a: "addr = int a"
    and acc: "access (ax_bw p) (2 ^ s) a (length data) (nat (beats_of addr (int (length data)) (2 ^ s)))" "a + length data \<le> ram_size r"
      "ax_bw p dvd ram_size r" "ram_size r \<le> 2 ^ 52"
    using fits_access [OF assms(1)] by blast
  define c where "c = nat (beats_of addr (int (length data)) (2 ^ s))"
  note acc = acc [folded c_def]
  obtain bs i where b: "bursts_ok (2 ^ s) (int (a div 2 ^ s * 2 ^ s)) c bs"
    and w: "axi_write_logic p (init_write addr data sz at m) = Inr (m\<lparr>in_flight_operations := in_flight_operations m + 1, cur_write_id := i,
      int_write_addr_queue := addrs_of p at s (cur_write_id m) (int (a div 2 ^ s * 2 ^ s)) bs,
      int_write_data_queue := beats_seq (wbeat_of (ax_bw p) (2 ^ s) a data c) 0 bs,
      int_write_resp_command_queue := [(addr, int (length data), length bs, axi_prot at)]\<rparr>)"
    using axi_write_logic_sends [OF acc s _ assms(4), of at] unfolding a c_def by blast
  have "bs \<noteq> []"
    using b access_beats(1) [OF acc(1)] by auto
  then have "axi_write p (init_write addr data sz at m, r) = Inl AttributeError"
    unfolding axi_write_def prod.case w bindE_Inr using assms(2) by (cases bs) (simp_all add: write_addr_transfer_def)
  then show ?thesis
    using axi_read_correct [OF assms(1,3,4,5)] assms(6) by blast
qed

definition demo_port :: axi_port where
  "demo_port = \<lparr>ax_bw = 4, ax_idw = Some 8\<rparr>"

definition demo_ram :: axi_ram where
  "demo_ram = AXIRam 8192"

definition demo_data :: "byte list" where
  "demo_data = [1, 2, 3, 4, 5, 6, 7]"

lemma demo_fits:
  "axi_fits demo_port None 4093 (length demo_data) (ram_size demo_ram)" "axi_fits demo_port (Some 1) 4093 (length demo_data) (ram_size demo_ram)"
  "axi_fits (demo_port\<lparr>ax_idw := None\<rparr>) None 4093 (length demo_data) (ram_size demo_ram)"
  "axi_quiet AXIMaster" "ram_quiet demo_ram" "axi_burst axi_attr_default = BURST_INCR" "ax_idw demo_port \<noteq> None"
  by (simp_all add: axi_fits_def bw_ok_def demo_port_def demo_data_def demo_ram_def AXIRam_def axi_quiet_def AXIMaster_def ram_quiet_def
      axi_attr_default_def BURST_INCR_def)

theorem axi_write_read_witness:
  "axi_fits demo_port None 4093 (length demo_data) (ram_size demo_ram) \<and> axi_quiet AXIMaster \<and> ram_quiet demo_ram \<and>
   (\<exists>m1 r1 m2. axi_write demo_port (init_write 4093 demo_data None axi_attr_default AXIMaster, demo_ram) = Inr (m1, r1) \<and>
    ram_mem r1 = splice (nat 4093) (nat 4093 + length demo_data) demo_data (ram_mem demo_ram) \<and>
    write_resp_queue m1 = write_resp_queue AXIMaster @ [(4093, int (length demo_data), axi_prot axi_attr_default, 0)] \<and>
    axi_read demo_port (init_read 4093 (int (length demo_data)) (Some 1) axi_attr_default m1, r1) = Inr (m2, r1) \<and>
    read_data_queue m2 = read_data_queue AXIMaster @ [(4093, demo_data, axi_prot axi_attr_default, 0)])"
  using axi_write_read [OF demo_fits(1,2,7,6,6,4,5)] demo_fits by blast

theorem axi_bursts_legal_witness:
  "axi_fits demo_port (Some 1) 4093 (length demo_data) (ram_size demo_ram) \<and> axi_quiet AXIMaster \<and>
   (\<exists>m1 m2. axi_write_logic demo_port (init_write 4093 demo_data (Some 1) axi_attr_default AXIMaster) = Inr m1 \<and>
    axi_read_logic demo_port (init_read 4093 (int (length demo_data)) (Some 1) axi_attr_default AXIMaster) = Inr m2 \<and>
    (\<forall>a\<in>set (int_write_addr_queue m1) \<union> set (int_read_addr_queue m2).
       0 \<le> aa_len a \<and> aa_len a \<le> 255 \<and> aa_addr a mod 4096 + (aa_len a + 1) * 2 ^ aa_size a \<le> 4096) \<and>
    (\<Sum>a\<leftarrow>int_write_addr_queue m1. aa_len a + 1) = int (length (int_write_data_queue m1)))"
  using axi_bursts_legal [OF demo_fits(2,4)] demo_fits by blast

theorem axi_write_no_id_fails_witness:
  "axi_fits (demo_port\<lparr>ax_idw := None\<rparr>) None 4093 (length demo_data) (ram_size demo_ram) \<and>
   axi_write (demo_port\<lparr>ax_idw := None\<rparr>) (init_write 4093 demo_data None axi_attr_default AXIMaster, demo_ram) = Inl AttributeError \<and>
   (\<exists>m'. axi_read (demo_port\<lparr>ax_idw := None\<rparr>) (init_read 4093 (int (length demo_data)) None axi_attr_default AXIMaster, demo_ram) = Inr (m', demo_ram))"
  using axi_write_no_id_fails [OF demo_fits(3) _ demo_fits(6,4,5)] demo_fits(3) by (simp add: AXIMaster_def)

lemma bit_length_54: "bit_length 9007199254740999 = 54"
  by (simp add: bit_length.simps)

lemma int_quot_rounds: "int_quot 9007199254740999 8 = 1125899906842625"
proof -
  have "\<not> (9007199254740999 :: int) < 2 ^ 53"
    by simp
  then show ?thesis
    unfolding int_quot_def by (simp only: if_False) (simp add: Let_def bit_length_54 bit_length_widths, simp add: round_div_def)
qed

text \<open>Above \<open>2 ^ 53\<close> the division in floating point rounds, and a burst starts behind its own address.\<close>

lemma axi_align_rounds: "burst_start 8 \<lparr>aa_addr = 2 ^ 53 + 7, aa_id = 0, aa_len = 0, aa_size = 3, aa_attr = axi_attr_default\<rparr> = Inr (2 ^ 53 + 8)"
  by (simp add: burst_start_def int_quot_rounds Let_def assertE_def)

end
