(* ===== verification/Spec2Isabelle.thy ===== *)
theory Spec2Isabelle
  imports Pcie_Enumerate Pcie_Port Pcie_UsDevice Mqnic_Host Eth_Frames Axi_Mem
begin

text \<open>
  Verification of the simulation models of the Ringleader NIC. The NIC's hardware is exercised against a model of the machine
  around it, written in Python: a PCI Express hierarchy with its root complex, the PCIe hard block of the FPGA, the host driver,
  the AXI bus inside the chip and the frames on the network side. This library models that code and proves what its users rely on. Paths are relative to
  \<open>src/hardware/fpga/\<close>.

  \<^bold>\<open>The program and its parts.\<close> The driver (\<open>common/tb/mqnic.py\<close>) allocates descriptor rings and packet buffers in host regions
  of the root complex, programs the NIC's registers by memory reads and writes, and reacts to message signalled interrupts. The
  root complex (\<open>lib/pcie/tb/pcie.py\<close>) turns these accesses into transaction layer packets, sends them through its host bridge,
  root ports and switches to the functions of devices, and serves the DMA requests that come back. Enumeration walks the bus,
  numbers it and gives every base address register a window. A device with a hard block (\<open>lib/pcie/tb/pcie_us.py\<close>,
  \<open>pcie_usp.py\<close>) hands the packets to the user logic over four streaming interfaces. Frames of the network side are built and
  parsed by \<open>lib/eth/tb/\<close>. Masters and memories on the AXI bus are those of \<open>lib/axi/tb/axi.py\<close>.

  \<^bold>\<open>Theories.\<close> Each definition bears the name of the method it models, prefixed where two classes share a name.

  \<^item> \<open>Prelude\<close>: the error monad (\<open>res\<close>, one constructor of \<open>py_error\<close> per exception), bytes, \<open>struct\<close> formats, slices, bit masks.
  \<^item> \<open>Pcie_Base\<close>: \<open>align\<close>, \<open>byte_mask_update\<close>, \<open>PcieId\<close>. \<open>Pcie_Cap\<close>: \<open>PcieCap\<close>, \<open>PcieExtCap\<close> and their lists.
    \<open>Pcie_CapRegs\<close>: the register blocks \<open>PMCapability\<close>, \<open>PCIECapability\<close>, \<open>MSICapability\<close>, \<open>MSIXCapability\<close>.
  \<^item> \<open>Pcie_Tlp\<close>: the class \<open>TLP\<close>, the record \<open>tlp\<close>; byte enables, completions, packing.
  \<^item> \<open>Pcie_Requester\<close>, \<open>Pcie_Completer\<close>: the request loops that \<open>Function\<close> and \<open>RootComplex\<close> have in common, and the completion loops
    of their handlers. \<open>Pcie_Function\<close>, \<open>Pcie_Endpoint\<close>, \<open>Pcie_Bar\<close>: \<open>Function\<close>, \<open>Endpoint\<close>, \<open>MemoryEndpoint\<close> and address decoding.
  \<^item> \<open>Pcie_Bridge\<close>, \<open>Pcie_Device\<close>: \<open>Bridge\<close>, the switch ports, \<open>HostBridge\<close>, \<open>RootPort\<close>, \<open>Device\<close>, \<open>Switch\<close>, \<open>TreeItem\<close>.
  \<^item> \<open>Pcie_Port\<close>: \<open>Port\<close> and \<open>BusPort\<close>. The processes that \<open>send\<close> and \<open>transmit\<close> start are interleaved by \<open>tx_step\<close>.
  \<^item> \<open>Pcie_RootComplex\<close>, \<open>Pcie_Enumerate\<close>: \<open>RootComplex\<close>, its regions and accesses; enumeration and interrupts.
  \<^item> \<open>Pcie_Us\<close>: \<open>USPcieFrame\<close> and \<open>TLP_us\<close>, the descriptors of the hard block. \<open>Pcie_UsStream\<close>: the sources and sinks
    (\<open>CQSource\<close> to \<open>RCSink\<close>), one step per clock edge. \<open>Pcie_UsDevice\<close>: \<open>UltrascalePCIe\<close> and \<open>UltrascalePlusPCIe\<close>, that is the queues
    between the port and the streams, credits, sequence numbers, configuration management and status.
  \<^item> \<open>Mqnic_Ring\<close>, \<open>Mqnic_Interface\<close>: \<open>EqRing\<close>, \<open>CqRing\<close>, \<open>TxRing\<close>, \<open>RxRing\<close>, \<open>Port\<close>, \<open>Interface\<close>, \<open>Driver\<close>. \<open>Mqnic_Owner\<close>, \<open>Mqnic_Gather\<close>:
    ownership of packet buffers and the meaning of descriptors. \<open>Mqnic_Host\<close>: the driver on the root complex.
  \<^item> \<open>Eth_Frames\<close>: \<open>EthFrame\<close>, \<open>IPFrame\<close>, \<open>UDPFrame\<close>, \<open>ARPFrame\<close>.
  \<^item> \<open>Axi_Bus\<close>: \<open>AXIMaster\<close> and \<open>AXIRam\<close>, process by process, and their channels. \<open>Axi_Burst\<close>, \<open>Axi_Mem\<close>: the bursts and lanes of a
    command, and what master and memory do together.

  \<^bold>\<open>How the code is represented.\<close> An object is a record of its attributes, a method a function that returns the new record.
  Exceptions, failed assertions and uses of \<open>None\<close> are values of \<open>py_error\<close>. Python integers are \<open>int\<close>; bytes are 8-bit words. A
  coroutine that waits for the answer to a request calls the network as a function (\<open>net\<close>), since requests of one caller are
  sequential; where the order of concurrent processes matters, they are steps of a relation (\<open>tx_step\<close>, \<open>irq_step\<close>, \<open>us_run\<close>). \<open>recv_cpl\<close>
  takes a completion that has arrived at once: the edge of the sync signal that it waits for is not a step of its own. The driver's
  coroutines run to their end; \<open>irq_step\<close> interleaves interrupts with the rounds that serve them, and no other pair of coroutines
  is interleaved.

  \<^bold>\<open>Interfaces.\<close> What a component asks of another is a locale, and each is interpreted on the definitions of the model.

  \<^item> \<open>byte_store\<close> (a region with byte-wise writes): \<open>ep_store\<close> for \<open>MemoryEndpoint\<close>, \<open>rc_store\<close> for \<open>RootComplex\<close>.
  \<^item> \<open>mem_target\<close> (whatever answers memory requests): \<open>ep_target\<close>, \<open>rc_target\<close>. The round trips of host and DMA accesses are proved once.
  \<^item> \<open>nic_host\<close>, \<open>nic_memory\<close> (what the driver needs of the machine it runs on): \<open>rc_nic\<close>, \<open>rc_mem\<close>, both by the root complex of \<open>pcie.py\<close>
    (\<open>rc_host\<close>). The driver's test benches run it on the root complex of the package \<open>cocotbext.pcie\<close>, which is not part of the repository and
    descends from \<open>pcie.py\<close>; the two locales say what is asked of it.
  \<^item> \<open>us_stream\<close> (one streaming interface: beats, keep masks, first and last markers): \<open>cq\<close>, \<open>cc\<close>, \<open>rq\<close>, \<open>rc\<close>.

  \<^bold>\<open>What is shown.\<close>

  \<^item> Host accesses and DMA: what is written is read back, however the host's accesses and the device's writes are split; DMA reads
    are limited to one request, and fail beyond it; a write changes exactly the enabled bytes; \<open>match_bar\<close> decodes windows smaller
    than 4 GiB, and not larger ones.
  \<^item> Enumeration: the windows of an address space are disjoint, aligned to their size and inside the space; it ends; interrupts reach
    their call-backs. The enumeration of a memory endpoint behind the host bridge is evaluated.
  \<^item> Routing and transport: bridges route by the windows that the host programs, a bus delivers to one device, a port loses no packet
    and keeps their order unless two calls of \<open>send\<close> overlap.
  \<^item> Streaming: every interface refines a queue under any back-pressure and delivers all frames; descriptors and parity are
    faithful; the credits keep the order of requests and lose none.
  \<^item> Driver: no packet buffer is ever in two places; the descriptors of a transmission gather exactly the packet; 16-bit
    pointers are reconstructed exactly; no interrupt is lost; ring clean-up ends where it should.
  \<^item> Frames: building and parsing are inverse and both checksums agree with the one's complement sum over the wire bytes.
  \<^item> AXI: bursts are legal, channels are queues under any pauses, a write changes exactly its bytes and a read returns them.
  \<^item> Errors: theorems that pin down where the code fails or deviates: unpacking a packed read request, DMA reads of more than one
    request, 64-bit windows of 4 GiB, AXI writes without identifiers, and the lemmas \<open>register_auto_overlap\<close>,
    \<open>port_overtaking\<close>, \<open>us_bad_status_lost\<close>, \<open>close_fails\<close>,
    \<open>link_control_rcb_mismatch\<close>, \<open>alloc_region_overlap\<close>, \<open>us_rcb_status_second\<close> and
    \<open>axi_align_rounds\<close>.

  \<^bold>\<open>Bounds, fuel and parameters.\<close> Recursion that follows pointers in the modelled state has a bound. Enumeration descends at most
  256 levels, as there are 256 bus numbers, and the bound is shown never to be exhausted; capability walks get the
  fuel of the environment (\<open>en_fuel\<close>), as a device may present a cyclic list, on which the code does not end. All other loops are
  total functions; an AXI process that waits for its peer is the value \<open>Unfinished\<close>, and the theorems on AXI show that it is not returned. The network beyond a component (\<open>net\<close>), the logarithm that the driver takes of its ring sizes and \<open>zlib.crc32\<close> are
  parameters.

  \<^bold>\<open>Not modelled.\<close> String forms, logging and the clock and reset generation of the test benches. Of the hard block: status outputs
  that are constants and the issue of interrupts at the pins. Of the network side: the endpoints that drive frames onto signals
  (the source and sink classes, and \<open>xgmii_ep.py\<close>, \<open>gmii_ep.py\<close>, \<open>mii_ep.py\<close>, \<open>rgmii_ep.py\<close>, \<open>baser_serdes_ep.py\<close>, \<open>ptp.py\<close>), which belong
  to the MAC and PHY test benches and not to the NIC's data path. \<open>pcie_if.py\<close>, the AXI-lite, AXI stream and DMA RAM endpoints (\<open>axil.py\<close>, \<open>axis_ep.py\<close>,
  \<open>dma_ram.py\<close>, \<open>dma_psdp_ram.py\<close>) and \<open>ll_ep.py\<close>, further bus models of the same kind that the driver and the PCIe model
  do not call. The scripts that generate Verilog wrappers, the test benches themselves, the Verilog sources, the kernel driver
  and the Rust library operating system are other programs.
\<close>

end
